(* ===== verification/Prelude.thy ===== *)
theory Prelude
  imports Main "HOL-Library.Word" "HOL-Library.Sublist" "HOL-Library.Char_ord"
    "HOL-Library.List_Lexorder" "HOL-Library.Product_Lexorder" "HOL-Library.Code_Target_Nat"
begin

text \<open>
  Shared vocabulary of the ComputeHop development: Go error values and fallible results,
  instants, and the generic facts on lists and keyed tables that the component theories use.

  \<^item> A Go \<open>error\<close> is the list of the sentinel values it wraps, outermost first:
    \<open>fmt.Errorf("%w: %w", ErrInvalidJob, err)\<close> is \<open>Job_ErrInvalidJob # err\<close>, and
    \<open>errors.Is\<close> is membership. A sentinel is its
    qualified Go name; the rest of a message is not part of the model.
  \<^item> A function returning \<open>(T, error)\<close> is a value of \<open>'t result\<close>: \<open>Inl\<close> the error or
    \<open>Inr\<close> the value. \<open>ebind\<close> is the early return on a non-nil error.
  \<^item> A \<open>time.Time\<close> is the instant it denotes, in nanoseconds since the Unix epoch, as an
    unbounded integer; \<open>UTC()\<close> changes only the presentation and is the identity here.
    \<open>UnixNano\<close> wraps at 64 bits as the Go method does.
  \<^item> An SQL table is the list of its rows; \<open>sql_insert\<close>, \<open>sql_upsert\<close>, \<open>sql_update\<close> and
    \<open>row_with\<close> are the statements the repositories issue on tables with a primary key. A row that
    violates a \<open>CHECK\<close> or the key makes the statement fail with \<open>Sqlite_ErrConstraint\<close> and changes
    nothing. A list comprehension over rows that decodes each one is \<open>collect\<close>.
\<close>

named_theorems result_simps \<open>rewriting of fallible results\<close>
named_theorems table_simps \<open>lookups in keyed tables after an update\<close>

section \<open>Errors and results\<close>

type_synonym sentinel = string

text \<open>The sentinel values, by their qualified Go names.\<close>

abbreviation Job_ErrInvalidState :: sentinel where "Job_ErrInvalidState \<equiv> ''job.ErrInvalidState''"
abbreviation Job_ErrInvalidTransition :: sentinel where "Job_ErrInvalidTransition \<equiv> ''job.ErrInvalidTransition''"
abbreviation Job_ErrInvalidJob :: sentinel where "Job_ErrInvalidJob \<equiv> ''job.ErrInvalidJob''"
abbreviation Job_ErrInvalidFailure :: sentinel where "Job_ErrInvalidFailure \<equiv> ''job.ErrInvalidFailure''"
abbreviation Job_ErrTransitionTime :: sentinel where "Job_ErrTransitionTime \<equiv> ''job.ErrTransitionTime''"
abbreviation Job_ErrFailureUnexpected :: sentinel where "Job_ErrFailureUnexpected \<equiv> ''job.ErrFailureUnexpected''"
abbreviation Job_ErrInvalidSpec :: sentinel where "Job_ErrInvalidSpec \<equiv> ''job.ErrInvalidSpec''"
abbreviation Job_ErrInvalidProgress :: sentinel where "Job_ErrInvalidProgress \<equiv> ''job.ErrInvalidProgress''"
abbreviation Job_ErrInvalidID :: sentinel where "Job_ErrInvalidID \<equiv> ''job.ErrInvalidID''"
abbreviation Job_ErrNotFound :: sentinel where "Job_ErrNotFound \<equiv> ''job.ErrNotFound''"
abbreviation Job_ErrConflict :: sentinel where "Job_ErrConflict \<equiv> ''job.ErrConflict''"
abbreviation Path_ErrUnsafe :: sentinel where "Path_ErrUnsafe \<equiv> ''portablepath.ErrUnsafe''"
abbreviation Execution_ErrInvalidAttempt :: sentinel where "Execution_ErrInvalidAttempt \<equiv> ''execution.ErrInvalidAttempt''"
abbreviation Execution_ErrInvalidCompletion :: sentinel where "Execution_ErrInvalidCompletion \<equiv> ''execution.ErrInvalidCompletion''"
abbreviation Execution_ErrNotFound :: sentinel where "Execution_ErrNotFound \<equiv> ''execution.ErrNotFound''"
abbreviation Execution_ErrNotClaimable :: sentinel where "Execution_ErrNotClaimable \<equiv> ''execution.ErrNotClaimable''"
abbreviation Execution_ErrOwnerMismatch :: sentinel where "Execution_ErrOwnerMismatch \<equiv> ''execution.ErrOwnerMismatch''"
abbreviation Execution_ErrAttemptCompleted :: sentinel where "Execution_ErrAttemptCompleted \<equiv> ''execution.ErrAttemptCompleted''"
abbreviation Sqlite_ErrInvalidListOptions :: sentinel where "Sqlite_ErrInvalidListOptions \<equiv> ''sqlite.ErrInvalidListOptions''"
abbreviation Sqlite_ErrNoRows :: sentinel where "Sqlite_ErrNoRows \<equiv> ''sqlite.ErrNoRows''"
abbreviation Sqlite_ErrConstraint :: sentinel where "Sqlite_ErrConstraint \<equiv> ''sqlite.ErrConstraint''"
abbreviation Sqlite_ErrDecode :: sentinel where "Sqlite_ErrDecode \<equiv> ''sqlite.ErrDecode''"
abbreviation Logging_ErrInvalidRecord :: sentinel where "Logging_ErrInvalidRecord \<equiv> ''logging.ErrInvalidRecord''"
abbreviation Logging_ErrInvalidPage :: sentinel where "Logging_ErrInvalidPage \<equiv> ''logging.ErrInvalidPage''"
abbreviation Logging_ErrNotFound :: sentinel where "Logging_ErrNotFound \<equiv> ''logging.ErrNotFound''"
abbreviation Logging_ErrConflict :: sentinel where "Logging_ErrConflict \<equiv> ''logging.ErrConflict''"
abbreviation Logging_ErrCorrupt :: sentinel where "Logging_ErrCorrupt \<equiv> ''logging.ErrCorrupt''"
abbreviation Snapshot_ErrInvalidDigest :: sentinel where "Snapshot_ErrInvalidDigest \<equiv> ''snapshot.ErrInvalidDigest''"
abbreviation Snapshot_ErrInvalidManifest :: sentinel where "Snapshot_ErrInvalidManifest \<equiv> ''snapshot.ErrInvalidManifest''"
abbreviation Snapshot_ErrUnsafePath :: sentinel where "Snapshot_ErrUnsafePath \<equiv> ''snapshot.ErrUnsafePath''"
abbreviation Transfer_ErrInvalidChunk :: sentinel where "Transfer_ErrInvalidChunk \<equiv> ''transfer.ErrInvalidChunk''"
abbreviation Transfer_ErrUnsupportedEncoding :: sentinel where "Transfer_ErrUnsupportedEncoding \<equiv> ''transfer.ErrUnsupportedEncoding''"
abbreviation Transfer_ErrCodec :: sentinel where "Transfer_ErrCodec \<equiv> ''transfer.ErrCodec''"
abbreviation Cache_ErrInvalidEntry :: sentinel where "Cache_ErrInvalidEntry \<equiv> ''contentcache.ErrInvalidEntry''"
abbreviation Cache_ErrInvalidQuota :: sentinel where "Cache_ErrInvalidQuota \<equiv> ''contentcache.ErrInvalidQuota''"
abbreviation Cache_ErrQuotaExceeded :: sentinel where "Cache_ErrQuotaExceeded \<equiv> ''contentcache.ErrQuotaExceeded''"
abbreviation Cache_ErrReservationLimit :: sentinel where "Cache_ErrReservationLimit \<equiv> ''contentcache.ErrReservationLimit''"
abbreviation Cas_ErrInvalidStore :: sentinel where "Cas_ErrInvalidStore \<equiv> ''cas.ErrInvalidStore''"
abbreviation Cas_ErrNotFound :: sentinel where "Cas_ErrNotFound \<equiv> ''cas.ErrNotFound''"
abbreviation Cas_ErrCorrupt :: sentinel where "Cas_ErrCorrupt \<equiv> ''cas.ErrCorrupt''"
abbreviation Device_ErrInvalidID :: sentinel where "Device_ErrInvalidID \<equiv> ''device.ErrInvalidID''"
abbreviation Device_ErrInvalidAnnouncement :: sentinel where "Device_ErrInvalidAnnouncement \<equiv> ''device.ErrInvalidAnnouncement''"
abbreviation Placement_ErrInvalid :: sentinel where "Placement_ErrInvalid \<equiv> ''placement.ErrInvalid''"
abbreviation Placement_ErrNotFound :: sentinel where "Placement_ErrNotFound \<equiv> ''placement.ErrNotFound''"
abbreviation Placement_ErrConflict :: sentinel where "Placement_ErrConflict \<equiv> ''placement.ErrConflict''"
abbreviation Trust_ErrInvalidPairID :: sentinel where "Trust_ErrInvalidPairID \<equiv> ''trust.ErrInvalidPairID''"
abbreviation Trust_ErrInvalidPeer :: sentinel where "Trust_ErrInvalidPeer \<equiv> ''trust.ErrInvalidPeer''"
abbreviation Trust_ErrInvalidHints :: sentinel where "Trust_ErrInvalidHints \<equiv> ''trust.ErrInvalidHints''"
abbreviation Trust_ErrNotFound :: sentinel where "Trust_ErrNotFound \<equiv> ''trust.ErrNotFound''"
abbreviation Trust_ErrConflict :: sentinel where "Trust_ErrConflict \<equiv> ''trust.ErrConflict''"
abbreviation Trust_ErrInvalidPairing :: sentinel where "Trust_ErrInvalidPairing \<equiv> ''trust.ErrInvalidPairing''"
abbreviation Trust_ErrPairingNotFound :: sentinel where "Trust_ErrPairingNotFound \<equiv> ''trust.ErrPairingNotFound''"
abbreviation Trust_ErrPairingUnavailable :: sentinel where "Trust_ErrPairingUnavailable \<equiv> ''trust.ErrPairingUnavailable''"
abbreviation Worker_ErrJobTerminal :: sentinel where "Worker_ErrJobTerminal \<equiv> ''worker.ErrJobTerminal''"
abbreviation Worker_ErrMissingDependency :: sentinel where "Worker_ErrMissingDependency \<equiv> ''worker.ErrMissingDependency''"
abbreviation Worker_ErrSnapshotsDisabled :: sentinel where "Worker_ErrSnapshotsDisabled \<equiv> ''worker.ErrSnapshotsDisabled''"
abbreviation Worker_ErrSnapshotIncomplete :: sentinel where "Worker_ErrSnapshotIncomplete \<equiv> ''worker.ErrSnapshotIncomplete''"
abbreviation Worker_ErrArtifactsDisabled :: sentinel where "Worker_ErrArtifactsDisabled \<equiv> ''worker.ErrArtifactsDisabled''"
abbreviation Worker_ErrArtifactsNotReady :: sentinel where "Worker_ErrArtifactsNotReady \<equiv> ''worker.ErrArtifactsNotReady''"

type_synonym byte = "8 word"
type_synonym goerror = "sentinel list"
type_synonym 'a result = "goerror + 'a"

definition errors_is :: "goerror \<Rightarrow> sentinel \<Rightarrow> bool" where
  "errors_is e s \<longleftrightarrow> s \<in> set e"

definition ebind :: "'a result \<Rightarrow> ('a \<Rightarrow> 'b result) \<Rightarrow> 'b result" where
  "ebind m f = (case m of Inl e \<Rightarrow> Inl e | Inr x \<Rightarrow> f x)"

text \<open>\<open>if errors.Is(err, from) { return to }; if err != nil { return err }\<close>\<close>

definition remap :: "sentinel \<Rightarrow> sentinel \<Rightarrow> 'a result \<Rightarrow> 'a result" where
  "remap from to r =
    (case r of Inl e \<Rightarrow> if errors_is e from then Inl [to] else Inl e | Inr x \<Rightarrow> Inr x)"

definition is_ok :: "'a result \<Rightarrow> bool" where
  "is_ok r = (case r of Inl _ \<Rightarrow> False | Inr _ \<Rightarrow> True)"

lemma ebind_simps [simp]:
  "ebind (Inl e) f = Inl e"
  "ebind (Inr x) f = f x"
  by (simp_all add: ebind_def)

lemma ebind_Inr_iff [result_simps]: "ebind m f = Inr y \<longleftrightarrow> (\<exists>x. m = Inr x \<and> f x = Inr y)"
  by (cases m) auto

lemma ebind_Inl_iff [result_simps]:
  "ebind m f = Inl e \<longleftrightarrow> m = Inl e \<or> (\<exists>x. m = Inr x \<and> f x = Inl e)"
  by (cases m) auto

lemma remap_Inr [simp]: "remap from to (Inr x) = Inr x"
  by (simp add: remap_def)

lemma remap_Inr_iff [simp]: "remap from to r = Inr x \<longleftrightarrow> r = Inr x"
  by (cases r) (simp_all add: remap_def)

lemma ebind_assoc: "ebind (ebind m f) g = ebind m (\<lambda>x. ebind (f x) g)"
  by (cases m) auto

lemma is_ok_simps [simp]: "is_ok (Inr x)" "\<not> is_ok (Inl e)"
  by (simp_all add: is_ok_def)

lemma is_ok_unit_iff: "is_ok r \<longleftrightarrow> r = Inr ()" for r :: "unit result"
  by (cases r) auto

lemma is_ok_iff: "is_ok r \<longleftrightarrow> (\<exists>x. r = Inr x)"
  by (cases r) auto

lemma not_is_ok_iff: "\<not> is_ok r \<longleftrightarrow> (\<exists>e. r = Inl e)"
  by (cases r) auto

lemma is_ok_if [simp]: "is_ok (if b then Inl e else r) \<longleftrightarrow> \<not> b \<and> is_ok r"
  by simp

lemma errors_is_simps [simp]:
  "\<not> errors_is [] s"
  "errors_is (t # e) s \<longleftrightarrow> s = t \<or> errors_is e s"
  by (auto simp: errors_is_def)

section \<open>Instants\<close>

type_synonym time = int

definition zero_time :: time where
  "zero_time = - 62135596800000000000"

definition IsZero :: "time \<Rightarrow> bool" where
  "IsZero t \<longleftrightarrow> t = zero_time"

definition UnixNano :: "time \<Rightarrow> int" where
  "UnixNano t = signed_take_bit 63 t"

definition nano_ok :: "time \<Rightarrow> bool" where
  "nano_ok t \<longleftrightarrow> - (2 ^ 63) \<le> t \<and> t < 2 ^ 63"

lemma UnixNano_id [simp]: "nano_ok t \<Longrightarrow> UnixNano t = t"
  by (simp add: nano_ok_def UnixNano_def signed_take_bit_int_eq_self)

lemma nano_ok_UnixNano [simp]: "nano_ok (UnixNano t)"
  using signed_take_bit_int_greater_eq_minus_exp [of 63 t] signed_take_bit_int_less_exp [of 63 t]
  by (simp add: nano_ok_def UnixNano_def)

lemma nano_ok_not_zero [simp]: "nano_ok t \<Longrightarrow> \<not> IsZero t"
  by (auto simp: nano_ok_def IsZero_def zero_time_def)

lemma nano_ok_mono: "nano_ok a \<Longrightarrow> nano_ok c \<Longrightarrow> a \<le> b \<Longrightarrow> b \<le> c \<Longrightarrow> nano_ok b"
  by (simp add: nano_ok_def)

section \<open>Keyed tables\<close>

text \<open>
  A table with primary key \<open>k\<close>: \<open>row_with k x rows\<close> is \<open>SELECT ... WHERE k = x\<close>,
  \<open>update_where p f rows\<close> is \<open>UPDATE ... SET f WHERE p\<close>, \<open>affected p rows\<close> its number of
  affected rows.
\<close>

definition row_with :: "('r \<Rightarrow> 'k) \<Rightarrow> 'k \<Rightarrow> 'r list \<Rightarrow> 'r option" where
  "row_with k x rows = find (\<lambda>r. k r = x) rows"

definition update_where :: "('r \<Rightarrow> bool) \<Rightarrow> ('r \<Rightarrow> 'r) \<Rightarrow> 'r list \<Rightarrow> 'r list" where
  "update_where p f rows = map (\<lambda>r. if p r then f r else r) rows"

definition affected :: "('r \<Rightarrow> bool) \<Rightarrow> 'r list \<Rightarrow> nat" where
  "affected p rows = length (filter p rows)"

definition keyed :: "('r \<Rightarrow> 'k) \<Rightarrow> 'r list \<Rightarrow> bool" where
  "keyed k rows \<longleftrightarrow> distinct (map k rows)"

lemma row_with_simps [simp]:
  "row_with k x [] = None"
  "row_with k x (r # rows) = (if k r = x then Some r else row_with k x rows)"
  by (simp_all add: row_with_def)

lemma row_with_SomeD: "row_with k x rows = Some r \<Longrightarrow> r \<in> set rows \<and> k r = x"
  by (induction rows) (auto split: if_splits)

lemma row_with_None_iff: "row_with k x rows = None \<longleftrightarrow> x \<notin> k ` set rows"
  by (induction rows) auto

lemma row_with_append: "row_with k x (xs @ ys) =
    (case row_with k x xs of None \<Rightarrow> row_with k x ys | Some r \<Rightarrow> Some r)"
  by (induction xs) auto

lemma row_with_mem: "keyed k rows \<Longrightarrow> r \<in> set rows \<Longrightarrow> row_with k (k r) rows = Some r"
  by (induction rows) (auto simp: keyed_def)

lemma row_with_Some_iff:
  "keyed k rows \<Longrightarrow> row_with k x rows = Some r \<longleftrightarrow> r \<in> set rows \<and> k r = x"
  by (auto simp: row_with_mem dest: row_with_SomeD)

lemma row_with_snoc [table_simps]:
  "row_with k y rows = None \<Longrightarrow>
   row_with k x (rows @ [r]) = (if k r = x \<and> row_with k x rows = None then Some r else row_with k x rows)"
  by (auto simp: row_with_append split: option.split)

lemma keyed_Nil [simp]: "keyed k []"
  by (simp add: keyed_def)

lemma keyed_snoc: "keyed k (rows @ [r]) \<longleftrightarrow> keyed k rows \<and> row_with k (k r) rows = None"
  by (auto simp: keyed_def row_with_None_iff)

lemma row_with_update_where [table_simps]:
  assumes "\<And>r. k (f r) = k r"
  shows "row_with k x (update_where p f rows) =
    map_option (\<lambda>r. if p r then f r else r) (row_with k x rows)"
  by (induction rows) (auto simp: update_where_def assms)

lemma keyed_update_where:
  assumes "\<And>r. k (f r) = k r"
  shows "keyed k (update_where p f rows) = keyed k rows"
proof -
  have "map k (update_where p f rows) = map k rows"
    by (simp add: update_where_def assms)
  then show ?thesis by (simp add: keyed_def)
qed

lemma set_update_where: "set (update_where p f rows) = (\<lambda>r. if p r then f r else r) ` set rows"
  by (simp add: update_where_def)

lemma filter_key_none: "row_with k x rows = None \<Longrightarrow> filter (\<lambda>s. k s = x) rows = []"
  by (induction rows) (simp_all split: if_splits)

lemma filter_key_some:
  "keyed k rows \<Longrightarrow> row_with k x rows = Some r \<Longrightarrow> filter (\<lambda>s. k s = x) rows = [r]"
proof (induction rows)
  case (Cons s rows)
  show ?case
  proof (cases "k s = x")
    case True
    with Cons.prems have "row_with k x rows = None"
      by (simp add: keyed_def row_with_None_iff)
    with True Cons.prems show ?thesis by (simp add: filter_key_none)
  next
    case False
    with Cons show ?thesis by (simp add: keyed_def)
  qed
qed simp

lemma affected_conj: "affected (\<lambda>s. q s \<and> p s) rows = length (filter p (filter q rows))"
  by (simp add: affected_def conj_commute)

lemma affected_key:
  "keyed k rows \<Longrightarrow> row_with k x rows = Some r \<Longrightarrow>
   affected (\<lambda>s. k s = x \<and> p s) rows = (if p r then 1 else 0)"
  by (simp add: affected_conj filter_key_some)

lemma affected_key_none: "row_with k x rows = None \<Longrightarrow> affected (\<lambda>s. k s = x \<and> p s) rows = 0"
  by (simp add: affected_conj filter_key_none)

section \<open>Statements\<close>

definition sql_insert :: "('r \<Rightarrow> bool) \<Rightarrow> ('r \<Rightarrow> 'k) \<Rightarrow> 'r \<Rightarrow> 'r list \<Rightarrow> 'r list result" where
  "sql_insert check k row rows =
    (if \<not> check row \<or> row_with k (k row) rows \<noteq> None then Inl [Sqlite_ErrConstraint]
     else Inr (rows @ [row]))"

definition sql_upsert :: "('r \<Rightarrow> bool) \<Rightarrow> ('r \<Rightarrow> 'k) \<Rightarrow> 'r \<Rightarrow> 'r list \<Rightarrow> 'r list result" where
  "sql_upsert check k row rows =
    (if \<not> check row then Inl [Sqlite_ErrConstraint]
     else if row_with k (k row) rows = None then Inr (rows @ [row])
     else Inr (update_where (\<lambda>r. k r = k row) (\<lambda>_. row) rows))"

definition sql_update ::
    "('r \<Rightarrow> bool) \<Rightarrow> ('r \<Rightarrow> bool) \<Rightarrow> ('r \<Rightarrow> 'r) \<Rightarrow> 'r list \<Rightarrow> ('r list \<times> nat) result" where
  "sql_update check p f rows =
    (if list_ex (\<lambda>r. p r \<and> \<not> check (f r)) rows then Inl [Sqlite_ErrConstraint]
     else Inr (update_where p f rows, affected p rows))"

fun collect :: "('a \<Rightarrow> 'b result) \<Rightarrow> 'a list \<Rightarrow> 'b list result" where
  "collect f [] = Inr []"
| "collect f (x # xs) = ebind (f x) (\<lambda>y. ebind (collect f xs) (\<lambda>ys. Inr (y # ys)))"

lemma collect_Inr_iff: "collect f xs = Inr ys \<longleftrightarrow> list_all2 (\<lambda>x y. f x = Inr y) xs ys"
  by (induction xs arbitrary: ys) (auto simp: result_simps list_all2_Cons1)

lemma collect_total: "(\<And>x. x \<in> set xs \<Longrightarrow> f x = Inr (g x)) \<Longrightarrow> collect f xs = Inr (map g xs)"
  by (induction xs) auto

lemma sql_insert_Inr_iff: "sql_insert check k row rows = Inr rows' \<longleftrightarrow>
    check row \<and> row_with k (k row) rows = None \<and> rows' = rows @ [row]"
  by (auto simp: sql_insert_def)

lemma sql_update_Inr_iff: "sql_update check p f rows = Inr (rows', n) \<longleftrightarrow>
    list_all (\<lambda>r. p r \<longrightarrow> check (f r)) rows \<and> rows' = update_where p f rows \<and> n = affected p rows"
  by (auto simp: sql_update_def list_ex_iff list_all_iff)

text \<open>Updating the one row of a key, under a further condition on it.\<close>

lemma sql_update_key:
  assumes "keyed k rows" "row_with k x rows = Some r" "p r" "check (f r)"
  shows "sql_update check (\<lambda>s. k s = x \<and> p s) f rows =
    Inr (update_where (\<lambda>s. k s = x \<and> p s) f rows, 1)"
proof -
  have "s = r" if "s \<in> set rows" "k s = x" for s
    using assms(1,2) that row_with_mem [of k rows s] by simp
  then show ?thesis
    using assms by (auto simp: sql_update_def list_ex_iff affected_key)
qed

lemma sql_upsert_keyed:
  assumes "keyed k rows" "sql_upsert check k row rows = Inr rows'"
  shows "keyed k rows' \<and> row_with k x rows' = (if x = k row then Some row else row_with k x rows)"
proof (cases "row_with k (k row) rows")
  case None
  then have "rows' = rows @ [row]" using assms(2) by (auto simp: sql_upsert_def split: if_splits)
  then show ?thesis using assms(1) None by (auto simp: keyed_snoc row_with_append split: option.split)
next
  case (Some r)
  then have r: "rows' = update_where (\<lambda>r. k r = k row) (\<lambda>_. row) rows"
    using assms(2) by (auto simp: sql_upsert_def split: if_splits)
  have m: "map k rows' = map k rows" unfolding r by (simp add: update_where_def)
  have "row_with k x (update_where (\<lambda>r. k r = k row) (\<lambda>_. row) rows) =
      map_option (\<lambda>r. if k r = k row then row else r) (row_with k x rows)" for x
    by (induction rows) (auto simp: update_where_def)
  moreover have "map_option (\<lambda>r. if k r = k row then row else r) (row_with k x rows) = row_with k x rows"
    if "x \<noteq> k row"
    using that by (cases "row_with k x rows") (auto dest: row_with_SomeD)
  ultimately show ?thesis
    using assms(1) m Some r by (auto simp: keyed_def dest: row_with_SomeD)
qed

end
