(* ===== verification/GoStrings.thy ===== *)
theory GoStrings
  imports Prelude
begin

text \<open>
  The part of the Go standard library that the repository's string handling uses, on strings as
  sequences of bytes: \<open>strings.Split\<close>, \<open>strings.TrimSpace\<close>, \<open>strings.ToLower\<close> and
  \<open>strings.ToUpper\<close>, \<open>strings.ContainsAny\<close>, \<open>unicode/utf8\<close> decoding and validity,
  \<open>encoding/hex\<close>, and \<open>path.Clean\<close> and \<open>path.Dir\<close>.

  The Unicode case tables (the mapping of runes beyond ASCII) are the parameter
  \<^verbatim>\<open>casing\<close>; ASCII is mapped as written here. Everything else is computed.
\<close>

section \<open>Bytes and runes\<close>

abbreviation byte_of :: "char \<Rightarrow> nat" where
  "byte_of c \<equiv> of_char c"

lemma byte_of_less [simp]: "byte_of c < 256"
  by simp

definition cont :: "nat \<Rightarrow> bool" where
  "cont b \<longleftrightarrow> 0x80 \<le> b \<and> b \<le> 0xBF"

text \<open>
  \<open>decode_rune\<close> is \<open>utf8.DecodeRuneInString\<close> on a non-empty string: the rune and the number of
  continuation bytes, or \<open>None\<close> for an invalid encoding (width one, \<open>RuneError\<close>).
\<close>

definition decode_rune :: "nat \<Rightarrow> nat list \<Rightarrow> (nat \<times> nat) option" where
  "decode_rune b0 bs =
    (if b0 < 0x80 then Some (b0, 0)
     else if 0xC2 \<le> b0 \<and> b0 \<le> 0xDF then
       (case bs of b1 # _ \<Rightarrow>
          if cont b1 then Some ((b0 - 0xC0) * 64 + (b1 - 0x80), 1) else None
        | _ \<Rightarrow> None)
     else if 0xE0 \<le> b0 \<and> b0 \<le> 0xEF then
       (case bs of b1 # b2 # _ \<Rightarrow>
          if cont b1 \<and> cont b2 \<and> (b0 = 0xE0 \<longrightarrow> 0xA0 \<le> b1) \<and> (b0 = 0xED \<longrightarrow> b1 \<le> 0x9F)
          then Some ((b0 - 0xE0) * 4096 + (b1 - 0x80) * 64 + (b2 - 0x80), 2) else None
        | _ \<Rightarrow> None)
     else if 0xF0 \<le> b0 \<and> b0 \<le> 0xF4 then
       (case bs of b1 # b2 # b3 # _ \<Rightarrow>
          if cont b1 \<and> cont b2 \<and> cont b3 \<and> (b0 = 0xF0 \<longrightarrow> 0x90 \<le> b1) \<and> (b0 = 0xF4 \<longrightarrow> b1 \<le> 0x8F)
          then Some ((b0 - 0xF0) * 262144 + (b1 - 0x80) * 4096 + (b2 - 0x80) * 64 + (b3 - 0x80), 3)
          else None
        | _ \<Rightarrow> None)
     else None)"

text \<open>\<open>runes\<close> is \<open>for _, r := range s\<close>: each rune with the bytes it occupies.\<close>

fun runes :: "string \<Rightarrow> (nat option \<times> string) list" where
  "runes [] = []"
| "runes (c # cs) =
    (case decode_rune (byte_of c) (map byte_of cs) of
       None \<Rightarrow> (None, [c]) # runes cs
     | Some (r, n) \<Rightarrow> (Some r, c # take n cs) # runes (drop n cs))"

definition rune_value :: "nat option \<Rightarrow> nat" where
  "rune_value r = (case r of None \<Rightarrow> 0xFFFD | Some v \<Rightarrow> v)"

definition ValidString :: "string \<Rightarrow> bool" where
  "ValidString s \<longleftrightarrow> list_all (\<lambda>(r, _). r \<noteq> None) (runes s)"

definition IsSpace :: "nat \<Rightarrow> bool" where
  "IsSpace r \<longleftrightarrow> r \<in> set [0x09, 0x0A, 0x0B, 0x0C, 0x0D, 0x20, 0x85, 0xA0, 0x1680, 0x2028, 0x2029,
     0x202F, 0x205F, 0x3000] \<or> (0x2000 \<le> r \<and> r \<le> 0x200A)"

definition IsControl :: "nat \<Rightarrow> bool" where
  "IsControl r \<longleftrightarrow> r \<le> 0x1F \<or> (0x7F \<le> r \<and> r \<le> 0x9F)"

definition TrimSpace :: "string \<Rightarrow> string" where
  "TrimSpace s =
    (let sp = (\<lambda>(r, _). case r of None \<Rightarrow> False | Some v \<Rightarrow> IsSpace v)
     in concat (map snd (rev (dropWhile sp (rev (dropWhile sp (runes s)))))))"

definition encode_rune :: "nat \<Rightarrow> string" where
  "encode_rune r = map char_of
    (if r < 0x80 then [r]
     else if r < 0x800 then [0xC0 + r div 64, 0x80 + r mod 64]
     else if 0x10FFFF < r \<or> (0xD800 \<le> r \<and> r \<le> 0xDFFF) then [0xEF, 0xBF, 0xBD]
     else if r < 0x10000 then [0xE0 + r div 4096, 0x80 + r div 64 mod 64, 0x80 + r mod 64]
     else [0xF0 + r div 262144, 0x80 + r div 4096 mod 64, 0x80 + r div 64 mod 64, 0x80 + r mod 64])"

section \<open>Case mapping\<close>

record casing =
  rune_lower :: "nat \<Rightarrow> nat"
  rune_upper :: "nat \<Rightarrow> nat"

text \<open>Case tables without letters beyond ASCII.\<close>

definition ascii_casing :: casing where
  "ascii_casing = \<lparr>rune_lower = id, rune_upper = id\<rparr>"

definition ascii :: "string \<Rightarrow> bool" where
  "ascii s \<longleftrightarrow> list_all (\<lambda>c. byte_of c < 0x80) s"

definition lower_byte :: "nat \<Rightarrow> nat" where
  "lower_byte b = (if 65 \<le> b \<and> b \<le> 90 then b + 32 else b)"

definition upper_byte :: "nat \<Rightarrow> nat" where
  "upper_byte b = (if 97 \<le> b \<and> b \<le> 122 then b - 32 else b)"

definition ascii_lower :: "char \<Rightarrow> char" where
  "ascii_lower c = char_of (lower_byte (byte_of c))"

definition ascii_upper :: "char \<Rightarrow> char" where
  "ascii_upper c = char_of (upper_byte (byte_of c))"

definition ToLower :: "casing \<Rightarrow> string \<Rightarrow> string" where
  "ToLower U s =
    (if ascii s then map ascii_lower s
     else concat (map (\<lambda>(r, _). let v = rune_value r in
        encode_rune (if v < 0x80 then lower_byte v else rune_lower U v)) (runes s)))"

definition ToUpper :: "casing \<Rightarrow> string \<Rightarrow> string" where
  "ToUpper U s =
    (if ascii s then map ascii_upper s
     else concat (map (\<lambda>(r, _). let v = rune_value r in
        encode_rune (if v < 0x80 then upper_byte v else rune_upper U v)) (runes s)))"

section \<open>Searching and splitting\<close>

definition ContainsAny :: "string \<Rightarrow> char list \<Rightarrow> bool" where
  "ContainsAny s cs \<longleftrightarrow> list_ex (\<lambda>c. c \<in> set cs) s"

text \<open>\<open>strings.Split(s, sep)\<close> for a one-byte separator: always at least one segment.\<close>

fun Split :: "char \<Rightarrow> string \<Rightarrow> string list" where
  "Split sep [] = [[]]"
| "Split sep (c # s) =
    (if c = sep then [] # Split sep s
     else (case Split sep s of [] \<Rightarrow> [[c]] | seg # segs \<Rightarrow> (c # seg) # segs))"

fun Join :: "char \<Rightarrow> string list \<Rightarrow> string" where
  "Join sep [] = []"
| "Join sep [x] = x"
| "Join sep (x # xs) = x @ sep # Join sep xs"

definition RemoveAll :: "char \<Rightarrow> string \<Rightarrow> string" where
  "RemoveAll c s = filter (\<lambda>d. d \<noteq> c) s"

section \<open>Hexadecimal\<close>

definition hex_digit :: "nat \<Rightarrow> char" where
  "hex_digit n = (if n < 10 then char_of (48 + n) else char_of (87 + n))"

definition hex_value :: "char \<Rightarrow> nat option" where
  "hex_value c =
    (let b = byte_of c in
     if 48 \<le> b \<and> b \<le> 57 then Some (b - 48)
     else if 97 \<le> b \<and> b \<le> 102 then Some (b - 87)
     else if 65 \<le> b \<and> b \<le> 70 then Some (b - 55)
     else None)"

definition hex_byte :: "8 word \<Rightarrow> string" where
  "hex_byte b = [hex_digit (unat b div 16), hex_digit (unat b mod 16)]"

definition hex_encode :: "8 word list \<Rightarrow> string" where
  "hex_encode bs = concat (map hex_byte bs)"

fun hex_decode :: "string \<Rightarrow> 8 word list option" where
  "hex_decode [] = Some []"
| "hex_decode [c] = None"
| "hex_decode (c # d # s) =
    (case (hex_value c, hex_value d, hex_decode s) of
       (Some h, Some l, Some bs) \<Rightarrow> Some (of_nat (16 * h + l) # bs)
     | _ \<Rightarrow> None)"

section \<open>Slash-separated paths\<close>

text \<open>
  \<open>path.Clean\<close>: drop empty and \<open>.\<close> elements, let \<open>..\<close> remove the element before it, keep
  leading \<open>..\<close> elements of a relative path and drop those of a rooted one.
\<close>

fun clean_segs :: "bool \<Rightarrow> string list \<Rightarrow> string list \<Rightarrow> string list" where
  "clean_segs rooted [] out = rev out"
| "clean_segs rooted (s # ss) out =
    (if s = [] \<or> s = ''.'' then clean_segs rooted ss out
     else if s = ''..'' then
       (case out of
          [] \<Rightarrow> clean_segs rooted ss (if rooted then [] else [s])
        | t # ts \<Rightarrow> if t = ''..'' then clean_segs rooted ss (s # out) else clean_segs rooted ss ts)
     else clean_segs rooted ss (s # out))"

definition path_Clean :: "string \<Rightarrow> string" where
  "path_Clean p =
    (let rooted = prefix ''/'' p; segs = clean_segs rooted (Split CHR ''/'' p) []
     in if rooted then CHR ''/'' # Join CHR ''/'' segs
        else if segs = [] then ''.'' else Join CHR ''/'' segs)"

text \<open>\<open>path.Dir\<close>: everything up to the last slash, cleaned.\<close>

definition path_Dir :: "string \<Rightarrow> string" where
  "path_Dir p =
    (let segs = Split CHR ''/'' p in
     path_Clean (concat (map (\<lambda>s. s @ ''/'') (butlast segs))))"

section \<open>Facts\<close>

lemma Split_nonempty [simp]: "Split sep s \<noteq> []"
  by (cases s) (auto split: list.splits)

lemma Join_Cons: "xs \<noteq> [] \<Longrightarrow> Join sep (x # xs) = x @ sep # Join sep xs"
  by (cases xs) auto

lemma Join_Split [simp]: "Join sep (Split sep s) = s"
proof (induction s)
  case (Cons c s)
  obtain seg segs where split: "Split sep s = seg # segs"
    by (cases "Split sep s") auto
  show ?case
  proof (cases "c = sep")
    case True
    then show ?thesis using Cons by (simp add: Join_Cons)
  next
    case False
    then show ?thesis using Cons split by (cases segs) auto
  qed
qed simp

lemma Split_no_sep: "seg \<in> set (Split sep s) \<Longrightarrow> sep \<notin> set seg"
proof (induction s arbitrary: seg)
  case (Cons c s)
  then show ?case by (auto split: if_splits list.splits)
qed simp

lemma Split_append_sep: "sep \<notin> set x \<Longrightarrow> Split sep (x @ sep # s) = x # Split sep s"
  by (induction x) auto

lemma Split_single: "sep \<notin> set x \<Longrightarrow> Split sep x = [x]"
  by (induction x) auto

lemma Split_Join: "xs \<noteq> [] \<Longrightarrow> (\<And>x. x \<in> set xs \<Longrightarrow> sep \<notin> set x) \<Longrightarrow> Split sep (Join sep xs) = xs"
proof (induction xs)
  case (Cons x xs)
  then show ?case by (cases "xs = []") (auto simp: Split_single Join_Cons Split_append_sep)
qed simp

lemma Split_inject: "Split sep s = Split sep t \<Longrightarrow> s = t"
  by (rule Join_Split [of sep s, THEN sym, THEN trans]) (simp only: Join_Split)

lemma hd_Split_rooted: "prefix [sep] s \<Longrightarrow> hd (Split sep s) = []"
  by (cases s) simp_all

definition plain_seg :: "string \<Rightarrow> bool" where
  "plain_seg s \<longleftrightarrow> s \<noteq> [] \<and> s \<noteq> ''.'' \<and> s \<noteq> ''..''"

lemma clean_segs_plain: "list_all plain_seg ss \<Longrightarrow> clean_segs b ss out = rev out @ ss"
proof (induction ss arbitrary: out)
  case (Cons s ss)
  then have "clean_segs b (s # ss) out = clean_segs b ss (s # out)"
    by (simp only: clean_segs.simps plain_seg_def list.pred_inject if_False simp_thms)
  with Cons show ?case by simp
qed simp

lemma hex_value_digit [simp]: "n < 16 \<Longrightarrow> hex_value (hex_digit n) = Some n"
  by (auto simp: hex_value_def hex_digit_def Let_def)

lemma hex_decode_encode [simp]: "hex_decode (hex_encode bs) = Some bs"
proof (induction bs)
  case (Cons b bs)
  have "unat b < 256" using unsigned_less [of b, where 'a = nat] by simp
  then have "unat b div 16 < 16" "unat b mod 16 < 16" by auto
  moreover have "of_nat (16 * (unat b div 16) + unat b mod 16) = b" by simp
  ultimately show ?case using Cons by (simp add: hex_encode_def hex_byte_def)
qed (simp add: hex_encode_def)

lemma length_hex_encode [simp]: "length (hex_encode bs) = 2 * length bs"
  by (induction bs) (simp_all add: hex_encode_def hex_byte_def)

lemma hex_decode_length: "hex_decode s = Some bs \<Longrightarrow> length s = 2 * length bs"
  by (induction s arbitrary: bs rule: hex_decode.induct) (auto split: option.splits)

lemma hex_encode_append: "hex_encode (xs @ ys) = hex_encode xs @ hex_encode ys"
  by (simp add: hex_encode_def)

lemma ascii_ToLower [simp]: "ascii s \<Longrightarrow> ToLower U s = map ascii_lower s"
  by (simp add: ToLower_def)

lemma ascii_ToUpper [simp]: "ascii s \<Longrightarrow> ToUpper U s = map ascii_upper s"
  by (simp add: ToUpper_def)

lemma runes_bytes [simp]: "concat (map snd (runes s)) = s"
  by (induction s rule: runes.induct) (auto split: option.splits)

lemma runes_ascii: "ascii s \<Longrightarrow> runes s = map (\<lambda>c. (Some (byte_of c), [c])) s"
  by (induction s) (auto simp: ascii_def decode_rune_def)

lemma runes_cover: "c \<in> set s \<Longrightarrow> \<exists>(r, bs)\<in>set (runes s). c \<in> set bs"
proof (induction s rule: runes.induct)
  case (2 d cs)
  show ?case
  proof (cases "decode_rune (byte_of d) (map byte_of cs)")
    case None
    then show ?thesis using 2(1,3) by auto
  next
    case (Some p)
    obtain v n where p: "p = (v, n)" by (cases p)
    have "c = d \<or> c \<in> set (take n cs) \<or> c \<in> set (drop n cs)"
      using 2(3) by (metis append_take_drop_id in_set_conv_decomp set_ConsD Un_iff set_append)
    then show ?thesis using 2(2) [OF Some p [symmetric]] Some p by auto
  qed
qed simp

lemma runes_inside: "(r, bs) \<in> set (runes s) \<Longrightarrow> set bs \<subseteq> set s"
  using runes_bytes [of s] by (metis (no_types, lifting) UN_upper image_eqI set_concat set_map snd_conv)

text \<open>A slash is a rune of its own, so encoding and case mapping work segment by segment.\<close>

lemma decode_rune_slash:
  "decode_rune b (bs @ 0x2F # cs) = decode_rune b bs \<and> (\<forall>r n. decode_rune b bs = Some (r, n) \<longrightarrow> n \<le> length bs)"
  by (auto simp: decode_rune_def cont_def split: list.splits)

lemma runes_slash: "runes (a @ CHR ''/'' # b) = runes a @ (Some 0x2F, ''/'') # runes b"
proof (induction a rule: runes.induct)
  case (2 c cs)
  note d = decode_rune_slash [of "byte_of c" "map byte_of cs" "map byte_of b"]
  show ?case
  proof (cases "decode_rune (byte_of c) (map byte_of cs)")
    case None
    then show ?thesis using 2(1) d by simp
  next
    case (Some p)
    obtain r n where p: "p = (r, n)" by fastforce
    then have "n \<le> length cs" using d Some by simp
    moreover have "decode_rune (byte_of c) (map byte_of (cs @ CHR ''/'' # b)) = Some (r, n)"
      using d Some p by simp
    moreover have "runes (drop n cs @ CHR ''/'' # b) = runes (drop n cs) @ (Some 0x2F, ''/'') # runes b"
      using 2(2) [OF Some p [symmetric]] .
    ultimately show ?thesis using Some p by simp
  qed
qed (simp add: decode_rune_def)

lemma ValidString_slash [simp]: "ValidString (a @ CHR ''/'' # b) \<longleftrightarrow> ValidString a \<and> ValidString b"
  by (simp add: ValidString_def runes_slash)

lemma decode_rune_below:
  assumes "decode_rune b bs = Some (v, n)" "v < 0x80"
  shows "b = v \<and> n = 0"
proof -
  have "b < 0x80" using assms unfolding decode_rune_def cont_def
    by (cases "b < 0x80"; cases bs; cases "tl bs"; cases "tl (tl bs)") (simp_all split: if_splits, arith+)
  then show ?thesis using assms(1) by (simp add: decode_rune_def)
qed

lemma rune_below: "(Some v, bs) \<in> set (runes s) \<Longrightarrow> v < 0x80 \<Longrightarrow> bs = [char_of v]"
  by (induction s rule: runes.induct) (auto split: option.splits dest: decode_rune_below)

definition rune_ToLower :: "casing \<Rightarrow> nat option \<Rightarrow> string" where
  "rune_ToLower U r = (let v = rune_value r in encode_rune (if v < 0x80 then lower_byte v else rune_lower U v))"

lemma ToLower_runes: "ToLower U s = concat (map (\<lambda>(r, _). rune_ToLower U r) (runes s))"
proof (cases "ascii s")
  case True
  have "concat (map (\<lambda>c. rune_ToLower U (Some (byte_of c))) s) = map ascii_lower s"
    using True by (induction s)
      (auto simp: ascii_def rune_ToLower_def rune_value_def encode_rune_def lower_byte_def ascii_lower_def)
  then show ?thesis using True by (simp add: runes_ascii comp_def)
qed (simp add: ToLower_def rune_ToLower_def)

lemma ToLower_slash [simp]: "ToLower U (a @ CHR ''/'' # b) = ToLower U a @ CHR ''/'' # ToLower U b"
proof -
  have "rune_ToLower U (Some 0x2F) = ''/''"
    by (simp add: rune_ToLower_def rune_value_def lower_byte_def encode_rune_def) code_simp
  then show ?thesis by (simp add: ToLower_runes runes_slash)
qed

text \<open>The case tables send no rune beyond ASCII to a dot or a slash.\<close>

definition keeps_segments :: "casing \<Rightarrow> bool" where
  "keeps_segments U \<longleftrightarrow> (\<forall>v\<ge>0x80. rune_lower U v \<noteq> 0x2E \<and> rune_lower U v \<noteq> 0x2F)"

lemma char_eq_byte: "c = d \<longleftrightarrow> byte_of c = (byte_of d :: nat)"
  by simp

lemma encode_rune_byte:
  assumes "c \<in> set (encode_rune v)" "byte_of c < (0x80 :: nat)"
  shows "v = byte_of c"
  using assms by (auto simp: encode_rune_def split: if_splits)

lemma rune_ToLower_mem:
  assumes U: "keeps_segments U" and r: "(r, bs) \<in> set (runes s)" and c: "c \<in> {CHR ''.'', CHR ''/''}"
    and m: "c \<in> set (rune_ToLower U r)"
  shows "bs = [c]"
proof -
  have b: "byte_of c \<in> {0x2E, 0x2F :: nat}" using c by auto
  then have "(if rune_value r < 0x80 then lower_byte (rune_value r) else rune_lower U (rune_value r)) = byte_of c"
    using m encode_rune_byte [of c] by (fastforce simp: rune_ToLower_def Let_def)
  then have "rune_value r = byte_of c"
    using b U by (auto simp: keeps_segments_def lower_byte_def not_less split: if_splits)
  then show ?thesis using r b rune_below [of "byte_of c" bs s] by (auto simp: rune_value_def split: option.splits)
qed

lemma ToLower_slash_free:
  assumes "keeps_segments U" "CHR ''/'' \<notin> set s"
  shows "CHR ''/'' \<notin> set (ToLower U s)"
proof
  assume "CHR ''/'' \<in> set (ToLower U s)"
  then obtain r bs where r: "(r, bs) \<in> set (runes s)" "CHR ''/'' \<in> set (rune_ToLower U r)"
    by (auto simp: ToLower_runes)
  then have "bs = ''/''" using rune_ToLower_mem [OF assms(1) r(1)] by blast
  then show False using runes_inside [OF r(1)] assms(2) by simp
qed

lemma encode_rune_nonempty [simp]: "encode_rune v \<noteq> []"
  by (simp add: encode_rune_def)

lemma ToLower_dots:
  assumes "keeps_segments U" "set (ToLower U s) \<subseteq> {CHR ''.''}"
  shows "set s \<subseteq> {CHR ''.''}"
proof -
  have "bs = ''.''" if r: "(r, bs) \<in> set (runes s)" for r bs
  proof (rule rune_ToLower_mem [OF assms(1) r])
    have "set (rune_ToLower U r) \<subseteq> {CHR ''.''}" using assms(2) r by (force simp: ToLower_runes)
    moreover have "rune_ToLower U r \<noteq> []" by (simp add: rune_ToLower_def Let_def)
    ultimately show "CHR ''.'' \<in> set (rune_ToLower U r)" by (metis insertE list.set_intros(1) neq_Nil_conv singletonD subsetD)
  qed simp
  then show ?thesis using runes_cover [of _ s] by fastforce
qed

lemma ToLower_nonempty [simp]: "ToLower U s = [] \<longleftrightarrow> s = []"
proof -
  have "runes s = [] \<longleftrightarrow> s = []" by (cases s) (auto split: option.splits)
  moreover have "rune_ToLower U r \<noteq> []" for r by (simp add: rune_ToLower_def Let_def)
  ultimately show ?thesis by (cases "runes s") (auto simp: ToLower_runes)
qed

end
