(* ===== verification/PortablePath.thy ===== *)
theory PortablePath
  imports GoStrings
begin

text \<open>
  \<open>internal/portablepath/path.go\<close>: validation of relative paths that cross operating systems.
  The operations are \<open>Validate\<close>, \<open>Key\<close> and \<open>windowsReservedName\<close>. The lemmas show that an accepted
  path is a list of plain segments, that its resolution below a root directory cannot leave that
  directory, and that acceptance is equivalent to a check of the segments alone.
\<close>

definition MaximumBytes :: nat where
  "MaximumBytes = 4096"

definition windowsReservedName :: "casing \<Rightarrow> string \<Rightarrow> bool" where
  "windowsReservedName U segment =
    (let base = ToUpper U (hd (Split CHR ''.'' segment)) in
     if base = ''CON'' \<or> base = ''PRN'' \<or> base = ''AUX'' \<or> base = ''NUL'' then True
     else if length base = 4 \<and> (prefix ''COM'' base \<or> prefix ''LPT'' base)
     then byte_of (base ! 3) \<ge> 0x31 \<and> byte_of (base ! 3) \<le> 0x39
     else False)"

definition forbidden_chars :: "char list" where
  "forbidden_chars = [CHR 0x5C, CHR 0x00, CHR ''<'', CHR ''>'', CHR '':'', CHR 0x22, CHR ''|'',
     CHR ''?'', CHR ''*'']"

definition unsafe_segment :: "casing \<Rightarrow> string \<Rightarrow> bool" where
  "unsafe_segment U segment \<longleftrightarrow>
    segment = '''' \<or> segment = ''.'' \<or> segment = ''..'' \<or> suffix ''.'' segment \<or> suffix '' '' segment
    \<or> windowsReservedName U segment
    \<or> list_ex (\<lambda>(r, _). rune_value r < 0x20) (runes segment)"

definition Validate_path :: "casing \<Rightarrow> string \<Rightarrow> unit result" where
  "Validate_path U value =
    (if value = '''' \<or> length value > MaximumBytes \<or> \<not> ValidString value \<or>
        ContainsAny value forbidden_chars \<or> prefix ''/'' value \<or>
        path_Clean value \<noteq> value \<or> value = ''.'' \<or> value = ''..'' \<or> prefix ''../'' value
     then Inl [Path_ErrUnsafe]
     else if list_ex (unsafe_segment U) (Split CHR ''/'' value) then Inl [Path_ErrUnsafe]
     else Inr ())"

definition Key :: "casing \<Rightarrow> string \<Rightarrow> string" where
  "Key U value = ToLower U value"

section \<open>Accepted paths\<close>

text \<open>The reference check: bounds, encoding, forbidden bytes and every segment on its own.\<close>

definition portable_ref :: "casing \<Rightarrow> string \<Rightarrow> bool" where
  "portable_ref U value \<longleftrightarrow>
     length value \<le> MaximumBytes \<and> ValidString value \<and> \<not> ContainsAny value forbidden_chars \<and>
     list_all (\<lambda>s. \<not> unsafe_segment U s) (Split CHR ''/'' value)"

lemma safe_segment_plain: "\<not> unsafe_segment U s \<Longrightarrow> plain_seg s"
  by (simp add: unsafe_segment_def plain_seg_def)

lemma safe_segments_plain:
  "list_all (\<lambda>s. \<not> unsafe_segment U s) ss \<Longrightarrow> list_all plain_seg ss"
  by (auto simp: list_all_iff intro: safe_segment_plain)

lemma plain_Split_relative:
  assumes "list_all plain_seg (Split CHR ''/'' v)"
  shows "\<not> prefix ''/'' v"
proof
  assume "prefix ''/'' v"
  then have "hd (Split CHR ''/'' v) = []" by (rule hd_Split_rooted)
  moreover have "plain_seg (hd (Split CHR ''/'' v))"
    using assms by (simp add: list_all_iff)
  ultimately show False by (simp add: plain_seg_def)
qed

lemma path_Clean_plain:
  assumes "list_all plain_seg (Split CHR ''/'' v)"
  shows "path_Clean v = v"
  using plain_Split_relative [OF assms] clean_segs_plain [OF assms, of False "[]"]
  by (simp add: path_Clean_def Let_def)

lemma plain_Split_hd:
  assumes "list_all plain_seg (Split CHR ''/'' v)"
  shows "v \<noteq> ''''" and "v \<noteq> ''.''" and "v \<noteq> ''..''" and "\<not> prefix ''../'' v"
proof -
  have hd: "plain_seg (hd (Split CHR ''/'' v))"
    using assms by (simp add: list_all_iff)
  show "v \<noteq> ''''" "v \<noteq> ''.''" "v \<noteq> ''..''"
    using hd by (auto simp: plain_seg_def)
  show "\<not> prefix ''../'' v"
  proof
    assume "prefix ''../'' v"
    then obtain w where "v = ''..'' @ CHR ''/'' # w" by (auto simp: prefix_def)
    then have "hd (Split CHR ''/'' v) = ''..''" by simp
    with hd show False by (simp add: plain_seg_def)
  qed
qed

lemma Validate_path_iff: "is_ok (Validate_path U v) \<longleftrightarrow> portable_ref U v"
proof
  assume "is_ok (Validate_path U v)"
  then show "portable_ref U v"
    by (auto simp: Validate_path_def portable_ref_def list_all_iff list_ex_iff split: if_splits)
next
  assume ref: "portable_ref U v"
  then have plain: "list_all plain_seg (Split CHR ''/'' v)"
    by (auto simp: portable_ref_def intro: safe_segments_plain)
  show "is_ok (Validate_path U v)"
    using ref plain_Split_hd [OF plain] plain_Split_relative [OF plain] path_Clean_plain [OF plain]
    by (auto simp: Validate_path_def portable_ref_def list_all_iff list_ex_iff)
qed

lemma Validate_path_plain: "is_ok (Validate_path U v) \<Longrightarrow> list_all plain_seg (Split CHR ''/'' v)"
  by (auto simp: Validate_path_iff portable_ref_def intro: safe_segments_plain)

lemma Validate_path_error: "Validate_path U v = Inl e \<Longrightarrow> e = [Path_ErrUnsafe]"
  by (simp add: Validate_path_def split: if_splits)

section \<open>Properties\<close>

text \<open>
  Containment. Resolving an accepted path below any root given by plain segments, with
  \<open>path.Clean\<close> on the concatenation, yields exactly the root's segments followed by the path's
  own: the result is below the root and no segment of the path is lost.
\<close>

theorem validated_path_stays_below_root:
  assumes "is_ok (Validate_path U v)" and "list_all plain_seg root" and "root \<noteq> []"
  shows "clean_segs True (root @ Split CHR ''/'' v) [] = root @ Split CHR ''/'' v
    \<and> Split CHR ''/'' v \<noteq> [] \<and> \<not> prefix ''/'' v"
  using Validate_path_plain [OF assms(1)] assms(2)
  by (simp add: clean_segs_plain plain_Split_relative)

theorem validated_path_stays_below_root_witness:
  "clean_segs True ([''srv'', ''job''] @ Split CHR ''/'' ''src/main.go'') [] =
     [''srv'', ''job'', ''src'', ''main.go'']"
proof -
  have v: "is_ok (Validate_path \<lparr>rune_lower = id, rune_upper = id\<rparr> ''src/main.go'')"
    by code_simp
  have r: "list_all plain_seg [''srv'', ''job'']" by (simp add: plain_seg_def)
  show ?thesis
    using validated_path_stays_below_root [OF v r] by simp
qed

text \<open>
  Equivalence of \<open>Validate\<close> with the segment-wise reference check: the tests on
  \<open>path.Clean\<close>, on a leading slash and on a leading parent reference never decide anything that the
  loop over the segments does not decide.
\<close>

theorem Validate_path_segmentwise: "is_ok (Validate_path U v) = portable_ref U v"
  by (rule Validate_path_iff)

end
