(* ===== verification/JobId.thy ===== *)
theory JobId
  imports GoStrings
begin

unbundle bit_operations_syntax

text \<open>
  \<open>internal/job/id.go\<close>: UUID-formatted job identifiers. \<open>NewID\<close> takes the sixteen random bytes as
  an argument; \<open>ParseID\<close>, \<open>Valid\<close> and \<open>formatID\<close> are translated as they are. The lemmas show that
  the valid identifiers are exactly the formatted sixteen-byte values and that parsing
  canonicalises.
\<close>

type_synonym job_id = string

definition formatID :: "8 word list \<Rightarrow> job_id" where
  "formatID v =
     hex_encode (take 4 v) @ ''-'' @ hex_encode (take 2 (drop 4 v)) @ ''-'' @
     hex_encode (take 2 (drop 6 v)) @ ''-'' @ hex_encode (take 2 (drop 8 v)) @ ''-'' @
     hex_encode (take 6 (drop 10 v))"

definition NewID :: "8 word list \<Rightarrow> job_id" where
  "NewID random =
     (let v = random[6 := (random ! 6 AND 0x0f) OR 0x40];
          v = v[8 := (v ! 8 AND 0x3f) OR 0x80]
      in formatID v)"

definition ParseID :: "string \<Rightarrow> job_id result" where
  "ParseID value =
    (if length value \<noteq> 36 \<or> value ! 8 \<noteq> CHR ''-'' \<or> value ! 13 \<noteq> CHR ''-'' \<or>
        value ! 18 \<noteq> CHR ''-'' \<or> value ! 23 \<noteq> CHR ''-''
     then Inl [Job_ErrInvalidID]
     else (case hex_decode (RemoveAll CHR ''-'' value) of
             None \<Rightarrow> Inl [Job_ErrInvalidID]
           | Some decoded \<Rightarrow>
               if length decoded \<noteq> 16 then Inl [Job_ErrInvalidID] else Inr (formatID decoded)))"

definition ID_Valid :: "job_id \<Rightarrow> bool" where
  "ID_Valid i = (case ParseID i of Inl _ \<Rightarrow> False | Inr parsed \<Rightarrow> parsed = i)"

section \<open>Facts\<close>

lemma hex_digit_not_dash: "n < 16 \<Longrightarrow> hex_digit n \<noteq> CHR ''-''"
proof
  assume "n < 16" and "hex_digit n = CHR ''-''"
  then have "byte_of (hex_digit n) = byte_of (CHR ''-'')" by simp
  with \<open>n < 16\<close> show False by (simp add: hex_digit_def split: if_splits)
qed

lemma hex_encode_no_dash: "CHR ''-'' \<notin> set (hex_encode bs)"
proof (induction bs)
  case (Cons b bs)
  have "unat b < 256" using unsigned_less [of b, where 'a = nat] by simp
  then have "hex_digit (unat b div 16) \<noteq> CHR ''-''" "hex_digit (unat b mod 16) \<noteq> CHR ''-''"
    by (auto intro!: hex_digit_not_dash)
  then show ?case using Cons by (simp add: hex_encode_def hex_byte_def eq_commute)
qed (simp add: hex_encode_def)

lemma RemoveAll_append: "RemoveAll c (xs @ ys) = RemoveAll c xs @ RemoveAll c ys"
  by (simp add: RemoveAll_def)

lemma RemoveAll_hex [simp]: "RemoveAll CHR ''-'' (hex_encode bs) = hex_encode bs"
  using hex_encode_no_dash [of bs] by (auto simp: RemoveAll_def filter_id_conv)

lemma RemoveAll_dash [simp]: "RemoveAll CHR ''-'' ''-'' = ''''"
  by (simp add: RemoveAll_def)

lemma take_drop_parts:
  "length v = 16 \<Longrightarrow>
   take 4 v @ take 2 (drop 4 v) @ take 2 (drop 6 v) @ take 2 (drop 8 v) @ take 6 (drop 10 v) = v"
proof -
  assume len: "length v = 16"
  have s: "take m (drop n v) @ drop (n + m) v = drop n v" for m n
    by (simp flip: drop_drop add: add.commute)
  have "take 6 (drop 10 v) = drop 10 v" using len by simp
  then show ?thesis
    using s [of 2 4] s [of 2 6] s [of 2 8] append_take_drop_id [of 4 v] by simp
qed

lemma RemoveAll_formatID:
  assumes "length v = 16"
  shows "RemoveAll CHR ''-'' (formatID v) = hex_encode v"
proof -
  have "RemoveAll CHR ''-'' (formatID v) =
    hex_encode (take 4 v @ take 2 (drop 4 v) @ take 2 (drop 6 v) @ take 2 (drop 8 v) @ take 6 (drop 10 v))"
    by (simp only: formatID_def RemoveAll_append RemoveAll_hex RemoveAll_dash hex_encode_append
        append_Nil append_assoc)
  then show ?thesis by (simp only: take_drop_parts [OF assms])
qed

lemma formatID_layout:
  assumes "length v = 16"
  shows "length (formatID v) = 36 \<and> formatID v ! 8 = CHR ''-'' \<and> formatID v ! 13 = CHR ''-'' \<and>
    formatID v ! 18 = CHR ''-'' \<and> formatID v ! 23 = CHR ''-''"
  using assms by (simp add: formatID_def nth_append)

lemma ParseID_formatID: "length v = 16 \<Longrightarrow> ParseID (formatID v) = Inr (formatID v)"
  using formatID_layout [of v] by (simp add: ParseID_def RemoveAll_formatID)

lemma ParseID_InrD: "ParseID s = Inr i \<Longrightarrow> \<exists>v. length v = 16 \<and> i = formatID v"
  by (auto simp: ParseID_def split: if_splits option.splits)

lemma ID_Valid_iff: "ID_Valid i \<longleftrightarrow> (\<exists>v. length v = 16 \<and> i = formatID v)"
  using ParseID_formatID by (auto simp: ID_Valid_def split: sum.splits dest: ParseID_InrD)

lemma ID_Valid_ParseID: "ID_Valid i \<Longrightarrow> ParseID i = Inr i"
  by (auto simp: ID_Valid_def split: sum.splits)

lemma ParseID_Valid: "ParseID s = Inr i \<Longrightarrow> ID_Valid i"
  using ParseID_InrD ID_Valid_iff by blast

lemma ID_Valid_length: "ID_Valid i \<Longrightarrow> length i = 36"
  by (auto simp: ID_Valid_iff formatID_layout)

lemma formatID_inj: "length v = 16 \<Longrightarrow> length w = 16 \<Longrightarrow> formatID v = formatID w \<Longrightarrow> v = w"
  using RemoveAll_formatID [of v] RemoveAll_formatID [of w]
    hex_decode_encode [of v] hex_decode_encode [of w] by simp

section \<open>Properties\<close>

text \<open>
  Canonical identifiers. Formatting sixteen bytes and parsing the result returns the formatted
  identifier; whatever \<open>ParseID\<close> accepts, it returns a valid identifier on which parsing is the
  identity; and different byte values have different identifiers.
\<close>

theorem ParseID_canonical:
  "(length v = 16 \<longrightarrow> ParseID (formatID v) = Inr (formatID v)) \<and>
   (ParseID s = Inr i \<longrightarrow> ID_Valid i \<and> ParseID i = Inr i) \<and>
   (length v = 16 \<and> length w = 16 \<and> formatID v = formatID w \<longrightarrow> v = w)"
  using ParseID_formatID formatID_inj ParseID_Valid ID_Valid_ParseID by blast

theorem ParseID_canonical_witness:
  "ParseID ''00010203-0405-0607-0809-0A0B0C0D0E0F'' = Inr ''00010203-0405-0607-0809-0a0b0c0d0e0f''
   \<and> ID_Valid ''00010203-0405-0607-0809-0a0b0c0d0e0f''
   \<and> ParseID (formatID (replicate 16 0)) = Inr (formatID (replicate 16 0))"
proof -
  have p: "ParseID ''00010203-0405-0607-0809-0A0B0C0D0E0F'' =
      Inr ''00010203-0405-0607-0809-0a0b0c0d0e0f''"
    by code_simp
  have l: "length (replicate 16 (0 :: 8 word)) = 16" by simp
  from ParseID_canonical [of "replicate 16 0" "''00010203-0405-0607-0809-0A0B0C0D0E0F''"
      "''00010203-0405-0607-0809-0a0b0c0d0e0f''" "replicate 16 0"] p l
  show ?thesis by blast
qed

end
