(* ===== verification/JobState.thy ===== *)
theory JobState
  imports Prelude
begin

text \<open>
  \<open>internal/job/state.go\<close>: the durable lifecycle of a job. A Go \<open>State\<close> is a string; the fourteen
  strings of the lifecycle are constructors and any other string is \<open>StateUnknown\<close>. The tables
  \<open>validStates\<close>, \<open>terminalStates\<close> and \<open>allowedTransitions\<close> are lists. The lemmas show that the
  terminal states are exactly the valid states without successor and that the transition relation
  is well-founded with at most nine steps.
\<close>

datatype state =
    StateCreated | StateValidating | StateQueued | StateSnapshotting | StateTransferring
  | StateStarting | StateRunning | StateCollecting | StateRestoring | StateSucceeded
  | StateFailed | StateCancelled | StateRejected | StateLost | StateUnknown string

definition validStates :: "state list" where
  "validStates = [StateCreated, StateValidating, StateQueued, StateSnapshotting,
     StateTransferring, StateStarting, StateRunning, StateCollecting, StateRestoring,
     StateSucceeded, StateFailed, StateCancelled, StateRejected, StateLost]"

definition terminalStates :: "state list" where
  "terminalStates = [StateSucceeded, StateFailed, StateCancelled, StateRejected, StateLost]"

fun allowedTransitions :: "state \<Rightarrow> state list" where
  "allowedTransitions StateCreated = [StateValidating, StateCancelled]"
| "allowedTransitions StateValidating = [StateQueued, StateRejected, StateFailed, StateCancelled]"
| "allowedTransitions StateQueued =
     [StateSnapshotting, StateStarting, StateFailed, StateCancelled]"
| "allowedTransitions StateSnapshotting =
     [StateTransferring, StateStarting, StateFailed, StateCancelled]"
| "allowedTransitions StateTransferring = [StateStarting, StateFailed, StateCancelled, StateLost]"
| "allowedTransitions StateStarting = [StateRunning, StateFailed, StateCancelled, StateLost]"
| "allowedTransitions StateRunning =
     [StateCollecting, StateSucceeded, StateFailed, StateCancelled, StateLost]"
| "allowedTransitions StateCollecting =
     [StateRestoring, StateSucceeded, StateFailed, StateCancelled, StateLost]"
| "allowedTransitions StateRestoring = [StateSucceeded, StateFailed, StateCancelled]"
| "allowedTransitions _ = []"

text \<open>The conversion \<open>State(value)\<close> and its inverse, the string that is stored.\<close>

definition state_strings :: "(string \<times> state) list" where
  "state_strings =
    [(''created'', StateCreated), (''validating'', StateValidating), (''queued'', StateQueued),
     (''snapshotting'', StateSnapshotting), (''transferring'', StateTransferring),
     (''starting'', StateStarting), (''running'', StateRunning),
     (''collecting'', StateCollecting), (''restoring'', StateRestoring),
     (''succeeded'', StateSucceeded), (''failed'', StateFailed), (''cancelled'', StateCancelled),
     (''rejected'', StateRejected), (''lost'', StateLost)]"

definition State :: "string \<Rightarrow> state" where
  "State value = (case map_of state_strings value of Some s \<Rightarrow> s | None \<Rightarrow> StateUnknown value)"

definition state_string :: "state \<Rightarrow> string" where
  "state_string s =
    (case s of StateUnknown v \<Rightarrow> v
     | _ \<Rightarrow> (case find (\<lambda>(_, t). t = s) state_strings of Some (v, _) \<Rightarrow> v | None \<Rightarrow> ''''))"

definition State_Valid :: "state \<Rightarrow> bool" where
  "State_Valid s \<longleftrightarrow> s \<in> set validStates"

definition State_Terminal :: "state \<Rightarrow> bool" where
  "State_Terminal s \<longleftrightarrow> s \<in> set terminalStates"

definition ParseState :: "string \<Rightarrow> state result" where
  "ParseState value =
    (let s = State value in if \<not> State_Valid s then Inl [Job_ErrInvalidState] else Inr s)"

definition CanTransition :: "state \<Rightarrow> state \<Rightarrow> bool" where
  "CanTransition from to =
    (if \<not> State_Valid from \<or> \<not> State_Valid to then False else to \<in> set (allowedTransitions from))"

definition ValidateTransition :: "state \<Rightarrow> state \<Rightarrow> unit result" where
  "ValidateTransition from to =
    (if \<not> State_Valid from then Inl [Job_ErrInvalidState]
     else if \<not> State_Valid to then Inl [Job_ErrInvalidState]
     else if \<not> CanTransition from to then Inl [Job_ErrInvalidTransition]
     else Inr ())"

section \<open>Facts\<close>

lemma State_Valid_iff [simp]: "State_Valid s \<longleftrightarrow> (\<forall>v. s \<noteq> StateUnknown v)"
  by (cases s) (simp_all add: State_Valid_def validStates_def)

lemma State_Terminal_simps [simp]:
  "State_Terminal StateSucceeded" "State_Terminal StateFailed" "State_Terminal StateCancelled"
  "State_Terminal StateRejected" "State_Terminal StateLost"
  "\<not> State_Terminal StateCreated" "\<not> State_Terminal StateValidating" "\<not> State_Terminal StateQueued"
  "\<not> State_Terminal StateSnapshotting" "\<not> State_Terminal StateTransferring"
  "\<not> State_Terminal StateStarting" "\<not> State_Terminal StateRunning"
  "\<not> State_Terminal StateCollecting" "\<not> State_Terminal StateRestoring"
  "\<not> State_Terminal (StateUnknown v)"
  by (simp_all add: State_Terminal_def terminalStates_def)

lemma CanTransition_iff: "CanTransition a b \<longleftrightarrow> b \<in> set (allowedTransitions a)"
  by (cases a) (auto simp: CanTransition_def)

lemma ValidateTransition_ok_iff: "is_ok (ValidateTransition a b) \<longleftrightarrow> CanTransition a b"
  by (auto simp: ValidateTransition_def CanTransition_def)

lemma ValidateTransition_Inr [simp]: "ValidateTransition a b = Inr () \<longleftrightarrow> CanTransition a b"
  using ValidateTransition_ok_iff by (simp add: is_ok_unit_iff)

lemma CanTransition_valid: "CanTransition a b \<Longrightarrow> State_Valid a \<and> State_Valid b"
  by (auto simp: CanTransition_def split: if_splits)

text \<open>A rank that every transition increases.\<close>

fun lifecycle_rank :: "state \<Rightarrow> nat" where
  "lifecycle_rank StateCreated = 0"
| "lifecycle_rank StateValidating = 1"
| "lifecycle_rank StateQueued = 2"
| "lifecycle_rank StateSnapshotting = 3"
| "lifecycle_rank StateTransferring = 4"
| "lifecycle_rank StateStarting = 5"
| "lifecycle_rank StateRunning = 6"
| "lifecycle_rank StateCollecting = 7"
| "lifecycle_rank StateRestoring = 8"
| "lifecycle_rank _ = 9"

lemma rank_le: "lifecycle_rank s \<le> 9"
  by (cases s) simp_all

lemma CanTransition_rank: "CanTransition a b \<Longrightarrow> lifecycle_rank a < lifecycle_rank b"
  by (cases a) (auto simp: CanTransition_iff)

text \<open>A lifecycle: consecutive states are transitions.\<close>

fun lifecycle :: "state list \<Rightarrow> bool" where
  "lifecycle (a # b # ss) \<longleftrightarrow> CanTransition a b \<and> lifecycle (b # ss)"
| "lifecycle _ \<longleftrightarrow> True"

lemma lifecycle_rank_bound:
  "lifecycle (a # ss) \<Longrightarrow> lifecycle_rank a + length ss \<le> 9"
proof (induction ss arbitrary: a)
  case Nil
  show ?case using rank_le [of a] by simp
next
  case (Cons b ss)
  then have "lifecycle_rank a < lifecycle_rank b" "lifecycle_rank b + length ss \<le> 9"
    by (auto intro: CanTransition_rank)
  then show ?case by simp
qed

lemma lifecycle_snoc:
  "ss \<noteq> [] \<Longrightarrow> lifecycle (ss @ [b]) \<longleftrightarrow> lifecycle ss \<and> CanTransition (last ss) b"
  by (induction ss rule: lifecycle.induct) auto

lemma state_string_inverse: "State_Valid s \<Longrightarrow> State (state_string s) = s"
  by (cases s) (simp_all add: State_def state_string_def state_strings_def)

section \<open>Properties\<close>

text \<open>
  C40: Termination of the lifecycle. Starting from any state, a sequence of legal transitions has at
  most nine steps, and a sequence that cannot be extended ends in a terminal state: no legal
  sequence of transitions runs forever or gets stuck in a non-terminal state.
\<close>

theorem lifecycle_terminates:
  assumes "lifecycle (s # ss)" and "State_Valid s"
  shows "length ss \<le> 9 \<and>
    (State_Terminal (last (s # ss)) \<longleftrightarrow> (\<forall>t. \<not> CanTransition (last (s # ss)) t))"
proof -
  have "State_Valid (last (s # ss))"
    using assms
  proof (induction ss arbitrary: s)
    case (Cons b ss)
    then have "State_Valid b" using CanTransition_valid [of s b] by simp
    with Cons show ?case by simp
  qed simp
  then have "State_Terminal (last (s # ss)) \<longleftrightarrow> (\<forall>t. \<not> CanTransition (last (s # ss)) t)"
    by (cases "last (s # ss)") (auto simp: CanTransition_iff)
  then show ?thesis using lifecycle_rank_bound [OF assms(1)] by simp
qed

theorem lifecycle_terminates_witness:
  "length [StateValidating, StateQueued, StateStarting, StateRunning, StateSucceeded] \<le> 9
   \<and> (\<forall>t. \<not> CanTransition StateSucceeded t)"
proof -
  have l: "lifecycle (StateCreated # [StateValidating, StateQueued, StateStarting, StateRunning,
      StateSucceeded])"
    by (simp add: CanTransition_iff)
  show ?thesis using lifecycle_terminates [OF l] by simp
qed

text \<open>
  Cancellation is always possible: every valid non-terminal state has a direct transition to
  \<open>cancelled\<close>, a terminal state has none, and no state can be entered twice in a lifecycle.
\<close>

theorem cancel_always_possible:
  "State_Valid s \<Longrightarrow> (CanTransition s StateCancelled \<longleftrightarrow> \<not> State_Terminal s)
     \<and> (lifecycle (s # ss) \<longrightarrow> s \<notin> set ss)"
proof -
  assume v: "State_Valid s"
  have "lifecycle_rank a < lifecycle_rank t" if "lifecycle (a # ss)" "t \<in> set ss" for a t
    using that
  proof (induction ss arbitrary: a)
    case (Cons b ss)
    then show ?case using CanTransition_rank [of a b] by fastforce
  qed simp
  then have "lifecycle (s # ss) \<longrightarrow> s \<notin> set ss" by blast
  with v show ?thesis by (cases s) (simp_all add: CanTransition_iff)
qed

theorem cancel_always_possible_witness:
  "CanTransition StateRunning StateCancelled \<and>
   lifecycle [StateRunning, StateCollecting] \<and> StateRunning \<notin> set [StateCollecting]"
  using cancel_always_possible [of StateRunning "[StateCollecting]"] by (simp add: CanTransition_iff)

text \<open>
  Parsing a stored state. \<open>ParseState\<close> accepts exactly the strings of the fourteen lifecycle
  states, returning the state whose stored string it is, and rejects every other string with
  \<open>ErrInvalidState\<close>.
\<close>

theorem ParseState_exact:
  "(ParseState v = Inr s \<longleftrightarrow> (v, s) \<in> set state_strings) \<and>
   (ParseState v = Inl e \<longrightarrow> e = [Job_ErrInvalidState] \<and> v \<notin> fst ` set state_strings) \<and>
   (State_Valid s \<longrightarrow> ParseState (state_string s) = Inr s)"
proof -
  have d: "distinct (map fst state_strings)" by (simp add: state_strings_def)
  have "(v, StateUnknown w) \<notin> set state_strings" for w by (simp add: state_strings_def)
  then have a: "ParseState v = Inr s \<longleftrightarrow> map_of state_strings v = Some s"
    by (auto simp: ParseState_def State_def Let_def split: option.splits dest: map_of_SomeD)
  have b: "ParseState v = Inl e \<longrightarrow> e = [Job_ErrInvalidState] \<and> map_of state_strings v = None"
    using \<open>\<And>w. (v, StateUnknown w) \<notin> set state_strings\<close>
    by (auto simp: ParseState_def State_def Let_def split: option.splits if_splits dest: map_of_SomeD)
  have "State_Valid s \<longrightarrow> ParseState (state_string s) = Inr s"
    by (auto simp: ParseState_def Let_def state_string_inverse)
  with a b d show ?thesis by (simp add: map_of_eq_None_iff)
qed

theorem ParseState_exact_witness:
  "ParseState ''running'' = Inr StateRunning \<and>
   ''paused'' \<notin> fst ` set state_strings \<and> ParseState (state_string StateLost) = Inr StateLost"
  using ParseState_exact [of "''running''" StateRunning "[]"]
    ParseState_exact [of "''paused''" StateLost "[Job_ErrInvalidState]"]
  by (simp add: state_strings_def)

end
