(* ===== verification/JobModel.thy ===== *)
theory JobModel
  imports PortablePath JobId JobState
begin

text \<open>
  \<open>internal/job/job.go\<close>, \<open>spec.go\<close> and \<open>progress.go\<close>: failures, progress, specifications, jobs and
  their transitions. \<open>New\<close>, \<open>Validate\<close> and \<open>Apply\<close> are the operations; values are immutable, so the
  \<open>Clone\<close> methods are the identity. The environment map is the association list of the pairs a
  \<open>range\<close> visits. The lemmas show that \<open>Apply\<close> is the lifecycle's step function on valid jobs.
\<close>

section \<open>Failures\<close>

record failure =
  fCode :: string
  fMessage :: string
  fRetryable :: bool

definition Failure_Validate :: "failure \<Rightarrow> unit result" where
  "Failure_Validate f =
    (if fCode f = '''' then Inl [Job_ErrInvalidFailure]
     else if fMessage f = '''' then Inl [Job_ErrInvalidFailure]
     else Inr ())"

definition requiresFailure :: "state \<Rightarrow> bool" where
  "requiresFailure s \<longleftrightarrow> s = StateFailed \<or> s = StateRejected \<or> s = StateLost"

definition validateFailureForState :: "state \<Rightarrow> failure option \<Rightarrow> failure option result" where
  "validateFailureForState s f =
    (if requiresFailure s then
       (case f of
          None \<Rightarrow> Inl [Job_ErrInvalidFailure]
        | Some v \<Rightarrow> ebind (Failure_Validate v) (\<lambda>_. Inr (Some v)))
     else
       (case f of Some _ \<Rightarrow> Inl [Job_ErrFailureUnexpected] | None \<Rightarrow> Inr None))"

section \<open>Progress\<close>

datatype progress_phase =
    ProgressSnapshot | ProgressUpload | ProgressDownload | ProgressRestore | ProgressCollect
  | ProgressPull | ProgressUnknown string

definition phase_strings :: "(string \<times> progress_phase) list" where
  "phase_strings =
    [(''snapshot'', ProgressSnapshot), (''upload'', ProgressUpload),
     (''download'', ProgressDownload), (''restore'', ProgressRestore),
     (''collect'', ProgressCollect), (''pull'', ProgressPull)]"

definition ProgressPhase :: "string \<Rightarrow> progress_phase" where
  "ProgressPhase v = (case map_of phase_strings v of Some p \<Rightarrow> p | None \<Rightarrow> ProgressUnknown v)"

definition phase_string :: "progress_phase \<Rightarrow> string" where
  "phase_string p =
    (case p of ProgressUnknown v \<Rightarrow> v
     | _ \<Rightarrow> (case find (\<lambda>(_, q). q = p) phase_strings of Some (v, _) \<Rightarrow> v | None \<Rightarrow> ''''))"

definition Phase_Valid :: "progress_phase \<Rightarrow> bool" where
  "Phase_Valid p \<longleftrightarrow> p \<in> set (map snd phase_strings)"

definition ParseProgressPhase :: "string \<Rightarrow> progress_phase result" where
  "ParseProgressPhase v =
    (let p = ProgressPhase v in if \<not> Phase_Valid p then Inl [Job_ErrInvalidProgress] else Inr p)"

record progress =
  pPhase :: progress_phase
  pCompletedBytes :: int
  pTotalBytes :: int
  pUpdatedAt :: time

definition Progress_Validate :: "progress \<Rightarrow> unit result" where
  "Progress_Validate p =
    (if \<not> Phase_Valid (pPhase p) then Inl [Job_ErrInvalidProgress]
     else if pTotalBytes p \<le> 0 then Inl [Job_ErrInvalidProgress]
     else if pCompletedBytes p < 0 \<or> pCompletedBytes p > pTotalBytes p
     then Inl [Job_ErrInvalidProgress]
     else if IsZero (pUpdatedAt p) then Inl [Job_ErrInvalidProgress]
     else Inr ())"

section \<open>Specifications\<close>

datatype executor = ExecutorNative | ExecutorContainer | ExecutorUnknown string

record spec =
  Executable :: string
  Arguments :: "string list"
  WorkingDirectory :: string
  Environment :: "(string \<times> string) list"
  Executor :: executor
  ContainerImage :: string
  Outputs :: "string list"
  RequiredToolIDs :: "string list"

definition MaximumOutputs :: nat where "MaximumOutputs = 64"
definition MaximumRequiredToolIDs :: nat where "MaximumRequiredToolIDs = 128"

definition containsNUL :: "string \<Rightarrow> bool" where
  "containsNUL v \<longleftrightarrow> CHR 0x00 \<in> set v"

definition invalidToolID :: "casing \<Rightarrow> string \<Rightarrow> bool" where
  "invalidToolID U v =
    (if v = '''' \<or> TrimSpace v \<noteq> v \<or> ToLower U v \<noteq> v then True
     else list_ex (\<lambda>(r, _). rune_value r \<le> 0x20 \<or> rune_value r = 0x7f \<or> rune_value r = 0x3D) (runes v))"

definition reservedOutputPath :: "string \<Rightarrow> bool" where
  "reservedOutputPath v =
    list_ex (\<lambda>s. s = ''.git'' \<or> s = ''.computehop-results'' \<or> s = ''.computehop-conflicts'')
      (Split CHR ''/'' v)"

fun validate_outputs :: "casing \<Rightarrow> string list \<Rightarrow> string list \<Rightarrow> unit result" where
  "validate_outputs U seen [] = Inr ()"
| "validate_outputs U seen (out # outs) =
    (if \<not> is_ok (Validate_path U out) then Inl [Job_ErrInvalidSpec]
     else let key = Key U out in
       if reservedOutputPath key then Inl [Job_ErrInvalidSpec]
       else if key \<in> set seen then Inl [Job_ErrInvalidSpec]
       else validate_outputs U (key # seen) outs)"

fun validate_tools :: "casing \<Rightarrow> string \<Rightarrow> string list \<Rightarrow> unit result" where
  "validate_tools U previous [] = Inr ()"
| "validate_tools U previous (t # ts) =
    (if invalidToolID U t then Inl [Job_ErrInvalidSpec]
     else if t = previous then Inl [Job_ErrInvalidSpec]
     else validate_tools U t ts)"

definition validate_executor :: "spec \<Rightarrow> unit result" where
  "validate_executor s =
    (case Executor s of
       ExecutorNative \<Rightarrow> if ContainerImage s \<noteq> '''' then Inl [Job_ErrInvalidSpec] else Inr ()
     | ExecutorContainer \<Rightarrow>
         if TrimSpace (ContainerImage s) = '''' then Inl [Job_ErrInvalidSpec]
         else if containsNUL (ContainerImage s) then Inl [Job_ErrInvalidSpec] else Inr ()
     | ExecutorUnknown _ \<Rightarrow> Inl [Job_ErrInvalidSpec])"

definition Spec_Validate :: "casing \<Rightarrow> spec \<Rightarrow> unit result" where
  "Spec_Validate U s =
    (if TrimSpace (Executable s) = '''' then Inl [Job_ErrInvalidSpec]
     else if containsNUL (Executable s) then Inl [Job_ErrInvalidSpec]
     else if containsNUL (WorkingDirectory s) then Inl [Job_ErrInvalidSpec]
     else if list_ex containsNUL (Arguments s) then Inl [Job_ErrInvalidSpec]
     else if list_ex (\<lambda>(n, v). n = '''' \<or> ContainsAny n [CHR ''='', CHR 0x00] \<or> containsNUL v)
               (Environment s) then Inl [Job_ErrInvalidSpec]
     else if length (Outputs s) > MaximumOutputs then Inl [Job_ErrInvalidSpec]
     else ebind (validate_outputs U [] (Outputs s)) (\<lambda>_.
       if length (RequiredToolIDs s) > MaximumRequiredToolIDs then Inl [Job_ErrInvalidSpec]
       else if \<not> sorted (RequiredToolIDs s) then Inl [Job_ErrInvalidSpec]
       else ebind (validate_tools U '''' (RequiredToolIDs s)) (\<lambda>_. validate_executor s)))"

section \<open>Jobs\<close>

record job =
  jID :: job_id
  jSpec :: spec
  jState :: state
  jCreatedAt :: time
  jUpdatedAt :: time
  jFailure :: "failure option"
  jProgress :: "progress option"

record transition =
  tJobID :: job_id
  tFrom :: state
  tTo :: state
  tAt :: time
  tFailure :: "failure option"

definition wrap :: "sentinel \<Rightarrow> 'a result \<Rightarrow> 'a result" where
  "wrap s r = (case r of Inl e \<Rightarrow> Inl (s # e) | Inr x \<Rightarrow> Inr x)"

definition Job_Validate :: "casing \<Rightarrow> job \<Rightarrow> unit result" where
  "Job_Validate U j =
    (if \<not> ID_Valid (jID j) then Inl [Job_ErrInvalidJob, Job_ErrInvalidID]
     else ebind (wrap Job_ErrInvalidJob (Spec_Validate U (jSpec j))) (\<lambda>_.
       if \<not> State_Valid (jState j) then Inl [Job_ErrInvalidJob, Job_ErrInvalidState]
       else if IsZero (jCreatedAt j) then Inl [Job_ErrInvalidJob]
       else if IsZero (jUpdatedAt j) then Inl [Job_ErrInvalidJob]
       else if jUpdatedAt j < jCreatedAt j then Inl [Job_ErrInvalidJob]
       else ebind (wrap Job_ErrInvalidJob (validateFailureForState (jState j) (jFailure j))) (\<lambda>_.
         case jProgress j of
           None \<Rightarrow> Inr ()
         | Some p \<Rightarrow> wrap Job_ErrInvalidJob (Progress_Validate p))))"

definition New :: "casing \<Rightarrow> job_id \<Rightarrow> spec \<Rightarrow> time \<Rightarrow> job result" where
  "New U i s now =
    (let created = \<lparr>jID = i, jSpec = s, jState = StateCreated, jCreatedAt = now, jUpdatedAt = now,
                    jFailure = None, jProgress = None\<rparr>
     in ebind (Job_Validate U created) (\<lambda>_. Inr created))"

definition Apply :: "casing \<Rightarrow> job \<Rightarrow> state \<Rightarrow> time \<Rightarrow> failure option \<Rightarrow> (job \<times> transition) result" where
  "Apply U current to at f =
    ebind (Job_Validate U current) (\<lambda>_.
    ebind (ValidateTransition (jState current) to) (\<lambda>_.
    if IsZero at \<or> at < jUpdatedAt current then Inl [Job_ErrTransitionTime]
    else ebind (validateFailureForState to f) (\<lambda>stored.
      Inr (current\<lparr>jState := to, jUpdatedAt := at, jFailure := stored\<rparr>,
           \<lparr>tJobID = jID current, tFrom = jState current, tTo = to, tAt = at, tFailure = stored\<rparr>))))"

section \<open>Facts\<close>

lemma wrap_simps [simp]: "wrap s (Inl e) = Inl (s # e)" "wrap s (Inr x) = Inr x"
  by (simp_all add: wrap_def)

lemma wrap_Inr_iff [result_simps, simp]: "wrap s r = Inr x \<longleftrightarrow> r = Inr x"
  by (cases r) auto

lemma validateFailureForState_InrD:
  "validateFailureForState s f = Inr g \<Longrightarrow> g = f \<and> validateFailureForState s f = Inr f"
  by (auto simp: validateFailureForState_def result_simps split: if_splits option.splits)

lemma validateFailureForState_iff:
  "validateFailureForState s f = Inr g \<longleftrightarrow> g = f \<and>
     (if requiresFailure s then (\<exists>v. f = Some v \<and> fCode v \<noteq> '''' \<and> fMessage v \<noteq> '''') else f = None)"
  by (auto simp: validateFailureForState_def Failure_Validate_def result_simps
      split: if_splits option.splits)

lemma requiresFailure_terminal: "requiresFailure s \<Longrightarrow> State_Terminal s"
  by (auto simp: requiresFailure_def)

lemma Job_Validate_iff:
  "Job_Validate U j = Inr () \<longleftrightarrow>
     ID_Valid (jID j) \<and> Spec_Validate U (jSpec j) = Inr () \<and> State_Valid (jState j) \<and>
     \<not> IsZero (jCreatedAt j) \<and> \<not> IsZero (jUpdatedAt j) \<and> jCreatedAt j \<le> jUpdatedAt j \<and>
     validateFailureForState (jState j) (jFailure j) = Inr (jFailure j) \<and>
     (\<forall>p. jProgress j = Some p \<longrightarrow> Progress_Validate p = Inr ())"
  by (auto simp: Job_Validate_def result_simps not_less split: option.splits if_splits
      dest: validateFailureForState_InrD)

lemma Apply_Inr_iff:
  "Apply U j to at f = Inr (j', t) \<longleftrightarrow>
     Job_Validate U j = Inr () \<and> CanTransition (jState j) to \<and> \<not> IsZero at \<and> jUpdatedAt j \<le> at \<and>
     validateFailureForState to f = Inr f \<and>
     j' = j\<lparr>jState := to, jUpdatedAt := at, jFailure := f\<rparr> \<and>
     t = \<lparr>tJobID = jID j, tFrom = jState j, tTo = to, tAt = at, tFailure = f\<rparr>"
  by (auto simp: Apply_def result_simps not_less split: if_splits dest: validateFailureForState_InrD)

lemma Apply_fields:
  assumes "Apply U j to at f = Inr (j', t)"
  shows "tJobID t = jID j" "tFrom t = jState j" "tTo t = to" "tAt t = at" "tFailure t = f"
    "CanTransition (jState j) to" "jUpdatedAt j \<le> at" "\<not> IsZero at"
    "validateFailureForState to f = Inr f" "j' = j\<lparr>jState := to, jUpdatedAt := at, jFailure := f\<rparr>"
  using assms by (auto simp: Apply_Inr_iff)

lemma Apply_valid: "Apply U j to at f = Inr (j', t) \<Longrightarrow> Job_Validate U j' = Inr ()"
  by (auto simp: Apply_Inr_iff Job_Validate_iff simp del: State_Valid_iff dest: CanTransition_valid)

lemma validate_outputs_keys:
  "validate_outputs U seen outs = Inr () \<Longrightarrow>
   distinct (map (Key U) outs) \<and> set (map (Key U) outs) \<inter> set seen = {} \<and>
   list_all (\<lambda>p. is_ok (Validate_path U p) \<and> \<not> reservedOutputPath (Key U p)) outs"
  by (induction U seen outs rule: validate_outputs.induct) (auto simp: Let_def split: if_splits)

lemma validate_tools_adjacent:
  "validate_tools U prev ts = Inr () \<Longrightarrow> sorted ts \<Longrightarrow> ts \<noteq> [] \<longrightarrow> prev \<le> hd ts \<Longrightarrow>
   sorted_wrt (<) ts \<and> (ts \<noteq> [] \<longrightarrow> prev < hd ts) \<and> list_all (\<lambda>t. \<not> invalidToolID U t) ts"
proof (induction U prev ts rule: validate_tools.induct)
  case (2 U prev t ts)
  then have t: "\<not> invalidToolID U t" "t \<noteq> prev" and ts: "validate_tools U t ts = Inr ()"
    by (auto split: if_splits)
  have "ts \<noteq> [] \<longrightarrow> t \<le> hd ts" using "2.prems"(2) by (cases ts) auto
  with 2 t ts have IH: "sorted_wrt (<) ts" "ts \<noteq> [] \<longrightarrow> t < hd ts"
      "list_all (\<lambda>t. \<not> invalidToolID U t) ts"
    by auto
  have "t < x" if "x \<in> set ts" for x
    using IH(1,2) that by (cases ts) auto
  with IH t "2.prems"(3) show ?case by auto
qed simp

lemma Spec_Validate_outputs:
  "Spec_Validate U s = Inr () \<Longrightarrow> validate_outputs U [] (Outputs s) = Inr ()"
  by (auto simp: Spec_Validate_def result_simps split: if_splits)

lemma Spec_Validate_tools:
  "Spec_Validate U s = Inr () \<Longrightarrow>
   sorted (RequiredToolIDs s) \<and> validate_tools U '''' (RequiredToolIDs s) = Inr ()"
  by (auto simp: Spec_Validate_def result_simps split: if_splits)

section \<open>Properties\<close>

text \<open>The values used by the witnesses: a valid native job that has just been created.\<close>

definition sample_spec :: spec where
  "sample_spec = \<lparr>Executable = ''go'', Arguments = [''test''], WorkingDirectory = '''',
     Environment = [(''CI'', ''1'')], Executor = ExecutorNative, ContainerImage = '''',
     Outputs = [''dist''], RequiredToolIDs = [''git'', ''go'']\<rparr>"

definition sample_id :: job_id where
  "sample_id = ''00010203-0405-4607-8809-0a0b0c0d0e0f''"

definition sample_job :: job where
  "sample_job = \<lparr>jID = sample_id, jSpec = sample_spec, jState = StateCreated, jCreatedAt = 5,
     jUpdatedAt = 5, jFailure = None, jProgress = None\<rparr>"

lemma sample_spec_valid: "Spec_Validate ascii_casing sample_spec = Inr ()"
  by code_simp

lemma sample_job_valid: "Job_Validate ascii_casing sample_job = Inr ()"
  by code_simp

text \<open>A job with nothing but a command, for the witnesses that run the repositories.\<close>

definition plain_spec :: spec where
  "plain_spec = \<lparr>Executable = ''go'', Arguments = [], WorkingDirectory = '''', Environment = [],
     Executor = ExecutorNative, ContainerImage = '''', Outputs = [], RequiredToolIDs = []\<rparr>"

definition plain_job :: job where
  "plain_job = \<lparr>jID = sample_id, jSpec = plain_spec, jState = StateCreated, jCreatedAt = 5,
     jUpdatedAt = 5, jFailure = None, jProgress = None\<rparr>"

lemma sample_id_valid: "ID_Valid sample_id"
  by code_simp

lemma plain_spec_valid: "Spec_Validate ascii_casing plain_spec = Inr ()"
  by code_simp

lemma plain_job_valid: "Job_Validate ascii_casing plain_job = Inr ()"
  by (simp add: Job_Validate_iff plain_job_def sample_id_valid plain_spec_valid IsZero_def zero_time_def
      validateFailureForState_iff requiresFailure_def)

text \<open>
  \<open>Apply\<close> as a decision table. On a valid job, \<open>Apply\<close> rejects, in this order, an unknown
  destination, an illegal transition, a zero or earlier time, and a failure that the destination
  does not call for or lacks; otherwise it succeeds with exactly the state, the update time and the
  failure replaced, and with the transition record that describes the step.
\<close>

theorem Apply_decision_table:
  assumes "Job_Validate U j = Inr ()"
  shows "Apply U j to at f =
    (if \<not> State_Valid to then Inl [Job_ErrInvalidState]
     else if \<not> CanTransition (jState j) to then Inl [Job_ErrInvalidTransition]
     else if IsZero at \<or> at < jUpdatedAt j then Inl [Job_ErrTransitionTime]
     else if requiresFailure to \<and> (\<forall>v. f = Some v \<longrightarrow> fCode v = '''' \<or> fMessage v = '''')
     then Inl [Job_ErrInvalidFailure]
     else if \<not> requiresFailure to \<and> f \<noteq> None then Inl [Job_ErrFailureUnexpected]
     else Inr (j\<lparr>jState := to, jUpdatedAt := at, jFailure := f\<rparr>,
       \<lparr>tJobID = jID j, tFrom = jState j, tTo = to, tAt = at, tFailure = f\<rparr>))"
proof -
  have "State_Valid (jState j)" using assms by (simp add: Job_Validate_iff)
  then show ?thesis
    using assms
    by (auto simp: Apply_def ValidateTransition_def validateFailureForState_def Failure_Validate_def
        CanTransition_def split: option.splits)
qed

theorem Apply_decision_table_witness:
  "Apply ascii_casing sample_job StateValidating 7 None =
     Inr (sample_job\<lparr>jState := StateValidating, jUpdatedAt := 7, jFailure := None\<rparr>,
       \<lparr>tJobID = sample_id, tFrom = StateCreated, tTo = StateValidating, tAt = 7, tFailure = None\<rparr>)
   \<and> Apply ascii_casing sample_job StateRunning 7 None = Inl [Job_ErrInvalidTransition]"
  using Apply_decision_table [OF sample_job_valid, of StateValidating 7 None]
    Apply_decision_table [OF sample_job_valid, of StateRunning 7 None]
  by (simp add: sample_job_def CanTransition_iff IsZero_def zero_time_def requiresFailure_def)

text \<open>
  Invariant of jobs. \<open>New\<close> returns a valid job in the created state, and every successful
  \<open>Apply\<close> returns a valid job with the same identifier, specification, creation time and progress,
  whose update time has not moved backwards.
\<close>

theorem New_Apply_invariant:
  "(New U i s now = Inr j \<longrightarrow> Job_Validate U j = Inr () \<and> jState j = StateCreated \<and> jID j = i
      \<and> jSpec j = s \<and> jCreatedAt j = now \<and> jUpdatedAt j = now) \<and>
   (Apply U k to at f = Inr (k', t) \<longrightarrow> Job_Validate U k' = Inr () \<and> jState k' = to \<and> jID k' = jID k
      \<and> jSpec k' = jSpec k \<and> jCreatedAt k' = jCreatedAt k \<and> jProgress k' = jProgress k
      \<and> jUpdatedAt k \<le> jUpdatedAt k')"
  using Apply_valid [of U k to at f k' t]
  by (auto simp: New_def Let_def result_simps Apply_Inr_iff)

theorem New_Apply_invariant_witness:
  "New ascii_casing sample_id sample_spec 5 = Inr sample_job \<and>
   Job_Validate ascii_casing sample_job = Inr () \<and>
   Job_Validate ascii_casing (sample_job\<lparr>jState := StateValidating, jUpdatedAt := 7, jFailure := None\<rparr>)
     = Inr ()"
proof -
  have n: "New ascii_casing sample_id sample_spec 5 = Inr sample_job"
    using sample_job_valid by (simp add: New_def Let_def sample_job_def)
  have a: "Apply ascii_casing sample_job StateValidating 7 None =
     Inr (sample_job\<lparr>jState := StateValidating, jUpdatedAt := 7, jFailure := None\<rparr>,
       \<lparr>tJobID = sample_id, tFrom = StateCreated, tTo = StateValidating, tAt = 7, tFailure = None\<rparr>)"
    using sample_job_valid
    by (simp add: Apply_Inr_iff CanTransition_iff IsZero_def zero_time_def validateFailureForState_def
        requiresFailure_def) (simp add: sample_job_def)
  show ?thesis
    using n a New_Apply_invariant [of ascii_casing sample_id sample_spec 5 sample_job
        sample_job StateValidating 7 None] by blast
qed

text \<open>
  What a valid specification guarantees: its outputs are portable paths outside the reserved
  directories with pairwise different case-insensitive keys, its required tools are strictly
  increasing well-formed identifiers, and exactly the container executor has an image.
\<close>

theorem Spec_Validate_guarantees:
  assumes "Spec_Validate U s = Inr ()"
  shows "distinct (map (Key U) (Outputs s))
    \<and> list_all (\<lambda>p. is_ok (Validate_path U p) \<and> \<not> reservedOutputPath (Key U p)) (Outputs s)
    \<and> sorted_wrt (<) (RequiredToolIDs s)
    \<and> list_all (\<lambda>t. \<not> invalidToolID U t) (RequiredToolIDs s)
    \<and> (Executor s = ExecutorNative \<and> ContainerImage s = ''''
        \<or> Executor s = ExecutorContainer \<and> TrimSpace (ContainerImage s) \<noteq> '''')"
proof -
  have "RequiredToolIDs s \<noteq> [] \<longrightarrow> '''' \<le> hd (RequiredToolIDs s)" by simp
  then have "sorted_wrt (<) (RequiredToolIDs s) \<and> list_all (\<lambda>t. \<not> invalidToolID U t) (RequiredToolIDs s)"
    using Spec_Validate_tools [OF assms] validate_tools_adjacent [of U "''''" "RequiredToolIDs s"]
    by simp
  moreover have "validate_executor s = Inr ()"
    using assms by (auto simp: Spec_Validate_def result_simps split: if_splits)
  then have "Executor s = ExecutorNative \<and> ContainerImage s = ''''
      \<or> Executor s = ExecutorContainer \<and> TrimSpace (ContainerImage s) \<noteq> ''''"
    by (auto simp: validate_executor_def split: executor.splits if_splits)
  ultimately show ?thesis
    using validate_outputs_keys [OF Spec_Validate_outputs [OF assms]] by blast
qed

theorem Spec_Validate_guarantees_witness:
  "distinct (map (Key ascii_casing) (Outputs sample_spec)) \<and> sorted_wrt (<) (RequiredToolIDs sample_spec)"
  using Spec_Validate_guarantees [OF sample_spec_valid] by blast

end
