(* ===== verification/Execution.thy ===== *)
theory Execution
  imports JobModel
begin

text \<open>
  \<open>internal/execution/attempt.go\<close>: the attempt a runner owns, its validation by status, and the
  completion that ends it. The lemmas give the validated attempts in closed form and show that
  starting, running and completing an attempt lead from valid attempts to valid attempts.
\<close>

section \<open>Definitions\<close>

datatype attempt_status = StatusStarting | StatusRunning | StatusCompleted | StatusUnknown string

datatype completion_kind =
  CompletionSucceeded | CompletionFailed | CompletionCancelled | CompletionOther string

abbreviation CompletionNone :: completion_kind where
  "CompletionNone \<equiv> CompletionOther ''''"

definition status_string :: "attempt_status \<Rightarrow> string" where
  "status_string s = (case s of StatusStarting \<Rightarrow> ''starting'' | StatusRunning \<Rightarrow> ''running''
     | StatusCompleted \<Rightarrow> ''completed'' | StatusUnknown v \<Rightarrow> v)"

definition Status :: "string \<Rightarrow> attempt_status" where
  "Status v = (if v = ''starting'' then StatusStarting else if v = ''running'' then StatusRunning
     else if v = ''completed'' then StatusCompleted else StatusUnknown v)"

definition completion_string :: "completion_kind \<Rightarrow> string" where
  "completion_string k = (case k of CompletionSucceeded \<Rightarrow> ''succeeded'' | CompletionFailed \<Rightarrow> ''failed''
     | CompletionCancelled \<Rightarrow> ''cancelled'' | CompletionOther v \<Rightarrow> v)"

definition CompletionKind :: "string \<Rightarrow> completion_kind" where
  "CompletionKind v = (if v = ''succeeded'' then CompletionSucceeded
     else if v = ''failed'' then CompletionFailed
     else if v = ''cancelled'' then CompletionCancelled else CompletionOther v)"

record attempt =
  aJobID :: job_id
  aStatus :: attempt_status
  aRunnerPID :: int
  aProcessPID :: int
  aClaimedAt :: time
  aStartedAt :: "time option"
  aHeartbeatAt :: time
  aCancelRequestedAt :: "time option"
  aFinishedAt :: "time option"
  aExitCode :: "int option"
  aTerminationSignal :: string
  aCompletion :: completion_kind

definition before_opt :: "time option \<Rightarrow> time \<Rightarrow> bool" where
  "before_opt t u = (case t of None \<Rightarrow> False | Some v \<Rightarrow> v < u)"

definition Attempt_Validate :: "attempt \<Rightarrow> unit result" where
  "Attempt_Validate a =
    (if \<not> ID_Valid (aJobID a) then Inl [Execution_ErrInvalidAttempt, Job_ErrInvalidID]
     else if aRunnerPID a \<le> 0 then Inl [Execution_ErrInvalidAttempt]
     else if IsZero (aClaimedAt a) \<or> IsZero (aHeartbeatAt a) then Inl [Execution_ErrInvalidAttempt]
     else if aHeartbeatAt a < aClaimedAt a then Inl [Execution_ErrInvalidAttempt]
     else if before_opt (aCancelRequestedAt a) (aClaimedAt a) then Inl [Execution_ErrInvalidAttempt]
     else (case aStatus a of
       StatusStarting \<Rightarrow>
         if aProcessPID a \<noteq> 0 \<or> aStartedAt a \<noteq> None \<or> aFinishedAt a \<noteq> None \<or> aExitCode a \<noteq> None
           \<or> aTerminationSignal a \<noteq> '''' \<or> aCompletion a \<noteq> CompletionNone
         then Inl [Execution_ErrInvalidAttempt] else Inr ()
     | StatusRunning \<Rightarrow>
         if aProcessPID a \<le> 0 \<or> aStartedAt a = None then Inl [Execution_ErrInvalidAttempt]
         else if before_opt (aStartedAt a) (aClaimedAt a) then Inl [Execution_ErrInvalidAttempt]
         else if aFinishedAt a \<noteq> None \<or> aExitCode a \<noteq> None \<or> aCompletion a \<noteq> CompletionNone
         then Inl [Execution_ErrInvalidAttempt] else Inr ()
     | StatusCompleted \<Rightarrow>
         if aFinishedAt a = None \<or> aCompletion a = CompletionNone then Inl [Execution_ErrInvalidAttempt]
         else if before_opt (aFinishedAt a) (aClaimedAt a) then Inl [Execution_ErrInvalidAttempt]
         else if aProcessPID a > 0 \<and> aStartedAt a = None then Inl [Execution_ErrInvalidAttempt]
         else (case aCompletion a of
           CompletionSucceeded \<Rightarrow>
             if aExitCode a \<noteq> Some 0 \<or> aTerminationSignal a \<noteq> ''''
             then Inl [Execution_ErrInvalidAttempt] else Inr ()
         | CompletionFailed \<Rightarrow> Inr ()
         | CompletionCancelled \<Rightarrow> Inr ()
         | CompletionOther _ \<Rightarrow> Inl [Execution_ErrInvalidAttempt])
     | StatusUnknown _ \<Rightarrow> Inl [Execution_ErrInvalidAttempt]))"

record completion =
  cAt :: time
  cExitCode :: "int option"
  cTerminationSignal :: string
  cFailure :: "failure option"
  cCancelled :: bool

definition Completion_Validate :: "completion \<Rightarrow> unit result" where
  "Completion_Validate c =
    (if IsZero (cAt c) then Inl [Execution_ErrInvalidCompletion]
     else case cFailure c of
       Some f \<Rightarrow>
         if cCancelled c then Inl [Execution_ErrInvalidCompletion]
         else wrap Execution_ErrInvalidCompletion (Failure_Validate f)
     | None \<Rightarrow>
         if cCancelled c then Inr ()
         else if cExitCode c \<noteq> Some 0 \<or> cTerminationSignal c \<noteq> ''''
         then Inl [Execution_ErrInvalidCompletion]
         else Inr ())"

definition Kind :: "completion \<Rightarrow> completion_kind" where
  "Kind c = (if cCancelled c then CompletionCancelled
     else if cFailure c \<noteq> None then CompletionFailed else CompletionSucceeded)"

section \<open>Facts\<close>

lemma Status_status_string [simp]: "Status (status_string s) = s \<longleftrightarrow>
    (\<forall>v. s = StatusUnknown v \<longrightarrow> v \<notin> {''starting'', ''running'', ''completed''})"
  by (cases s) (auto simp: Status_def status_string_def)

lemma status_string_Status [simp]: "status_string (Status v) = v"
  by (simp add: Status_def status_string_def)

lemma completion_string_CompletionKind [simp]: "completion_string (CompletionKind v) = v"
  by (simp add: CompletionKind_def completion_string_def)

lemma CompletionKind_string [simp]:
  "CompletionKind ''succeeded'' = CompletionSucceeded" "CompletionKind ''failed'' = CompletionFailed"
  "CompletionKind ''cancelled'' = CompletionCancelled" "CompletionKind '''' = CompletionNone"
  by (simp_all add: CompletionKind_def)

lemma Status_string [simp]:
  "Status ''starting'' = StatusStarting" "Status ''running'' = StatusRunning"
  "Status ''completed'' = StatusCompleted"
  by (simp_all add: Status_def)

lemma before_opt_simps [simp]: "\<not> before_opt None u" "before_opt (Some t) u \<longleftrightarrow> t < u"
  by (simp_all add: before_opt_def)

lemma Kind_cases: "Kind c \<in> {CompletionSucceeded, CompletionFailed, CompletionCancelled}"
  by (simp add: Kind_def)

lemma CompletionKind_Kind [simp]: "CompletionKind (completion_string (Kind c)) = Kind c"
  using Kind_cases [of c] by (auto simp: completion_string_def)

text \<open>The fields common to every valid attempt, and the form of each status.\<close>

definition attempt_base :: "attempt \<Rightarrow> bool" where
  "attempt_base a \<longleftrightarrow> ID_Valid (aJobID a) \<and> 0 < aRunnerPID a \<and> \<not> IsZero (aClaimedAt a)
     \<and> \<not> IsZero (aHeartbeatAt a) \<and> aClaimedAt a \<le> aHeartbeatAt a
     \<and> \<not> before_opt (aCancelRequestedAt a) (aClaimedAt a)"

lemma Attempt_Validate_base: "Attempt_Validate a = Inr () \<Longrightarrow> attempt_base a"
  by (auto simp: Attempt_Validate_def attempt_base_def not_less split: if_splits)

lemma Attempt_Validate_starting:
  "aStatus a = StatusStarting \<Longrightarrow> Attempt_Validate a = Inr () \<longleftrightarrow> attempt_base a \<and> aProcessPID a = 0
     \<and> aStartedAt a = None \<and> aFinishedAt a = None \<and> aExitCode a = None \<and> aTerminationSignal a = ''''
     \<and> aCompletion a = CompletionNone"
  by (auto simp: Attempt_Validate_def attempt_base_def not_less)

lemma Attempt_Validate_running:
  "aStatus a = StatusRunning \<Longrightarrow> Attempt_Validate a = Inr () \<longleftrightarrow> attempt_base a \<and> 0 < aProcessPID a
     \<and> aStartedAt a \<noteq> None \<and> \<not> before_opt (aStartedAt a) (aClaimedAt a) \<and> aFinishedAt a = None
     \<and> aExitCode a = None \<and> aCompletion a = CompletionNone"
  by (auto simp: Attempt_Validate_def attempt_base_def not_less)

lemma Attempt_Validate_completed:
  "aStatus a = StatusCompleted \<Longrightarrow> Attempt_Validate a = Inr () \<longleftrightarrow> attempt_base a
     \<and> aFinishedAt a \<noteq> None \<and> \<not> before_opt (aFinishedAt a) (aClaimedAt a)
     \<and> (0 < aProcessPID a \<longrightarrow> aStartedAt a \<noteq> None)
     \<and> aCompletion a \<in> {CompletionSucceeded, CompletionFailed, CompletionCancelled}
     \<and> (aCompletion a = CompletionSucceeded \<longrightarrow> aExitCode a = Some 0 \<and> aTerminationSignal a = '''')"
  by (auto simp: Attempt_Validate_def attempt_base_def not_less split: completion_kind.splits)

lemma Attempt_Validate_status:
  "Attempt_Validate a = Inr () \<Longrightarrow> aStatus a \<in> {StatusStarting, StatusRunning, StatusCompleted}"
  by (cases "aStatus a") (auto simp: Attempt_Validate_def split: if_splits)

lemmas Attempt_Validate_iffs =
  Attempt_Validate_starting Attempt_Validate_running Attempt_Validate_completed

lemma Completion_Validate_iff:
  "Completion_Validate c = Inr () \<longleftrightarrow> \<not> IsZero (cAt c) \<and>
    (case Kind c of
       CompletionCancelled \<Rightarrow> cFailure c = None
     | CompletionFailed \<Rightarrow> (\<exists>f. cFailure c = Some f \<and> fCode f \<noteq> '''' \<and> fMessage f \<noteq> '''')
     | _ \<Rightarrow> cExitCode c = Some 0 \<and> cTerminationSignal c = '''')"
  by (auto simp: Completion_Validate_def Kind_def Failure_Validate_def result_simps
      split: option.splits if_splits)

text \<open>Completing a valid attempt with a valid completion that is not earlier gives a valid attempt.\<close>

definition completed_attempt :: "attempt \<Rightarrow> completion \<Rightarrow> attempt" where
  "completed_attempt a c = a\<lparr>aStatus := StatusCompleted, aHeartbeatAt := cAt c,
     aFinishedAt := Some (cAt c), aExitCode := cExitCode c,
     aTerminationSignal := cTerminationSignal c, aCompletion := Kind c\<rparr>"

lemma completed_attempt_valid:
  assumes "Attempt_Validate a = Inr ()" "aStatus a \<noteq> StatusCompleted"
    "Completion_Validate c = Inr ()" "aHeartbeatAt a \<le> cAt c"
  shows "Attempt_Validate (completed_attempt a c) = Inr ()"
proof -
  have base: "attempt_base a" using assms(1) by (rule Attempt_Validate_base)
  have "aStatus a = StatusStarting \<or> aStatus a = StatusRunning"
    using Attempt_Validate_status [OF assms(1)] assms(2) by auto
  then have "0 < aProcessPID a \<longrightarrow> aStartedAt a \<noteq> None"
    using assms(1) Attempt_Validate_starting [of a] Attempt_Validate_running [of a] by auto
  moreover have "\<not> IsZero (cAt c)" "Kind c = CompletionSucceeded \<longrightarrow>
      cExitCode c = Some 0 \<and> cTerminationSignal c = ''''"
    using assms(3) by (auto simp: Completion_Validate_iff)
  ultimately show ?thesis
    using base assms(4) Kind_cases [of c]
    by (auto simp: Attempt_Validate_completed completed_attempt_def attempt_base_def)
qed

lemma running_attempt_valid:
  assumes "Attempt_Validate a = Inr ()" "aStatus a = StatusStarting" "0 < p" "aClaimedAt a \<le> t" "\<not> IsZero t"
  shows "Attempt_Validate (a\<lparr>aStatus := StatusRunning, aProcessPID := p, aStartedAt := Some t,
    aHeartbeatAt := t\<rparr>) = Inr ()"
  using assms by (auto simp: Attempt_Validate_iffs attempt_base_def)

lemma touched_attempt_valid:
  assumes "Attempt_Validate a = Inr ()" "\<not> IsZero h" "aClaimedAt a \<le> h" "\<not> before_opt c (aClaimedAt a)"
  shows "Attempt_Validate (a\<lparr>aHeartbeatAt := h, aCancelRequestedAt := c\<rparr>) = Inr ()"
proof -
  have b: "attempt_base (a\<lparr>aHeartbeatAt := h, aCancelRequestedAt := c\<rparr>)"
    using Attempt_Validate_base [OF assms(1)] assms(2-) by (simp add: attempt_base_def)
  consider "aStatus a = StatusStarting" | "aStatus a = StatusRunning" | "aStatus a = StatusCompleted"
    using Attempt_Validate_status [OF assms(1)] by blast
  then show ?thesis
    using assms(1) b by cases (simp_all add: Attempt_Validate_iffs)
qed

end
