(* ===== verification/Database.thy ===== *)
theory Database
  imports Execution
begin

text \<open>
  The job tables of \<open>internal/infra/sqlite/migrations\<close> as records, one field per column, with their
  \<open>CHECK\<close> constraints as predicates, and the database as the record of its tables. Statements are
  atomic; a transaction that returns an error before its commit leaves the database as it was
  (\<open>transact\<close>). Cancelled contexts and faults of the storage device are not modelled.

  A JSON column holds the value its text denotes. \<open>encoding/json\<close> replaces each byte that is not
  UTF-8 by U+FFFD (\<open>json_coerce\<close>) and writes maps sorted by key; \<open>json_length\<close> is the number of
  characters of the text of a list of strings.
\<close>

section \<open>JSON columns\<close>

definition json_coerce :: "string \<Rightarrow> string" where
  "json_coerce s = concat (map (\<lambda>(r, bs). case r of None \<Rightarrow> encode_rune 0xFFFD | Some _ \<Rightarrow> bs) (runes s))"

definition json_rune_length :: "nat option \<Rightarrow> nat" where
  "json_rune_length r =
    (case r of None \<Rightarrow> 6
     | Some v \<Rightarrow>
        if v \<in> set [0x22, 0x5C, 0x08, 0x0C, 0x0A, 0x0D, 0x09] then 2
        else if v < 0x20 \<or> v \<in> set [0x3C, 0x3E, 0x26, 0x2028, 0x2029] then 6
        else 1)"

definition json_string_length :: "string \<Rightarrow> nat" where
  "json_string_length s = 2 + sum_list (map (\<lambda>(r, _). json_rune_length r) (runes s))"

definition json_length :: "string list \<Rightarrow> nat" where
  "json_length xs = 2 + sum_list (map json_string_length xs) + (length xs - 1)"

definition json_list :: "string list \<Rightarrow> string list" where
  "json_list = map json_coerce"

fun map_update :: "'k \<Rightarrow> 'v \<Rightarrow> ('k \<times> 'v) list \<Rightarrow> ('k \<times> 'v) list" where
  "map_update k v [] = [(k, v)]"
| "map_update k v ((k', w) # m) = (if k' = k then (k, v) # m else (k', w) # map_update k v m)"

definition json_map :: "(string \<times> string) list \<Rightarrow> (string \<times> string) list" where
  "json_map env =
    fold (\<lambda>(k, v). map_update (json_coerce k) (json_coerce v)) (sort_key fst env) []"

section \<open>Rows\<close>

record job_row =
  r_id :: string
  r_executable :: string
  r_arguments :: "string list"
  r_working_directory :: string
  r_environment :: "(string \<times> string) list"
  r_executor :: string
  r_container_image :: string
  r_outputs :: "string list"
  r_required_tools :: "string list"
  r_required_tools_length :: nat
  r_state :: string
  r_created_at_ns :: int
  r_updated_at_ns :: int
  r_failure_code :: "string option"
  r_failure_message :: "string option"
  r_failure_retryable :: "bool option"

definition job_state_names :: "string list" where
  "job_state_names = [''created'', ''validating'', ''queued'', ''snapshotting'', ''transferring'',
     ''starting'', ''running'', ''collecting'', ''restoring'', ''succeeded'', ''failed'', ''cancelled'',
     ''rejected'', ''lost'']"

definition failing_state_names :: "string list" where
  "failing_state_names = [''failed'', ''rejected'', ''lost'']"

definition job_row_check :: "job_row \<Rightarrow> bool" where
  "job_row_check r \<longleftrightarrow>
     r_executor r \<in> set [''native'', ''container''] \<and>
     r_state r \<in> set job_state_names \<and>
     2 \<le> r_required_tools_length r \<and> r_required_tools_length r \<le> 8192 \<and>
     r_created_at_ns r \<le> r_updated_at_ns r \<and>
     (if r_state r \<in> set failing_state_names
      then r_failure_code r \<noteq> None \<and> r_failure_message r \<noteq> None \<and> r_failure_retryable r \<noteq> None
      else r_failure_code r = None \<and> r_failure_message r = None \<and> r_failure_retryable r = None)"

record progress_row =
  p_job_id :: string
  p_phase :: string
  p_completed_bytes :: int
  p_total_bytes :: int
  p_updated_at_ns :: int

definition progress_row_check :: "progress_row \<Rightarrow> bool" where
  "progress_row_check r \<longleftrightarrow>
     length (p_job_id r) = 36 \<and>
     p_phase r \<in> set [''snapshot'', ''upload'', ''download'', ''restore'', ''collect''] \<and>
     0 \<le> p_completed_bytes r \<and> 0 < p_total_bytes r \<and> 0 < p_updated_at_ns r \<and>
     p_completed_bytes r \<le> p_total_bytes r"

record transition_row =
  tr_job_id :: string
  tr_from_state :: string
  tr_to_state :: string
  tr_at_ns :: int
  tr_failure_code :: "string option"
  tr_failure_message :: "string option"
  tr_failure_retryable :: "bool option"

record execution_row =
  e_job_id :: string
  e_status :: string
  e_runner_pid :: int
  e_process_pid :: "int option"
  e_claimed_at_ns :: int
  e_started_at_ns :: "int option"
  e_heartbeat_at_ns :: int
  e_cancel_requested_at_ns :: "int option"
  e_finished_at_ns :: "int option"
  e_exit_code :: "int option"
  e_termination_signal :: string
  e_completion :: string
  e_log_bytes :: int
  e_next_log_sequence :: int

definition execution_row_check :: "execution_row \<Rightarrow> bool" where
  "execution_row_check r \<longleftrightarrow>
     e_status r \<in> set [''starting'', ''running'', ''completed''] \<and>
     0 < e_runner_pid r \<and>
     (case e_process_pid r of None \<Rightarrow> True | Some p \<Rightarrow> 0 < p) \<and>
     e_completion r \<in> set ['''', ''succeeded'', ''failed'', ''cancelled''] \<and>
     0 \<le> e_log_bytes r \<and> 0 < e_next_log_sequence r \<and>
     e_claimed_at_ns r \<le> e_heartbeat_at_ns r \<and>
     (case e_cancel_requested_at_ns r of None \<Rightarrow> True | Some t \<Rightarrow> e_claimed_at_ns r \<le> t) \<and>
     (e_status r = ''starting'' \<and> e_process_pid r = None \<and> e_started_at_ns r = None
        \<and> e_finished_at_ns r = None \<and> e_completion r = ''''
      \<or> e_status r = ''running'' \<and> e_process_pid r \<noteq> None \<and> e_started_at_ns r \<noteq> None
        \<and> e_finished_at_ns r = None \<and> e_completion r = ''''
      \<or> e_status r = ''completed'' \<and> e_finished_at_ns r \<noteq> None \<and> e_completion r \<noteq> '''')"

record log_row =
  l_job_id :: string
  l_sequence :: int
  l_stream :: string
  l_data_offset :: int
  l_data_length :: int
  l_at_ns :: int

definition log_row_check :: "log_row \<Rightarrow> bool" where
  "log_row_check r \<longleftrightarrow> 0 < l_sequence r \<and> l_stream r \<in> set [''stdout'', ''stderr''] \<and>
     0 \<le> l_data_offset r \<and> 0 < l_data_length r \<and> l_data_length r \<le> 16384"

record db =
  jobs :: "job_row list"
  job_progress :: "progress_row list"
  job_transitions :: "transition_row list"
  job_executions :: "execution_row list"
  job_log_records :: "log_row list"

definition empty_db :: db where
  "empty_db = \<lparr>jobs = [], job_progress = [], job_transitions = [], job_executions = [],
     job_log_records = []\<rparr>"

text \<open>A transaction: the body's database on success, the original one on an error.\<close>

definition transact :: "'d \<Rightarrow> ('d \<times> 'a) result \<Rightarrow> 'd \<times> 'a result" where
  "transact d r = (case r of Inl e \<Rightarrow> (d, Inl e) | Inr (d', x) \<Rightarrow> (d', Inr x))"

section \<open>Facts\<close>

lemma transact_simps [simp]:
  "transact d (Inl e) = (d, Inl e)" "transact d (Inr (d', x)) = (d', Inr x)"
  by (simp_all add: transact_def)

lemma transact_Inr_iff: "transact d r = (d', Inr x) \<longleftrightarrow> r = Inr (d', x)"
  by (auto simp: transact_def split: sum.splits)

lemma transact_Inl_iff: "transact d r = (d', Inl e) \<longleftrightarrow> r = Inl e \<and> d' = d"
  by (auto simp: transact_def split: sum.splits)

lemma json_coerce_valid [simp]: "ValidString s \<Longrightarrow> json_coerce s = s"
proof -
  assume "ValidString s"
  then have "map (\<lambda>(r, bs). case r of None \<Rightarrow> encode_rune 0xFFFD | Some _ \<Rightarrow> bs) (runes s) = map snd (runes s)"
    by (auto simp: ValidString_def list_all_iff split: option.splits)
  then show ?thesis by (simp only: json_coerce_def runes_bytes)
qed

lemma json_list_valid [simp]: "list_all ValidString xs \<Longrightarrow> json_list xs = xs"
  by (auto simp: json_list_def list_all_iff intro: map_idI)

lemma map_update_new: "k \<notin> fst ` set m \<Longrightarrow> map_update k v m = m @ [(k, v)]"
  by (induction m) auto

lemma fold_map_update_new:
  "distinct (map fst (m @ env)) \<Longrightarrow> fold (\<lambda>(k, v). map_update k v) env m = m @ env"
proof (induction env arbitrary: m)
  case (Cons e env)
  then show ?case by (cases e) (auto simp: map_update_new)
qed simp

text \<open>An environment in canonical form (UTF-8, strictly sorted by name) is stored as it is.\<close>

definition canonical_env :: "(string \<times> string) list \<Rightarrow> bool" where
  "canonical_env env \<longleftrightarrow> sorted (map fst env) \<and> distinct (map fst env)
     \<and> list_all (\<lambda>(k, v). ValidString k \<and> ValidString v) env"

lemma json_map_canonical [simp]: assumes "canonical_env env" shows "json_map env = env"
proof -
  have s: "sort_key fst env = env" using assms by (simp add: canonical_env_def sorted_sort_id sort_key_id_if_sorted)
  have "fold (\<lambda>(k, v). map_update (json_coerce k) (json_coerce v)) env m
      = fold (\<lambda>(k, v). map_update k v) env m" for m
    by (rule fold_cong) (use assms in \<open>auto simp: canonical_env_def list_all_iff\<close>)
  then show ?thesis
    using fold_map_update_new [of "[]" env] assms by (simp add: json_map_def s canonical_env_def)
qed

end
