(* ===== verification/JobInterface.thy ===== *)
theory JobInterface
  imports Execution
begin

text \<open>
  \<open>internal/job/repository.go\<close>: the interfaces \<open>job.Repository\<close> and \<open>job.ProgressRepository\<close> as the
  record of their methods on an abstract store, and the contract their clients rely on as the locale
  \<open>job_repository\<close>: what a read returns after a create or a transition, that a create of a known
  identifier and a transition from another state than the stored one are conflicts, and that both leave
  the store as it was. The locale \<open>worker_store\<close> adds the cancellation request of
  \<open>worker.ExecutionController\<close>.
\<close>

record 'd job_store =
  st_Create :: "job \<Rightarrow> 'd \<Rightarrow> 'd \<times> unit result"
  st_Get :: "'d \<Rightarrow> job_id \<Rightarrow> job result"
  st_List :: "'d \<Rightarrow> state list \<Rightarrow> int \<Rightarrow> job list result"
  st_Apply :: "transition \<Rightarrow> 'd \<Rightarrow> 'd \<times> job result"
  st_SetProgress :: "job_id \<Rightarrow> progress \<Rightarrow> 'd \<Rightarrow> 'd \<times> unit result"
  st_GetProgress :: "'d \<Rightarrow> job_id \<Rightarrow> progress option result"

locale job_repository =
  fixes U :: casing
    and S :: "'d job_store"
    and inv :: "'d \<Rightarrow> bool"
    and keeps :: "job \<Rightarrow> bool"
  assumes get_valid: "inv d \<Longrightarrow> st_Get S d i = Inr v \<Longrightarrow> jID v = i \<and> Job_Validate U v = Inr () \<and> nano_ok (jUpdatedAt v)"
    and get_missing: "inv d \<Longrightarrow> ID_Valid i \<Longrightarrow> (\<exists>v. st_Get S d i = Inr v) \<or> st_Get S d i = Inl [Job_ErrNotFound]"
    and create_ok: "inv d \<Longrightarrow> Job_Validate U j = Inr () \<Longrightarrow> jState j = StateCreated \<Longrightarrow> keeps j \<Longrightarrow>
      st_Get S d (jID j) = Inl [Job_ErrNotFound] \<Longrightarrow>
      \<exists>d' p. st_Create S j d = (d', Inr ()) \<and> inv d' \<and> st_Get S d' (jID j) = Inr (j\<lparr>jProgress := p\<rparr>)
        \<and> (\<forall>i. i \<noteq> jID j \<longrightarrow> st_Get S d' i = st_Get S d i)"
    and create_duplicate: "inv d \<Longrightarrow> st_Get S d (jID j) = Inr v \<Longrightarrow> Job_Validate U j = Inr () \<Longrightarrow>
      jState j = StateCreated \<Longrightarrow> st_Create S j d = (d, Inl [Job_ErrConflict])"
    and apply_ok: "inv d \<Longrightarrow> st_Get S d (tJobID t) = Inr v \<Longrightarrow>
      Apply U v (tTo t) (tAt t) (tFailure t) = Inr (v', t) \<Longrightarrow> nano_ok (tAt t) \<Longrightarrow>
      \<exists>d'. st_Apply S t d = (d', Inr v') \<and> inv d' \<and> st_Get S d' (tJobID t) = Inr v'
        \<and> (\<forall>i. i \<noteq> tJobID t \<longrightarrow> st_Get S d' i = st_Get S d i)"
    and apply_conflict: "inv d \<Longrightarrow> st_Get S d (tJobID t) = Inr v \<Longrightarrow> jState v \<noteq> tFrom t \<Longrightarrow>
      CanTransition (tFrom t) (tTo t) \<Longrightarrow> st_Apply S t d = (d, Inl [Job_ErrConflict])"

locale worker_store = job_repository +
  fixes request :: "job_id \<Rightarrow> time \<Rightarrow> 'a \<Rightarrow> 'a \<times> unit result"
    and att :: "'a \<Rightarrow> job_id \<Rightarrow> attempt result"
    and cust :: "'a \<Rightarrow> bool"
  assumes cust_inv: "cust d \<Longrightarrow> inv d"
    and cust_attempt: "cust d \<Longrightarrow> st_Get S d i = Inr v \<Longrightarrow>
      jState v \<in> {StateStarting, StateRunning, StateCollecting} \<Longrightarrow>
      \<exists>a. att d i = Inr a \<and> aStatus a \<noteq> StatusCompleted"
    and request_ok: "cust d \<Longrightarrow> att d i = Inr a \<Longrightarrow> aStatus a \<noteq> StatusCompleted \<Longrightarrow> nano_ok at \<Longrightarrow>
      aClaimedAt a \<le> at \<Longrightarrow>
      \<exists>d' a'. request i at d = (d', Inr ()) \<and> cust d' \<and> att d' i = Inr a' \<and> aCancelRequestedAt a' \<noteq> None
        \<and> (\<forall>k. st_Get S d' k = st_Get S d k)"

end
