(* ===== verification/JobRepository.thy ===== *)
theory JobRepository
  imports Database JobInterface
begin

text \<open>
  \<open>internal/infra/sqlite/job_repository.go\<close>: the job repository on the database. Every operation
  returns the database after it and its result; \<open>scanJob\<close> decodes and revalidates a stored row.
  The lemmas give the round trip of rows, the effect of each operation on what \<open>Get\<close> returns, and
  the invariant \<open>jobs_ok\<close>: every stored row decodes and the transition log of each job replays to
  its state.
\<close>

section \<open>Rows and jobs\<close>

definition defaultListLimit :: int where "defaultListLimit = 100"
definition maximumListLimit :: int where "maximumListLimit = 500"

definition executor_string :: "executor \<Rightarrow> string" where
  "executor_string x = (case x of ExecutorNative \<Rightarrow> ''native'' | ExecutorContainer \<Rightarrow> ''container''
     | ExecutorUnknown v \<Rightarrow> v)"

definition Executor_of :: "string \<Rightarrow> executor" where
  "Executor_of v = (if v = ''native'' then ExecutorNative else if v = ''container'' then ExecutorContainer
     else ExecutorUnknown v)"

definition encode_job :: "job \<Rightarrow> job_row" where
  "encode_job j = \<lparr>r_id = jID j, r_executable = Executable (jSpec j),
     r_arguments = json_list (Arguments (jSpec j)),
     r_working_directory = WorkingDirectory (jSpec j),
     r_environment = json_map (Environment (jSpec j)),
     r_executor = executor_string (Executor (jSpec j)),
     r_container_image = ContainerImage (jSpec j),
     r_outputs = json_list (Outputs (jSpec j)),
     r_required_tools = json_list (RequiredToolIDs (jSpec j)),
     r_required_tools_length = json_length (RequiredToolIDs (jSpec j)),
     r_state = state_string (jState j),
     r_created_at_ns = UnixNano (jCreatedAt j), r_updated_at_ns = UnixNano (jUpdatedAt j),
     r_failure_code = map_option fCode (jFailure j),
     r_failure_message = map_option fMessage (jFailure j),
     r_failure_retryable = map_option fRetryable (jFailure j)\<rparr>"

definition decodeFailure :: "string option \<Rightarrow> string option \<Rightarrow> bool option \<Rightarrow> failure option result" where
  "decodeFailure code message retryable =
    (case (code, message, retryable) of
       (None, None, None) \<Rightarrow> Inr None
     | (Some c, Some m, Some r) \<Rightarrow> Inr (Some \<lparr>fCode = c, fMessage = m, fRetryable = r\<rparr>)
     | _ \<Rightarrow> Inl [])"

definition decodeProgressValues :: "string \<Rightarrow> int \<Rightarrow> int \<Rightarrow> int \<Rightarrow> progress result" where
  "decodeProgressValues phase completed allbytes updated =
    ebind (ParseProgressPhase phase) (\<lambda>p.
      let v = \<lparr>pPhase = p, pCompletedBytes = completed, pTotalBytes = allbytes, pUpdatedAt = updated\<rparr>
      in ebind (Progress_Validate v) (\<lambda>_. Inr v))"

definition decodeProgress :: "progress_row option \<Rightarrow> progress option result" where
  "decodeProgress row =
    (case row of None \<Rightarrow> Inr None
     | Some r \<Rightarrow> ebind (decodeProgressValues (p_phase r) (p_completed_bytes r) (p_total_bytes r)
         (p_updated_at_ns r)) (\<lambda>p. Inr (Some p)))"

definition scanJob :: "casing \<Rightarrow> job_row \<Rightarrow> progress_row option \<Rightarrow> job result" where
  "scanJob U r prow =
    ebind (ParseID (r_id r)) (\<lambda>i.
    ebind (ParseState (r_state r)) (\<lambda>s.
    ebind (decodeFailure (r_failure_code r) (r_failure_message r) (r_failure_retryable r)) (\<lambda>f.
    ebind (decodeProgress prow) (\<lambda>p.
    let v = \<lparr>jID = i,
        jSpec = \<lparr>Executable = r_executable r, Arguments = r_arguments r,
          WorkingDirectory = r_working_directory r, Environment = r_environment r,
          Executor = Executor_of (r_executor r), ContainerImage = r_container_image r,
          Outputs = r_outputs r, RequiredToolIDs = r_required_tools r\<rparr>,
        jState = s, jCreatedAt = r_created_at_ns r, jUpdatedAt = r_updated_at_ns r,
        jFailure = f, jProgress = p\<rparr>
    in ebind (Job_Validate U v) (\<lambda>_. Inr v)))))"

section \<open>Operations\<close>

definition queryJob :: "casing \<Rightarrow> db \<Rightarrow> job_id \<Rightarrow> job result" where
  "queryJob U d i =
    (case row_with r_id i (jobs d) of
       None \<Rightarrow> Inl [Sqlite_ErrNoRows]
     | Some r \<Rightarrow> scanJob U r (row_with p_job_id i (job_progress d)))"

definition Job_Create :: "casing \<Rightarrow> job \<Rightarrow> db \<Rightarrow> db \<times> unit result" where
  "Job_Create U v d =
    transact d (
      ebind (Job_Validate U v) (\<lambda>_.
      if jState v \<noteq> StateCreated then Inl [Job_ErrInvalidJob]
      else ebind (remap Sqlite_ErrConstraint Job_ErrConflict
          (sql_insert job_row_check r_id (encode_job v) (jobs d))) (\<lambda>rows.
        Inr (d\<lparr>jobs := rows\<rparr>, ()))))"

definition Job_Get :: "casing \<Rightarrow> db \<Rightarrow> job_id \<Rightarrow> job result" where
  "Job_Get U d i =
    (if \<not> ID_Valid i then Inl [Job_ErrInvalidID]
     else remap Sqlite_ErrNoRows Job_ErrNotFound (queryJob U d i))"

definition normalizeListOptions :: "state list \<Rightarrow> int \<Rightarrow> int result" where
  "normalizeListOptions states limit =
    (if limit < 0 then Inl [Sqlite_ErrInvalidListOptions]
     else if limit > maximumListLimit then Inl [Sqlite_ErrInvalidListOptions]
     else if list_ex (\<lambda>s. \<not> State_Valid s) states
     then Inl [Sqlite_ErrInvalidListOptions, Job_ErrInvalidState]
     else Inr (if limit = 0 then defaultListLimit else limit))"

definition Job_List :: "casing \<Rightarrow> db \<Rightarrow> state list \<Rightarrow> int \<Rightarrow> job list result" where
  "Job_List U d states limit =
    ebind (normalizeListOptions states limit) (\<lambda>n.
      let chosen = (if states = [] then jobs d
            else filter (\<lambda>r. r_state r \<in> set (map state_string states)) (jobs d));
          ordered = sort_key (\<lambda>r. (- r_updated_at_ns r, r_id r)) chosen
      in collect (\<lambda>r. scanJob U r (row_with p_job_id (r_id r) (job_progress d)))
           (take (nat n) ordered))"

definition progress_row_of :: "job_id \<Rightarrow> progress \<Rightarrow> progress_row" where
  "progress_row_of i p = \<lparr>p_job_id = i, p_phase = phase_string (pPhase p),
     p_completed_bytes = pCompletedBytes p, p_total_bytes = pTotalBytes p,
     p_updated_at_ns = UnixNano (pUpdatedAt p)\<rparr>"

definition SetProgress :: "job_id \<Rightarrow> progress \<Rightarrow> db \<Rightarrow> db \<times> unit result" where
  "SetProgress i p d =
    transact d (
      if \<not> ID_Valid i then Inl [Job_ErrInvalidID]
      else ebind (Progress_Validate p) (\<lambda>_.
        ebind (sql_upsert progress_row_check p_job_id (progress_row_of i p) (job_progress d)) (\<lambda>rows.
          Inr (d\<lparr>job_progress := rows\<rparr>, ()))))"

definition GetProgress :: "db \<Rightarrow> job_id \<Rightarrow> progress option result" where
  "GetProgress d i =
    (if \<not> ID_Valid i then Inl [Job_ErrInvalidID]
     else decodeProgress (row_with p_job_id i (job_progress d)))"

definition ClearProgress :: "job_id \<Rightarrow> db \<Rightarrow> db \<times> unit result" where
  "ClearProgress i d =
    (if \<not> ID_Valid i then (d, Inl [Job_ErrInvalidID])
     else (d\<lparr>job_progress := filter (\<lambda>r. p_job_id r \<noteq> i) (job_progress d)\<rparr>, Inr ()))"

definition transition_row_of :: "transition \<Rightarrow> transition_row" where
  "transition_row_of t = \<lparr>tr_job_id = tJobID t, tr_from_state = state_string (tFrom t),
     tr_to_state = state_string (tTo t), tr_at_ns = UnixNano (tAt t),
     tr_failure_code = map_option fCode (tFailure t),
     tr_failure_message = map_option fMessage (tFailure t),
     tr_failure_retryable = map_option fRetryable (tFailure t)\<rparr>"

definition set_state :: "job \<Rightarrow> job_row \<Rightarrow> job_row" where
  "set_state v r = r\<lparr>r_state := state_string (jState v), r_updated_at_ns := UnixNano (jUpdatedAt v),
     r_failure_code := map_option fCode (jFailure v),
     r_failure_message := map_option fMessage (jFailure v),
     r_failure_retryable := map_option fRetryable (jFailure v)\<rparr>"

definition applyJobTransition :: "casing \<Rightarrow> transition \<Rightarrow> db \<Rightarrow> (db \<times> job) result" where
  "applyJobTransition U t d =
    ebind (remap Sqlite_ErrNoRows Job_ErrNotFound (queryJob U d (tJobID t))) (\<lambda>current.
        if jState current \<noteq> tFrom t then Inl [Job_ErrConflict]
        else ebind (Apply U current (tTo t) (tAt t) (tFailure t)) (\<lambda>(next, accepted).
          ebind (sql_update job_row_check
            (\<lambda>r. r_id r = jID current \<and> (r_state r = state_string (jState current)
                \<and> r_updated_at_ns r = UnixNano (jUpdatedAt current)))
            (set_state next) (jobs d)) (\<lambda>(rows, updated).
          if updated \<noteq> 1 then Inl [Job_ErrConflict]
          else Inr (d\<lparr>jobs := rows,
                      job_transitions := job_transitions d @ [transition_row_of accepted]\<rparr>, next))))"

definition ApplyTransition :: "casing \<Rightarrow> transition \<Rightarrow> db \<Rightarrow> db \<times> job result" where
  "ApplyTransition U t d =
    transact d (
      if \<not> ID_Valid (tJobID t) then Inl [Job_ErrInvalidID]
      else ebind (ValidateTransition (tFrom t) (tTo t)) (\<lambda>_. applyJobTransition U t d))"

section \<open>Round trip of rows\<close>

definition storable :: "job \<Rightarrow> bool" where
  "storable j \<longleftrightarrow> nano_ok (jCreatedAt j) \<and> nano_ok (jUpdatedAt j)
     \<and> list_all ValidString (Arguments (jSpec j)) \<and> list_all ValidString (Outputs (jSpec j))
     \<and> list_all ValidString (RequiredToolIDs (jSpec j)) \<and> canonical_env (Environment (jSpec j))
     \<and> json_length (RequiredToolIDs (jSpec j)) \<le> 8192"

lemma executor_inverse [simp]: "Executor_of (executor_string x) = x \<longleftrightarrow>
    (\<forall>v. x = ExecutorUnknown v \<longrightarrow> v \<notin> {''native'', ''container''})"
  by (cases x) (auto simp: Executor_of_def executor_string_def)

lemma decodeFailure_encode [simp]:
  "decodeFailure (map_option fCode f) (map_option fMessage f) (map_option fRetryable f) = Inr f"
  by (cases f) (simp_all add: decodeFailure_def)

lemma decodeFailure_InrD: "decodeFailure c m r = Inr f \<Longrightarrow>
    c = map_option fCode f \<and> m = map_option fMessage f \<and> r = map_option fRetryable f"
  by (auto simp: decodeFailure_def split: option.splits)

lemma Spec_Validate_executor: "Spec_Validate U s = Inr () \<Longrightarrow> Executor s \<in> {ExecutorNative, ExecutorContainer}"
  by (auto simp: Spec_Validate_def validate_executor_def result_simps split: if_splits executor.splits)

lemma ParseState_string [simp]: "State_Valid s \<Longrightarrow> ParseState (state_string s) = Inr s"
  by (simp add: ParseState_def state_string_inverse Let_def del: State_Valid_iff)

lemma ParseState_InrD: "ParseState v = Inr s \<Longrightarrow> s = State v \<and> State_Valid s"
  by (auto simp: ParseState_def Let_def simp del: State_Valid_iff split: if_splits)

lemma state_string_State [simp]: "state_string (State v) = v"
  by (auto simp: State_def state_string_def state_strings_def)

lemma scanJob_encode:
  assumes "Job_Validate U j = Inr ()" "storable j"
  shows "scanJob U (encode_job j) None = Inr (j\<lparr>jProgress := None\<rparr>)"
proof -
  have valid: "Job_Validate U (j\<lparr>jProgress := None\<rparr>) = Inr ()" "ID_Valid (jID j)" "State_Valid (jState j)"
    "Executor (jSpec j) \<in> {ExecutorNative, ExecutorContainer}"
    using assms(1) Spec_Validate_executor by (auto simp: Job_Validate_iff)
  then have x: "Executor_of (executor_string (Executor (jSpec j))) = Executor (jSpec j)" by auto
  have j: "\<lparr>jID = jID j, jSpec = \<lparr>Executable = Executable (jSpec j), Arguments = Arguments (jSpec j),
      WorkingDirectory = WorkingDirectory (jSpec j), Environment = Environment (jSpec j),
      Executor = Executor (jSpec j), ContainerImage = ContainerImage (jSpec j),
      Outputs = Outputs (jSpec j), RequiredToolIDs = RequiredToolIDs (jSpec j)\<rparr>,
      jState = jState j, jCreatedAt = jCreatedAt j, jUpdatedAt = jUpdatedAt j,
      jFailure = jFailure j, jProgress = None\<rparr> = j\<lparr>jProgress := None\<rparr>"
    by simp
  show ?thesis using assms(2) valid x unfolding j [symmetric]
    by (simp add: scanJob_def encode_job_def storable_def ID_Valid_ParseID decodeProgress_def Let_def
        del: State_Valid_iff executor_inverse)
qed

lemma scanJob_progress:
  "scanJob U r prow = Inr j \<longleftrightarrow>
   (\<exists>p. decodeProgress prow = Inr p \<and> scanJob U r None = Inr (j\<lparr>jProgress := None\<rparr>) \<and> jProgress j = p)"
  (is "?lhs = ?rhs")
proof -
  have valid: "decodeProgress prow = Inr (Some p) \<Longrightarrow> Progress_Validate p = Inr ()" for p
    by (auto simp: decodeProgress_def decodeProgressValues_def Let_def result_simps split: option.splits)
  have upd: "Job_Validate U v = Inr () \<longleftrightarrow> Job_Validate U (v\<lparr>jProgress := None\<rparr>) = Inr ()"
    if "jProgress v = p" "decodeProgress prow = Inr p" for v p
    using that valid by (auto simp: Job_Validate_iff)
  show ?thesis
  proof
    assume ?lhs
    then show ?rhs
      using upd [of j "jProgress j"]
      by (auto simp: scanJob_def Let_def result_simps decodeProgress_def [of None])
  next
    assume ?rhs
    then obtain p where p: "decodeProgress prow = Inr p" "jProgress j = p"
      and s: "scanJob U r None = Inr (j\<lparr>jProgress := None\<rparr>)" by blast
    have "j = (j\<lparr>jProgress := None\<rparr>)\<lparr>jProgress := p\<rparr>" using p(2) by simp
    with s p upd [of j p] show ?lhs
      by (cases j) (auto simp: scanJob_def Let_def result_simps decodeProgress_def [of None])
  qed
qed

lemma scanJob_fields: "scanJob U r prow = Inr j \<Longrightarrow>
    ParseID (r_id r) = Inr (jID j) \<and> jState j = State (r_state r)
    \<and> jUpdatedAt j = r_updated_at_ns r \<and> jCreatedAt j = r_created_at_ns r \<and> Job_Validate U j = Inr ()"
  by (auto simp: scanJob_def Let_def result_simps simp del: State_Valid_iff dest!: ParseState_InrD)

lemma scanJob_ID: "scanJob U r prow = Inr j \<Longrightarrow> ID_Valid (r_id r) \<Longrightarrow> jID j = r_id r"
  using scanJob_fields [of U r prow j] by (simp add: ID_Valid_ParseID)

text \<open>What \<open>set_state\<close> does to the job a row denotes.\<close>

lemma scanJob_set_state:
  assumes "scanJob U r prow = Inr j" "CanTransition (jState j) s" "validateFailureForState s f = Inr f"
    "nano_ok (r_created_at_ns r)"
    "r_created_at_ns r \<le> UnixNano t"
  shows "scanJob U (set_state (j\<lparr>jState := s, jUpdatedAt := t, jFailure := f\<rparr>) r) prow =
    Inr (j\<lparr>jState := s, jUpdatedAt := UnixNano t, jFailure := f\<rparr>)"
proof -
  have "Job_Validate U (j\<lparr>jState := s, jUpdatedAt := UnixNano t, jFailure := f\<rparr>) = Inr ()"
    using scanJob_fields [OF assms(1)] assms(3-) CanTransition_valid [OF assms(2)]
    by (auto simp: Job_Validate_iff simp del: State_Valid_iff)
  then show ?thesis
    using assms(1) CanTransition_valid [OF assms(2)]
    by (auto simp: scanJob_def Let_def result_simps set_state_def simp del: State_Valid_iff)
qed

section \<open>Invariant\<close>

fun replays :: "string \<Rightarrow> transition_row list \<Rightarrow> string option" where
  "replays s [] = Some s"
| "replays s (t # ts) =
    (if tr_from_state t = s \<and> CanTransition (State s) (State (tr_to_state t))
     then replays (tr_to_state t) ts else None)"

definition history :: "db \<Rightarrow> job_id \<Rightarrow> transition_row list" where
  "history d i = filter (\<lambda>t. tr_job_id t = i) (job_transitions d)"

definition row_ok :: "casing \<Rightarrow> db \<Rightarrow> job_row \<Rightarrow> bool" where
  "row_ok U d r \<longleftrightarrow> job_row_check r \<and> ID_Valid (r_id r) \<and> is_ok (scanJob U r None)
     \<and> nano_ok (r_created_at_ns r) \<and> nano_ok (r_updated_at_ns r)
     \<and> replays ''created'' (history d (r_id r)) = Some (r_state r)"

definition jobs_ok :: "casing \<Rightarrow> db \<Rightarrow> bool" where
  "jobs_ok U d \<longleftrightarrow> keyed r_id (jobs d) \<and> keyed p_job_id (job_progress d)
     \<and> list_all (row_ok U d) (jobs d)
     \<and> list_all (\<lambda>p. is_ok (decodeProgress (Some p))) (job_progress d)
     \<and> list_all (\<lambda>t. row_with r_id (tr_job_id t) (jobs d) \<noteq> None) (job_transitions d)"

lemma replays_append: "replays s (ts @ us) = (case replays s ts of None \<Rightarrow> None | Some s' \<Rightarrow> replays s' us)"
  by (induction s ts rule: replays.induct) auto

lemma jobs_ok_row: "jobs_ok U d \<Longrightarrow> row_with r_id i (jobs d) = Some r \<Longrightarrow> row_ok U d r \<and> r_id r = i"
  by (auto simp: jobs_ok_def list_all_iff dest: row_with_SomeD)

lemma jobs_ok_progress: "jobs_ok U d \<Longrightarrow> is_ok (decodeProgress (row_with p_job_id i (job_progress d)))"
  by (cases "row_with p_job_id i (job_progress d)")
    (auto simp: jobs_ok_def list_all_iff decodeProgress_def [of None] dest!: row_with_SomeD)

lemma jobs_ok_query:
  assumes "jobs_ok U d" "row_with r_id i (jobs d) = Some r"
  obtains j where "queryJob U d i = Inr j" "jID j = i" "Job_Validate U j = Inr ()"
    "jState j = State (r_state r)" "jUpdatedAt j = r_updated_at_ns r"
proof -
  obtain p where p: "decodeProgress (row_with p_job_id i (job_progress d)) = Inr p"
    using jobs_ok_progress [OF assms(1), of i] by (auto simp: is_ok_iff)
  obtain b where b: "scanJob U r None = Inr b" "ID_Valid (r_id r)" "r_id r = i"
    using jobs_ok_row [OF assms] by (auto simp: row_ok_def is_ok_iff)
  have "jProgress b = None" using b(1) scanJob_progress [of U r None b] by (auto simp: decodeProgress_def)
  then have "b\<lparr>jProgress := None\<rparr> = b" by simp
  then have q: "scanJob U r (row_with p_job_id i (job_progress d)) = Inr (b\<lparr>jProgress := p\<rparr>)"
    by (intro iffD2 [OF scanJob_progress]) (simp add: p b(1))
  show thesis
  proof (rule that)
    show "queryJob U d i = Inr (b\<lparr>jProgress := p\<rparr>)" using q assms(2) by (simp add: queryJob_def)
    show "jID (b\<lparr>jProgress := p\<rparr>) = i" using scanJob_ID [OF q] b by simp
  qed (use scanJob_fields [OF q] in simp_all)
qed

lemma jobs_ok_queryD:
  assumes "jobs_ok U d" "row_with r_id i (jobs d) = Some r" "queryJob U d i = Inr j"
  shows "jID j = i" "Job_Validate U j = Inr ()" "jState j = State (r_state r)"
    "jUpdatedAt j = r_updated_at_ns r"
  using jobs_ok_query [OF assms(1,2)] assms(3) by (metis sum.inject(2))+

section \<open>Transitions on the database\<close>

lemma state_string_failing:
  "State_Valid s \<Longrightarrow> state_string s \<in> set failing_state_names \<longleftrightarrow> requiresFailure s"
  by (cases s) (simp_all add: state_string_def state_strings_def requiresFailure_def failing_state_names_def)

lemma state_string_listed: "State_Valid s \<Longrightarrow> state_string s \<in> set job_state_names"
  by (cases s) (simp_all add: state_string_def state_strings_def job_state_names_def)

lemma job_row_check_set_state:
  assumes "job_row_check r" "State_Valid (jState v)"
    "validateFailureForState (jState v) (jFailure v) = Inr (jFailure v)"
  shows "job_row_check (set_state v r) \<longleftrightarrow> r_created_at_ns r \<le> UnixNano (jUpdatedAt v)"
proof -
  have "requiresFailure (jState v) \<longleftrightarrow> jFailure v \<noteq> None"
    using assms(3) by (auto simp: validateFailureForState_iff split: if_splits)
  then show ?thesis
    using assms(1) state_string_listed [OF assms(2)] state_string_failing [OF assms(2)]
    by (simp add: job_row_check_def set_state_def)
qed

lemma set_state_id [simp]: "r_id (set_state v r) = r_id r"
  by (simp add: set_state_def)

definition stepped :: "transition \<Rightarrow> job \<Rightarrow> db \<Rightarrow> db" where
  "stepped t v d = d\<lparr>jobs := update_where (\<lambda>r. r_id r = tJobID t) (set_state v) (jobs d),
     job_transitions := job_transitions d @ [transition_row_of t]\<rparr>"

lemma stepped_simps [simp]:
  "job_progress (stepped t v d) = job_progress d" "job_executions (stepped t v d) = job_executions d"
  "job_log_records (stepped t v d) = job_log_records d"
  by (simp_all add: stepped_def)

lemma update_where_cong:
  "(\<And>r. r \<in> set rows \<Longrightarrow> p r \<longleftrightarrow> q r) \<Longrightarrow> update_where p f rows = update_where q f rows"
  by (simp add: update_where_def)

lemma applyJobTransition_iff:
  assumes ok: "jobs_ok U d" and row: "row_with r_id (tJobID t) (jobs d) = Some r"
    and u: "queryJob U d (tJobID t) = Inr u"
  shows "applyJobTransition U t d = Inr (d', v) \<longleftrightarrow>
     jState u = tFrom t \<and> CanTransition (jState u) (tTo t) \<and> \<not> IsZero (tAt t) \<and> jUpdatedAt u \<le> tAt t
     \<and> validateFailureForState (tTo t) (tFailure t) = Inr (tFailure t)
     \<and> r_created_at_ns r \<le> UnixNano (tAt t)
     \<and> v = u\<lparr>jState := tTo t, jUpdatedAt := tAt t, jFailure := tFailure t\<rparr> \<and> d' = stepped t v d"
proof -
  note uq = jobs_ok_queryD [OF ok row u]
  have rok: "row_ok U d r" "r_id r = tJobID t" using jobs_ok_row [OF ok row] by auto
  have key: "keyed r_id (jobs d)" using ok by (simp add: jobs_ok_def)
  have same: "s = r" if "s \<in> set (jobs d)" "r_id s = tJobID t" for s
    using row_with_mem [OF key that(1)] row that(2) by simp
  define p where "p = (\<lambda>s :: job_row. r_id s = jID u \<and> (r_state s = state_string (jState u)
      \<and> r_updated_at_ns s = UnixNano (jUpdatedAt u)))"
  have pr: "r_state r = state_string (jState u) \<and> r_updated_at_ns r = UnixNano (jUpdatedAt u)"
    using uq(3,4) rok by (simp add: row_ok_def)
  have up: "update_where p f (jobs d) = update_where (\<lambda>s. r_id s = tJobID t) f (jobs d)" for f
    by (rule update_where_cong) (use same pr uq(1) in \<open>auto simp: p_def\<close>)
  have aff: "affected p (jobs d) = 1"
    using affected_key [OF key row] pr uq(1) by (simp add: p_def)
  have chk: "list_all (\<lambda>s. p s \<longrightarrow> job_row_check (f s)) (jobs d) \<longleftrightarrow> job_row_check (f r)" for f
    using same pr uq(1) row_with_SomeD [OF row] by (auto simp: list_all_iff p_def)
  have upd: "sql_update job_row_check p f (jobs d) = Inr (rows, n) \<longleftrightarrow> job_row_check (f r)
      \<and> rows = update_where (\<lambda>s. r_id s = tJobID t) f (jobs d) \<and> n = 1" for f rows n
    unfolding sql_update_Inr_iff chk up aff by blast
  let ?v = "u\<lparr>jState := tTo t, jUpdatedAt := tAt t, jFailure := tFailure t\<rparr>"
  have t: "\<lparr>tJobID = jID u, tFrom = jState u, tTo = tTo t, tAt = tAt t, tFailure = tFailure t\<rparr> = t"
    if "jState u = tFrom t" using that uq(1) by simp
  have e: "applyJobTransition U t d =
     (if jState u \<noteq> tFrom t then Inl [Job_ErrConflict]
      else ebind (Apply U u (tTo t) (tAt t) (tFailure t)) (\<lambda>(next, accepted).
        ebind (sql_update job_row_check p (set_state next) (jobs d)) (\<lambda>(rows, updated).
          if updated \<noteq> 1 then Inl [Job_ErrConflict]
          else Inr (d\<lparr>jobs := rows, job_transitions := job_transitions d @ [transition_row_of accepted]\<rparr>,
            next))))"
    by (simp only: applyJobTransition_def u remap_Inr ebind_simps p_def)
  have c: "job_row_check (set_state ?v r) \<longleftrightarrow> r_created_at_ns r \<le> UnixNano (tAt t)"
    if "CanTransition (jState u) (tTo t)" "validateFailureForState (tTo t) (tFailure t) = Inr (tFailure t)"
    using that rok(1) job_row_check_set_state [of r ?v] CanTransition_valid
    by (simp add: row_ok_def del: State_Valid_iff)
  have "applyJobTransition U t d = Inr (d', v) \<longleftrightarrow> jState u = tFrom t \<and>
      Apply U u (tTo t) (tAt t) (tFailure t) = Inr (v, t) \<and> job_row_check (set_state v r) \<and> d' = stepped t v d"
    unfolding e using t by (auto simp: result_simps upd Apply_Inr_iff stepped_def)
  then show ?thesis using uq(2) t c by (auto simp: Apply_Inr_iff)
qed

lemma applyJobTransition_InrD:
  assumes "jobs_ok U d" "applyJobTransition U t d = Inr (d', v)"
  obtains r u where "row_with r_id (tJobID t) (jobs d) = Some r" "queryJob U d (tJobID t) = Inr u"
    "jState u = tFrom t" "CanTransition (jState u) (tTo t)" "\<not> IsZero (tAt t)" "jUpdatedAt u \<le> tAt t"
    "validateFailureForState (tTo t) (tFailure t) = Inr (tFailure t)"
    "r_created_at_ns r \<le> UnixNano (tAt t)"
    "v = u\<lparr>jState := tTo t, jUpdatedAt := tAt t, jFailure := tFailure t\<rparr>" "d' = stepped t v d"
proof (cases "row_with r_id (tJobID t) (jobs d)")
  case None
  with assms(2) show ?thesis by (simp add: applyJobTransition_def queryJob_def remap_def)
next
  case (Some r)
  obtain u where u: "queryJob U d (tJobID t) = Inr u" using jobs_ok_query [OF assms(1) Some] by metis
  from that [OF Some u] applyJobTransition_iff [OF assms(1) Some u] assms(2) show ?thesis by blast
qed

lemma row_with_stepped:
  "row_with r_id i (jobs (stepped t v d)) =
    map_option (\<lambda>r. if i = tJobID t then set_state v r else r) (row_with r_id i (jobs d))"
  by (cases "row_with r_id i (jobs d)")
    (auto simp: stepped_def row_with_update_where dest: row_with_SomeD)

lemma history_stepped:
  "history (stepped t v d) i = history d i @ (if tJobID t = i then [transition_row_of t] else [])"
  by (simp add: history_def stepped_def transition_row_of_def)

lemma queryJob_stepped_other: "i \<noteq> tJobID t \<Longrightarrow> queryJob U (stepped t v d) i = queryJob U d i"
  by (simp add: queryJob_def row_with_stepped option.map_ident split: option.split)

lemma applyJobTransition_query:
  assumes "jobs_ok U d" "applyJobTransition U t d = Inr (d', v)"
  shows "queryJob U d' (tJobID t) = Inr (v\<lparr>jUpdatedAt := UnixNano (tAt t)\<rparr>)"
  using assms
proof (rule applyJobTransition_InrD)
  fix r u
  assume r: "row_with r_id (tJobID t) (jobs d) = Some r" and u: "queryJob U d (tJobID t) = Inr u"
    and step: "CanTransition (jState u) (tTo t)" "validateFailureForState (tTo t) (tFailure t) = Inr (tFailure t)"
      "r_created_at_ns r \<le> UnixNano (tAt t)"
    and v: "v = u\<lparr>jState := tTo t, jUpdatedAt := tAt t, jFailure := tFailure t\<rparr>" and d': "d' = stepped t v d"
  have "nano_ok (r_created_at_ns r)" using jobs_ok_row [OF assms(1) r] by (simp add: row_ok_def)
  moreover have "scanJob U r (row_with p_job_id (tJobID t) (job_progress d)) = Inr u"
    using u r by (simp add: queryJob_def)
  ultimately show ?thesis
    using scanJob_set_state [OF _ step(1,2) _ step(3)] r
    by (simp add: queryJob_def d' row_with_stepped v)
qed

lemma applyJobTransition_jobs_ok:
  assumes "jobs_ok U d" "applyJobTransition U t d = Inr (d', v)"
  shows "jobs_ok U d'"
  using assms
proof (rule applyJobTransition_InrD)
  fix r u
  assume r: "row_with r_id (tJobID t) (jobs d) = Some r" and u: "queryJob U d (tJobID t) = Inr u"
    and st: "jState u = tFrom t" and step: "CanTransition (jState u) (tTo t)"
    "validateFailureForState (tTo t) (tFailure t) = Inr (tFailure t)" "r_created_at_ns r \<le> UnixNano (tAt t)"
    and v: "v = u\<lparr>jState := tTo t, jUpdatedAt := tAt t, jFailure := tFailure t\<rparr>" and d': "d' = stepped t v d"
  have key: "keyed r_id (jobs d)" using assms(1) by (simp add: jobs_ok_def)
  have rok: "row_ok U d r" "r_id r = tJobID t" using jobs_ok_row [OF assms(1) r] by auto
  obtain b where b: "scanJob U r None = Inr b" using rok(1) by (auto simp: row_ok_def is_ok_iff)
  have us: "jState u = State (r_state r)" using jobs_ok_queryD [OF assms(1) r u] by simp
  have "scanJob U (set_state (b\<lparr>jState := tTo t, jUpdatedAt := tAt t, jFailure := tFailure t\<rparr>) r) None =
      Inr (b\<lparr>jState := tTo t, jUpdatedAt := UnixNano (tAt t), jFailure := tFailure t\<rparr>)"
    by (rule scanJob_set_state [OF b]) (use us step rok(1) scanJob_fields [OF b] in \<open>simp_all add: row_ok_def\<close>)
  moreover have "set_state (b\<lparr>jState := tTo t, jUpdatedAt := tAt t, jFailure := tFailure t\<rparr>) r = set_state v r"
    by (simp add: set_state_def v)
  ultimately have scan: "is_ok (scanJob U (set_state v r) None)" by simp
  have chk: "job_row_check (set_state v r)"
    using rok(1) job_row_check_set_state [of r v] step CanTransition_valid [OF step(1)]
    by (simp add: v row_ok_def del: State_Valid_iff)
  have log: "replays ''created'' (history d' (tJobID t)) = Some (state_string (tTo t))"
    using rok step(1) CanTransition_valid [OF step(1)]
    by (simp add: d' history_stepped replays_append row_ok_def transition_row_of_def us [symmetric]
        st [symmetric] state_string_inverse del: State_Valid_iff) (simp add: us)
  have new: "row_ok U d' (set_state v r)"
    using chk scan log rok by (simp add: row_ok_def) (simp add: set_state_def v)
  have old: "row_ok U d' s" if "s \<in> set (jobs d)" "r_id s \<noteq> tJobID t" for s
    using assms(1) that by (auto simp: jobs_ok_def list_all_iff row_ok_def d' history_stepped)
  have same: "s = r" if "s \<in> set (jobs d)" "r_id s = tJobID t" for s
    using row_with_mem [OF key that(1)] r that(2) by simp
  have set_jobs: "set (jobs d') = (\<lambda>s. if r_id s = tJobID t then set_state v s else s) ` set (jobs d)"
    by (simp add: d' stepped_def set_update_where)
  have "list_all (row_ok U d') (jobs d')"
    using new old same
    by (auto simp: list_all_iff set_jobs)
  moreover have "keyed r_id (jobs d')" using key by (simp add: d' stepped_def keyed_update_where)
  moreover have "list_all (\<lambda>t. row_with r_id (tr_job_id t) (jobs d') \<noteq> None) (job_transitions d')"
    using assms(1) r by (auto simp: list_all_iff d' row_with_stepped jobs_ok_def)
      (auto simp: stepped_def transition_row_of_def)
  ultimately show ?thesis using assms(1) by (simp add: jobs_ok_def d')
qed

section \<open>The other operations\<close>

lemma job_row_check_encode:
  assumes "Job_Validate U j = Inr ()" "storable j"
  shows "job_row_check (encode_job j)"
proof -
  have v: "State_Valid (jState j)" "Executor (jSpec j) \<in> {ExecutorNative, ExecutorContainer}"
    "validateFailureForState (jState j) (jFailure j) = Inr (jFailure j)" "jCreatedAt j \<le> jUpdatedAt j"
    using assms(1) Spec_Validate_executor by (auto simp: Job_Validate_iff)
  have "requiresFailure (jState j) \<longleftrightarrow> jFailure j \<noteq> None"
    using v(3) by (auto simp: validateFailureForState_iff split: if_splits)
  moreover have "executor_string (Executor (jSpec j)) \<in> {''native'', ''container''}"
    using v(2) by (auto simp: executor_string_def)
  ultimately show ?thesis
    using assms(2) v(4) state_string_listed [OF v(1)] state_string_failing [OF v(1)]
    by (simp add: job_row_check_def encode_job_def storable_def json_length_def)
qed

lemma Job_Create_InrD:
  "Job_Create U j d = (d', Inr ()) \<Longrightarrow> Job_Validate U j = Inr () \<and> jState j = StateCreated
     \<and> job_row_check (encode_job j) \<and> row_with r_id (jID j) (jobs d) = None
     \<and> d' = d\<lparr>jobs := jobs d @ [encode_job j]\<rparr>"
  by (auto simp: Job_Create_def transact_Inr_iff result_simps sql_insert_def encode_job_def
      split: if_splits sum.splits)

lemma encode_job_fields [simp]:
  "r_id (encode_job j) = jID j" "r_state (encode_job j) = state_string (jState j)"
  "r_created_at_ns (encode_job j) = UnixNano (jCreatedAt j)"
  "r_updated_at_ns (encode_job j) = UnixNano (jUpdatedAt j)"
  by (simp_all add: encode_job_def)

lemma history_jobs [simp]:
  "history (d\<lparr>jobs := x\<rparr>) i = history d i" "history (d\<lparr>job_progress := y\<rparr>) i = history d i"
  "history (d\<lparr>job_executions := z\<rparr>) i = history d i" "history (d\<lparr>job_log_records := w\<rparr>) i = history d i"
  by (simp_all add: history_def)

lemma Job_Create_jobs_ok:
  assumes ok: "jobs_ok U d" and cr: "Job_Create U j d = (d', Inr ())" and st: "storable j"
  shows "jobs_ok U d'"
proof -
  have j: "Job_Validate U j = Inr ()" "jState j = StateCreated" "job_row_check (encode_job j)"
    "row_with r_id (jID j) (jobs d) = None" and d': "d' = d\<lparr>jobs := jobs d @ [encode_job j]\<rparr>"
    using Job_Create_InrD [OF cr] by auto
  have "history d (jID j) = []"
    using ok j(4) by (auto simp: history_def jobs_ok_def list_all_iff filter_empty_conv)
  then have "row_ok U d' (encode_job j)"
    using j st scanJob_encode [OF j(1) st]
    by (simp add: row_ok_def d' Job_Validate_iff state_string_def state_strings_def)
  moreover have "row_ok U d' r" if "row_ok U d r" for r using that by (simp add: row_ok_def d')
  ultimately show ?thesis
    using ok j(4) by (auto simp: jobs_ok_def d' keyed_snoc list_all_iff row_with_append split: option.splits)
qed

lemma Job_Create_query:
  assumes "jobs_ok U d" "Job_Create U j d = (d', Inr ())" "storable j"
  shows "queryJob U d' i = (if i = jID j
    then ebind (decodeProgress (row_with p_job_id i (job_progress d))) (\<lambda>p. Inr (j\<lparr>jProgress := p\<rparr>))
    else queryJob U d i)"
proof -
  have j: "Job_Validate U j = Inr ()" "row_with r_id (jID j) (jobs d) = None"
    and d': "d' = d\<lparr>jobs := jobs d @ [encode_job j]\<rparr>"
    using Job_Create_InrD [OF assms(2)] by auto
  obtain p where p: "decodeProgress (row_with p_job_id (jID j) (job_progress d)) = Inr p"
    using jobs_ok_progress [OF assms(1), of "jID j"] by (auto simp: is_ok_iff)
  have "scanJob U (encode_job j) (row_with p_job_id (jID j) (job_progress d)) = Inr (j\<lparr>jProgress := p\<rparr>)"
    by (intro iffD2 [OF scanJob_progress]) (simp add: p scanJob_encode [OF j(1) assms(3)])
  then show ?thesis
    using j(2) p by (auto simp: queryJob_def d' row_with_append split: option.split)
qed

lemma SetProgress_InrD:
  assumes "SetProgress i p d = (d', Inr ())"
  obtains rows where "ID_Valid i" "Progress_Validate p = Inr ()" "progress_row_check (progress_row_of i p)"
    "sql_upsert progress_row_check p_job_id (progress_row_of i p) (job_progress d) = Inr rows"
    "d' = d\<lparr>job_progress := rows\<rparr>"
  using assms
  by (auto simp: SetProgress_def transact_Inr_iff result_simps sql_upsert_def split: if_splits)

lemma phase_inverse: "Phase_Valid p \<Longrightarrow> ParseProgressPhase (phase_string p) = Inr p"
  by (cases p) (simp_all add: Phase_Valid_def ParseProgressPhase_def phase_string_def phase_strings_def
      ProgressPhase_def Let_def)

lemma decodeProgress_row_of:
  assumes "Progress_Validate p = Inr ()"
  shows "decodeProgress (Some (progress_row_of i p)) = Inr (Some (p\<lparr>pUpdatedAt := UnixNano (pUpdatedAt p)\<rparr>))"
proof -
  have "Phase_Valid (pPhase p)" using assms by (auto simp: Progress_Validate_def split: if_splits)
  then show ?thesis
    using assms by (auto simp: decodeProgress_def decodeProgressValues_def progress_row_of_def phase_inverse
        Progress_Validate_def result_simps split: if_splits)
qed

lemma SetProgress_jobs_ok:
  assumes "jobs_ok U d" "SetProgress i p d = (d', Inr ())"
  shows "jobs_ok U d' \<and> row_with p_job_id k (job_progress d') =
    (if k = i then Some (progress_row_of i p) else row_with p_job_id k (job_progress d)) \<and> jobs d' = jobs d"
  using assms(2)
proof (rule SetProgress_InrD)
  fix rows
  assume p: "Progress_Validate p = Inr ()" and d': "d' = d\<lparr>job_progress := rows\<rparr>"
    and up: "sql_upsert progress_row_check p_job_id (progress_row_of i p) (job_progress d) = Inr rows"
  have key: "keyed p_job_id (job_progress d)" using assms(1) by (simp add: jobs_ok_def)
  note k = sql_upsert_keyed [OF key up]
  have "is_ok (decodeProgress (Some q))" if "q \<in> set rows" for q
    using that up assms(1) decodeProgress_row_of [OF p, of i]
    by (auto simp: sql_upsert_def jobs_ok_def list_all_iff set_update_where split: if_splits)
  then show ?thesis
    using k assms(1)
    by (auto simp: jobs_ok_def d' list_all_iff row_ok_def progress_row_of_def)
qed

lemma ClearProgress_jobs_ok:
  assumes "jobs_ok U d" "ClearProgress i d = (d', res)"
  shows "jobs_ok U d'"
proof -
  have "keyed p_job_id (filter q (job_progress d))" for q
    using assms(1) by (auto simp: jobs_ok_def keyed_def distinct_map inj_on_subset)
  then show ?thesis
    using assms by (auto simp: ClearProgress_def jobs_ok_def list_all_iff row_ok_def split: if_splits)
qed

section \<open>The repository implements the interface\<close>

definition sqlite_store :: "casing \<Rightarrow> db job_store" where
  "sqlite_store U = \<lparr>st_Create = Job_Create U, st_Get = Job_Get U, st_List = Job_List U,
     st_Apply = ApplyTransition U, st_SetProgress = SetProgress, st_GetProgress = GetProgress\<rparr>"

lemma Job_Get_Inr_iff: "Job_Get U d i = Inr v \<longleftrightarrow> ID_Valid i \<and> queryJob U d i = Inr v"
  by (simp add: Job_Get_def)

lemma jobs_ok_query_cases:
  assumes "jobs_ok U d"
  shows "(\<exists>v r. queryJob U d i = Inr v \<and> row_with r_id i (jobs d) = Some r \<and> jID v = i
            \<and> Job_Validate U v = Inr () \<and> nano_ok (jUpdatedAt v))
    \<or> (queryJob U d i = Inl [Sqlite_ErrNoRows] \<and> row_with r_id i (jobs d) = None)"
proof (cases "row_with r_id i (jobs d)")
  case None then show ?thesis by (simp add: queryJob_def)
next
  case (Some r)
  have n: "nano_ok (r_updated_at_ns r)" using jobs_ok_row [OF assms Some] by (simp add: row_ok_def)
  obtain v where "queryJob U d i = Inr v" "jID v = i" "Job_Validate U v = Inr ()" "jUpdatedAt v = r_updated_at_ns r"
    by (rule jobs_ok_query [OF assms Some])
  then show ?thesis using n Some by simp
qed

lemma Job_Create_ok:
  assumes "jobs_ok U d" "Job_Validate U j = Inr ()" "jState j = StateCreated" "storable j"
    "row_with r_id (jID j) (jobs d) = None"
  shows "Job_Create U j d = (d\<lparr>jobs := jobs d @ [encode_job j]\<rparr>, Inr ())"
  using assms job_row_check_encode [OF assms(2,4)]
  by (simp add: Job_Create_def sql_insert_def)

lemma ApplyTransition_ok:
  assumes ok: "jobs_ok U d" and u: "queryJob U d (tJobID t) = Inr u" "ID_Valid (tJobID t)"
    and a: "Apply U u (tTo t) (tAt t) (tFailure t) = Inr (v, t)" and n: "nano_ok (tAt t)"
  shows "ApplyTransition U t d = (stepped t v d, Inr v) \<and> applyJobTransition U t d = Inr (stepped t v d, v)"
proof -
  obtain r where r: "row_with r_id (tJobID t) (jobs d) = Some r"
    using jobs_ok_query_cases [OF ok, of "tJobID t"] u by auto
  have "r_created_at_ns r \<le> jUpdatedAt u"
    using jobs_ok_queryD(4) [OF ok r u(1)] jobs_ok_row [OF ok r] by (simp add: row_ok_def job_row_check_def)
  then have "applyJobTransition U t d = Inr (stepped t v d, v)"
    using Apply_fields [OF a] n by (subst applyJobTransition_iff [OF ok r u(1)]) simp
  moreover have "ValidateTransition (tFrom t) (tTo t) = Inr ()" using Apply_fields [OF a] by simp
  ultimately show ?thesis using u(2) by (simp add: ApplyTransition_def del: ValidateTransition_Inr)
qed

interpretation js: job_repository U "sqlite_store U" "jobs_ok U" storable
proof
  fix d i v
  assume "jobs_ok U d" "st_Get (sqlite_store U) d i = Inr v"
  then show "jID v = i \<and> Job_Validate U v = Inr () \<and> nano_ok (jUpdatedAt v)"
    using jobs_ok_query_cases [of U d i] by (auto simp: sqlite_store_def Job_Get_Inr_iff)
next
  fix d i
  assume "jobs_ok U d" "ID_Valid i"
  then show "(\<exists>v. st_Get (sqlite_store U) d i = Inr v) \<or> st_Get (sqlite_store U) d i = Inl [Job_ErrNotFound]"
    using jobs_ok_query_cases [of U d i] by (auto simp: sqlite_store_def Job_Get_def remap_def)
next
  fix d j
  assume a: "jobs_ok U d" "Job_Validate U j = Inr ()" "jState j = StateCreated" "storable j"
    and g: "st_Get (sqlite_store U) d (jID j) = Inl [Job_ErrNotFound]"
  have i: "ID_Valid (jID j)" using a(2) by (simp add: Job_Validate_iff)
  then have "row_with r_id (jID j) (jobs d) = None"
    using jobs_ok_query_cases [OF a(1), of "jID j"] g by (auto simp: sqlite_store_def Job_Get_def)
  note c = Job_Create_ok [OF a this]
  obtain p where "decodeProgress (row_with p_job_id (jID j) (job_progress d)) = Inr p"
    using jobs_ok_progress [OF a(1)] by (auto simp: is_ok_iff)
  then show "\<exists>d' p. st_Create (sqlite_store U) j d = (d', Inr ()) \<and> jobs_ok U d'
      \<and> st_Get (sqlite_store U) d' (jID j) = Inr (j\<lparr>jProgress := p\<rparr>)
      \<and> (\<forall>i. i \<noteq> jID j \<longrightarrow> st_Get (sqlite_store U) d' i = st_Get (sqlite_store U) d i)"
    using c i Job_Create_jobs_ok [OF a(1) c a(4)] Job_Create_query [OF a(1) c a(4)]
    by (auto simp: sqlite_store_def Job_Get_def)
next
  fix d j v
  assume a: "jobs_ok U d" "st_Get (sqlite_store U) d (jID j) = Inr v" "Job_Validate U j = Inr ()"
    "jState j = StateCreated"
  then have "row_with r_id (jID j) (jobs d) \<noteq> None"
    using jobs_ok_query_cases [OF a(1), of "jID j"] by (auto simp: sqlite_store_def Job_Get_Inr_iff)
  with a(3,4) show "st_Create (sqlite_store U) j d = (d, Inl [Job_ErrConflict])"
    by (simp add: sqlite_store_def Job_Create_def sql_insert_def remap_def)
next
  fix d v v' and t :: transition
  assume a: "jobs_ok U d" "st_Get (sqlite_store U) d (tJobID t) = Inr v"
    "Apply U v (tTo t) (tAt t) (tFailure t) = Inr (v', t)" "nano_ok (tAt t)"
  have u: "queryJob U d (tJobID t) = Inr v" "ID_Valid (tJobID t)"
    using a(2) by (simp_all add: sqlite_store_def Job_Get_Inr_iff)
  note s = ApplyTransition_ok [OF a(1) u a(3,4)]
  have "v'\<lparr>jUpdatedAt := UnixNano (tAt t)\<rparr> = v'" using Apply_fields(10) [OF a(3)] a(4) by simp
  then show "\<exists>d'. st_Apply (sqlite_store U) t d = (d', Inr v') \<and> jobs_ok U d'
      \<and> st_Get (sqlite_store U) d' (tJobID t) = Inr v'
      \<and> (\<forall>i. i \<noteq> tJobID t \<longrightarrow> st_Get (sqlite_store U) d' i = st_Get (sqlite_store U) d i)"
    using s applyJobTransition_jobs_ok [OF a(1)] applyJobTransition_query [OF a(1)] u(2)
    by (auto simp: sqlite_store_def Job_Get_def queryJob_stepped_other)
next
  fix d v and t :: transition
  assume a: "jobs_ok U d" "st_Get (sqlite_store U) d (tJobID t) = Inr v" "jState v \<noteq> tFrom t"
    "CanTransition (tFrom t) (tTo t)"
  then have "ValidateTransition (tFrom t) (tTo t) = Inr ()" by simp
  with a show "st_Apply (sqlite_store U) t d = (d, Inl [Job_ErrConflict])"
    by (simp add: sqlite_store_def Job_Get_Inr_iff ApplyTransition_def applyJobTransition_def
        del: ValidateTransition_Inr)
qed

section \<open>Listing\<close>

definition list_rows :: "db \<Rightarrow> state list \<Rightarrow> nat \<Rightarrow> job_row list" where
  "list_rows d states n = take n (sort_key (\<lambda>r. (- r_updated_at_ns r, r_id r))
     (if states = [] then jobs d
      else filter (\<lambda>r. r_state r \<in> set (map state_string states)) (jobs d)))"

lemma Job_List_rows: "Job_List U d states limit =
    ebind (normalizeListOptions states limit) (\<lambda>n.
      collect (\<lambda>r. scanJob U r (row_with p_job_id (r_id r) (job_progress d))) (list_rows d states (nat n)))"
  by (simp add: Job_List_def list_rows_def Let_def)

lemma list_rows_set: "r \<in> set (list_rows d states n) \<Longrightarrow> r \<in> set (jobs d)
    \<and> (states = [] \<or> r_state r \<in> set (map state_string states))"
  by (auto simp: list_rows_def dest!: in_set_takeD split: if_splits)

lemma list_rows_order:
  assumes "keyed r_id (jobs d)"
  shows "sorted_wrt (\<lambda>a b. r_updated_at_ns b < r_updated_at_ns a
      \<or> r_updated_at_ns a = r_updated_at_ns b \<and> r_id a < r_id b) (list_rows d states n)"
proof -
  let ?k = "\<lambda>r :: job_row. (- r_updated_at_ns r, r_id r)"
  let ?rows = "if states = [] then jobs d else filter (\<lambda>r. r_state r \<in> set (map state_string states)) (jobs d)"
  have "distinct (map r_id ?rows)" using assms by (auto simp: keyed_def distinct_map inj_on_subset)
  then have "distinct (map r_id (sort_key ?k ?rows))"
    by (simp add: distinct_map)
  then have d: "distinct (map ?k (sort_key ?k ?rows))"
    by (auto simp: distinct_map inj_on_def)
  have "sorted (map ?k (sort_key ?k ?rows))" by simp
  with d have "sorted_wrt (<) (map ?k (sort_key ?k ?rows))" by (simp add: strict_sorted_iff del: sort_key_simps)
  then have "sorted_wrt (\<lambda>a b. ?k a < ?k b) (list_rows d states n)"
    by (simp add: sorted_wrt_map sorted_wrt_take list_rows_def)
  then show ?thesis
    by (rule sorted_wrt_mono_rel [rotated]) (auto simp: less_prod_def)
qed

lemma jobs_ok_scan:
  assumes "jobs_ok U d" "r \<in> set (jobs d)"
  shows "scanJob U r (row_with p_job_id (r_id r) (job_progress d)) = queryJob U d (r_id r)"
    "is_ok (queryJob U d (r_id r))" "row_with r_id (r_id r) (jobs d) = Some r"
proof -
  have r: "row_with r_id (r_id r) (jobs d) = Some r"
    using assms by (intro row_with_mem) (simp_all add: jobs_ok_def)
  then show "scanJob U r (row_with p_job_id (r_id r) (job_progress d)) = queryJob U d (r_id r)"
    by (simp add: queryJob_def)
  show "is_ok (queryJob U d (r_id r))" by (rule jobs_ok_query [OF assms(1) r]) simp
  show "row_with r_id (r_id r) (jobs d) = Some r" by (rule r)
qed

section \<open>Properties\<close>

lemma jobs_ok_empty: "jobs_ok U empty_db"
  by (simp add: jobs_ok_def empty_db_def)

lemma plain_job_storable: "storable plain_job"
  by (simp add: storable_def plain_job_def plain_spec_def nano_ok_def canonical_env_def json_length_def)

text \<open>
  Round trip. Creating a valid job whose strings are UTF-8 and whose times fit 64 bits, under an
  identifier that is not stored, succeeds; \<open>Get\<close> then returns the job with its stored progress, every other job
  is as before, and creating it again is a conflict without effect.
\<close>

theorem Create_Get_roundtrip:
  assumes "jobs_ok U d" "Job_Validate U j = Inr ()" "jState j = StateCreated" "storable j"
    "Job_Get U d (jID j) = Inl [Job_ErrNotFound]"
  shows "\<exists>d'. Job_Create U j d = (d', Inr ()) \<and> jobs_ok U d'
    \<and> (\<exists>p. GetProgress d (jID j) = Inr p \<and> Job_Get U d' (jID j) = Inr (j\<lparr>jProgress := p\<rparr>))
    \<and> (\<forall>i. i \<noteq> jID j \<longrightarrow> Job_Get U d' i = Job_Get U d i)
    \<and> Job_Create U j d' = (d', Inl [Job_ErrConflict])"
proof -
  have i: "ID_Valid (jID j)" using assms(2) by (simp add: Job_Validate_iff)
  have none: "row_with r_id (jID j) (jobs d) = None"
    using jobs_ok_query_cases [OF assms(1), of "jID j"] assms(5) i by (auto simp: Job_Get_def)
  let ?d = "d\<lparr>jobs := jobs d @ [encode_job j]\<rparr>"
  have c: "Job_Create U j d = (?d, Inr ())" by (rule Job_Create_ok [OF assms(1-4) none])
  have ok: "jobs_ok U ?d" by (rule Job_Create_jobs_ok [OF assms(1) c assms(4)])
  obtain p where p: "GetProgress d (jID j) = Inr p"
    using jobs_ok_progress [OF assms(1)] i by (auto simp: GetProgress_def is_ok_iff)
  then have g: "Job_Get U ?d (jID j) = Inr (j\<lparr>jProgress := p\<rparr>)"
    using Job_Create_query [OF assms(1) c assms(4), of "jID j"] i by (simp add: Job_Get_def GetProgress_def)
  have "Job_Create U j ?d = (?d, Inl [Job_ErrConflict])"
    using js.create_duplicate [OF ok, of j] g assms(2,3) by (simp add: sqlite_store_def)
  moreover have "Job_Get U ?d k = Job_Get U d k" if "k \<noteq> jID j" for k
    using Job_Create_query [OF assms(1) c assms(4), of k] that by (simp add: Job_Get_def)
  ultimately show ?thesis using c ok p g by blast
qed

theorem Create_Get_roundtrip_witness:
  "\<exists>d'. Job_Create ascii_casing plain_job empty_db = (d', Inr ())
     \<and> Job_Get ascii_casing d' sample_id = Inr plain_job
     \<and> Job_Create ascii_casing plain_job d' = (d', Inl [Job_ErrConflict])"
proof -
  have "Job_Get ascii_casing empty_db (jID plain_job) = Inl [Job_ErrNotFound]"
    using sample_id_valid by (simp add: Job_Get_def queryJob_def empty_db_def remap_def plain_job_def)
  from Create_Get_roundtrip [OF jobs_ok_empty plain_job_valid _ plain_job_storable this]
  have "\<exists>d'. Job_Create ascii_casing plain_job empty_db = (d', Inr ())
      \<and> (\<exists>p. GetProgress empty_db (jID plain_job) = Inr p
           \<and> Job_Get ascii_casing d' (jID plain_job) = Inr (plain_job\<lparr>jProgress := p\<rparr>))
      \<and> Job_Create ascii_casing plain_job d' = (d', Inl [Job_ErrConflict])"
    by (auto simp: plain_job_def)
  moreover have "GetProgress empty_db (jID plain_job) = Inr None" "jID plain_job = sample_id"
    "plain_job\<lparr>jProgress := None\<rparr> = plain_job"
    using sample_id_valid by (simp_all add: GetProgress_def decodeProgress_def empty_db_def plain_job_def)
  ultimately show ?thesis by auto
qed

text \<open>
  A page of the job list. With valid options \<open>List\<close> always returns: at most the limit (100 by
  default) jobs, each as \<open>Get\<close> returns it and in one of the requested states, newest update first and by
  identifier among equal times, hence without duplicates.
\<close>

theorem List_page:
  assumes "jobs_ok U d" "normalizeListOptions states limit = Inr n"
  shows "\<exists>vs. Job_List U d states limit = Inr vs \<and> int (length vs) \<le> n \<and> n \<le> 500
    \<and> list_all (\<lambda>v. Job_Get U d (jID v) = Inr v \<and> (states = [] \<or> jState v \<in> set states)) vs
    \<and> sorted_wrt (\<lambda>a b. jUpdatedAt b < jUpdatedAt a \<or> jUpdatedAt a = jUpdatedAt b \<and> jID a < jID b) vs"
proof -
  let ?rows = "list_rows d states (nat n)"
  let ?g = "\<lambda>r. projr (queryJob U d (r_id r))"
  have n: "0 < n" "n \<le> 500" "list_all State_Valid states"
    using assms(2) by (auto simp: normalizeListOptions_def maximumListLimit_def defaultListLimit_def
        list_all_iff list_ex_iff simp del: State_Valid_iff split: if_splits)
  have q: "queryJob U d (r_id r) = Inr (?g r)" "jID (?g r) = r_id r" "jState (?g r) = State (r_state r)"
    "jUpdatedAt (?g r) = r_updated_at_ns r" "ID_Valid (r_id r)" if "r \<in> set (jobs d)" for r
  proof -
    show x: "queryJob U d (r_id r) = Inr (?g r)"
      using jobs_ok_scan(2) [OF assms(1) that] by (auto simp: is_ok_iff)
    note y = jobs_ok_queryD [OF assms(1) jobs_ok_scan(3) [OF assms(1) that] x]
    show "jID (?g r) = r_id r" "jState (?g r) = State (r_state r)" "jUpdatedAt (?g r) = r_updated_at_ns r"
      using y by auto
    show "ID_Valid (r_id r)" using assms(1) that by (auto simp: jobs_ok_def list_all_iff row_ok_def)
  qed
  have "collect (\<lambda>r. scanJob U r (row_with p_job_id (r_id r) (job_progress d))) ?rows = Inr (map ?g ?rows)"
    by (rule collect_total) (use list_rows_set jobs_ok_scan(1) [OF assms(1)] q(1) in simp)
  then have l: "Job_List U d states limit = Inr (map ?g ?rows)"
    using assms(2) by (simp add: Job_List_rows)
  have st: "jState (?g r) \<in> set states" if m: "r \<in> set ?rows" and ne: "states \<noteq> []" for r
  proof -
    obtain s where s: "s \<in> set states" "r_state r = state_string s" using list_rows_set [OF m] ne by auto
    then have "State (r_state r) = s" using n(3) by (simp add: list_all_iff state_string_inverse del: State_Valid_iff)
    then show ?thesis using s(1) q(3) list_rows_set [OF m] by simp
  qed
  have "sorted_wrt (\<lambda>a b. jUpdatedAt b < jUpdatedAt a \<or> jUpdatedAt a = jUpdatedAt b \<and> jID a < jID b)
      (map ?g ?rows)"
    unfolding sorted_wrt_map
  proof (rule sorted_wrt_mono_rel [OF _ list_rows_order])
    show "keyed r_id (jobs d)" using assms(1) by (simp add: jobs_ok_def)
  qed (use q(2,4) list_rows_set in auto)
  moreover have "list_all (\<lambda>v. Job_Get U d (jID v) = Inr v \<and> (states = [] \<or> jState v \<in> set states)) (map ?g ?rows)"
    using q(1,2,5) list_rows_set st by (auto simp: list_all_iff Job_Get_Inr_iff)
  moreover have "int (length (map ?g ?rows)) \<le> n" using n(1) by (simp add: list_rows_def)
  ultimately show ?thesis using l n(2) by blast
qed

theorem List_page_witness:
  "normalizeListOptions [StateQueued] 0 = Inr 100 \<and>
   (\<exists>vs. Job_List ascii_casing empty_db [StateQueued] 0 = Inr vs \<and> int (length vs) \<le> 100)"
proof -
  have n: "normalizeListOptions [StateQueued] 0 = Inr 100"
    by (simp add: normalizeListOptions_def maximumListLimit_def defaultListLimit_def)
  then show ?thesis using List_page [OF jobs_ok_empty n, of ascii_casing] by blast
qed

text \<open>
  Progress of image pulls is never stored. \<open>ProgressPull\<close> is a valid phase for the Go code, yet the
  table's \<open>CHECK\<close> does not list it: setting such a progress fails with a constraint error on every database,
  for every job.
\<close>

theorem SetProgress_pull_fails:
  assumes "ID_Valid i" "Progress_Validate p = Inr ()" "pPhase p = ProgressPull"
  shows "SetProgress i p d = (d, Inl [Sqlite_ErrConstraint])"
  using assms
  by (simp add: SetProgress_def sql_upsert_def progress_row_check_def progress_row_of_def phase_string_def
      phase_strings_def)

definition pull_progress :: progress where
  "pull_progress = \<lparr>pPhase = ProgressPull, pCompletedBytes = 1, pTotalBytes = 2, pUpdatedAt = 5\<rparr>"

theorem SetProgress_pull_fails_witness:
  "Progress_Validate pull_progress = Inr () \<and>
   SetProgress sample_id pull_progress empty_db = (empty_db, Inl [Sqlite_ErrConstraint])"
proof -
  have "Progress_Validate pull_progress = Inr ()" "pPhase pull_progress = ProgressPull"
    by (simp_all add: Progress_Validate_def pull_progress_def Phase_Valid_def phase_strings_def IsZero_def
        zero_time_def)
  then show ?thesis using SetProgress_pull_fails [OF sample_id_valid, of pull_progress empty_db] by simp
qed

end
