(* ===== verification/ExecutionRepository.thy ===== *)
theory ExecutionRepository
  imports JobRepository
begin

text \<open>
  \<open>internal/infra/sqlite/execution_repository.go\<close>: runner custody. \<open>Claim\<close>, \<open>MarkRunning\<close> and
  \<open>Complete\<close> change the attempt and the job in one transaction and validate the attempt they return
  after the commit; \<open>Heartbeat\<close> and \<open>RequestCancellation\<close> are single statements. The lemmas give each
  operation's successful outcome and show that the validation after a commit never fails.
\<close>

section \<open>Rows and attempts\<close>

definition scanAttempt :: "execution_row \<Rightarrow> attempt result" where
  "scanAttempt r =
    ebind (ParseID (e_job_id r)) (\<lambda>i.
      let a = \<lparr>aJobID = i, aStatus = Status (e_status r), aRunnerPID = e_runner_pid r,
        aProcessPID = (case e_process_pid r of None \<Rightarrow> 0 | Some p \<Rightarrow> p),
        aClaimedAt = e_claimed_at_ns r, aStartedAt = e_started_at_ns r,
        aHeartbeatAt = e_heartbeat_at_ns r, aCancelRequestedAt = e_cancel_requested_at_ns r,
        aFinishedAt = e_finished_at_ns r, aExitCode = e_exit_code r,
        aTerminationSignal = e_termination_signal r, aCompletion = CompletionKind (e_completion r)\<rparr>
      in ebind (Attempt_Validate a) (\<lambda>_. Inr a))"

definition getAttempt :: "db \<Rightarrow> job_id \<Rightarrow> attempt result" where
  "getAttempt d i =
    (case row_with e_job_id i (job_executions d) of
       None \<Rightarrow> Inl [Sqlite_ErrNoRows] | Some r \<Rightarrow> scanAttempt r)"

definition active :: "execution_row \<Rightarrow> bool" where
  "active r \<longleftrightarrow> e_status r \<in> set [''starting'', ''running'']"

definition requireActiveOwner :: "attempt \<Rightarrow> int \<Rightarrow> attempt_status \<Rightarrow> unit result" where
  "requireActiveOwner a pid s =
    (if aRunnerPID a \<noteq> pid then Inl [Execution_ErrOwnerMismatch]
     else if aStatus a = StatusCompleted then Inl [Execution_ErrAttemptCompleted]
     else if aStatus a \<noteq> s then Inl [Execution_ErrInvalidAttempt]
     else Inr ())"

definition requireOneAffected :: "nat \<Rightarrow> unit result" where
  "requireOneAffected n = (if n \<noteq> 1 then Inl [Job_ErrConflict] else Inr ())"

text \<open>\<open>return attempt, attempt.Validate()\<close> after a commit.\<close>

definition checked :: "db \<times> attempt result \<Rightarrow> db \<times> attempt result" where
  "checked x = (case x of (d, Inr a) \<Rightarrow> (d, ebind (Attempt_Validate a) (\<lambda>_. Inr a)) | _ \<Rightarrow> x)"

section \<open>Operations\<close>

definition claimed_row :: "job_id \<Rightarrow> int \<Rightarrow> time \<Rightarrow> execution_row" where
  "claimed_row i pid at = \<lparr>e_job_id = i, e_status = ''starting'', e_runner_pid = pid,
     e_process_pid = None, e_claimed_at_ns = UnixNano at, e_started_at_ns = None,
     e_heartbeat_at_ns = UnixNano at, e_cancel_requested_at_ns = None, e_finished_at_ns = None,
     e_exit_code = None, e_termination_signal = '''', e_completion = '''', e_log_bytes = 0,
     e_next_log_sequence = 1\<rparr>"

definition claimed_attempt :: "job_id \<Rightarrow> int \<Rightarrow> time \<Rightarrow> attempt" where
  "claimed_attempt i pid at = \<lparr>aJobID = i, aStatus = StatusStarting, aRunnerPID = pid,
     aProcessPID = 0, aClaimedAt = at, aStartedAt = None, aHeartbeatAt = at,
     aCancelRequestedAt = None, aFinishedAt = None, aExitCode = None, aTerminationSignal = '''',
     aCompletion = CompletionNone\<rparr>"

definition Claim_tx :: "casing \<Rightarrow> job_id \<Rightarrow> int \<Rightarrow> time \<Rightarrow> db \<Rightarrow> (db \<times> attempt) result" where
  "Claim_tx U i pid at d =
    (if \<not> ID_Valid i then Inl [Job_ErrInvalidID]
     else if pid \<le> 0 \<or> IsZero at then Inl [Execution_ErrInvalidAttempt]
     else ebind (remap Sqlite_ErrNoRows Job_ErrNotFound (queryJob U d i)) (\<lambda>current.
       if jState current \<noteq> StateQueued then Inl [Execution_ErrNotClaimable]
       else ebind (applyJobTransition U \<lparr>tJobID = i, tFrom = StateQueued, tTo = StateStarting,
              tAt = at, tFailure = None\<rparr> d) (\<lambda>(d', _).
         ebind (remap Sqlite_ErrConstraint Execution_ErrNotClaimable
           (sql_insert execution_row_check e_job_id (claimed_row i pid at) (job_executions d'))) (\<lambda>rows.
         Inr (d'\<lparr>job_executions := rows\<rparr>, claimed_attempt i pid at)))))"

definition Claim :: "casing \<Rightarrow> job_id \<Rightarrow> int \<Rightarrow> time \<Rightarrow> db \<Rightarrow> db \<times> attempt result" where
  "Claim U i pid at d = checked (transact d (Claim_tx U i pid at d))"

definition running_row :: "int \<Rightarrow> time \<Rightarrow> execution_row \<Rightarrow> execution_row" where
  "running_row ppid at r = r\<lparr>e_status := ''running'', e_process_pid := Some ppid,
     e_started_at_ns := Some (UnixNano at), e_heartbeat_at_ns := UnixNano at\<rparr>"

definition MarkRunning_tx ::
    "casing \<Rightarrow> job_id \<Rightarrow> int \<Rightarrow> int \<Rightarrow> time \<Rightarrow> db \<Rightarrow> (db \<times> attempt) result" where
  "MarkRunning_tx U i pid ppid at d =
    (if \<not> ID_Valid i then Inl [Job_ErrInvalidID]
     else if pid \<le> 0 \<or> ppid \<le> 0 \<or> IsZero at then Inl [Execution_ErrInvalidAttempt]
     else ebind (getAttempt d i) (\<lambda>a.
       ebind (requireActiveOwner a pid StatusStarting) (\<lambda>_.
       if at < aClaimedAt a then Inl [Execution_ErrInvalidAttempt]
       else ebind (sql_update execution_row_check
           (\<lambda>r. e_job_id r = i \<and> (e_status r = ''starting'' \<and> e_runner_pid r = pid))
           (running_row ppid at) (job_executions d)) (\<lambda>(rows, n).
         ebind (requireOneAffected n) (\<lambda>_.
         ebind (applyJobTransition U \<lparr>tJobID = i, tFrom = StateStarting, tTo = StateRunning,
             tAt = at, tFailure = None\<rparr> (d\<lparr>job_executions := rows\<rparr>)) (\<lambda>(d', _).
         Inr (d', a\<lparr>aStatus := StatusRunning, aProcessPID := ppid, aStartedAt := Some at,
                aHeartbeatAt := at\<rparr>)))))))"

definition MarkRunning :: "casing \<Rightarrow> job_id \<Rightarrow> int \<Rightarrow> int \<Rightarrow> time \<Rightarrow> db \<Rightarrow> db \<times> attempt result" where
  "MarkRunning U i pid ppid at d = checked (transact d (MarkRunning_tx U i pid ppid at d))"

definition Attempt_Get :: "db \<Rightarrow> job_id \<Rightarrow> attempt result" where
  "Attempt_Get d i =
    (if \<not> ID_Valid i then Inl [Job_ErrInvalidID]
     else remap Sqlite_ErrNoRows Execution_ErrNotFound (getAttempt d i))"

definition explainOwnershipFailure :: "db \<Rightarrow> job_id \<Rightarrow> int \<Rightarrow> unit result" where
  "explainOwnershipFailure d i pid =
    ebind (Attempt_Get d i) (\<lambda>a.
      if aRunnerPID a \<noteq> pid then Inl [Execution_ErrOwnerMismatch]
      else if aStatus a = StatusCompleted then Inl [Execution_ErrAttemptCompleted]
      else Inl [Execution_ErrInvalidAttempt])"

definition Heartbeat :: "job_id \<Rightarrow> int \<Rightarrow> time \<Rightarrow> db \<Rightarrow> db \<times> unit result" where
  "Heartbeat i pid at d =
    (if \<not> ID_Valid i then (d, Inl [Job_ErrInvalidID])
     else if pid \<le> 0 \<or> IsZero at then (d, Inl [Execution_ErrInvalidAttempt])
     else (case sql_update execution_row_check
           (\<lambda>r. e_job_id r = i \<and> (e_runner_pid r = pid \<and> active r))
           (\<lambda>r. r\<lparr>e_heartbeat_at_ns := UnixNano at\<rparr>) (job_executions d) of
         Inl e \<Rightarrow> (d, Inl e)
       | Inr (rows, n) \<Rightarrow>
           if n = 1 then (d\<lparr>job_executions := rows\<rparr>, Inr ())
           else (d\<lparr>job_executions := rows\<rparr>, explainOwnershipFailure (d\<lparr>job_executions := rows\<rparr>) i pid)))"

definition RequestCancellation :: "job_id \<Rightarrow> time \<Rightarrow> db \<Rightarrow> db \<times> unit result" where
  "RequestCancellation i at d =
    (if \<not> ID_Valid i then (d, Inl [Job_ErrInvalidID])
     else if IsZero at then (d, Inl [Execution_ErrInvalidAttempt])
     else (case sql_update execution_row_check (\<lambda>r. e_job_id r = i \<and> active r)
           (\<lambda>r. r\<lparr>e_cancel_requested_at_ns :=
              (case e_cancel_requested_at_ns r of None \<Rightarrow> Some (UnixNano at) | Some t \<Rightarrow> Some t)\<rparr>)
           (job_executions d) of
         Inl e \<Rightarrow> (d, Inl e)
       | Inr (rows, n) \<Rightarrow>
           let d' = d\<lparr>job_executions := rows\<rparr> in
           if n = 1 then (d', Inr ())
           else (d', ebind (Attempt_Get d' i) (\<lambda>a.
             if aStatus a = StatusCompleted then Inl [Execution_ErrAttemptCompleted]
             else Inl [Execution_ErrInvalidAttempt]))))"

definition CancellationRequested :: "db \<Rightarrow> job_id \<Rightarrow> int \<Rightarrow> bool result" where
  "CancellationRequested d i pid =
    ebind (Attempt_Get d i) (\<lambda>a.
      if aRunnerPID a \<noteq> pid then Inl [Execution_ErrOwnerMismatch]
      else if aStatus a = StatusCompleted then Inl [Execution_ErrAttemptCompleted]
      else Inr (aCancelRequestedAt a \<noteq> None))"

definition completion_state :: "completion \<Rightarrow> state" where
  "completion_state c = (if cCancelled c then StateCancelled
     else if cFailure c \<noteq> None then StateFailed else StateSucceeded)"

definition finish_row :: "completion \<Rightarrow> execution_row \<Rightarrow> execution_row" where
  "finish_row c r = r\<lparr>e_status := ''completed'', e_heartbeat_at_ns := UnixNano (cAt c),
     e_finished_at_ns := Some (UnixNano (cAt c)), e_exit_code := cExitCode c,
     e_termination_signal := cTerminationSignal c, e_completion := completion_string (Kind c)\<rparr>"

definition Complete_tx ::
    "casing \<Rightarrow> job_id \<Rightarrow> int \<Rightarrow> completion \<Rightarrow> db \<Rightarrow> (db \<times> job \<times> attempt) result" where
  "Complete_tx U i pid c d =
    (if \<not> ID_Valid i then Inl [Job_ErrInvalidID]
     else if pid \<le> 0 then Inl [Execution_ErrInvalidAttempt]
     else ebind (Completion_Validate c) (\<lambda>_.
       ebind (getAttempt d i) (\<lambda>a.
       if aRunnerPID a \<noteq> pid then Inl [Execution_ErrOwnerMismatch]
       else if aStatus a = StatusCompleted then Inl [Execution_ErrAttemptCompleted]
       else if cAt c < aHeartbeatAt a then Inl [Execution_ErrInvalidCompletion]
       else ebind (queryJob U d i) (\<lambda>current.
         if aStatus a = StatusStarting \<and> Kind c = CompletionSucceeded
         then Inl [Execution_ErrInvalidCompletion]
         else if aStatus a = StatusStarting \<and> jState current \<noteq> StateStarting
           \<or> aStatus a = StatusRunning \<and> jState current \<noteq> StateRunning \<and> jState current \<noteq> StateCollecting
         then Inl [Execution_ErrInvalidCompletion]
         else ebind (sql_update execution_row_check
             (\<lambda>r. e_job_id r = i \<and> (e_runner_pid r = pid \<and> active r))
             (finish_row c) (job_executions d)) (\<lambda>(rows, n).
           ebind (requireOneAffected n) (\<lambda>_.
           ebind (applyJobTransition U \<lparr>tJobID = i, tFrom = jState current, tTo = completion_state c,
               tAt = cAt c, tFailure = cFailure c\<rparr> (d\<lparr>job_executions := rows\<rparr>)) (\<lambda>(d', updated).
           Inr (d', updated, completed_attempt a c))))))))"

definition Complete :: "casing \<Rightarrow> job_id \<Rightarrow> int \<Rightarrow> completion \<Rightarrow> db \<Rightarrow> db \<times> (job \<times> attempt) result" where
  "Complete U i pid c d =
    (case transact d (Complete_tx U i pid c d) of
       (d', Inl e) \<Rightarrow> (d', Inl e)
     | (d', Inr (updated, a)) \<Rightarrow> (d', ebind (Attempt_Validate a) (\<lambda>_. Inr (updated, a))))"

definition ListActive :: "db \<Rightarrow> attempt list result" where
  "ListActive d =
    collect scanAttempt
      (sort_key (\<lambda>r. (e_claimed_at_ns r, e_job_id r)) (filter active (job_executions d)))"

section \<open>Errors leave the database unchanged\<close>

lemma scanAttempt_valid: "scanAttempt r = Inr a \<Longrightarrow> Attempt_Validate a = Inr ()"
  by (auto simp: scanAttempt_def Let_def result_simps)

lemma getAttempt_valid: "getAttempt d i = Inr a \<Longrightarrow> Attempt_Validate a = Inr ()"
  by (auto simp: getAttempt_def scanAttempt_valid split: option.splits)

lemma checked_simps [simp]:
  "checked (d, Inl e) = (d, Inl e)" "checked (d, Inr a) = (d, ebind (Attempt_Validate a) (\<lambda>_. Inr a))"
  by (simp_all add: checked_def)

lemma checked_transact:
  assumes "\<And>d' a. r = Inr (d', a) \<Longrightarrow> Attempt_Validate a = Inr ()"
  shows "checked (transact d r) = transact d r"
  using assms by (cases r) (auto simp: transact_def)

lemma update_where_none: "affected p rows = 0 \<Longrightarrow> update_where p f rows = rows"
  by (auto simp: affected_def update_where_def filter_empty_conv intro: map_idI)

lemma affected_le_one:
  assumes "keyed k rows" shows "affected (\<lambda>s. k s = x \<and> p s) rows \<le> 1"
proof (cases "row_with k x rows")
  case None then show ?thesis by (simp add: affected_key_none)
next
  case (Some r) then show ?thesis using assms by (simp add: affected_key)
qed

lemma claimed_attempt_valid:
  "ID_Valid i \<Longrightarrow> 0 < pid \<Longrightarrow> \<not> IsZero at \<Longrightarrow> Attempt_Validate (claimed_attempt i pid at) = Inr ()"
  by (simp add: Attempt_Validate_starting claimed_attempt_def attempt_base_def)

lemma Claim_transact: "Claim U i pid at d = transact d (Claim_tx U i pid at d)"
  unfolding Claim_def
  by (rule checked_transact)
    (auto simp: Claim_tx_def result_simps intro: claimed_attempt_valid split: if_splits)

lemma MarkRunning_transact: "MarkRunning U i pid ppid at d = transact d (MarkRunning_tx U i pid ppid at d)"
  unfolding MarkRunning_def
  by (rule checked_transact)
    (auto simp: MarkRunning_tx_def result_simps requireActiveOwner_def
      intro!: running_attempt_valid intro: getAttempt_valid split: if_splits)

lemma Complete_transact: "Complete U i pid c d = transact d (Complete_tx U i pid c d)"
proof (cases "Complete_tx U i pid c d")
  case (Inr x)
  obtain d' v a where x: "x = (d', v, a)" by (cases x)
  then have "Attempt_Validate a = Inr ()"
    using Inr by (auto simp: Complete_tx_def result_simps split: if_splits
        intro: completed_attempt_valid getAttempt_valid)
  with Inr x show ?thesis by (simp add: Complete_def)
qed (simp add: Complete_def)

section \<open>Custody\<close>

text \<open>
  The link between the job row and the attempt row of one identifier: a job that is starting,
  running or collecting has an active attempt of the matching status, a completed attempt belongs to a
  job that ended the same way, and no other job has an attempt.
\<close>

definition attempt_ok :: "execution_row \<Rightarrow> bool" where
  "attempt_ok e \<longleftrightarrow> execution_row_check e \<and> is_ok (scanAttempt e) \<and> ID_Valid (e_job_id e)
     \<and> nano_ok (e_claimed_at_ns e) \<and> nano_ok (e_heartbeat_at_ns e)"

definition agree :: "string \<Rightarrow> string \<Rightarrow> string \<Rightarrow> bool" where
  "agree status outcome st \<longleftrightarrow>
     status = ''starting'' \<and> st = ''starting''
     \<or> status = ''running'' \<and> st \<in> {''running'', ''collecting''}
     \<or> status = ''completed'' \<and> outcome = st \<and> st \<in> {''succeeded'', ''failed'', ''cancelled''}"

definition in_custody :: "string \<Rightarrow> bool" where
  "in_custody st \<longleftrightarrow> st \<in> {''starting'', ''running'', ''collecting''}"

definition linked :: "job_row option \<Rightarrow> execution_row option \<Rightarrow> bool" where
  "linked jr er =
    (case er of
       None \<Rightarrow> (case jr of None \<Rightarrow> True | Some r \<Rightarrow> \<not> in_custody (r_state r))
     | Some e \<Rightarrow> attempt_ok e \<and>
        (case jr of None \<Rightarrow> False | Some r \<Rightarrow> agree (e_status e) (e_completion e) (r_state r)))"

definition custody :: "casing \<Rightarrow> db \<Rightarrow> bool" where
  "custody U d \<longleftrightarrow> jobs_ok U d \<and> keyed e_job_id (job_executions d)
     \<and> (\<forall>i. linked (row_with r_id i (jobs d)) (row_with e_job_id i (job_executions d)))"

lemma custody_jobs_ok: "custody U d \<Longrightarrow> jobs_ok U d"
  by (simp add: custody_def)

lemma custody_linked:
  "custody U d \<Longrightarrow> linked (row_with r_id i (jobs d)) (row_with e_job_id i (job_executions d))"
  by (simp add: custody_def)

lemma jobs_ok_executions [simp]: "jobs_ok U (d\<lparr>job_executions := x\<rparr>) = jobs_ok U d"
  by (simp add: jobs_ok_def row_ok_def cong: list.pred_cong_simp)

lemma queryJob_executions [simp]: "queryJob U (d\<lparr>job_executions := x\<rparr>) i = queryJob U d i"
  by (simp add: queryJob_def split: option.split)

lemma stepped_executions [simp]:
  "stepped t v (d\<lparr>job_executions := x\<rparr>) = (stepped t v d)\<lparr>job_executions := x\<rparr>"
  by (simp add: stepped_def)

lemma custody_attempt:
  assumes "custody U d" "row_with e_job_id i (job_executions d) = Some e"
  obtains r where "attempt_ok e" "e_job_id e = i" "row_with r_id i (jobs d) = Some r"
    "agree (e_status e) (e_completion e) (r_state r)"
  using assms row_with_SomeD [OF assms(2)]
  by (auto simp: custody_def linked_def dest!: spec [of _ i] split: option.splits)

lemma linked_none: "linked jr None \<longleftrightarrow> (\<forall>r. jr = Some r \<longrightarrow> \<not> in_custody (r_state r))"
  by (simp add: linked_def split: option.split)

lemma linked_some [simp]:
  "linked (Some r) (Some e) \<longleftrightarrow> attempt_ok e \<and> agree (e_status e) (e_completion e) (r_state r)"
  by (simp add: linked_def)

text \<open>Changing one attempt row.\<close>

lemma row_with_update_key:
  assumes "\<And>r. k (f r) = k r" "keyed k rows" "row_with k x rows = Some e" "p e"
  shows "row_with k y (update_where (\<lambda>s. k s = x \<and> p s) f rows) =
    (if y = x then Some (f e) else row_with k y rows)"
  using assms by (cases "row_with k y rows")
    (auto simp: row_with_update_where [of k f, OF assms(1)] dest: row_with_SomeD)

lemma custody_step:
  assumes c: "custody U d" and a: "applyJobTransition U t (d\<lparr>job_executions := rows\<rparr>) = Inr (d', v)"
    and key: "keyed e_job_id rows"
    and other: "\<And>i. i \<noteq> tJobID t \<Longrightarrow> row_with e_job_id i rows = row_with e_job_id i (job_executions d)"
    and new: "row_with e_job_id (tJobID t) rows = Some e'" "attempt_ok e'"
      "agree (e_status e') (e_completion e') (state_string (tTo t))"
  shows "custody U d'"
proof -
  have ok: "jobs_ok U (d\<lparr>job_executions := rows\<rparr>)" using c by (simp add: custody_def)
  obtain r u where r: "row_with r_id (tJobID t) (jobs d) = Some r"
    and v: "v = u\<lparr>jState := tTo t, jUpdatedAt := tAt t, jFailure := tFailure t\<rparr>"
    and d': "d' = (stepped t v d)\<lparr>job_executions := rows\<rparr>"
    by (rule applyJobTransition_InrD [OF ok a]) simp
  have "linked (row_with r_id i (jobs d')) (row_with e_job_id i (job_executions d'))" for i
    using c new other [of i] r
    by (cases "i = tJobID t")
      (auto simp: d' row_with_stepped set_state_def v custody_def option.map_ident)
  then show ?thesis
    using key applyJobTransition_jobs_ok [OF ok a] by (simp add: custody_def d')
qed

lemma custody_update:
  assumes c: "custody U d" and e: "row_with e_job_id i (job_executions d) = Some e"
    and f: "\<And>r. e_job_id (f r) = e_job_id r" and p: "p e"
    and ok: "attempt_ok (f e)" "e_status (f e) = e_status e" "e_completion (f e) = e_completion e"
  shows "custody U (d\<lparr>job_executions := update_where (\<lambda>s. e_job_id s = i \<and> p s) f (job_executions d)\<rparr>)"
proof -
  have key: "keyed e_job_id (job_executions d)" using c by (simp add: custody_def)
  obtain r where "row_with r_id i (jobs d) = Some r" "agree (e_status e) (e_completion e) (r_state r)"
    using custody_attempt [OF c e] by blast
  with c ok show ?thesis
    by (auto simp: custody_def keyed_update_where [of e_job_id f, OF f]
        row_with_update_key [of e_job_id f, OF f key e, of p, OF p])
qed

section \<open>Every operation keeps custody\<close>

lemma ParseID_own: "ID_Valid i \<Longrightarrow> ParseID i = Inr i"
  by (rule ID_Valid_ParseID)

lemma scanAttempt_fields:
  "scanAttempt e = Inr a \<Longrightarrow> ID_Valid (e_job_id e) \<Longrightarrow>
   aJobID a = e_job_id e \<and> aStatus a = Status (e_status e) \<and> aRunnerPID a = e_runner_pid e
   \<and> aClaimedAt a = e_claimed_at_ns e \<and> aHeartbeatAt a = e_heartbeat_at_ns e
   \<and> aCancelRequestedAt a = e_cancel_requested_at_ns e"
  by (auto simp: scanAttempt_def Let_def result_simps ParseID_own)

lemma Status_iff [simp]:
  "Status v = StatusStarting \<longleftrightarrow> v = ''starting''" "Status v = StatusRunning \<longleftrightarrow> v = ''running''"
  "Status v = StatusCompleted \<longleftrightarrow> v = ''completed''"
  by (auto simp: Status_def)

lemma claimed_row_ok:
  "ID_Valid i \<Longrightarrow> 0 < pid \<Longrightarrow> attempt_ok (claimed_row i pid at)"
  by (simp add: attempt_ok_def claimed_row_def execution_row_check_def scanAttempt_def ParseID_own
      Let_def Attempt_Validate_starting attempt_base_def is_ok_iff result_simps)

lemma running_row_ok:
  assumes "attempt_ok e" "e_status e = ''starting''" "0 < ppid" "execution_row_check (running_row ppid at e)"
  shows "attempt_ok (running_row ppid at e)"
  using assms
  by (auto simp: attempt_ok_def running_row_def execution_row_check_def scanAttempt_def Let_def
      is_ok_iff result_simps Attempt_Validate_iffs attempt_base_def ParseID_own)

lemma finish_row_ok:
  assumes "attempt_ok e" "active e" "Completion_Validate c = Inr ()" "execution_row_check (finish_row c e)"
  shows "attempt_ok (finish_row c e)"
proof -
  obtain a where a: "scanAttempt e = Inr a" "Attempt_Validate a = Inr ()" "ID_Valid (e_job_id e)"
    using assms(1) scanAttempt_valid by (auto simp: attempt_ok_def is_ok_iff)
  have st: "aStatus a \<noteq> StatusCompleted" "aClaimedAt a \<le> UnixNano (cAt c)"
    using assms(2,4) scanAttempt_fields [OF a(1,3)]
    by (auto simp: active_def execution_row_check_def finish_row_def)
  have "Completion_Validate (c\<lparr>cAt := UnixNano (cAt c)\<rparr>) = Inr ()"
    using assms(3) by (auto simp: Completion_Validate_def split: option.splits if_splits)
  moreover have "Attempt_Validate (a\<lparr>aHeartbeatAt := aClaimedAt a\<rparr>) = Inr ()"
    using a(2) Attempt_Validate_status [OF a(2)] by (auto simp: Attempt_Validate_iffs attempt_base_def)
  ultimately have "Attempt_Validate (completed_attempt (a\<lparr>aHeartbeatAt := aClaimedAt a\<rparr>)
      (c\<lparr>cAt := UnixNano (cAt c)\<rparr>)) = Inr ()"
    using st completed_attempt_valid [of "a\<lparr>aHeartbeatAt := aClaimedAt a\<rparr>" "c\<lparr>cAt := UnixNano (cAt c)\<rparr>"]
    by simp
  moreover have "Kind (c\<lparr>cAt := UnixNano (cAt c)\<rparr>) = Kind c" by (simp add: Kind_def)
  ultimately have "is_ok (scanAttempt (finish_row c e))"
    using a(1) by (auto simp: scanAttempt_def finish_row_def completed_attempt_def Let_def is_ok_iff result_simps)
  then show ?thesis using assms(1,4) by (simp add: attempt_ok_def) (simp add: finish_row_def)
qed

lemma Claim_custody:
  assumes c: "custody U d" and cl: "Claim U i pid at d = (d', Inr a)"
  shows "custody U d'"
proof -
  let ?t = "\<lparr>tJobID = i, tFrom = StateQueued, tTo = StateStarting, tAt = at, tFailure = None\<rparr>"
  obtain d1 v where i: "ID_Valid i" "0 < pid" and d1: "applyJobTransition U ?t d = Inr (d1, v)"
    and new: "row_with e_job_id i (job_executions d1) = None"
    and d': "d' = d1\<lparr>job_executions := job_executions d1 @ [claimed_row i pid at]\<rparr>"
    using cl by (auto simp: Claim_transact transact_Inr_iff Claim_tx_def result_simps sql_insert_Inr_iff
        claimed_row_def split: if_splits)
  obtain r u where r: "row_with r_id i (jobs d) = Some r"
    and v: "v = u\<lparr>jState := StateStarting, jUpdatedAt := at, jFailure := None\<rparr>"
    and s: "d1 = stepped ?t v d"
    by (rule applyJobTransition_InrD [OF custody_jobs_ok [OF c] d1]) simp
  have jr: "row_with r_id k (jobs d') = (if k = i then Some (set_state v r) else row_with r_id k (jobs d))" for k
    using r by (simp add: d' s row_with_stepped option.map_ident)
  have er: "row_with e_job_id k (job_executions d') =
      (if k = i then Some (claimed_row i pid at) else row_with e_job_id k (job_executions d))" for k
    using new by (auto simp: d' s row_with_append claimed_row_def split: option.split)
  have "linked (row_with r_id k (jobs d')) (row_with e_job_id k (job_executions d'))" for k
  proof (cases "k = i")
    case True
    then show ?thesis unfolding jr er using claimed_row_ok [OF i]
      by (simp add: agree_def claimed_row_def set_state_def v state_string_def state_strings_def)
  next
    case False
    then show ?thesis unfolding jr er using custody_linked [OF c] by simp
  qed
  then show ?thesis
    using applyJobTransition_jobs_ok [OF custody_jobs_ok [OF c] d1] c new
    by (simp add: custody_def d' keyed_snoc s claimed_row_def)
qed

lemma touched_row_ok:
  assumes "attempt_ok e" "execution_row_check (e\<lparr>e_heartbeat_at_ns := h, e_cancel_requested_at_ns := c\<rparr>)" "nano_ok h"
  shows "attempt_ok (e\<lparr>e_heartbeat_at_ns := h, e_cancel_requested_at_ns := c\<rparr>)"
proof -
  obtain a where a: "scanAttempt e = Inr a" "Attempt_Validate a = Inr ()" "ID_Valid (e_job_id e)"
    using assms(1) scanAttempt_valid by (auto simp: attempt_ok_def is_ok_iff)
  have t: "aClaimedAt a \<le> h" "\<not> before_opt c (aClaimedAt a)"
    using assms(2) scanAttempt_fields [OF a(1,3)]
    by (cases c; simp add: execution_row_check_def)+
  have "Attempt_Validate (a\<lparr>aHeartbeatAt := h, aCancelRequestedAt := c\<rparr>) = Inr ()"
    using touched_attempt_valid [OF a(2) _ t] assms(3) by simp
  then have "is_ok (scanAttempt (e\<lparr>e_heartbeat_at_ns := h, e_cancel_requested_at_ns := c\<rparr>))"
    using a(1) by (auto simp: scanAttempt_def Let_def is_ok_iff result_simps)
  then show ?thesis using assms by (simp add: attempt_ok_def)
qed

text \<open>The update of the owner's active row, and what it leaves.\<close>

lemma owner_update:
  assumes c: "custody U d" and f: "\<And>r. e_job_id (f r) = e_job_id r"
    and up: "sql_update execution_row_check (\<lambda>r. e_job_id r = i \<and> p r) f (job_executions d) = Inr (rows, 1)"
  obtains e where "row_with e_job_id i (job_executions d) = Some e" "p e" "attempt_ok e"
    "execution_row_check (f e)" "keyed e_job_id rows"
    "\<And>k. row_with e_job_id k rows = (if k = i then Some (f e) else row_with e_job_id k (job_executions d))"
proof -
  have key: "keyed e_job_id (job_executions d)" using c by (simp add: custody_def)
  have rows: "rows = update_where (\<lambda>r. e_job_id r = i \<and> p r) f (job_executions d)"
    "list_all (\<lambda>r. e_job_id r = i \<and> p r \<longrightarrow> execution_row_check (f r)) (job_executions d)"
    "affected (\<lambda>r. e_job_id r = i \<and> p r) (job_executions d) = 1"
    using up by (auto simp: sql_update_Inr_iff)
  have "row_with e_job_id i (job_executions d) \<noteq> None"
  proof
    assume "row_with e_job_id i (job_executions d) = None"
    from affected_key_none [OF this, of p] rows(3) show False by simp
  qed
  then obtain e where e: "row_with e_job_id i (job_executions d) = Some e" by blast
  have pe: "p e"
  proof (rule ccontr)
    assume "\<not> p e"
    then have "affected (\<lambda>r. e_job_id r = i \<and> p r) (job_executions d) = 0"
      using affected_key [OF key e, of p] by (simp only: if_False)
    with rows(3) show False by simp
  qed
  show thesis
  proof (rule that [OF e pe])
    show "attempt_ok e" by (rule custody_attempt [OF c e])
    show "execution_row_check (f e)" using rows(2) pe row_with_SomeD [OF e] by (auto simp: list_all_iff)
    show "keyed e_job_id rows" using key by (simp add: rows(1) keyed_update_where [of e_job_id f, OF f])
    show "row_with e_job_id k rows = (if k = i then Some (f e) else row_with e_job_id k (job_executions d))" for k
      unfolding rows(1) using row_with_update_key [of e_job_id f, OF f key e, of p k] pe by simp
  qed
qed

lemma sql_update_rows:
  assumes "keyed k rows" "sql_update check (\<lambda>r. k r = x \<and> p r) f rows = Inr (rows', n)"
  shows "n = 1 \<or> n = 0 \<and> rows' = rows"
  using assms affected_le_one [OF assms(1), of x p] update_where_none [of "\<lambda>r. k r = x \<and> p r" rows f]
  by (cases "affected (\<lambda>r. k r = x \<and> p r) rows") (auto simp: sql_update_Inr_iff)

lemma requireOneAffected_iff [simp]: "requireOneAffected n = Inr () \<longleftrightarrow> n = 1"
  by (simp add: requireOneAffected_def)

lemma MarkRunning_custody:
  assumes c: "custody U d" and m: "MarkRunning U i pid ppid at d = (d', Inr a)"
  shows "custody U d'"
proof -
  obtain rows v where pp: "0 < ppid"
    and up: "sql_update execution_row_check
      (\<lambda>r. e_job_id r = i \<and> (e_status r = ''starting'' \<and> e_runner_pid r = pid))
      (running_row ppid at) (job_executions d) = Inr (rows, 1)"
    and ap: "applyJobTransition U \<lparr>tJobID = i, tFrom = StateStarting, tTo = StateRunning,
        tAt = at, tFailure = None\<rparr> (d\<lparr>job_executions := rows\<rparr>) = Inr (d', v)"
    using m by (auto simp: MarkRunning_transact transact_Inr_iff MarkRunning_tx_def result_simps split: if_splits)
  obtain e where "e_status e = ''starting''" and e: "attempt_ok e" "execution_row_check (running_row ppid at e)"
    and key: "keyed e_job_id rows"
    and rows: "\<And>k. row_with e_job_id k rows =
      (if k = i then Some (running_row ppid at e) else row_with e_job_id k (job_executions d))"
    by (rule owner_update [OF c _ up]) (auto simp: running_row_def)
  then have "attempt_ok (running_row ppid at e)" using running_row_ok pp by blast
  moreover have "agree (e_status (running_row ppid at e)) (e_completion (running_row ppid at e))
      (state_string StateRunning)"
    by (simp add: agree_def running_row_def state_string_def state_strings_def)
  ultimately show ?thesis
    by (intro custody_step [OF c ap key, where e' = "running_row ppid at e"]) (simp_all add: rows)
qed

lemma Complete_custody:
  assumes c: "custody U d" and m: "Complete U i pid cp d = (d', Inr x)"
  shows "custody U d'"
proof -
  obtain rows st v where cv: "Completion_Validate cp = Inr ()"
    and up: "sql_update execution_row_check (\<lambda>r. e_job_id r = i \<and> (e_runner_pid r = pid \<and> active r))
      (finish_row cp) (job_executions d) = Inr (rows, 1)"
    and ap: "applyJobTransition U \<lparr>tJobID = i, tFrom = st, tTo = completion_state cp,
        tAt = cAt cp, tFailure = cFailure cp\<rparr> (d\<lparr>job_executions := rows\<rparr>) = Inr (d', v)"
    using m by (auto simp: Complete_transact transact_Inr_iff Complete_tx_def result_simps split: if_splits)
  obtain e where "active e" and e: "attempt_ok e" "execution_row_check (finish_row cp e)"
    and key: "keyed e_job_id rows"
    and rows: "\<And>k. row_with e_job_id k rows =
      (if k = i then Some (finish_row cp e) else row_with e_job_id k (job_executions d))"
    by (rule owner_update [OF c _ up]) (auto simp: finish_row_def)
  then have "attempt_ok (finish_row cp e)" using finish_row_ok cv by blast
  moreover have "agree (e_status (finish_row cp e)) (e_completion (finish_row cp e))
      (state_string (completion_state cp))"
    by (simp add: agree_def finish_row_def completion_string_def Kind_def completion_state_def
        state_string_def state_strings_def)
  ultimately show ?thesis
    by (intro custody_step [OF c ap key, where e' = "finish_row cp e"]) (simp_all add: rows)
qed

lemma Heartbeat_custody:
  assumes c: "custody U d" and h: "Heartbeat i pid at d = (d', res)"
  shows "custody U d' \<and> (res \<noteq> Inr () \<longrightarrow> d' = d)"
proof (cases "d' = d")
  case False
  have key: "keyed e_job_id (job_executions d)" using c by (simp add: custody_def)
  let ?f = "\<lambda>r :: execution_row. r\<lparr>e_heartbeat_at_ns := UnixNano at\<rparr>"
  let ?p = "\<lambda>r. e_runner_pid r = pid \<and> active r"
  obtain rows n where up: "sql_update execution_row_check (\<lambda>r. e_job_id r = i \<and> ?p r) ?f (job_executions d)
      = Inr (rows, n)" and d': "d' = d\<lparr>job_executions := rows\<rparr>" and ok: "n = 1 \<longrightarrow> res = Inr ()"
    using h False by (auto simp: Heartbeat_def split: if_splits sum.splits)
  have n: "n = 1" using sql_update_rows [OF key up] False by (auto simp: d')
  obtain e where e: "row_with e_job_id i (job_executions d) = Some e" and p: "?p e" and a: "attempt_ok e"
    "execution_row_check (?f e)"
    by (rule owner_update [OF c _ up [unfolded n]]) auto
  have "attempt_ok (?f e)"
    using a touched_row_ok [OF a(1), where h = "UnixNano at" and c = "e_cancel_requested_at_ns e"] by simp
  then have "custody U d'"
    using custody_update [OF c e, of ?f ?p] p up by (simp add: d' sql_update_Inr_iff)
  with ok n show ?thesis by simp
qed (simp add: c)

lemma RequestCancellation_custody:
  assumes c: "custody U d" and h: "RequestCancellation i at d = (d', res)"
  shows "custody U d' \<and> (res \<noteq> Inr () \<longrightarrow> d' = d)"
proof (cases "d' = d")
  case False
  have key: "keyed e_job_id (job_executions d)" using c by (simp add: custody_def)
  let ?f = "\<lambda>r :: execution_row. r\<lparr>e_cancel_requested_at_ns :=
    (case e_cancel_requested_at_ns r of None \<Rightarrow> Some (UnixNano at) | Some t \<Rightarrow> Some t)\<rparr>"
  obtain rows n where up: "sql_update execution_row_check (\<lambda>r. e_job_id r = i \<and> active r) ?f (job_executions d)
      = Inr (rows, n)" and d': "d' = d\<lparr>job_executions := rows\<rparr>" and ok: "n = 1 \<longrightarrow> res = Inr ()"
    using h False by (auto simp: RequestCancellation_def Let_def split: if_splits sum.splits)
  have n: "n = 1" using sql_update_rows [OF key up] False by (auto simp: d')
  obtain e where e: "row_with e_job_id i (job_executions d) = Some e" and p: "active e" and a: "attempt_ok e"
    "execution_row_check (?f e)"
    by (rule owner_update [OF c _ up [unfolded n]]) auto
  have "attempt_ok (?f e)"
    using a touched_row_ok [OF a(1), where h = "e_heartbeat_at_ns e"
        and c = "case e_cancel_requested_at_ns e of None \<Rightarrow> Some (UnixNano at) | Some t \<Rightarrow> Some t"]
    by (simp add: attempt_ok_def)
  then have "custody U d'"
    using custody_update [OF c e, of ?f active] p up by (simp add: d' sql_update_Inr_iff)
  with ok n show ?thesis by simp
qed (simp add: c)

text \<open>
  The transitions made outside \<open>Claim\<close>, \<open>MarkRunning\<close> and \<open>Complete\<close>: between states before the
  claim, to a cancelled job that has not started, and the runner's step to collecting.
\<close>

definition free_step :: "state \<Rightarrow> state \<Rightarrow> bool" where
  "free_step from to \<longleftrightarrow>
     \<not> in_custody (state_string from) \<and> \<not> in_custody (state_string to)
     \<or> from = StateRunning \<and> to = StateCollecting"

lemma ApplyTransition_custody:
  assumes c: "custody U d" and a: "ApplyTransition U t d = (d', Inr v)" and f: "free_step (tFrom t) (tTo t)"
  shows "custody U d'"
proof -
  have ok: "jobs_ok U d" using c by (rule custody_jobs_ok)
  have ap: "applyJobTransition U t d = Inr (d', v)"
    using a by (auto simp: ApplyTransition_def transact_Inr_iff result_simps split: if_splits)
  obtain r u where r: "row_with r_id (tJobID t) (jobs d) = Some r" and q: "queryJob U d (tJobID t) = Inr u"
    and u: "jState u = tFrom t" "CanTransition (jState u) (tTo t)"
    and v: "v = u\<lparr>jState := tTo t, jUpdatedAt := tAt t, jFailure := tFailure t\<rparr>"
    and d': "d' = stepped t v d"
    by (rule applyJobTransition_InrD [OF ok ap])
  have src: "r_state r = state_string (tFrom t)" using jobs_ok_queryD(3) [OF ok r q] u(1) by simp
  have "linked (row_with r_id i (jobs d')) (row_with e_job_id i (job_executions d'))" for i
  proof (cases "i = tJobID t")
    case True
    have nt: "state_string (tFrom t) \<notin> {''succeeded'', ''failed'', ''cancelled''}"
      using u by (cases "tFrom t") (simp_all add: CanTransition_iff state_string_def state_strings_def)
    have l: "linked (Some r) (row_with e_job_id i (job_executions d))"
      using custody_linked [OF c, of i] True r by simp
    have n: "row_with r_id i (jobs d') = Some (set_state v r)" "r_state (set_state v r) = state_string (tTo t)"
      using True r by (simp_all add: d' row_with_stepped set_state_def v)
    show ?thesis
    proof (cases "tFrom t = StateRunning \<and> tTo t = StateCollecting")
      case True
      then show ?thesis
        using l n src by (cases "row_with e_job_id i (job_executions d)")
          (auto simp: linked_none agree_def in_custody_def d' state_string_def state_strings_def)
    next
      case False
      then have "\<not> in_custody (r_state r)" "\<not> in_custody (state_string (tTo t))"
        using f src by (auto simp: free_step_def)
      then show ?thesis
        using l n nt src by (cases "row_with e_job_id i (job_executions d)")
          (auto simp: linked_none agree_def in_custody_def d')
    qed
  next
    case False
    then show ?thesis using custody_linked [OF c, of i] by (simp add: d' row_with_stepped option.map_ident)
  qed
  then show ?thesis
    using c applyJobTransition_jobs_ok [OF ok ap] by (simp add: custody_def d')
qed

lemma Job_Create_custody:
  assumes c: "custody U d" and cr: "Job_Create U j d = (d', Inr ())" and st: "storable j"
  shows "custody U d'"
proof -
  have j: "jState j = StateCreated" "row_with r_id (jID j) (jobs d) = None"
    and d': "d' = d\<lparr>jobs := jobs d @ [encode_job j]\<rparr>"
    using Job_Create_InrD [OF cr] by auto
  have "linked (row_with r_id i (jobs d')) (row_with e_job_id i (job_executions d'))" for i
    using custody_linked [OF c, of i] j
    by (auto simp: d' row_with_append linked_def in_custody_def state_string_def state_strings_def
        split: option.splits)
  then show ?thesis
    using c Job_Create_jobs_ok [OF custody_jobs_ok [OF c] cr st] by (simp add: custody_def d')
qed

lemma custody_empty: "custody U empty_db"
  by (simp add: custody_def jobs_ok_def empty_db_def linked_def)

section \<open>The repositories implement the worker's interface\<close>

interpretation ws: worker_store U "sqlite_store U" "jobs_ok U" storable RequestCancellation Attempt_Get "custody U"
proof
  fix d
  assume "custody U d" then show "jobs_ok U d" by (rule custody_jobs_ok)
next
  fix d i v
  assume c: "custody U d" and g: "st_Get (sqlite_store U) d i = Inr v"
    and s: "jState v \<in> {StateStarting, StateRunning, StateCollecting}"
  have q: "ID_Valid i" "queryJob U d i = Inr v" using g by (simp_all add: sqlite_store_def Job_Get_Inr_iff)
  obtain r where r: "row_with r_id i (jobs d) = Some r"
    using jobs_ok_query_cases [OF custody_jobs_ok [OF c], of i] q by auto
  have st: "r_state r = state_string (jState v)"
    using jobs_ok_queryD(3) [OF custody_jobs_ok [OF c] r q(2)] by simp
  then have "in_custody (r_state r)"
    using s by (auto simp: in_custody_def state_string_def state_strings_def)
  then obtain e where e: "row_with e_job_id i (job_executions d) = Some e" "attempt_ok e"
    "agree (e_status e) (e_completion e) (r_state r)" "e_job_id e = i"
    using custody_linked [OF c, of i] r by (cases "row_with e_job_id i (job_executions d)")
      (auto simp: linked_none dest: row_with_SomeD)
  have "e_status e \<noteq> ''completed''"
    using e(3) \<open>in_custody (r_state r)\<close> by (auto simp: agree_def in_custody_def)
  moreover obtain a where "scanAttempt e = Inr a" using e(2) by (auto simp: attempt_ok_def is_ok_iff)
  ultimately show "\<exists>a. Attempt_Get d i = Inr a \<and> aStatus a \<noteq> StatusCompleted"
    using e q(1) scanAttempt_fields by (auto simp: Attempt_Get_def getAttempt_def)
next
  fix d i a at
  assume c: "custody U d" and a: "Attempt_Get d i = Inr a" "aStatus a \<noteq> StatusCompleted"
    and t: "nano_ok at" "aClaimedAt a \<le> at"
  have i: "ID_Valid i" "getAttempt d i = Inr a" using a(1) by (auto simp: Attempt_Get_def split: if_splits)
  obtain e where e: "row_with e_job_id i (job_executions d) = Some e" "scanAttempt e = Inr a"
    using i(2) by (auto simp: getAttempt_def split: option.splits)
  have ok: "attempt_ok e" "e_job_id e = i" by (rule custody_attempt [OF c e(1)], simp)+
  note f = scanAttempt_fields [OF e(2)]
  let ?f = "\<lambda>r :: execution_row. r\<lparr>e_cancel_requested_at_ns :=
    (case e_cancel_requested_at_ns r of None \<Rightarrow> Some (UnixNano at) | Some t \<Rightarrow> Some t)\<rparr>"
  have act: "active e"
    using Attempt_Validate_status [OF scanAttempt_valid [OF e(2)]] a(2) f ok i by (auto simp: active_def)
  have chk: "execution_row_check (?f e)"
    using ok f i t by (auto simp: attempt_ok_def execution_row_check_def split: option.split)
  have key: "keyed e_job_id (job_executions d)" using c by (simp add: custody_def)
  let ?d = "d\<lparr>job_executions := update_where (\<lambda>s. e_job_id s = i \<and> active s) ?f (job_executions d)\<rparr>"
  have "sql_update execution_row_check (\<lambda>s. e_job_id s = i \<and> active s) ?f (job_executions d) =
      Inr (update_where (\<lambda>s. e_job_id s = i \<and> active s) ?f (job_executions d), 1)"
    by (rule sql_update_key [where f = ?f and p = active]) (use key e(1) act chk in simp_all)
  then have r: "RequestCancellation i at d = (?d, Inr ())"
    using i(1) t(1) by (simp add: RequestCancellation_def)
  have row: "row_with e_job_id i (job_executions ?d) = Some (?f e)"
    using row_with_update_key [of e_job_id ?f "job_executions d" i e active i] key e(1) act by simp
  have c': "custody U ?d" using RequestCancellation_custody [OF c r] by simp
  obtain a' where a': "scanAttempt (?f e) = Inr a'"
    using custody_attempt [OF c' row] by (auto simp: attempt_ok_def is_ok_iff)
  have "Attempt_Get ?d i = Inr a'" using row a' i(1) by (simp add: Attempt_Get_def getAttempt_def)
  moreover have "aCancelRequestedAt a' \<noteq> None"
    using scanAttempt_fields [OF a'] ok i by (auto split: option.splits)
  ultimately show "\<exists>d' a'. RequestCancellation i at d = (d', Inr ()) \<and> custody U d' \<and> Attempt_Get d' i = Inr a'
      \<and> aCancelRequestedAt a' \<noteq> None
      \<and> (\<forall>k. st_Get (sqlite_store U) d' k = st_Get (sqlite_store U) d k)"
    using r c' by (auto simp: sqlite_store_def Job_Get_def)
qed

end
