(* ===== verification/JobService.thy ===== *)
theory JobService
  imports ExecutionRepository
begin

text \<open>
  \<open>internal/app/worker/jobs.go\<close>: the worker's job service, written against the interface
  \<open>job.Repository\<close>. The lemmas are the service's behaviour under the contracts \<open>job_repository\<close> and
  \<open>worker_store\<close>; the properties instantiate them with the SQLite repositories.

  Every \<open>service.now()\<close> is an argument. Between two repository calls of \<open>Cancel\<close> other writers may run: the
  argument \<open>w\<close> maps the number of the call to the change of the store before it.
\<close>

section \<open>Operations\<close>

text \<open>Continue with the new store on success, stop with the store reached on an error.\<close>

definition and_then :: "'d \<times> 'a result \<Rightarrow> ('d \<Rightarrow> 'a \<Rightarrow> 'd \<times> 'b result) \<Rightarrow> 'd \<times> 'b result" where
  "and_then x f = (case x of (d, Inl e) \<Rightarrow> (d, Inl e) | (d, Inr a) \<Rightarrow> f d a)"

definition advanceLoaded ::
    "casing \<Rightarrow> 'd job_store \<Rightarrow> job \<Rightarrow> state \<Rightarrow> time \<Rightarrow> failure option \<Rightarrow> 'd \<Rightarrow> 'd \<times> job result" where
  "advanceLoaded U S current to now f d =
    (case Apply U current to now f of
       Inl e \<Rightarrow> (d, Inl e)
     | Inr (_, t) \<Rightarrow> st_Apply S t d)"

definition submitWithID ::
    "casing \<Rightarrow> 'd job_store \<Rightarrow> job_id \<Rightarrow> spec \<Rightarrow> time \<Rightarrow> time \<Rightarrow> time \<Rightarrow> 'd \<Rightarrow> 'd \<times> job result" where
  "submitWithID U S i s now1 now2 now3 d =
    (case New U i s now1 of
       Inl e \<Rightarrow> (d, Inl e)
     | Inr created \<Rightarrow>
        and_then (st_Create S created d) (\<lambda>d1 _.
        and_then (advanceLoaded U S created StateValidating now2 None d1) (\<lambda>d2 validating.
        advanceLoaded U S validating StateQueued now3 None d2)))"

definition withProgress :: "'d job_store \<Rightarrow> 'd \<Rightarrow> job \<Rightarrow> job result" where
  "withProgress S d v = ebind (st_GetProgress S d (jID v)) (\<lambda>p. Inr (v\<lparr>jProgress := p\<rparr>))"

definition Service_Get :: "'d job_store \<Rightarrow> 'd \<Rightarrow> job_id \<Rightarrow> job result" where
  "Service_Get S d i = ebind (st_Get S d i) (withProgress S d)"

definition Service_List :: "'d job_store \<Rightarrow> 'd \<Rightarrow> state list \<Rightarrow> int \<Rightarrow> job list result" where
  "Service_List S d states limit = ebind (st_List S d states limit) (collect (withProgress S d))"

definition Advance ::
    "casing \<Rightarrow> 'd job_store \<Rightarrow> job_id \<Rightarrow> state \<Rightarrow> time \<Rightarrow> failure option \<Rightarrow> 'd \<Rightarrow> 'd \<times> job result" where
  "Advance U S i to now f d =
    (case st_Get S d i of Inl e \<Rightarrow> (d, Inl e) | Inr current \<Rightarrow> advanceLoaded U S current to now f d)"

definition setProgress ::
    "'d job_store \<Rightarrow> job_id \<Rightarrow> progress_phase \<Rightarrow> int \<Rightarrow> int \<Rightarrow> time \<Rightarrow> 'd \<Rightarrow> 'd \<times> unit result" where
  "setProgress S i phase completed allbytes now d =
    (if allbytes \<le> 0 then (d, Inr ())
     else st_SetProgress S i \<lparr>pPhase = phase, pCompletedBytes = completed, pTotalBytes = allbytes,
       pUpdatedAt = now\<rparr> d)"

text \<open>
  One round of \<open>Cancel\<close>: the outer \<open>None\<close> means that the transition met a concurrent change and the loop
  goes round again.
\<close>

definition cancel_round ::
    "casing \<Rightarrow> 'd job_store \<Rightarrow> (job_id \<Rightarrow> time \<Rightarrow> 'd \<Rightarrow> 'd \<times> unit result) \<Rightarrow> (nat \<Rightarrow> 'd \<Rightarrow> 'd) \<Rightarrow> nat
     \<Rightarrow> job_id \<Rightarrow> time \<Rightarrow> 'd \<Rightarrow> 'd \<times> job result option" where
  "cancel_round U S request w n i now d0 =
    (let d = w n d0 in
     case st_Get S d i of
       Inl e \<Rightarrow> (d, Some (Inl e))
     | Inr current \<Rightarrow>
        if jState current = StateCancelled then (d, Some (Inr current))
        else if State_Terminal (jState current) then (d, Some (Inl [Worker_ErrJobTerminal]))
        else if jState current \<in> set [StateStarting, StateRunning, StateCollecting] then
          (case request i now (w (n + 1) d) of
             (d', Inl e) \<Rightarrow>
               if errors_is e Execution_ErrAttemptCompleted
               then (w (n + 2) d', Some (st_Get S (w (n + 2) d') i))
               else (d', Some (Inl e))
           | (d', Inr _) \<Rightarrow> (w (n + 2) d', Some (st_Get S (w (n + 2) d') i)))
        else
          (case advanceLoaded U S current StateCancelled now None (w (n + 1) d) of
             (d', Inl e) \<Rightarrow> if errors_is e Job_ErrConflict then (d', None) else (d', Some (Inl e))
           | (d', Inr v) \<Rightarrow> (d', Some (Inr v))))"

definition Cancel ::
    "casing \<Rightarrow> 'd job_store \<Rightarrow> (job_id \<Rightarrow> time \<Rightarrow> 'd \<Rightarrow> 'd \<times> unit result) \<Rightarrow> (nat \<Rightarrow> 'd \<Rightarrow> 'd)
     \<Rightarrow> job_id \<Rightarrow> time \<Rightarrow> time \<Rightarrow> 'd \<Rightarrow> 'd \<times> job result" where
  "Cancel U S request w i now1 now2 d =
    (case cancel_round U S request w 0 i now1 d of
       (d', Some r) \<Rightarrow> (d', r)
     | (d', None) \<Rightarrow>
        (case cancel_round U S request w 3 i now2 d' of
           (d'', Some r) \<Rightarrow> (d'', r)
         | (d'', None) \<Rightarrow> (d'', Inl [Job_ErrConflict])))"

section \<open>The service under the repository's contract\<close>

context job_repository
begin

lemma apply_loaded:
  assumes "inv d" "st_Get S d i = Inr v" "Apply U v s at f = Inr (v', t)" "nano_ok at"
  obtains d' where "advanceLoaded U S v s at f d = (d', Inr v')" "inv d'" "st_Get S d' i = Inr v'"
    "\<And>k. k \<noteq> i \<Longrightarrow> st_Get S d' k = st_Get S d k"
proof -
  have t: "tJobID t = i" "tTo t = s" "tAt t = at" "tFailure t = f"
    using assms(3) get_valid [OF assms(1,2)] by (auto simp: Apply_Inr_iff)
  then show thesis
    using that apply_ok [OF assms(1), of t v v'] assms by (auto simp: advanceLoaded_def)
qed

text \<open>Advancing a job whose value was read before another writer moved it on is a conflict.\<close>

lemma advance_stale:
  assumes "inv d" "st_Get S d (jID v) = Inr u" "jState u \<noteq> jState v" "Apply U v s at f = Inr (v', t)"
  shows "advanceLoaded U S v s at f d = (d, Inl [Job_ErrConflict])"
proof -
  have "tJobID t = jID v" "tFrom t = jState v" "CanTransition (tFrom t) (tTo t)"
    using assms(4) by (auto simp: Apply_Inr_iff)
  then show ?thesis
    using apply_conflict [OF assms(1), of t u] assms(2-) by (simp add: advanceLoaded_def)
qed

lemma submit_ok:
  assumes d: "inv d" "st_Get S d i = Inl [Job_ErrNotFound]"
    and new: "New U i s now1 = Inr j" "keeps j"
    and clock: "now1 \<le> now2" "now2 \<le> now3" "nano_ok now1" "nano_ok now2" "nano_ok now3"
  obtains d' v where "submitWithID U S i s now1 now2 now3 d = (d', Inr v)" "inv d'"
    "st_Get S d' i = Inr v" "jState v = StateQueued" "jSpec v = s" "jUpdatedAt v = now3"
    "jCreatedAt v = now1" "\<And>k. k \<noteq> i \<Longrightarrow> st_Get S d' k = st_Get S d k"
proof -
  have j: "Job_Validate U j = Inr ()" "jState j = StateCreated" "jID j = i" "jSpec j = s"
    "jCreatedAt j = now1" "jUpdatedAt j = now1" "jProgress j = None" "jFailure j = None"
    using new(1) by (auto simp: New_def Let_def result_simps)
  obtain d1 p where c: "st_Create S j d = (d1, Inr ())" "inv d1" "st_Get S d1 i = Inr (j\<lparr>jProgress := p\<rparr>)"
    "\<And>k. k \<noteq> i \<Longrightarrow> st_Get S d1 k = st_Get S d k"
    using create_ok [OF d(1) j(1,2) new(2)] d(2) j(3) by auto
  have jp: "Job_Validate U (j\<lparr>jProgress := p\<rparr>) = Inr ()" using get_valid [OF c(2,3)] by simp
  let ?t1 = "\<lparr>tJobID = i, tFrom = StateCreated, tTo = StateValidating, tAt = now2, tFailure = None\<rparr>"
  let ?v1 = "j\<lparr>jProgress := p, jState := StateValidating, jUpdatedAt := now2, jFailure := None\<rparr>"
  have a1: "Apply U j StateValidating now2 None = Inr (?v1\<lparr>jProgress := None\<rparr>, ?t1)"
    using j clock by (simp add: Apply_Inr_iff CanTransition_iff validateFailureForState_iff requiresFailure_def)
  have "Apply U (j\<lparr>jProgress := p\<rparr>) StateValidating now2 None = Inr (?v1, ?t1)"
    using j jp clock by (simp add: Apply_Inr_iff CanTransition_iff validateFailureForState_iff requiresFailure_def)
  then obtain d2 where s2: "st_Apply S ?t1 d1 = (d2, Inr ?v1)" "inv d2" "st_Get S d2 i = Inr ?v1"
    "\<And>k. k \<noteq> i \<Longrightarrow> st_Get S d2 k = st_Get S d1 k"
    using apply_ok [OF c(2), of ?t1 "j\<lparr>jProgress := p\<rparr>" ?v1] c(3) clock(4) by auto
  let ?t2 = "\<lparr>tJobID = i, tFrom = StateValidating, tTo = StateQueued, tAt = now3, tFailure = None\<rparr>"
  let ?v2 = "?v1\<lparr>jState := StateQueued, jUpdatedAt := now3, jFailure := None\<rparr>"
  have "Apply U ?v1 StateQueued now3 None = Inr (?v2, ?t2)"
    using get_valid [OF s2(2,3)] j clock
    by (simp add: Apply_Inr_iff CanTransition_iff validateFailureForState_iff requiresFailure_def)
  then obtain d3 where s3: "advanceLoaded U S ?v1 StateQueued now3 None d2 = (d3, Inr ?v2)" "inv d3"
    "st_Get S d3 i = Inr ?v2" "\<And>k. k \<noteq> i \<Longrightarrow> st_Get S d3 k = st_Get S d2 k"
    by (rule apply_loaded [OF s2(2,3) _ clock(5)]) blast
  have "submitWithID U S i s now1 now2 now3 d = (d3, Inr ?v2)"
    using new(1) c(1) a1 s2(1) s3(1) by (simp add: submitWithID_def and_then_def advanceLoaded_def [of U S j])
  then show thesis
    by (rule that) (use s3 s2(4) c(4) j in simp_all)
qed

end

context worker_store
begin

lemma cancel_not_started:
  assumes "cust d" "st_Get S d i = Inr v" "\<not> State_Terminal (jState v)"
    "jState v \<notin> {StateStarting, StateRunning, StateCollecting}" "nano_ok now" "jUpdatedAt v \<le> now"
  obtains d' v' where "Cancel U S request (\<lambda>_. id) i now now2 d = (d', Inr v')" "jState v' = StateCancelled"
    "st_Get S d' i = Inr v'" "\<And>k. k \<noteq> i \<Longrightarrow> st_Get S d' k = st_Get S d k"
proof -
  note g = get_valid [OF cust_inv [OF assms(1)] assms(2)]
  have "State_Valid (jState v)" using g by (simp add: Job_Validate_iff)
  then have "CanTransition (jState v) StateCancelled"
    using assms(3) by (cases "jState v") (simp_all add: CanTransition_iff)
  then obtain v' t where a: "Apply U v StateCancelled now None = Inr (v', t)" and v': "jState v' = StateCancelled"
    using g assms(5,6) by (auto simp: Apply_Inr_iff validateFailureForState_iff requiresFailure_def)
  obtain d' where s: "advanceLoaded U S v StateCancelled now None d = (d', Inr v')"
    "st_Get S d' i = Inr v'" "\<And>k. k \<noteq> i \<Longrightarrow> st_Get S d' k = st_Get S d k"
    by (rule apply_loaded [OF cust_inv [OF assms(1)] assms(2) a assms(5)]) blast
  have "jState v \<noteq> StateCancelled" using assms(3) by auto
  then have "Cancel U S request (\<lambda>_. id) i now now2 d = (d', Inr v')"
    using assms(2-4) s(1) by (simp add: Cancel_def cancel_round_def)
  then show thesis by (rule that) (use v' s in auto)
qed

lemma cancel_started:
  assumes "cust d" "st_Get S d i = Inr v" "jState v \<in> {StateStarting, StateRunning, StateCollecting}"
    "att d i = Inr a" "aClaimedAt a \<le> now" "nano_ok now"
  obtains d' a' where "Cancel U S request (\<lambda>_. id) i now now2 d = (d', Inr v)" "cust d'"
    "att d' i = Inr a'" "aCancelRequestedAt a' \<noteq> None" "\<And>k. st_Get S d' k = st_Get S d k"
proof -
  have "aStatus a \<noteq> StatusCompleted" using cust_attempt [OF assms(1-3)] assms(4) by auto
  then obtain d' a' where r: "request i now d = (d', Inr ())" "cust d'" "att d' i = Inr a'"
    "aCancelRequestedAt a' \<noteq> None" "\<And>k. st_Get S d' k = st_Get S d k"
    using request_ok [OF assms(1,4) _ assms(6,5)] by blast
  have "\<not> State_Terminal (jState v)" "jState v \<noteq> StateCancelled" using assms(3) by auto
  then have "Cancel U S request (\<lambda>_. id) i now now2 d = (d', Inr v)"
    using assms(2,3) r(1,5) by (simp add: Cancel_def cancel_round_def)
  then show thesis by (rule that) (use r in auto)
qed

lemma cancel_raced:
  assumes "inv (w 1 (w 0 d))" "st_Get S (w 0 d) i = Inr v" "Job_Validate U v = Inr ()" "jID v = i"
    "\<not> State_Terminal (jState v)" "jState v \<notin> {StateStarting, StateRunning, StateCollecting}"
    "nano_ok now" "jUpdatedAt v \<le> now"
    "st_Get S (w 1 (w 0 d)) i = Inr u" "jState u \<noteq> jState v"
  shows "Cancel U S request w i now now2 d =
    (case cancel_round U S request w 3 i now2 (w 1 (w 0 d)) of
       (d', Some r) \<Rightarrow> (d', r) | (d', None) \<Rightarrow> (d', Inl [Job_ErrConflict]))"
proof -
  have "CanTransition (jState v) StateCancelled"
    using assms(3,5) by (cases "jState v") (simp_all add: CanTransition_iff Job_Validate_iff)
  then obtain v' t where a: "Apply U v StateCancelled now None = Inr (v', t)"
    using assms(3,7,8) by (auto simp: Apply_Inr_iff validateFailureForState_iff requiresFailure_def)
  have "advanceLoaded U S v StateCancelled now None (w 1 (w 0 d)) = (w 1 (w 0 d), Inl [Job_ErrConflict])"
    using advance_stale [OF assms(1) _ assms(10) a] assms(4,9) by simp
  moreover have "jState v \<noteq> StateCancelled" using assms(5) by auto
  ultimately have "cancel_round U S request w 0 i now d = (w 1 (w 0 d), None)"
    using assms(2,5,6) by (simp add: cancel_round_def)
  then show ?thesis by (simp add: Cancel_def)
qed

end

section \<open>Properties\<close>

text \<open>
  Submission. On the SQLite repository, submitting a valid specification under a fresh identifier with
  a clock that does not run backwards returns the queued job, the returned job is the stored one, and no other job
  changes.
\<close>

theorem submit_queues:
  assumes "jobs_ok U d" "Job_Get U d i = Inl [Job_ErrNotFound]" "New U i s now1 = Inr j" "storable j"
    "now1 \<le> now2" "now2 \<le> now3" "nano_ok now3"
  shows "\<exists>d' v. submitWithID U (sqlite_store U) i s now1 now2 now3 d = (d', Inr v) \<and> jobs_ok U d'
    \<and> Job_Get U d' i = Inr v \<and> jState v = StateQueued \<and> jSpec v = s \<and> jCreatedAt v = now1 \<and> jUpdatedAt v = now3
    \<and> (\<forall>k. k \<noteq> i \<longrightarrow> Job_Get U d' k = Job_Get U d k)"
proof -
  have "jCreatedAt j = now1" using assms(3) by (auto simp: New_def Let_def result_simps)
  then have n: "nano_ok now1" "nano_ok now2"
    using assms(4-7) nano_ok_mono [of now1 now3 now2] by (auto simp: storable_def)
  have "st_Get (sqlite_store U) d i = Inl [Job_ErrNotFound]" using assms(2) by (simp add: sqlite_store_def)
  then show ?thesis
    by (rule js.submit_ok [OF assms(1) _ assms(3-6) n assms(7)]) (auto simp: sqlite_store_def)
qed

theorem submit_queues_witness:
  "\<exists>d' v. submitWithID ascii_casing (sqlite_store ascii_casing) sample_id plain_spec 5 6 7 empty_db = (d', Inr v)
     \<and> Job_Get ascii_casing d' sample_id = Inr v \<and> jState v = StateQueued"
proof -
  have "Job_Get ascii_casing empty_db sample_id = Inl [Job_ErrNotFound]"
    using sample_id_valid by (simp add: Job_Get_def queryJob_def empty_db_def remap_def)
  moreover have "New ascii_casing sample_id plain_spec 5 = Inr plain_job"
    using plain_job_valid by (simp add: New_def Let_def plain_job_def)
  ultimately show ?thesis
    using submit_queues [OF jobs_ok_empty, of ascii_casing sample_id plain_spec 5 plain_job 6 7] plain_job_storable
    by (auto simp: nano_ok_def)
qed

end
