(* ===== verification/WorkerSystem.thy ===== *)
theory WorkerSystem
  imports JobService
begin

text \<open>
  The worker as a transition system on its database: clients submit and cancel jobs, the dispatcher and
  the runners claim, start, heartbeat, collect and complete attempts. Each step is one repository call of
  \<open>internal/app/worker\<close>, in any order and by any process; a call that returns an error is a step, too. The
  reachable databases satisfy the custody invariant.
\<close>

inductive worker_step :: "casing \<Rightarrow> db \<Rightarrow> db \<Rightarrow> bool" for U where
  create: "storable j \<Longrightarrow> Job_Create U j d = (d', r) \<Longrightarrow> worker_step U d d'"
| advance: "free_step (tFrom t) (tTo t) \<Longrightarrow> ApplyTransition U t d = (d', r) \<Longrightarrow> worker_step U d d'"
| claim: "Claim U i pid at d = (d', r) \<Longrightarrow> worker_step U d d'"
| mark_running: "MarkRunning U i pid ppid at d = (d', r) \<Longrightarrow> worker_step U d d'"
| heartbeat: "Heartbeat i pid at d = (d', r) \<Longrightarrow> worker_step U d d'"
| request: "RequestCancellation i at d = (d', r) \<Longrightarrow> worker_step U d d'"
| complete: "Complete U i pid c d = (d', r) \<Longrightarrow> worker_step U d d'"
| set_progress: "SetProgress i p d = (d', r) \<Longrightarrow> worker_step U d d'"
| clear_progress: "ClearProgress i d = (d', r) \<Longrightarrow> worker_step U d d'"

inductive reachable :: "casing \<Rightarrow> db \<Rightarrow> bool" for U where
  start: "reachable U empty_db"
| step: "reachable U d \<Longrightarrow> worker_step U d d' \<Longrightarrow> reachable U d'"

lemma Job_Create_error: "Job_Create U j d = (d', Inl e) \<Longrightarrow> d' = d"
  by (simp add: Job_Create_def transact_Inl_iff)

lemma ApplyTransition_error: "ApplyTransition U t d = (d', Inl e) \<Longrightarrow> d' = d"
  by (simp add: ApplyTransition_def transact_Inl_iff)

lemma SetProgress_error: "SetProgress i p d = (d', Inl e) \<Longrightarrow> d' = d"
  by (simp add: SetProgress_def transact_Inl_iff)

lemma Claim_error: "Claim U i pid at d = (d', Inl e) \<Longrightarrow> d' = d"
  by (simp add: Claim_transact transact_Inl_iff)

lemma MarkRunning_error: "MarkRunning U i pid ppid at d = (d', Inl e) \<Longrightarrow> d' = d"
  by (simp add: MarkRunning_transact transact_Inl_iff)

lemma Complete_error: "Complete U i pid c d = (d', Inl e) \<Longrightarrow> d' = d"
  by (simp add: Complete_transact transact_Inl_iff)

lemmas operation_errors = Job_Create_error ApplyTransition_error SetProgress_error Claim_error
  MarkRunning_error Complete_error

lemma SetProgress_custody:
  "custody U d \<Longrightarrow> SetProgress i p d = (d', Inr ()) \<Longrightarrow> custody U d'"
  using SetProgress_jobs_ok [of U d i p d']
  by (auto simp: custody_def SetProgress_def transact_Inr_iff result_simps split: if_splits)

lemma ClearProgress_custody: "custody U d \<Longrightarrow> ClearProgress i d = (d', r) \<Longrightarrow> custody U d'"
  using ClearProgress_jobs_ok [of U d i d' r]
  by (auto simp: custody_def ClearProgress_def split: if_splits)

lemma worker_step_custody: "worker_step U d d' \<Longrightarrow> custody U d \<Longrightarrow> custody U d'"
proof (induction rule: worker_step.induct)
  case (create j d d' r)
  then show ?case by (cases r) (auto dest: operation_errors Job_Create_custody)
next
  case (advance t d d' r)
  then show ?case by (cases r) (auto dest: operation_errors ApplyTransition_custody)
next
  case (claim i pid at d d' r)
  then show ?case by (cases r) (auto dest: operation_errors Claim_custody)
next
  case (mark_running i pid ppid at d d' r)
  then show ?case by (cases r) (auto dest: operation_errors MarkRunning_custody)
next
  case (heartbeat i pid at d d' r)
  then show ?case using Heartbeat_custody by blast
next
  case (request i at d d' r)
  then show ?case using RequestCancellation_custody by blast
next
  case (complete i pid c d d' r)
  then show ?case by (cases r) (auto dest: Complete_error Complete_custody)
next
  case (set_progress i p d d' r)
  then show ?case by (cases r) (auto dest: operation_errors SetProgress_custody)
next
  case (clear_progress i d d' r)
  then show ?case using ClearProgress_custody by blast
qed

lemma reachable_custody: "reachable U d \<Longrightarrow> custody U d"
  by (induction rule: reachable.induct) (auto simp: custody_empty worker_step_custody)

section \<open>What custody says of the operations\<close>

lemma custody_get:
  assumes "custody U d" "Job_Get U d i = Inr v"
  obtains r where "row_with r_id i (jobs d) = Some r" "r_state r = state_string (jState v)" "ID_Valid i"
    "queryJob U d i = Inr v" "State_Valid (jState v)"
proof -
  have q: "ID_Valid i" "queryJob U d i = Inr v" using assms(2) by (simp_all add: Job_Get_Inr_iff)
  obtain r where r: "row_with r_id i (jobs d) = Some r"
    using jobs_ok_query_cases [OF custody_jobs_ok [OF assms(1)], of i] q by auto
  have "Job_Validate U v = Inr ()" by (rule jobs_ok_queryD [OF custody_jobs_ok [OF assms(1)] r q(2)])
  then show thesis
    using that [OF r] jobs_ok_queryD(3) [OF custody_jobs_ok [OF assms(1)] r q(2)] q by (simp add: Job_Validate_iff)
qed

lemma custody_get_attempt:
  assumes "custody U d" "Attempt_Get d i = Inr a"
  obtains e where "row_with e_job_id i (job_executions d) = Some e" "scanAttempt e = Inr a" "attempt_ok e"
    "aStatus a = Status (e_status e)" "aCompletion a = CompletionKind (e_completion e)" "ID_Valid i"
    "aRunnerPID a = e_runner_pid e" "getAttempt d i = Inr a"
proof -
  have i: "ID_Valid i" "getAttempt d i = Inr a" using assms(2) by (auto simp: Attempt_Get_def split: if_splits)
  obtain e where e: "row_with e_job_id i (job_executions d) = Some e" "scanAttempt e = Inr a"
    using i(2) by (auto simp: getAttempt_def split: option.splits)
  have "attempt_ok e" by (rule custody_attempt [OF assms(1) e(1)])
  then show thesis
    using that [OF e] i e(2) by (auto simp: scanAttempt_def Let_def result_simps)
qed

lemma Attempt_Get_none:
  assumes "custody U d" "ID_Valid i" "Attempt_Get d i = Inl e"
  shows "e = [Execution_ErrNotFound] \<and> row_with e_job_id i (job_executions d) = None"
proof (cases "row_with e_job_id i (job_executions d)")
  case None
  then show ?thesis using assms by (simp add: Attempt_Get_def getAttempt_def remap_def)
next
  case (Some r)
  have "attempt_ok r" by (rule custody_attempt [OF assms(1) Some])
  then show ?thesis using Some assms by (auto simp: Attempt_Get_def getAttempt_def attempt_ok_def is_ok_iff)
qed

lemma state_names [simp]:
  "State_Valid s \<Longrightarrow> state_string s = ''starting'' \<longleftrightarrow> s = StateStarting"
  "State_Valid s \<Longrightarrow> state_string s = ''running'' \<longleftrightarrow> s = StateRunning"
  "State_Valid s \<Longrightarrow> state_string s = ''collecting'' \<longleftrightarrow> s = StateCollecting"
  "State_Valid s \<Longrightarrow> state_string s = ''succeeded'' \<longleftrightarrow> s = StateSucceeded"
  "State_Valid s \<Longrightarrow> state_string s = ''failed'' \<longleftrightarrow> s = StateFailed"
  "State_Valid s \<Longrightarrow> state_string s = ''cancelled'' \<longleftrightarrow> s = StateCancelled"
  by (cases s; simp add: state_string_def state_strings_def)+

lemma CompletionKind_iff [simp]:
  "CompletionKind v = CompletionSucceeded \<longleftrightarrow> v = ''succeeded''"
  "CompletionKind v = CompletionFailed \<longleftrightarrow> v = ''failed''"
  "CompletionKind v = CompletionCancelled \<longleftrightarrow> v = ''cancelled''"
  by (simp_all add: CompletionKind_def)

text \<open>A call by another process than the owner.\<close>

lemma not_owner:
  assumes c: "custody U d" and a: "Attempt_Get d i = Inr a" "aRunnerPID a \<noteq> pid" and p: "0 < pid"
  shows "Completion_Validate cp = Inr () \<Longrightarrow> Complete U i pid cp d = (d, Inl [Execution_ErrOwnerMismatch])"
    "0 < ppid \<Longrightarrow> \<not> IsZero at \<Longrightarrow> MarkRunning U i pid ppid at d = (d, Inl [Execution_ErrOwnerMismatch])"
    "\<not> IsZero at \<Longrightarrow> Heartbeat i pid at d = (d, Inl [Execution_ErrOwnerMismatch])"
    "CancellationRequested d i pid = Inl [Execution_ErrOwnerMismatch]"
proof -
  obtain e where e: "row_with e_job_id i (job_executions d) = Some e" "aRunnerPID a = e_runner_pid e"
    and i: "ID_Valid i" "getAttempt d i = Inr a"
    by (rule custody_get_attempt [OF c a(1)])
  have key: "keyed e_job_id (job_executions d)" using c by (simp add: custody_def)
  show "Completion_Validate cp = Inr () \<Longrightarrow> Complete U i pid cp d = (d, Inl [Execution_ErrOwnerMismatch])"
    using a p i by (simp add: Complete_transact Complete_tx_def)
  show "0 < ppid \<Longrightarrow> \<not> IsZero at \<Longrightarrow> MarkRunning U i pid ppid at d = (d, Inl [Execution_ErrOwnerMismatch])"
    using a p i by (simp add: MarkRunning_transact MarkRunning_tx_def requireActiveOwner_def)
  show "CancellationRequested d i pid = Inl [Execution_ErrOwnerMismatch]"
    using a by (simp add: CancellationRequested_def)
  have "affected (\<lambda>r. e_job_id r = i \<and> (e_runner_pid r = pid \<and> active r)) (job_executions d) = 0"
    using affected_key [OF key e(1), of "\<lambda>r. e_runner_pid r = pid \<and> active r"] a(2) e(2) by simp
  moreover have "\<not> (e_job_id r = i \<and> e_runner_pid r = pid)" if "r \<in> set (job_executions d)" for r
    using row_with_mem [OF key that] e a(2) by auto
  ultimately show "\<not> IsZero at \<Longrightarrow> Heartbeat i pid at d = (d, Inl [Execution_ErrOwnerMismatch])"
    using i(1) p a by (auto simp: Heartbeat_def sql_update_def list_ex_iff update_where_none
        explainOwnershipFailure_def)
qed

section \<open>Properties\<close>

text \<open>The database after one job has been submitted, claimed by process 41 and started as process 42.\<close>

definition sample_transition :: "state \<Rightarrow> state \<Rightarrow> time \<Rightarrow> transition" where
  "sample_transition a b t = \<lparr>tJobID = sample_id, tFrom = a, tTo = b, tAt = t, tFailure = None\<rparr>"

definition db_queued :: db where
  "db_queued = empty_db\<lparr>
     jobs := [(encode_job plain_job)\<lparr>r_state := ''queued'', r_updated_at_ns := 7\<rparr>],
     job_transitions := [transition_row_of (sample_transition StateCreated StateValidating 6),
       transition_row_of (sample_transition StateValidating StateQueued 7)]\<rparr>"

definition db_claimed :: db where
  "db_claimed = db_queued\<lparr>
     jobs := [(encode_job plain_job)\<lparr>r_state := ''starting'', r_updated_at_ns := 8\<rparr>],
     job_transitions := job_transitions db_queued @ [transition_row_of (sample_transition StateQueued StateStarting 8)],
     job_executions := [claimed_row sample_id 41 8]\<rparr>"

lemma db_queued_reachable: "reachable ascii_casing db_queued"
proof -
  let ?d1 = "empty_db\<lparr>jobs := [encode_job plain_job]\<rparr>"
  have c: "Job_Create ascii_casing plain_job empty_db = (?d1, Inr ())"
    using Job_Create_ok [OF custody_jobs_ok [OF custody_empty] plain_job_valid _ plain_job_storable]
    by (simp add: plain_job_def empty_db_def)
  have "fst (ApplyTransition ascii_casing (sample_transition StateValidating StateQueued 7)
      (fst (ApplyTransition ascii_casing (sample_transition StateCreated StateValidating 6) ?d1))) = db_queued"
    by code_simp
  moreover have "reachable ascii_casing ?d1"
    using worker_step.create [OF plain_job_storable c] reachable.start reachable.step by blast
  moreover have "free_step StateCreated StateValidating" "free_step StateValidating StateQueued"
    by (simp_all add: free_step_def in_custody_def state_string_def state_strings_def)
  ultimately show ?thesis
    using reachable.step worker_step.advance [of "sample_transition StateCreated StateValidating 6" ascii_casing ?d1]
      worker_step.advance [of "sample_transition StateValidating StateQueued 7" ascii_casing
        "fst (ApplyTransition ascii_casing (sample_transition StateCreated StateValidating 6) ?d1)"]
    by (metis prod.collapse sample_transition_def transition.select_convs(2,3))
qed

lemma db_claimed_result:
  "Claim ascii_casing sample_id 41 8 db_queued = (db_claimed, Inr (claimed_attempt sample_id 41 8))"
  by code_simp

lemma db_claimed_job:
  "Job_Get ascii_casing db_claimed sample_id = Inr (plain_job\<lparr>jState := StateStarting, jUpdatedAt := 8\<rparr>)"
  by code_simp

lemma db_claimed_attempt: "Attempt_Get db_claimed sample_id = Inr (claimed_attempt sample_id 41 8)"
  by code_simp

lemma db_claimed_reachable: "reachable ascii_casing db_claimed"
  using db_queued_reachable worker_step.claim [OF db_claimed_result] by (rule reachable.step)

text \<open>
  C1: Custody. In every reachable database a job and its attempt agree: a job that is starting has a
  starting attempt, one that is running or collecting has a running attempt, an attempt is completed
  exactly when its job has ended, and then with the outcome the job shows; a job without an attempt is
  not starting, running or collecting.
\<close>

theorem reachable_attempt_agrees:
  assumes "reachable U d" "Job_Get U d i = Inr v"
  shows "case Attempt_Get d i of
      Inr a \<Rightarrow> aStatus a = StatusStarting \<and> jState v = StateStarting
        \<or> aStatus a = StatusRunning \<and> jState v \<in> {StateRunning, StateCollecting}
        \<or> aStatus a = StatusCompleted \<and> (aCompletion a, jState v) \<in>
            {(CompletionSucceeded, StateSucceeded), (CompletionFailed, StateFailed),
             (CompletionCancelled, StateCancelled)}
    | Inl e \<Rightarrow> e = [Execution_ErrNotFound] \<and> jState v \<notin> {StateStarting, StateRunning, StateCollecting}"
proof -
  have c: "custody U d" by (rule reachable_custody [OF assms(1)])
  obtain r where r: "row_with r_id i (jobs d) = Some r" "r_state r = state_string (jState v)" "ID_Valid i"
    "State_Valid (jState v)" by (rule custody_get [OF c assms(2)])
  show ?thesis
  proof (cases "Attempt_Get d i")
    case (Inl e)
    then show ?thesis
      using Attempt_Get_none [OF c r(3) Inl] custody_linked [OF c, of i] r
      by (simp add: linked_none in_custody_def del: State_Valid_iff)
  next
    case (Inr a)
    obtain e where e: "row_with e_job_id i (job_executions d) = Some e" "aStatus a = Status (e_status e)"
      "aCompletion a = CompletionKind (e_completion e)" by (rule custody_get_attempt [OF c Inr])
    then show ?thesis
      using Inr custody_linked [OF c, of i] r by (auto simp: agree_def simp del: State_Valid_iff)
  qed
qed

theorem reachable_attempt_agrees_witness:
  "reachable ascii_casing db_claimed \<and>
   (\<exists>v a. Job_Get ascii_casing db_claimed sample_id = Inr v \<and> Attempt_Get db_claimed sample_id = Inr a
      \<and> aStatus a = StatusStarting \<and> jState v = StateStarting)"
  using reachable_attempt_agrees [OF db_claimed_reachable db_claimed_job] db_claimed_reachable
  by (simp add: db_claimed_job db_claimed_attempt claimed_attempt_def)

text \<open>
  C26: The transition log. In every reachable database the recorded transitions of a job, in the order
  they were appended, lead from created to the job's state by allowed steps only; a job with no recorded
  transition is in state created.
\<close>

theorem reachable_log_replays:
  assumes "reachable U d" "Job_Get U d i = Inr v"
  shows "replays ''created'' (history d i) = Some (state_string (jState v))"
proof -
  have c: "custody U d" by (rule reachable_custody [OF assms(1)])
  obtain r where r: "row_with r_id i (jobs d) = Some r" "r_state r = state_string (jState v)"
    by (rule custody_get [OF c assms(2)])
  then show ?thesis using jobs_ok_row [OF custody_jobs_ok [OF c] r(1)] by (auto simp: row_ok_def)
qed

theorem reachable_log_replays_witness:
  "reachable ascii_casing db_claimed \<and>
   replays ''created'' (history db_claimed sample_id) = Some (state_string StateStarting)"
  using reachable_log_replays [OF db_claimed_reachable db_claimed_job] db_claimed_reachable by simp

text \<open>
  C27: Atomicity. Whatever the database and whichever check fails, an operation of the job and execution
  repositories that returns an error has changed nothing; in particular the validation of the attempt
  after the commit of \<open>Claim\<close>, \<open>MarkRunning\<close> and \<open>Complete\<close> cannot fail.
\<close>

theorem failed_operations_change_nothing:
  "(snd (Job_Create U j d) = Inl e \<longrightarrow> fst (Job_Create U j d) = d)
   \<and> (snd (ApplyTransition U t d) = Inl e \<longrightarrow> fst (ApplyTransition U t d) = d)
   \<and> (snd (Claim U i pid at d) = Inl e \<longrightarrow> fst (Claim U i pid at d) = d)
   \<and> (snd (MarkRunning U i pid ppid at d) = Inl e \<longrightarrow> fst (MarkRunning U i pid ppid at d) = d)
   \<and> (snd (Complete U i pid c d) = Inl e \<longrightarrow> fst (Complete U i pid c d) = d)
   \<and> (custody U d \<and> snd (Heartbeat i pid at d) = Inl e \<longrightarrow> fst (Heartbeat i pid at d) = d)
   \<and> (custody U d \<and> snd (RequestCancellation i at d) = Inl e \<longrightarrow> fst (RequestCancellation i at d) = d)"
proof (intro conjI impI)
  assume "custody U d \<and> snd (Heartbeat i pid at d) = Inl e"
  then show "fst (Heartbeat i pid at d) = d"
    using Heartbeat_custody [of U d i pid at] by (metis Inl_Inr_False prod.collapse)
next
  assume "custody U d \<and> snd (RequestCancellation i at d) = Inl e"
  then show "fst (RequestCancellation i at d) = d"
    using RequestCancellation_custody [of U d i at] by (metis Inl_Inr_False prod.collapse)
qed (metis prod.collapse operation_errors)+

theorem failed_operations_change_nothing_witness:
  "snd (Claim ascii_casing sample_id 99 9 db_claimed) = Inl [Execution_ErrNotClaimable] \<and>
   fst (Claim ascii_casing sample_id 99 9 db_claimed) = db_claimed"
proof -
  have "snd (Claim ascii_casing sample_id 99 9 db_claimed) = Inl [Execution_ErrNotClaimable]" by code_simp
  then show ?thesis using failed_operations_change_nothing [of ascii_casing _ db_claimed
        "[Execution_ErrNotClaimable]" _ sample_id 99 9] by blast
qed

text \<open>
  C3: A job is claimed once. After a successful \<open>Claim\<close> the claiming process owns a starting attempt, and
  every further \<open>Claim\<close> of the job, by any process at any time, is refused without effect.
\<close>

theorem claim_is_exclusive:
  assumes "custody U d" "Claim U i pid at d = (d', Inr a)" "0 < pid'" "\<not> IsZero at'"
  shows "aRunnerPID a = pid \<and> aStatus a = StatusStarting \<and> custody U d'
    \<and> Claim U i pid' at' d' = (d', Inl [Execution_ErrNotClaimable])"
proof -
  let ?t = "\<lparr>tJobID = i, tFrom = StateQueued, tTo = StateStarting, tAt = at, tFailure = None\<rparr>"
  obtain d1 v rows where i: "ID_Valid i" and d1: "applyJobTransition U ?t d = Inr (d1, v)"
    and d': "d' = d1\<lparr>job_executions := rows\<rparr>" and a: "a = claimed_attempt i pid at"
    using assms(2) by (auto simp: Claim_transact transact_Inr_iff Claim_tx_def result_simps split: if_splits)
  have "queryJob U d1 i = Inr (v\<lparr>jUpdatedAt := UnixNano at\<rparr>)"
    using applyJobTransition_query [OF custody_jobs_ok [OF assms(1)] d1] by simp
  moreover have "jState v = StateStarting"
    by (rule applyJobTransition_InrD [OF custody_jobs_ok [OF assms(1)] d1]) simp
  ultimately show ?thesis
    using i assms(3,4) Claim_custody [OF assms(1,2)]
    by (simp add: d' a claimed_attempt_def Claim_transact Claim_tx_def)
qed

theorem claim_is_exclusive_witness:
  "Claim ascii_casing sample_id 41 8 db_queued = (db_claimed, Inr (claimed_attempt sample_id 41 8))
   \<and> Claim ascii_casing sample_id 77 9 db_claimed = (db_claimed, Inl [Execution_ErrNotClaimable])"
  using claim_is_exclusive [OF reachable_custody [OF db_queued_reachable] db_claimed_result, of 77 9]
    db_claimed_result by (simp add: IsZero_def zero_time_def)

text \<open>
  C4: Only the owner. As long as a process holds the attempt of a job, no other process can mark it
  running, heartbeat, poll or complete it: each call is refused with the owner mismatch and no effect.
\<close>

theorem only_the_owner:
  assumes "custody U d" "Attempt_Get d i = Inr a" "aRunnerPID a \<noteq> pid" "0 < pid"
    "Completion_Validate c = Inr ()" "0 < ppid" "\<not> IsZero at"
  shows "Complete U i pid c d = (d, Inl [Execution_ErrOwnerMismatch])
    \<and> MarkRunning U i pid ppid at d = (d, Inl [Execution_ErrOwnerMismatch])
    \<and> Heartbeat i pid at d = (d, Inl [Execution_ErrOwnerMismatch])
    \<and> CancellationRequested d i pid = Inl [Execution_ErrOwnerMismatch]"
  using not_owner [OF assms(1-4)] assms(5-) by blast

theorem only_the_owner_witness:
  "Attempt_Get db_claimed sample_id = Inr (claimed_attempt sample_id 41 8) \<and>
   Heartbeat sample_id 77 9 db_claimed = (db_claimed, Inl [Execution_ErrOwnerMismatch])"
proof -
  have "Completion_Validate \<lparr>cAt = 9, cExitCode = None, cTerminationSignal = '''',
      cFailure = None, cCancelled = True\<rparr> = Inr ()"
    by (simp add: Completion_Validate_def IsZero_def zero_time_def)
  then show ?thesis
    using only_the_owner [OF reachable_custody [OF db_claimed_reachable] db_claimed_attempt, of 77 _ 5 9]
      db_claimed_attempt by (auto simp: IsZero_def zero_time_def claimed_attempt_def)
qed


definition cancelled_completion :: completion where
  "cancelled_completion = \<lparr>cAt = 9, cExitCode = None, cTerminationSignal = '''', cFailure = None,
     cCancelled = True\<rparr>"


text \<open>
  C32: Cancellation without interference. On a job that has ended cancelled it returns the job, on a job
  that ended otherwise it returns \<open>ErrJobTerminal\<close>, both without effect; a job that has not started becomes
  cancelled durably; for a job in custody the request is recorded in its attempt and the job itself is unchanged.
\<close>

theorem cancel_outcomes:
  assumes "custody U d" "Job_Get U d i = Inr v" "nano_ok now" "jUpdatedAt v \<le> now"
    "\<forall>a. Attempt_Get d i = Inr a \<longrightarrow> aClaimedAt a \<le> now"
  shows "case Cancel U (sqlite_store U) RequestCancellation (\<lambda>_. id) i now now2 d of (d', res) \<Rightarrow>
    if jState v = StateCancelled then d' = d \<and> res = Inr v
    else if State_Terminal (jState v) then d' = d \<and> res = Inl [Worker_ErrJobTerminal]
    else if jState v \<in> {StateStarting, StateRunning, StateCollecting}
    then res = Inr v \<and> Job_Get U d' i = Inr v
      \<and> (\<exists>a. Attempt_Get d' i = Inr a \<and> aCancelRequestedAt a \<noteq> None)
    else (\<exists>v'. res = Inr v' \<and> jState v' = StateCancelled \<and> Job_Get U d' i = Inr v')"
proof -
  have g: "st_Get (sqlite_store U) d i = Inr v" using assms(2) by (simp add: sqlite_store_def)
  consider (ended) "State_Terminal (jState v)"
    | (custody) "jState v \<in> {StateStarting, StateRunning, StateCollecting}"
    | (waiting) "\<not> State_Terminal (jState v)" "jState v \<notin> {StateStarting, StateRunning, StateCollecting}"
    by blast
  then show ?thesis
  proof cases
    case ended
    then show ?thesis using g by (simp add: Cancel_def cancel_round_def)
  next
    case custody
    obtain a where a: "Attempt_Get d i = Inr a" using ws.cust_attempt [OF assms(1) g custody] by blast
    have t: "aClaimedAt a \<le> now" using assms(5) a by simp
    show ?thesis
      by (rule ws.cancel_started [OF assms(1) g custody a t assms(3), of now2])
        (use custody assms(2) in \<open>auto simp: sqlite_store_def\<close>)
  next
    case waiting
    have c: "jState v \<noteq> StateCancelled" using waiting(1) by auto
    show ?thesis
      by (rule ws.cancel_not_started [OF assms(1) g waiting assms(3,4), of now2])
        (use waiting c in \<open>auto simp: sqlite_store_def\<close>)
  qed
qed

theorem cancel_outcomes_witness:
  "\<exists>d' v a. Cancel ascii_casing (sqlite_store ascii_casing) RequestCancellation (\<lambda>_. id) sample_id 9 9 db_claimed
       = (d', Inr v) \<and> jState v = StateStarting
     \<and> Attempt_Get d' sample_id = Inr a \<and> aCancelRequestedAt a \<noteq> None"
proof -
  have "case Cancel ascii_casing (sqlite_store ascii_casing) RequestCancellation (\<lambda>_. id) sample_id 9 9 db_claimed
      of (d', res) \<Rightarrow> res = Inr (plain_job\<lparr>jState := StateStarting, jUpdatedAt := 8\<rparr>)
        \<and> (\<exists>a. Attempt_Get d' sample_id = Inr a \<and> aCancelRequestedAt a \<noteq> None)"
    using cancel_outcomes [OF reachable_custody [OF db_claimed_reachable] db_claimed_job, of 9 9]
    by (auto simp: nano_ok_def db_claimed_attempt claimed_attempt_def split: prod.splits)
  then show ?thesis by (auto split: prod.splits)
qed

text \<open>
  A raced cancellation. When another writer moves the job between the read and the transition of the
  first round, the transition is refused and the outcome is that of a second round on the moved job; nothing
  of the first round remains.
\<close>

theorem cancel_retries_after_race:
  assumes "jobs_ok U (w 0 d)" "jobs_ok U (w 1 (w 0 d))" "Job_Get U (w 0 d) i = Inr v"
    "\<not> State_Terminal (jState v)" "jState v \<notin> {StateStarting, StateRunning, StateCollecting}"
    "nano_ok now" "jUpdatedAt v \<le> now" "Job_Get U (w 1 (w 0 d)) i = Inr u" "jState u \<noteq> jState v"
  shows "Cancel U (sqlite_store U) RequestCancellation w i now now2 d =
    (case cancel_round U (sqlite_store U) RequestCancellation w 3 i now2 (w 1 (w 0 d)) of
       (d', Some r) \<Rightarrow> (d', r) | (d', None) \<Rightarrow> (d', Inl [Job_ErrConflict]))"
proof -
  have g: "st_Get (sqlite_store U) (w 0 d) i = Inr v" "st_Get (sqlite_store U) (w 1 (w 0 d)) i = Inr u"
    using assms(3,8) by (simp_all add: sqlite_store_def)
  have v: "Job_Validate U v = Inr ()" "jID v = i" using js.get_valid [OF assms(1) g(1)] by auto
  show ?thesis
    by (rule ws.cancel_raced [OF assms(2) g(1) v assms(4-7) g(2) assms(9)])
qed

definition claimed_meanwhile :: "nat \<Rightarrow> db \<Rightarrow> db" where
  "claimed_meanwhile n d = (if n = 1 then db_claimed else d)"

lemma db_queued_job:
  "Job_Get ascii_casing db_queued sample_id = Inr (plain_job\<lparr>jState := StateQueued, jUpdatedAt := 7\<rparr>)"
  by code_simp

theorem cancel_retries_after_race_witness:
  "Cancel ascii_casing (sqlite_store ascii_casing) RequestCancellation claimed_meanwhile sample_id 9 9 db_queued =
    (case cancel_round ascii_casing (sqlite_store ascii_casing) RequestCancellation claimed_meanwhile 3 sample_id 9
        db_claimed of
       (d', Some r) \<Rightarrow> (d', r) | (d', None) \<Rightarrow> (d', Inl [Job_ErrConflict]))"
  using cancel_retries_after_race [of ascii_casing claimed_meanwhile db_queued sample_id _ 9 _ 9]
    db_queued_job db_claimed_job custody_jobs_ok [OF reachable_custody [OF db_queued_reachable]]
    custody_jobs_ok [OF reachable_custody [OF db_claimed_reachable]]
  by (auto simp: claimed_meanwhile_def nano_ok_def)

end
