(* ===== verification/Dispatcher.thy ===== *)
theory Dispatcher
  imports WorkerSystem
begin

text \<open>
  \<open>internal/app/worker/dispatcher.go\<close>: the reconciliation of the durable queue. \<open>recoverLostRunners\<close> fails the
  attempts whose runner died, \<open>reconcile\<close> launches runners for queued jobs at most once per retry interval.

  The process table and the launcher are arguments: \<open>alive\<close> tells whether a process exists, \<open>kill\<close> and
  \<open>launch\<close> are the results of \<open>KillProcessTree\<close> and \<open>Launch\<close>. The calls made are returned in order. The map
  \<open>launched\<close> is an association list.
\<close>

section \<open>Definitions\<close>

definition defaultDispatchInterval :: int where "defaultDispatchInterval = 250000000"
definition defaultLaunchRetry :: int where "defaultLaunchRetry = 5000000000"
definition defaultRunnerStaleAfter :: int where "defaultRunnerStaleAfter = 10000000000"

text \<open>\<open>time.Time.Sub\<close> saturates at the range of \<open>time.Duration\<close>.\<close>

definition Sub :: "time \<Rightarrow> time \<Rightarrow> int" where
  "Sub t u = max (- (2 ^ 63)) (min (2 ^ 63 - 1) (t - u))"

record dispatcher =
  dispatchInterval :: int
  launchRetry :: int
  runnerStaleAfter :: int
  launched :: "(job_id \<times> time) list"

text \<open>The intervals as \<open>NewDispatcher\<close> fixes them: zero is the default, a negative one is refused.\<close>

definition NewDispatcher :: "int \<Rightarrow> int \<Rightarrow> int \<Rightarrow> dispatcher result" where
  "NewDispatcher interval retry stale =
    (let interval' = (if interval = 0 then defaultDispatchInterval else interval);
         retry' = (if retry = 0 then defaultLaunchRetry else retry);
         stale' = (if stale = 0 then defaultRunnerStaleAfter else stale)
     in if interval' < 0 \<or> retry' < 0 \<or> stale' < 0 then Inl [Worker_ErrMissingDependency]
        else Inr \<lparr>dispatchInterval = interval', launchRetry = retry', runnerStaleAfter = stale', launched = []\<rparr>)"

definition runner_lost :: failure where
  "runner_lost = \<lparr>fCode = ''runner_lost'',
     fMessage = ''the process supervising this job exited unexpectedly'', fRetryable = True\<rparr>"

definition lost_completion :: "time \<Rightarrow> completion" where
  "lost_completion now = \<lparr>cAt = now, cExitCode = None, cTerminationSignal = '''',
     cFailure = Some runner_lost, cCancelled = False\<rparr>"

definition orphaned :: "(int \<Rightarrow> bool) \<Rightarrow> int \<Rightarrow> time \<Rightarrow> attempt \<Rightarrow> bool" where
  "orphaned alive stale now a \<longleftrightarrow> \<not> (alive (aRunnerPID a) \<or> Sub now (aHeartbeatAt a) < stale)"

fun recover_loop ::
    "casing \<Rightarrow> (int \<Rightarrow> bool) \<Rightarrow> (int \<Rightarrow> unit result) \<Rightarrow> int \<Rightarrow> time \<Rightarrow> attempt list \<Rightarrow> db \<Rightarrow> db \<times> unit result" where
  "recover_loop U alive kill stale now [] d = (d, Inr ())"
| "recover_loop U alive kill stale now (a # as) d =
    (if \<not> orphaned alive stale now a then recover_loop U alive kill stale now as d
     else (case if aProcessPID a > 0 then kill (aProcessPID a) else Inr () of
         Inl e \<Rightarrow> (d, Inl e)
       | Inr _ \<Rightarrow>
         (case Complete U (aJobID a) (aRunnerPID a) (lost_completion now) d of
         (d', Inl e) \<Rightarrow>
           if errors_is e Execution_ErrAttemptCompleted then recover_loop U alive kill stale now as d'
           else (d', Inl e)
       | (d', Inr _) \<Rightarrow> recover_loop U alive kill stale now as d')))"

definition recoverLostRunners ::
    "casing \<Rightarrow> (int \<Rightarrow> bool) \<Rightarrow> (int \<Rightarrow> unit result) \<Rightarrow> int \<Rightarrow> time \<Rightarrow> db \<Rightarrow> db \<times> unit result" where
  "recoverLostRunners U alive kill stale now d =
    (case ListActive d of Inl e \<Rightarrow> (d, Inl e) | Inr as \<Rightarrow> recover_loop U alive kill stale now as d)"

fun launch_loop ::
    "(job_id \<Rightarrow> unit result) \<Rightarrow> int \<Rightarrow> time \<Rightarrow> job list \<Rightarrow> (job_id \<times> time) list
     \<Rightarrow> (job_id \<times> time) list \<times> job_id list \<times> unit result" where
  "launch_loop launch retry now [] m = (m, [], Inr ())"
| "launch_loop launch retry now (j # js) m =
    (if (case map_of m (jID j) of None \<Rightarrow> False | Some t \<Rightarrow> Sub now t < retry)
     then launch_loop launch retry now js m
     else let m' = map_update (jID j) now m in
       (case launch (jID j) of
          Inl e \<Rightarrow> (m', [jID j], Inl e)
        | Inr _ \<Rightarrow> (case launch_loop launch retry now js m' of (m'', calls, r) \<Rightarrow> (m'', jID j # calls, r))))"

definition reconcile ::
    "casing \<Rightarrow> (int \<Rightarrow> bool) \<Rightarrow> (int \<Rightarrow> unit result) \<Rightarrow> (job_id \<Rightarrow> unit result) \<Rightarrow> time \<Rightarrow> dispatcher \<Rightarrow> db
     \<Rightarrow> db \<times> dispatcher \<times> job_id list \<times> unit result" where
  "reconcile U alive kill launch now D d =
    (case recoverLostRunners U alive kill (runnerStaleAfter D) now d of
       (d', Inl e) \<Rightarrow> (d', D, [], Inl e)
     | (d', Inr _) \<Rightarrow>
        (case Job_List U d' [StateQueued] 500 of
           Inl e \<Rightarrow> (d', D, [], Inl e)
         | Inr queued \<Rightarrow>
            (case launch_loop launch (launchRetry D) now queued (launched D) of
               (m, calls, Inl e) \<Rightarrow> (d', D\<lparr>launched := m\<rparr>, calls, Inl e)
             | (m, calls, Inr _) \<Rightarrow>
                 (d', D\<lparr>launched := filter (\<lambda>(i, _). i \<in> set (map jID queued)) m\<rparr>, calls, Inr ()))))"

section \<open>Completing a lost attempt\<close>

lemma lost_completion_valid: "\<not> IsZero now \<Longrightarrow> Completion_Validate (lost_completion now) = Inr ()"
  by (simp add: Completion_Validate_def lost_completion_def runner_lost_def Failure_Validate_def)

lemma Complete_lost_ok:
  assumes c: "custody U d" and a: "Attempt_Get d i = Inr a" "aStatus a \<noteq> StatusCompleted"
    and j: "Job_Get U d i = Inr u" "jUpdatedAt u \<le> now" and t: "nano_ok now" "aHeartbeatAt a \<le> now"
  shows "\<exists>d' v b. Complete U i (aRunnerPID a) (lost_completion now) d = (d', Inr (v, b)) \<and> custody U d'
    \<and> Job_Get U d' i = Inr (u\<lparr>jState := StateFailed, jUpdatedAt := now, jFailure := Some runner_lost\<rparr>)
    \<and> (\<exists>b'. Attempt_Get d' i = Inr b' \<and> aStatus b' = StatusCompleted)
    \<and> (\<forall>k. k \<noteq> i \<longrightarrow> Attempt_Get d' k = Attempt_Get d k \<and> Job_Get U d' k = Job_Get U d k)"
proof -
  let ?c = "lost_completion now" and ?pid = "aRunnerPID a"
  obtain e where e: "row_with e_job_id i (job_executions d) = Some e" "scanAttempt e = Inr a" "attempt_ok e"
    "aStatus a = Status (e_status e)" "ID_Valid i" "?pid = e_runner_pid e" "getAttempt d i = Inr a"
    by (rule custody_get_attempt [OF c a(1)])
  obtain r where r: "row_with r_id i (jobs d) = Some r" "r_state r = state_string (jState u)"
    "queryJob U d i = Inr u" "State_Valid (jState u)" by (rule custody_get [OF c j(1)])
  have ok: "jobs_ok U d" using c by (rule custody_jobs_ok)
  have ag: "agree (e_status e) (e_completion e) (state_string (jState u))"
    using custody_linked [OF c, of i] e(1) r by simp
  have st: "aStatus a = StatusStarting \<and> jState u = StateStarting
      \<or> aStatus a = StatusRunning \<and> jState u \<in> {StateRunning, StateCollecting}"
    using ag a(2) e(4) r(4) by (auto simp: agree_def simp del: State_Valid_iff)
  have act: "e_runner_pid e = ?pid \<and> active e" using st e(4,6) by (auto simp: active_def)
  have key: "keyed e_job_id (job_executions d)" using c by (simp add: custody_def)
  have z: "\<not> IsZero now" using t(1) by simp
  have f: "e_claimed_at_ns e \<le> now"
    using e(2,3) t(2) scanAttempt_fields [OF e(2)] by (auto simp: attempt_ok_def execution_row_check_def)
  have chk: "execution_row_check (finish_row ?c e)"
    using e(3) f t(1) by (auto simp: attempt_ok_def execution_row_check_def finish_row_def lost_completion_def
        completion_string_def Kind_def split: option.splits)
  let ?rows = "update_where (\<lambda>s. e_job_id s = i \<and> (e_runner_pid s = ?pid \<and> active s)) (finish_row ?c) (job_executions d)"
  have up: "sql_update execution_row_check (\<lambda>s. e_job_id s = i \<and> (e_runner_pid s = ?pid \<and> active s)) (finish_row ?c)
      (job_executions d) = Inr (?rows, 1)"
    by (rule sql_update_key [where p = "\<lambda>s. e_runner_pid s = ?pid \<and> active s"]) (use key e(1) act chk in simp_all)
  let ?v = "u\<lparr>jState := StateFailed, jUpdatedAt := now, jFailure := Some runner_lost\<rparr>"
  let ?t = "\<lparr>tJobID = i, tFrom = jState u, tTo = StateFailed, tAt = now, tFailure = Some runner_lost\<rparr>"
  let ?d = "d\<lparr>job_executions := ?rows\<rparr>"
  have "CanTransition (jState u) StateFailed" using st by (auto simp: CanTransition_iff)
  then have ap: "Apply U u StateFailed now (Some runner_lost) = Inr (?v, ?t)"
    using jobs_ok_queryD [OF ok r(1,3)] j(2) z
    by (simp add: Apply_Inr_iff validateFailureForState_iff requiresFailure_def runner_lost_def)
  have step: "applyJobTransition U ?t ?d = Inr (stepped ?t ?v ?d, ?v)"
    using ApplyTransition_ok [of U ?d ?t u ?v] ok r(3) e(5) ap t(1) by simp
  have fields: "cAt ?c = now" "cFailure ?c = Some runner_lost" "Kind ?c = CompletionFailed"
    "completion_state ?c = StateFailed"
    by (simp_all add: lost_completion_def Kind_def completion_state_def)
  have pid: "\<not> ?pid \<le> 0"
    using Attempt_Validate_base [OF getAttempt_valid [OF e(7)]] by (simp add: attempt_base_def)
  have guard: "\<not> (aStatus a = StatusStarting \<and> jState u \<noteq> StateStarting
      \<or> aStatus a = StatusRunning \<and> jState u \<noteq> StateRunning \<and> jState u \<noteq> StateCollecting)"
    using st by auto
  have "Complete_tx U i ?pid ?c d = Inr (stepped ?t ?v ?d, ?v, completed_attempt a ?c)"
    unfolding Complete_tx_def
    by (simp add: e(5,7) a(2) pid guard t(2) [folded not_less] fields r(3) up step lost_completion_valid [OF z] requireOneAffected_def
        del: stepped_executions)
  then have co: "Complete U i ?pid ?c d = (stepped ?t ?v ?d, Inr (?v, completed_attempt a ?c))"
    by (simp add: Complete_transact)
  have c': "custody U (stepped ?t ?v ?d)" by (rule Complete_custody [OF c co])
  have row: "row_with e_job_id k ?rows = (if k = i then Some (finish_row ?c e) else row_with e_job_id k (job_executions d))" for k
    using row_with_update_key [of e_job_id "finish_row ?c" "job_executions d" i e "\<lambda>s. e_runner_pid s = ?pid \<and> active s" k]
      key e(1) act by (simp add: finish_row_def)
  obtain b where b: "scanAttempt (finish_row ?c e) = Inr b"
    using custody_attempt [OF c', of i "finish_row ?c e"] row by (auto simp: attempt_ok_def is_ok_iff)
  have "Attempt_Get (stepped ?t ?v ?d) i = Inr b" using e(5) row b by (simp add: Attempt_Get_def getAttempt_def)
  moreover have "aStatus b = StatusCompleted"
    using b by (auto simp: scanAttempt_def Let_def result_simps finish_row_def)
  moreover have "Job_Get U (stepped ?t ?v ?d) i = Inr ?v"
    using applyJobTransition_query [OF _ step] ok e(5) t(1) by (simp add: Job_Get_def)
  moreover have "Attempt_Get (stepped ?t ?v ?d) k = Attempt_Get d k \<and> Job_Get U (stepped ?t ?v ?d) k = Job_Get U d k"
    if "k \<noteq> i" for k
    using that row queryJob_stepped_other [of k ?t U ?v ?d] by (simp add: Attempt_Get_def getAttempt_def Job_Get_def)
  ultimately show ?thesis using co c' by blast
qed

lemma custody_attempt_job:
  assumes c: "custody U d" and a: "Attempt_Get d i = Inr a"
  obtains u where "Job_Get U d i = Inr u"
proof -
  obtain e where e: "row_with e_job_id i (job_executions d) = Some e" "ID_Valid i"
    by (rule custody_get_attempt [OF c a])
  obtain r where "row_with r_id i (jobs d) = Some r" by (rule custody_attempt [OF c e(1)])
  then show thesis
    using jobs_ok_query_cases [OF custody_jobs_ok [OF c], of i] e(2) that by (auto simp: Job_Get_Inr_iff)
qed

lemma ListActive_custody:
  assumes c: "custody U d"
  obtains as where "ListActive d = Inr as" "distinct (map aJobID as)"
    "\<And>a. a \<in> set as \<longleftrightarrow> Attempt_Get d (aJobID a) = Inr a \<and> aStatus a \<noteq> StatusCompleted"
proof -
  define rows where "rows = sort_key (\<lambda>r. (e_claimed_at_ns r, e_job_id r)) (filter active (job_executions d))"
  define g where "g r = (case scanAttempt r of Inr a \<Rightarrow> a)" for r
  have key: "keyed e_job_id (job_executions d)" using c by (simp add: custody_def)
  have ok: "attempt_ok r" if "r \<in> set (job_executions d)" for r
    by (rule custody_attempt [OF c row_with_mem [OF key that]])
  have scan: "scanAttempt r = Inr (g r) \<and> ID_Valid (e_job_id r) \<and> aJobID (g r) = e_job_id r
      \<and> (aStatus (g r) \<noteq> StatusCompleted \<longleftrightarrow> active r)" if r: "r \<in> set (job_executions d)" for r
  proof -
    obtain a where a: "scanAttempt r = Inr a" using ok [OF r] by (auto simp: attempt_ok_def is_ok_iff)
    have "ID_Valid (e_job_id r)" using ok [OF r] by (simp add: attempt_ok_def)
    moreover have "aStatus a \<noteq> StatusCompleted \<longleftrightarrow> active r"
      using a scanAttempt_fields [OF a calculation] ok [OF r]
      by (auto simp: active_def attempt_ok_def execution_row_check_def)
    ultimately show ?thesis using a scanAttempt_fields [OF a] by (simp add: g_def)
  qed
  have mem: "r \<in> set rows \<longleftrightarrow> r \<in> set (job_executions d) \<and> active r" for r by (auto simp: rows_def)
  have "ListActive d = Inr (map g rows)"
    unfolding ListActive_def rows_def [symmetric] by (rule collect_total) (simp add: mem scan)
  moreover have "distinct (map aJobID (map g rows))"
  proof -
    have "distinct (map e_job_id rows)"
      using key by (auto simp: rows_def keyed_def distinct_map elim: inj_on_subset)
    moreover have "map aJobID (map g rows) = map e_job_id rows" by (simp add: mem scan)
    ultimately show ?thesis by (simp only:)
  qed
  moreover have "a \<in> set (map g rows) \<longleftrightarrow> Attempt_Get d (aJobID a) = Inr a \<and> aStatus a \<noteq> StatusCompleted" for a
  proof
    assume "a \<in> set (map g rows)"
    then obtain r where r: "r \<in> set (job_executions d)" "active r" "a = g r" by (auto simp: mem)
    then show "Attempt_Get d (aJobID a) = Inr a \<and> aStatus a \<noteq> StatusCompleted"
      using scan [OF r(1)] row_with_mem [OF key r(1)] by (simp add: Attempt_Get_def getAttempt_def)
  next
    assume a: "Attempt_Get d (aJobID a) = Inr a \<and> aStatus a \<noteq> StatusCompleted"
    obtain e where e: "row_with e_job_id (aJobID a) (job_executions d) = Some e" "scanAttempt e = Inr a"
      using custody_get_attempt [OF c conjunct1 [OF a]] by blast
    have "e \<in> set (job_executions d)" using row_with_SomeD [OF e(1)] by simp
    then show "a \<in> set (map g rows)" using scan [of e] e(2) a by (auto simp: mem)
  qed
  ultimately show thesis by (rule that)
qed

text \<open>The loop fails exactly the orphaned attempts it is given.\<close>

definition lost_job :: "time \<Rightarrow> job \<Rightarrow> job" where
  "lost_job now u = u\<lparr>jState := StateFailed, jUpdatedAt := now, jFailure := Some runner_lost\<rparr>"

lemma orphaned_heartbeat: "orphaned alive stale now a \<Longrightarrow> 0 \<le> stale \<Longrightarrow> aHeartbeatAt a \<le> now"
  by (auto simp: orphaned_def Sub_def split: if_splits)

lemma recover_loop_spec:
  assumes "reachable U d" "distinct (map aJobID as)" "nano_ok now" "0 \<le> stale" "\<And>p. kill p = Inr ()"
    and "\<And>a. a \<in> set as \<Longrightarrow> Attempt_Get d (aJobID a) = Inr a \<and> aStatus a \<noteq> StatusCompleted"
    and "\<And>i u. Job_Get U d i = Inr u \<Longrightarrow> jUpdatedAt u \<le> now"
  shows "\<exists>d'. recover_loop U alive kill stale now as d = (d', Inr ()) \<and> reachable U d'
    \<and> (\<forall>i. Job_Get U d' i = (if \<exists>a\<in>set as. aJobID a = i \<and> orphaned alive stale now a
        then ebind (Job_Get U d i) (\<lambda>u. Inr (lost_job now u)) else Job_Get U d i))"
  using assms
proof (induction as arbitrary: d)
  case Nil
  then show ?case by simp
next
  case (Cons a as)
  show ?case
  proof (cases "orphaned alive stale now a")
    case False
    then show ?thesis using Cons.IH [of d] Cons.prems by (auto simp: image_iff)
  next
    case True
    have a: "Attempt_Get d (aJobID a) = Inr a" "aStatus a \<noteq> StatusCompleted" using Cons.prems(6) by auto
    have c: "custody U d" using Cons.prems(1) by (rule reachable_custody)
    obtain u where u: "Job_Get U d (aJobID a) = Inr u" using custody_attempt_job [OF c a(1)] by blast
    obtain d1 v b where d1: "Complete U (aJobID a) (aRunnerPID a) (lost_completion now) d = (d1, Inr (v, b))"
        "Job_Get U d1 (aJobID a) = Inr (lost_job now u)"
        "\<And>k. k \<noteq> aJobID a \<Longrightarrow> Attempt_Get d1 k = Attempt_Get d k \<and> Job_Get U d1 k = Job_Get U d k"
      using Complete_lost_ok [OF c a u Cons.prems(7) [OF u] Cons.prems(3) orphaned_heartbeat [OF True Cons.prems(4)]]
      unfolding lost_job_def by blast
    have r1: "reachable U d1" using Cons.prems(1) worker_step.complete [OF d1(1)] by (rule reachable.step)
    have "\<exists>d'. recover_loop U alive kill stale now as d1 = (d', Inr ()) \<and> reachable U d'
      \<and> (\<forall>i. Job_Get U d' i = (if \<exists>a\<in>set as. aJobID a = i \<and> orphaned alive stale now a
          then ebind (Job_Get U d1 i) (\<lambda>u. Inr (lost_job now u)) else Job_Get U d1 i))"
    proof (rule Cons.IH [OF r1])
      show "Attempt_Get d1 (aJobID x) = Inr x \<and> aStatus x \<noteq> StatusCompleted" if "x \<in> set as" for x
        using that Cons.prems(2,6) d1(3) [of "aJobID x"] by (auto simp: image_iff)
      show "jUpdatedAt w \<le> now" if "Job_Get U d1 i = Inr w" for i w
        using that d1(2) d1(3) [of i] Cons.prems(7) [of i w] by (cases "i = aJobID a") (auto simp: lost_job_def)
    qed (use Cons.prems in auto)
    then obtain d' where d': "recover_loop U alive kill stale now as d1 = (d', Inr ())" "reachable U d'"
      "\<And>i. Job_Get U d' i = (if \<exists>a\<in>set as. aJobID a = i \<and> orphaned alive stale now a
          then ebind (Job_Get U d1 i) (\<lambda>u. Inr (lost_job now u)) else Job_Get U d1 i)" by blast
    have no: "\<not> (\<exists>x\<in>set as. aJobID x = aJobID a \<and> orphaned alive stale now x)"
      using Cons.prems(2) by (auto intro: rev_image_eqI)
    have "Job_Get U d' i = (if \<exists>x\<in>set (a # as). aJobID x = i \<and> orphaned alive stale now x
        then ebind (Job_Get U d i) (\<lambda>u. Inr (lost_job now u)) else Job_Get U d i)" for i
      using d'(3) [of i] d1(2) d1(3) [of i] True u no by (cases "i = aJobID a") auto
    moreover have "recover_loop U alive kill stale now (a # as) d = (d', Inr ())"
      using d'(1) by (simp add: True d1(1) Cons.prems(5))
    ultimately show ?thesis using d'(2) by blast
  qed
qed

section \<open>Properties\<close>

text \<open>
  C33: recovery. When every orphaned process can be killed and no job was updated after \<open>now\<close>, a recovery pass over
  a reachable database returns without error; the job of every active attempt whose runner is gone and whose
  heartbeat is stale is failed with \<open>runner_lost\<close> (retryable), and every other job is as it was.
\<close>
theorem recovery_fails_the_orphans:
  assumes "reachable U d" "nano_ok now" "0 \<le> stale" "\<And>p. kill p = Inr ()"
    and "\<And>i u. Job_Get U d i = Inr u \<Longrightarrow> jUpdatedAt u \<le> now"
  shows "\<exists>d'. recoverLostRunners U alive kill stale now d = (d', Inr ()) \<and> reachable U d'
    \<and> (\<forall>i. Job_Get U d' i =
        (if \<exists>a. Attempt_Get d i = Inr a \<and> aStatus a \<noteq> StatusCompleted \<and> orphaned alive stale now a
         then ebind (Job_Get U d i) (\<lambda>u. Inr (lost_job now u)) else Job_Get U d i))"
proof -
  have c: "custody U d" using assms(1) by (rule reachable_custody)
  obtain as where as: "ListActive d = Inr as" "distinct (map aJobID as)"
    "\<And>a. a \<in> set as \<longleftrightarrow> Attempt_Get d (aJobID a) = Inr a \<and> aStatus a \<noteq> StatusCompleted"
    by (rule ListActive_custody [OF c]) blast
  have own: "aJobID a = i" if "Attempt_Get d i = Inr a" for a i
    using that by (rule custody_get_attempt [OF c]) (auto dest: row_with_SomeD scanAttempt_fields)
  have "(\<exists>a\<in>set as. aJobID a = i \<and> orphaned alive stale now a) \<longleftrightarrow>
      (\<exists>a. Attempt_Get d i = Inr a \<and> aStatus a \<noteq> StatusCompleted \<and> orphaned alive stale now a)" for i
    unfolding Bex_def as(3) using own by blast
  then show ?thesis
    using recover_loop_spec [where alive = alive and kill = kill, OF assms(1) as(2) assms(2,3,4) _ assms(5)] as(1,3)
    by (simp add: recoverLostRunners_def)
qed

theorem recovery_fails_the_orphans_witness:
  "\<exists>d'. recoverLostRunners ascii_casing (\<lambda>_. False) (\<lambda>_. Inr ()) defaultRunnerStaleAfter 20000000000 db_claimed
      = (d', Inr ()) \<and> reachable ascii_casing d'
    \<and> Job_Get ascii_casing d' sample_id = Inr (lost_job 20000000000 (plain_job\<lparr>jState := StateStarting, jUpdatedAt := 8\<rparr>))"
proof -
  have "jUpdatedAt u \<le> 20000000000" if "Job_Get ascii_casing db_claimed i = Inr u" for i u
  proof -
    have "i = sample_id"
      using that by (rule custody_get [OF reachable_custody [OF db_claimed_reachable]])
        (auto simp: db_claimed_def db_queued_def plain_job_def split: if_splits)
    then show ?thesis using that db_claimed_job by (auto simp: plain_job_def)
  qed
  moreover have "nano_ok 20000000000" by code_simp
  moreover have "orphaned (\<lambda>_. False) defaultRunnerStaleAfter 20000000000 (claimed_attempt sample_id 41 8)" by code_simp
  ultimately show ?thesis
    using recovery_fails_the_orphans [OF db_claimed_reachable, of 20000000000 defaultRunnerStaleAfter
        "\<lambda>_. Inr ()" "\<lambda>_. False"] db_claimed_attempt db_claimed_job
    by (auto simp: claimed_attempt_def defaultRunnerStaleAfter_def)
qed

definition throttled :: "dispatcher \<Rightarrow> time \<Rightarrow> job_id \<Rightarrow> bool" where
  "throttled D now i \<longleftrightarrow> (case map_of (launched D) i of None \<Rightarrow> False | Some t \<Rightarrow> Sub now t < launchRetry D)"

lemma map_of_map_update [simp]: "map_of (map_update k v m) x = (if x = k then Some v else map_of m x)"
  by (induction m) auto

lemma map_of_filter_key: "map_of (filter (\<lambda>(i, _). i \<in> S) m) x = (if x \<in> S then map_of m x else None)"
  by (induction m) auto

lemma launch_loop_spec:
  assumes "launch_loop launch retry now js m = (m', calls, r)" "0 < retry"
  shows "distinct calls \<and> set calls \<subseteq> jID ` set js
    \<and> (\<forall>i\<in>set calls. \<not> (\<exists>t. map_of m i = Some t \<and> Sub now t < retry) \<and> map_of m' i = Some now)
    \<and> (\<forall>i. i \<notin> set calls \<longrightarrow> map_of m' i = map_of m i)
    \<and> (r = Inr () \<longrightarrow> (\<forall>j\<in>set js. jID j \<in> set calls \<or> (\<exists>t. map_of m (jID j) = Some t \<and> Sub now t < retry)))"
  using assms(1)
proof (induction js arbitrary: m m' calls r)
  case Nil
  then show ?case by simp
next
  case (Cons j js)
  let ?m = "map_update (jID j) now m"
  show ?case
  proof (cases "\<exists>t. map_of m (jID j) = Some t \<and> Sub now t < retry")
    case True
    then have "launch_loop launch retry now js m = (m', calls, r)" using Cons.prems by auto
    from Cons.IH [OF this] show ?thesis using True by simp blast
  next
    case False
    then have e: "launch_loop launch retry now (j # js) m = (case launch (jID j) of
          Inl e \<Rightarrow> (?m, [jID j], Inl e)
        | Inr _ \<Rightarrow> (case launch_loop launch retry now js ?m of (m'', calls, r) \<Rightarrow> (m'', jID j # calls, r)))"
      by (simp add: Let_def split: option.split)
    show ?thesis
    proof (cases "launch (jID j)")
      case (Inl x)
      then show ?thesis using Cons.prems e False by auto
    next
      case (Inr x)
      obtain calls' where c: "launch_loop launch retry now js ?m = (m', calls', r)" "calls = jID j # calls'"
        using Cons.prems e Inr by (auto split: prod.splits)
      have now: "Sub now now < retry" using assms(2) by (simp add: Sub_def)
      note ih = Cons.IH [OF c(1)]
      have new: "jID j \<notin> set calls'" using ih now by auto
      have "\<not> (\<exists>t. map_of m i = Some t \<and> Sub now t < retry) \<and> map_of m' i = Some now" if "i \<in> set calls" for i
        using that ih new False c(2) by (cases "i = jID j") auto
      moreover have "jID k \<in> set calls \<or> (\<exists>t. map_of m (jID k) = Some t \<and> Sub now t < retry)"
        if "k \<in> set (j # js)" "r = Inr ()" for k
        using that ih c(2) by (cases "jID k = jID j") auto
      ultimately show ?thesis using ih new c(2) by auto
    qed
  qed
qed


definition fresh_dispatcher :: dispatcher where
  "fresh_dispatcher = \<lparr>dispatchInterval = defaultDispatchInterval, launchRetry = defaultLaunchRetry,
     runnerStaleAfter = defaultRunnerStaleAfter, launched = []\<rparr>"


end
