(* ===== verification/Base64.thy ===== *)
theory Base64
  imports Prelude
begin

text \<open>
  \<open>encoding/base64\<close>, \<open>RawURLEncoding\<close>: the URL alphabet without padding, as \<open>internal/connectivity\<close> uses it for
  route identifiers and bearer tokens. Decoding skips carriage returns and line feeds, refuses other characters
  outside the alphabet and a single left-over character, and ignores the unused low bits of the last character (the
  encoding is not \<open>Strict\<close>). \<open>canonical\<close> values, those that encoding returns, are in bijection with byte strings.
\<close>

section \<open>Definitions\<close>

definition b64_alphabet :: string where
  "b64_alphabet = ''ABCDEFGHIJKLMNOPQRSTUVWXYZabcdefghijklmnopqrstuvwxyz0123456789-_''"

definition b64_char :: "nat \<Rightarrow> char" where
  "b64_char n = b64_alphabet ! n"

fun index_of :: "'a \<Rightarrow> 'a list \<Rightarrow> nat option" where
  "index_of x [] = None"
| "index_of x (y # ys) = (if x = y then Some 0 else map_option Suc (index_of x ys))"

definition b64_value :: "char \<Rightarrow> nat option" where
  "b64_value c = index_of c b64_alphabet"

text \<open>Sextets of bytes, three bytes to four sextets.\<close>

fun sextets :: "nat list \<Rightarrow> nat list" where
  "sextets (a # b # c # bs) =
    (a div 4) # ((a mod 4) * 16 + b div 16) # ((b mod 16) * 4 + c div 64) # (c mod 64) # sextets bs"
| "sextets [a, b] = [a div 4, (a mod 4) * 16 + b div 16, (b mod 16) * 4]"
| "sextets [a] = [a div 4, (a mod 4) * 16]"
| "sextets [] = []"

fun octets :: "nat list \<Rightarrow> nat list option" where
  "octets (p # q # r # s # ss) =
    map_option (\<lambda>bs. (p * 4 + q div 16) # ((q mod 16) * 16 + r div 4) # ((r mod 4) * 64 + s) # bs) (octets ss)"
| "octets [p, q, r] = Some [p * 4 + q div 16, (q mod 16) * 16 + r div 4]"
| "octets [p, q] = Some [p * 4 + q div 16]"
| "octets [p] = None"
| "octets [] = Some []"

fun all_some :: "'a option list \<Rightarrow> 'a list option" where
  "all_some [] = Some []"
| "all_some (None # xs) = None"
| "all_some (Some x # xs) = map_option ((#) x) (all_some xs)"

definition EncodeToString :: "byte list \<Rightarrow> string" where
  "EncodeToString bs = map b64_char (sextets (map unat bs))"

definition DecodeString :: "string \<Rightarrow> byte list option" where
  "DecodeString s =
    (case all_some (map b64_value (filter (\<lambda>c. c \<noteq> CHR 10 \<and> c \<noteq> CHR 13) s)) of
       None \<Rightarrow> None
     | Some ss \<Rightarrow> map_option (map word_of_nat) (octets ss))"

section \<open>Facts\<close>

lemma index_of_nth: "distinct xs \<Longrightarrow> n < length xs \<Longrightarrow> index_of (xs ! n) xs = Some n"
  by (induction xs arbitrary: n) (auto simp: nth_Cons split: nat.split)

lemma index_of_SomeD: "index_of x xs = Some n \<Longrightarrow> n < length xs \<and> xs ! n = x"
  by (induction xs arbitrary: n) (auto split: if_splits)

lemma b64_alphabet_distinct: "distinct b64_alphabet \<and> length b64_alphabet = 64
    \<and> CHR 10 \<notin> set b64_alphabet \<and> CHR 13 \<notin> set b64_alphabet"
  by code_simp

lemma b64_value_char [simp]: "n < 64 \<Longrightarrow> b64_value (b64_char n) = Some n"
  using b64_alphabet_distinct by (simp add: b64_value_def b64_char_def index_of_nth)

lemma b64_char_mem: "n < 64 \<Longrightarrow> b64_char n \<in> set b64_alphabet"
  using b64_alphabet_distinct by (simp add: b64_char_def)

lemma b64_char_newline [simp]: "n < 64 \<Longrightarrow> b64_char n \<noteq> CHR 10 \<and> b64_char n \<noteq> CHR 13"
  using b64_alphabet_distinct b64_char_mem [of n] by auto

lemma sextets_less: "\<forall>b\<in>set bs. b < 256 \<Longrightarrow> \<forall>s\<in>set (sextets bs). s < 64"
  by (induction bs rule: sextets.induct) auto

lemma octets_sextets: "\<forall>b\<in>set bs. b < 256 \<Longrightarrow> octets (sextets bs) = Some bs"
  by (induction bs rule: sextets.induct) auto

lemma all_some_map: "\<forall>x\<in>set xs. f (g x) = Some x \<Longrightarrow> all_some (map f (map g xs)) = Some xs"
  by (induction xs) auto

lemma length_sextets: "length (sextets bs) = (4 * length bs + 2) div 3"
  by (induction bs rule: sextets.induct) auto

lemma length_EncodeToString [simp]: "length (EncodeToString bs) = (4 * length bs + 2) div 3"
  by (simp add: EncodeToString_def length_sextets)

lemma DecodeString_EncodeToString [simp]: "DecodeString (EncodeToString bs) = Some bs"
proof -
  have lt: "\<forall>b\<in>set (map unat bs). b < 256" by (auto intro: less_le_trans [OF unsigned_less])
  have s: "\<forall>x\<in>set (sextets (map unat bs)). x < 64" by (rule sextets_less [OF lt])
  then have "filter (\<lambda>c. c \<noteq> CHR 10 \<and> c \<noteq> CHR 13) (EncodeToString bs) = EncodeToString bs"
    by (auto simp: EncodeToString_def)
  moreover have "all_some (map b64_value (EncodeToString bs)) = Some (sextets (map unat bs))"
    unfolding EncodeToString_def by (rule all_some_map) (use s in simp)
  ultimately show ?thesis
    using octets_sextets [OF lt] by (simp add: DecodeString_def comp_def)
qed

lemma EncodeToString_alphabet: "set (EncodeToString bs) \<subseteq> set b64_alphabet"
proof -
  have "\<forall>s\<in>set (sextets (map unat bs)). s < 64"
    by (rule sextets_less) (auto intro: less_le_trans [OF unsigned_less])
  then show ?thesis by (auto simp: EncodeToString_def b64_char_mem)
qed

lemma EncodeToString_inject [simp]: "EncodeToString a = EncodeToString b \<longleftrightarrow> a = b"
  by (metis DecodeString_EncodeToString option.inject)

definition validOpaqueValue :: "string \<Rightarrow> bool" where
  "validOpaqueValue value =
    (case DecodeString value of
       None \<Rightarrow> False
     | Some decoded \<Rightarrow> length decoded = 32 \<and> EncodeToString decoded = value)"

lemma validOpaqueValue_iff: "validOpaqueValue v \<longleftrightarrow> (\<exists>bs. length bs = 32 \<and> v = EncodeToString bs)"
  by (auto simp: validOpaqueValue_def split: option.splits)

end
