(* ===== verification/Base32.thy ===== *)
theory Base32
  imports Base64 GoStrings
begin

text \<open>
  \<open>encoding/base32\<close>, \<open>StdEncoding.WithPadding(NoPadding)\<close>, as the identifiers of \<open>internal/device\<close> and \<open>internal/trust\<close>
  use it: lower case outside, upper case inside. Decoding skips line ends, refuses characters outside the
  alphabet, ignores unused low bits and, as the Go decoder does, drops a last group of one, three or six characters.
  \<open>lower_base32 n k\<close> is the check shared by \<open>device.ParseID\<close>, \<open>device.ParsePresenceID\<close> and \<open>trust.ParsePairID\<close>.
\<close>

section \<open>Definitions\<close>

definition b32_alphabet :: string where
  "b32_alphabet = ''ABCDEFGHIJKLMNOPQRSTUVWXYZ234567''"

fun quintets :: "nat list \<Rightarrow> nat list" where
  "quintets (a # b # c # d # e # bs) =
    (a div 8) # ((a mod 8) * 4 + b div 64) # (b div 2 mod 32) # ((b mod 2) * 16 + c div 16)
    # ((c mod 16) * 2 + d div 128) # (d div 4 mod 32) # ((d mod 4) * 8 + e div 32) # (e mod 32) # quintets bs"
| "quintets [a, b, c, d] =
    [a div 8, (a mod 8) * 4 + b div 64, b div 2 mod 32, (b mod 2) * 16 + c div 16,
     (c mod 16) * 2 + d div 128, d div 4 mod 32, (d mod 4) * 8]"
| "quintets [a, b, c] =
    [a div 8, (a mod 8) * 4 + b div 64, b div 2 mod 32, (b mod 2) * 16 + c div 16, (c mod 16) * 2]"
| "quintets [a, b] = [a div 8, (a mod 8) * 4 + b div 64, b div 2 mod 32, (b mod 2) * 16]"
| "quintets [a] = [a div 8, (a mod 8) * 4]"
| "quintets [] = []"

text \<open>One group: the bytes that the length of the group determines.\<close>

definition unquint :: "nat list \<Rightarrow> nat list" where
  "unquint q =
    (let g = (\<lambda>i. q ! i);
         b0 = (g 0 * 8 + g 1 div 4) mod 256;
         b1 = ((g 1 mod 4) * 64 + g 2 * 2 + g 3 div 16) mod 256;
         b2 = ((g 3 mod 16) * 16 + g 4 div 2) mod 256;
         b3 = ((g 4 mod 2) * 128 + g 5 * 4 + g 6 div 8) mod 256;
         b4 = ((g 6 mod 8) * 32 + g 7) mod 256
     in if length q = 8 then [b0, b1, b2, b3, b4]
        else if length q = 7 then [b0, b1, b2, b3]
        else if length q = 5 then [b0, b1, b2]
        else if length q = 4 then [b0, b1]
        else if length q = 2 then [b0]
        else [])"

fun unquintets :: "nat list \<Rightarrow> nat list" where
  "unquintets (p # q # r # s # t # u # v # w # qs) = unquint [p, q, r, s, t, u, v, w] @ unquintets qs"
| "unquintets qs = unquint qs"

definition Base32_Encode :: "byte list \<Rightarrow> string" where
  "Base32_Encode bs = map (\<lambda>n. b32_alphabet ! n) (quintets (map unat bs))"

definition Base32_Decode :: "string \<Rightarrow> byte list option" where
  "Base32_Decode s =
    map_option (\<lambda>qs. map word_of_nat (unquintets qs))
      (all_some (map (\<lambda>c. index_of c b32_alphabet) (filter (\<lambda>c. c \<noteq> CHR 10 \<and> c \<noteq> CHR 13) s)))"

definition lower_base32 :: "casing \<Rightarrow> nat \<Rightarrow> nat \<Rightarrow> string \<Rightarrow> bool" where
  "lower_base32 U len n value \<longleftrightarrow>
     length value = len \<and> value = ToLower U value \<and>
     (case Base32_Decode (ToUpper U value) of None \<Rightarrow> False | Some decoded \<Rightarrow> length decoded = n)"

definition encode_lower :: "casing \<Rightarrow> byte list \<Rightarrow> string" where
  "encode_lower U bs = ToLower U (Base32_Encode bs)"

section \<open>Facts\<close>

definition b32_lower :: string where
  "b32_lower = ''abcdefghijklmnopqrstuvwxyz234567''"

lemma b32_alphabet_facts: "distinct b32_alphabet" "length b32_alphabet = 32" "ascii b32_alphabet"
    "CHR 10 \<notin> set b32_alphabet" "CHR 13 \<notin> set b32_alphabet" "map ascii_lower b32_alphabet = b32_lower"
    "map ascii_upper b32_lower = b32_alphabet" "map ascii_lower b32_lower = b32_lower" "ascii b32_lower"
    "filter (\<lambda>c. ascii_lower c = c \<and> ascii_upper c \<in> set b32_alphabet) (map char_of [0..<128]) = ''234567abcdefghijklmnopqrstuvwxyz''"
  by code_simp+

lemma quintets_less: "\<forall>b\<in>set bs. b < 256 \<Longrightarrow> \<forall>q\<in>set (quintets bs). q < 32"
  by (induction bs rule: quintets.induct) auto

lemma split_byte:
  "b div 64 * 64 + b div 2 mod 32 * 2 + b mod 2 = b" "b div 128 * 128 + b div 4 mod 32 * 4 + b mod 4 = b" for b :: nat
proof -
  have "b div 64 = b div 2 div 32" "b div 128 = b div 4 div 32" by (simp_all add: div_mult2_eq [symmetric])
  then show "b div 64 * 64 + b div 2 mod 32 * 2 + b mod 2 = b" "b div 128 * 128 + b div 4 mod 32 * 4 + b mod 4 = b"
    using div_mult_mod_eq [of "b div 2" 32] div_mult_mod_eq [of b 2] div_mult_mod_eq [of "b div 4" 32]
      div_mult_mod_eq [of b 4] by linarith+
qed

lemma unquintets_quintets: "\<forall>b\<in>set bs. b < 256 \<Longrightarrow> unquintets (quintets bs) = bs"
  by (induction bs rule: quintets.induct) (auto simp: unquint_def Let_def split_byte)

lemma length_quintets: "length (quintets bs) = (8 * length bs + 4) div 5"
  by (induction bs rule: quintets.induct) auto

lemma length_unquintets_le: "8 * length (unquintets qs) \<le> 5 * length qs"
  by (induction qs rule: unquintets.induct) (auto simp: unquint_def Let_def)

lemma length_unquintets:
  "length qs mod 8 = 4 \<Longrightarrow> length (unquintets qs) = 5 * (length qs div 8) + 2"
  "length qs mod 8 = 2 \<Longrightarrow> length (unquintets qs) = 5 * (length qs div 8) + 1"
proof -
  have step: "Suc (Suc (Suc (Suc (Suc (5 * (n div 8)))))) = 5 * ((8 + n) div 8)" for n :: nat
    using div_add_self1 [of 8 n] by simp
  show "length qs mod 8 = 4 \<Longrightarrow> length (unquintets qs) = 5 * (length qs div 8) + 2"
    "length qs mod 8 = 2 \<Longrightarrow> length (unquintets qs) = 5 * (length qs div 8) + 1"
    by (induction qs rule: unquintets.induct) (auto simp: unquint_def Let_def step)
qed

lemma all_some_SomeD: "all_some (map f xs) = Some ys \<Longrightarrow> length ys = length xs \<and> (\<forall>x\<in>set xs. f x \<noteq> None)"
proof (induction xs arbitrary: ys)
  case (Cons x xs)
  then show ?case by (cases "f x") auto
qed simp

lemma all_some_total: "\<forall>x\<in>set xs. f x \<noteq> None \<Longrightarrow> \<exists>ys. all_some (map f xs) = Some ys"
  by (induction xs) auto

lemma index_of_mem: "index_of x xs \<noteq> None \<longleftrightarrow> x \<in> set xs"
  by (induction xs) auto

lemma Base32_Decode_Some:
  assumes "Base32_Decode s = Some bs"
  shows "\<forall>c\<in>set s. c \<in> set b32_alphabet \<or> c = CHR 10 \<or> c = CHR 13" "8 * length bs \<le> 5 * length (filter (\<lambda>c. c \<noteq> CHR 10 \<and> c \<noteq> CHR 13) s)"
proof -
  let ?s = "filter (\<lambda>c. c \<noteq> CHR 10 \<and> c \<noteq> CHR 13) s"
  obtain qs where q: "all_some (map (\<lambda>c. index_of c b32_alphabet) ?s) = Some qs" "bs = map word_of_nat (unquintets qs)"
    using assms by (auto simp: Base32_Decode_def)
  note d = all_some_SomeD [OF q(1)]
  show "\<forall>c\<in>set s. c \<in> set b32_alphabet \<or> c = CHR 10 \<or> c = CHR 13"
    using d index_of_mem [of _ b32_alphabet] by auto
  show "8 * length bs \<le> 5 * length ?s" using length_unquintets_le [of qs] q(2) d by simp
qed

lemma Base32_Decode_alphabet:
  assumes "set s \<subseteq> set b32_alphabet" "length s mod 8 = 4 \<and> n = 5 * (length s div 8) + 2 \<or> length s mod 8 = 2 \<and> n = 5 * (length s div 8) + 1"
  shows "\<exists>bs. Base32_Decode s = Some bs \<and> length bs = n"
proof -
  have f: "filter (\<lambda>c. c \<noteq> CHR 10 \<and> c \<noteq> CHR 13) s = s"
    using assms(1) b32_alphabet_facts(4,5) by (intro filter_True) auto
  obtain qs where q: "all_some (map (\<lambda>c. index_of c b32_alphabet) s) = Some qs"
    using all_some_total [of s "\<lambda>c. index_of c b32_alphabet"] assms(1) index_of_mem [of _ b32_alphabet] by blast
  then show ?thesis
    using all_some_SomeD [OF q] assms(2) length_unquintets [of qs] by (auto simp: Base32_Decode_def f)
qed

text \<open>An encoding that uses up all characters has no line ends.\<close>

lemma Base32_Decode_full:
  assumes "Base32_Decode s = Some bs" "length s \<le> m" "5 * m < 8 * length bs + 5"
  shows "set s \<subseteq> set b32_alphabet" "length s = m"
proof -
  let ?s = "filter (\<lambda>c. c \<noteq> CHR 10 \<and> c \<noteq> CHR 13) s"
  have "m \<le> length ?s" using Base32_Decode_Some(2) [OF assms(1)] assms(3) by linarith
  then have len: "length ?s = length s" "length s = m"
    using assms(2) length_filter_le [of "\<lambda>c. c \<noteq> CHR 10 \<and> c \<noteq> CHR 13" s] by linarith+
  have "?s = s" using len(1) by (metis length_filter_less less_irrefl filter_True)
  then show "set s \<subseteq> set b32_alphabet"
    using Base32_Decode_Some(1) [OF assms(1)] by (auto simp: filter_id_conv)
  show "length s = m" by (rule len(2))
qed

lemma encode_rune_ascii: "\<forall>c\<in>set (encode_rune r). byte_of c < 128 \<Longrightarrow> r < 128 \<and> length (encode_rune r) = 1"
  by (auto simp: encode_rune_def split: if_splits)

lemma runes_length: "length (runes s) \<le> length s \<and> (length (runes s) = length s \<longrightarrow> (\<forall>(r, bs)\<in>set (runes s). length bs = 1))"
proof (induction s rule: runes.induct)
  case (2 c cs)
  show ?case
  proof (cases "decode_rune (byte_of c) (map byte_of cs)")
    case None
    then show ?thesis using 2(1) by auto
  next
    case (Some p)
    obtain r n where p: "p = (r, n)" by (cases p)
    have "length (runes (drop n cs)) \<le> length cs" using 2(2) [OF Some p [symmetric], THEN conjunct1] by simp
    then show ?thesis using 2(2) [OF Some p [symmetric]] Some p by (auto simp: min_def split: if_splits)
  qed
qed simp

lemma single_rune: "(r, [c]) \<in> set (runes s) \<Longrightarrow> byte_of c \<ge> 128 \<Longrightarrow> r = None"
proof (induction s rule: runes.induct)
  case (2 d cs)
  show ?case
  proof (cases "decode_rune (byte_of d) (map byte_of cs)")
    case None
    then show ?thesis using 2(1,3,4) by auto
  next
    case (Some p)
    obtain v n where p: "p = (v, n)" by (cases p)
    have "n \<noteq> 0 \<and> cs \<noteq> []" if "byte_of d \<ge> 128"
      using Some p that by (auto simp: decode_rune_def split: if_splits list.splits)
    then show ?thesis using 2(2) [OF Some p [symmetric]] 2(3,4) Some p by (auto simp: take_Cons' neq_Nil_conv split: if_splits)
  qed
qed simp

lemma b32_lower_chars:
  assumes "byte_of c < 128" "ascii_lower c = c" "ascii_upper c \<in> set b32_alphabet"
  shows "c \<in> set b32_lower"
proof -
  have "char_of (byte_of c) = c" by simp
  then have "c \<in> set (filter (\<lambda>c. ascii_lower c = c \<and> ascii_upper c \<in> set b32_alphabet) (map char_of [0..<128]))"
    using assms by (auto simp: image_iff intro!: bexI [of _ "byte_of c"])
  then show ?thesis unfolding b32_alphabet_facts(10) by (auto simp: b32_lower_def)
qed

lemma lower_base32_I:
  assumes n: "len = 52 \<and> n = 32 \<or> len = 26 \<and> n = 16" and v: "length v = len \<and> set v \<subseteq> set b32_lower"
  shows "lower_base32 U len n v"
proof -
  have a: "ascii v" using v b32_alphabet_facts(9) by (auto simp: ascii_def list_all_iff)
  have low: "ascii_lower c = c" if "c \<in> set b32_lower" for c
    using b32_alphabet_facts(8) that by (metis map_eq_conv map_ident)
  have up: "ascii_upper c \<in> set b32_alphabet" if "c \<in> set b32_lower" for c
    using b32_alphabet_facts(7) that by (metis image_eqI list.set_map)
  have "map ascii_lower v = v" using v low by (intro map_idI) auto
  moreover have "set (map ascii_upper v) \<subseteq> set b32_alphabet" using v up by auto
  then have "\<exists>bs. Base32_Decode (map ascii_upper v) = Some bs \<and> length bs = n"
    by (rule Base32_Decode_alphabet) (use v n in auto)
  ultimately show "lower_base32 U len n v" using v a by (auto simp: lower_base32_def)
qed

lemma lower_base32_iff:
  assumes U: "rune_upper U 0xFFFD = 0xFFFD" and n: "len = 52 \<and> n = 32 \<or> len = 26 \<and> n = 16"
  shows "lower_base32 U len n v \<longleftrightarrow> length v = len \<and> set v \<subseteq> set b32_lower"
proof
  assume "length v = len \<and> set v \<subseteq> set b32_lower"
  then show "lower_base32 U len n v" by (rule lower_base32_I [OF n])
next
  assume "lower_base32 U len n v"
  then obtain bs where v: "length v = len" "v = ToLower U v" "Base32_Decode (ToUpper U v) = Some bs" "length bs = n"
    by (auto simp: lower_base32_def split: option.splits)
  have m: "5 * len < 8 * length bs + 5" using n v(4) by auto
  have "set v \<subseteq> set b32_lower"
  proof (cases "ascii v")
    case True
    have "set (map ascii_upper v) \<subseteq> set b32_alphabet"
      using Base32_Decode_full(1) [OF v(3), of len] m True v(1) by simp
    moreover have "map ascii_lower v = v" using v(2) True by simp
    then have "\<forall>c\<in>set v. ascii_lower c = c" by (metis map_eq_conv map_ident)
    ultimately show ?thesis using True b32_lower_chars by (auto simp: ascii_def list_all_iff)
  next
    case False
    define ur where "ur p = (if rune_value (fst p) < 0x80 then upper_byte (rune_value (fst p)) else rune_upper U (rune_value (fst p)))"
      for p :: "nat option \<times> string"
    have up: "ToUpper U v = concat (map (\<lambda>p. encode_rune (ur p)) (runes v))"
      using False by (simp add: ToUpper_def ur_def Let_def case_prod_unfold)
    have "byte_of c < 128" if "c \<in> set (ToUpper U v)" for c
      using Base32_Decode_Some(1) [OF v(3)] that b32_alphabet_facts(3) by (auto simp: ascii_def list_all_iff)
    then have small: "ur p < 128 \<and> length (encode_rune (ur p)) = 1" if "p \<in> set (runes v)" for p
      using that by (intro encode_rune_ascii) (auto simp: up)
    then have "length (ToUpper U v) = length (runes v)"
      unfolding up by (simp add: length_concat comp_def sum_list_triv cong: map_cong)
    then have "length (runes v) = length v"
      using Base32_Decode_full(2) [OF v(3), of len] m v(1) runes_length [of v] by simp
    then have one: "length (snd p) = 1" if "p \<in> set (runes v)" for p using runes_length [of v] that by auto
    obtain c where c: "c \<in> set v" "\<not> byte_of c < 128" using False by (auto simp: ascii_def list_all_iff)
    obtain r bs where r: "(r, bs) \<in> set (runes v)" "c \<in> set bs" using runes_cover [OF c(1)] by auto
    have "bs = [c]" using one [OF r(1)] r(2) by (cases bs) auto
    then have "r = None" using single_rune [of r c v] r(1) c(2) by simp
    then show ?thesis using small [OF r(1)] U by (simp add: ur_def rune_value_def)
  qed
  then show "length v = len \<and> set v \<subseteq> set b32_lower" using v(1) by simp
qed

lemma Base32_Encode_mem: "set (Base32_Encode bs) \<subseteq> set b32_alphabet"
proof -
  have "\<forall>x\<in>set (quintets (map unat bs)). x < 32"
    by (rule quintets_less) (auto intro: less_le_trans [OF unsigned_less])
  then show ?thesis using b32_alphabet_facts(2) by (auto simp: Base32_Encode_def)
qed

lemma encode_lower_ascii: "encode_lower U bs = map ascii_lower (Base32_Encode bs)"
proof -
  have "ascii (Base32_Encode bs)"
    using Base32_Encode_mem b32_alphabet_facts(3) by (auto simp: ascii_def list_all_iff)
  then show ?thesis by (simp add: encode_lower_def)
qed

lemma encode_lower_char:
  assumes "length bs = 32 \<and> len = 52 \<or> length bs = 16 \<and> len = 26"
  shows "length (encode_lower U bs) = len \<and> set (encode_lower U bs) \<subseteq> set b32_lower"
proof -
  have "ascii_lower c \<in> set b32_lower" if "c \<in> set b32_alphabet" for c
    using b32_alphabet_facts(6) that by (metis image_eqI list.set_map)
  then show ?thesis
    using Base32_Encode_mem [of bs] assms by (auto simp: encode_lower_ascii Base32_Encode_def length_quintets)
qed

lemma Base32_Decode_Encode [simp]: "Base32_Decode (Base32_Encode bs) = Some bs"
proof -
  have lt: "\<forall>b\<in>set (map unat bs). b < 256" by (auto intro: less_le_trans [OF unsigned_less])
  have q: "\<forall>x\<in>set (quintets (map unat bs)). x < 32" by (rule quintets_less [OF lt])
  have "filter (\<lambda>c. c \<noteq> CHR 10 \<and> c \<noteq> CHR 13) (Base32_Encode bs) = Base32_Encode bs"
    using Base32_Encode_mem [of bs] b32_alphabet_facts(4,5) by (intro filter_True) auto
  moreover have "all_some (map (\<lambda>c. index_of c b32_alphabet) (Base32_Encode bs)) = Some (quintets (map unat bs))"
    unfolding Base32_Encode_def
    by (rule all_some_map) (use q b32_alphabet_facts(1,2) in \<open>auto simp: index_of_nth\<close>)
  ultimately show ?thesis using unquintets_quintets [OF lt] by (simp add: Base32_Decode_def comp_def)
qed

lemma Base32_Decode_encode_lower: "Base32_Decode (ToUpper U (encode_lower U bs)) = Some bs"
proof -
  have low: "map ascii_upper (map ascii_lower b32_alphabet) = b32_alphabet" by code_simp
  then have "ascii_upper (ascii_lower c) = c" if "c \<in> set b32_alphabet" for c
    using that by (metis comp_apply map_eq_conv map_ident map_map)
  then have "map ascii_upper (encode_lower U bs) = Base32_Encode bs"
    using Base32_Encode_mem [of bs] by (auto simp: encode_lower_ascii comp_def intro!: map_idI)
  moreover have "ascii (encode_lower U bs)"
    using Base32_Encode_mem [of bs] b32_alphabet_facts(6,9) 
    by (auto simp: encode_lower_ascii ascii_def list_all_iff dest!: subsetD) (metis image_eqI list.set_map)
  ultimately show ?thesis by simp
qed

end
