(* ===== verification/Device.thy ===== *)
theory Device
  imports Base32
begin

text \<open>
  \<open>internal/device/identity.go\<close> and \<open>internal/device/discovery.go\<close>: device identifiers as fingerprints of public keys,
  identities, and the validation of announcements and observations of nearby devices.

  SHA-256 is the argument \<open>H\<close> (its results have 32 bytes where a theorem says so) and the Unicode case tables
  are \<open>U\<close>. An Ed25519 private key is the 64 bytes of the seed and the public key, of which \<open>Public()\<close> is the second half.
  An address is what the code asks of it.
\<close>

section \<open>Identifiers and identities\<close>

type_synonym device_id = string
type_synonym digest_fun = "byte list \<Rightarrow> byte list"

abbreviation Device_ErrInvalidIdentity :: sentinel where "Device_ErrInvalidIdentity \<equiv> ''device.ErrInvalidIdentity''"
abbreviation Device_ErrInvalidPresenceID :: sentinel where "Device_ErrInvalidPresenceID \<equiv> ''device.ErrInvalidPresenceID''"
abbreviation Device_ErrInvalidObservation :: sentinel where "Device_ErrInvalidObservation \<equiv> ''device.ErrInvalidObservation''"

definition encodedIDLength :: nat where "encodedIDLength = 52"
definition encodedPresenceIDLength :: nat where "encodedPresenceIDLength = 26"

definition Device_ParseID :: "casing \<Rightarrow> string \<Rightarrow> device_id result" where
  "Device_ParseID U value =
    (if length value \<noteq> encodedIDLength \<or> value \<noteq> ToLower U value then Inl [Device_ErrInvalidID]
     else (case Base32_Decode (ToUpper U value) of
         None \<Rightarrow> Inl [Device_ErrInvalidID]
       | Some decoded \<Rightarrow> if length decoded \<noteq> 32 then Inl [Device_ErrInvalidID] else Inr value))"

definition Short :: "string \<Rightarrow> string" where
  "Short i = (if length i < 8 then i else take 8 i)"

definition DeviceID_Valid :: "casing \<Rightarrow> device_id \<Rightarrow> bool" where
  "DeviceID_Valid U i = is_ok (Device_ParseID U i)"

record identity =
  id_id :: device_id
  id_publicKey :: "byte list"
  id_privateKey :: "byte list"

definition IDFromPublicKey :: "casing \<Rightarrow> digest_fun \<Rightarrow> byte list \<Rightarrow> device_id result" where
  "IDFromPublicKey U H publicKey =
    (if length publicKey \<noteq> 32 then Inl [Device_ErrInvalidIdentity] else Inr (encode_lower U (H publicKey)))"

definition NewIdentity :: "casing \<Rightarrow> digest_fun \<Rightarrow> byte list \<Rightarrow> identity result" where
  "NewIdentity U H privateKey =
    (if length privateKey \<noteq> 64 then Inl [Device_ErrInvalidIdentity]
     else let publicKey = drop 32 privateKey in
       ebind (IDFromPublicKey U H publicKey) (\<lambda>i.
         Inr \<lparr>id_id = i, id_publicKey = publicKey, id_privateKey = privateKey\<rparr>))"

definition Identity_Validate :: "casing \<Rightarrow> digest_fun \<Rightarrow> identity \<Rightarrow> unit result" where
  "Identity_Validate U H current =
    ebind (NewIdentity U H (id_privateKey current)) (\<lambda>reconstructed.
      if id_id reconstructed \<noteq> id_id current \<or> \<not> DeviceID_Valid U (id_id current)
         \<or> id_publicKey current \<noteq> id_publicKey reconstructed
      then Inl [Device_ErrInvalidIdentity] else Inr ())"

section \<open>Discovery\<close>

type_synonym presence_id = string

definition NewPresenceID :: "casing \<Rightarrow> byte list \<Rightarrow> presence_id" where
  "NewPresenceID U random = encode_lower U (take 16 random)"

definition ParsePresenceID :: "casing \<Rightarrow> string \<Rightarrow> presence_id result" where
  "ParsePresenceID U value =
    (if length value \<noteq> encodedPresenceIDLength \<or> value \<noteq> ToLower U value then Inl [Device_ErrInvalidPresenceID]
     else (case Base32_Decode (ToUpper U value) of
         None \<Rightarrow> Inl [Device_ErrInvalidPresenceID]
       | Some decoded \<Rightarrow> if length decoded \<noteq> 16 then Inl [Device_ErrInvalidPresenceID] else Inr value))"

definition PresenceID_Valid :: "casing \<Rightarrow> presence_id \<Rightarrow> bool" where
  "PresenceID_Valid U i = is_ok (ParsePresenceID U i)"

datatype role = RoleWorker | RoleOrchestrator | RoleUnknown string

record announcement =
  anPresenceID :: presence_id
  anName :: string
  anRole :: role
  anProtocolVersion :: "32 word"
  anPort :: "16 word"
  anEndpointReady :: bool
  anPlatform :: string
  anArchitecture :: string
  anLogicalCPUCount :: "32 word"
  anTotalMemoryBytes :: "64 word"

definition validateName :: "string \<Rightarrow> bool" where
  "validateName name \<longleftrightarrow>
     \<not> (TrimSpace name \<noteq> name \<or> name = [] \<or> length name > 80 \<or> \<not> ValidString name)
     \<and> list_all (\<lambda>(r, _). \<not> IsControl (rune_value r)) (runes name)"

definition validateHint :: "string \<Rightarrow> bool" where
  "validateHint value \<longleftrightarrow> value = [] \<or>
     \<not> (TrimSpace value \<noteq> value \<or> length value > 32 \<or> \<not> ValidString value)
     \<and> list_all (\<lambda>(r, _). let character = rune_value r in
          \<not> (IsControl character \<or> IsSpace character \<or> character = 61)) (runes value)"

definition Announcement_Validate :: "casing \<Rightarrow> announcement \<Rightarrow> unit result" where
  "Announcement_Validate U a =
    (if \<not> PresenceID_Valid U (anPresenceID a) \<or> \<not> validateName (anName a)
        \<or> (anRole a \<noteq> RoleWorker \<and> anRole a \<noteq> RoleOrchestrator)
        \<or> anProtocolVersion a = 0 \<or> anPort a = 0
        \<or> \<not> validateHint (anPlatform a) \<or> \<not> validateHint (anArchitecture a) \<or> anLogicalCPUCount a > 4096
     then Inl [Device_ErrInvalidAnnouncement] else Inr ())"

record address =
  IsValid :: bool
  IsUnspecified :: bool
  IsMulticast :: bool

record observation =
  obKey :: string
  obAnnouncement :: announcement
  obInstance :: string
  obHostName :: string
  obAddresses :: "address list"
  obSeenAt :: time
  obExpiresAt :: time

definition Observation_Validate :: "casing \<Rightarrow> observation \<Rightarrow> unit result" where
  "Observation_Validate U ob =
    (if obKey ob = [] \<or> \<not> is_ok (Announcement_Validate U (obAnnouncement ob))
        \<or> TrimSpace (obInstance ob) = [] \<or> TrimSpace (obHostName ob) = []
        \<or> IsZero (obSeenAt ob) \<or> \<not> obExpiresAt ob > obSeenAt ob
     then Inl [Device_ErrInvalidObservation]
     else if obAddresses ob = [] then Inl [Device_ErrInvalidObservation]
     else if list_ex (\<lambda>a. \<not> IsValid a \<or> IsUnspecified a \<or> IsMulticast a) (obAddresses ob)
     then Inl [Device_ErrInvalidObservation]
     else Inr ())"

section \<open>Facts\<close>

lemma DeviceID_Valid_lower: "DeviceID_Valid U i \<longleftrightarrow> lower_base32 U 52 32 i"
  by (auto simp: DeviceID_Valid_def Device_ParseID_def lower_base32_def encodedIDLength_def split: option.splits)

lemma PresenceID_Valid_lower: "PresenceID_Valid U i \<longleftrightarrow> lower_base32 U 26 16 i"
  by (auto simp: PresenceID_Valid_def ParsePresenceID_def lower_base32_def encodedPresenceIDLength_def split: option.splits)

lemma Device_ParseID_Inr: "Device_ParseID U v = Inr i \<longleftrightarrow> DeviceID_Valid U v \<and> i = v"
  by (auto simp: DeviceID_Valid_def Device_ParseID_def split: option.splits)

text \<open>
  Device identifiers. \<open>ParseID\<close> accepts exactly the strings of 52 characters from \<open>a\<close>--\<open>z\<close> and \<open>2\<close>--\<open>7\<close> and returns them
  unchanged; the identifier of a public key is accepted and decodes to the digest of the key, so keys with different
  digests have different identifiers.
\<close>
theorem device_id_exact:
  assumes "rune_upper U 0xFFFD = 0xFFFD" "\<And>x. length (H x) = 32"
  shows "(Device_ParseID U v = Inr i \<longleftrightarrow> i = v \<and> length v = 52 \<and> set v \<subseteq> set b32_lower)
    \<and> (IDFromPublicKey U H key = Inr i \<longrightarrow>
        Device_ParseID U i = Inr i \<and> Base32_Decode (ToUpper U i) = Some (H key))"
proof (intro conjI impI)
  have lower: "DeviceID_Valid U v \<longleftrightarrow> length v = 52 \<and> set v \<subseteq> set b32_lower" for v
    unfolding DeviceID_Valid_lower by (rule lower_base32_iff [OF assms(1)]) simp
  then show "Device_ParseID U v = Inr i \<longleftrightarrow> i = v \<and> length v = 52 \<and> set v \<subseteq> set b32_lower"
    by (auto simp: Device_ParseID_Inr)
  assume "IDFromPublicKey U H key = Inr i"
  then have i: "i = encode_lower U (H key)" by (auto simp: IDFromPublicKey_def split: if_splits)
  then show "Device_ParseID U i = Inr i"
    using lower encode_lower_char [of "H key" 52 U] assms(2) by (simp add: Device_ParseID_Inr)
  show "Base32_Decode (ToUpper U i) = Some (H key)" unfolding i by (rule Base32_Decode_encode_lower)
qed

definition sample_digest :: digest_fun where
  "sample_digest bs = take 32 (bs @ replicate 32 0)"

definition plain_casing :: casing where
  "plain_casing = \<lparr>rune_lower = (\<lambda>r. r), rune_upper = (\<lambda>r. r)\<rparr>"

theorem device_id_exact_witness:
  "Device_ParseID plain_casing (replicate 52 CHR ''q'') = Inr (replicate 52 CHR ''q'')
   \<and> IDFromPublicKey plain_casing sample_digest (replicate 32 1) = Inr (encode_lower plain_casing (replicate 32 1))
   \<and> Base32_Decode (ToUpper plain_casing (encode_lower plain_casing (replicate 32 1))) = Some (replicate 32 1)"
proof -
  have U: "rune_upper plain_casing 0xFFFD = 0xFFFD" by (simp add: plain_casing_def)
  have H: "length (sample_digest x) = 32" for x by (simp add: sample_digest_def)
  have k: "IDFromPublicKey plain_casing sample_digest (replicate 32 1) = Inr (encode_lower plain_casing (replicate 32 1))"
    by (simp add: IDFromPublicKey_def sample_digest_def)
  have "CHR ''q'' \<in> set b32_lower" by code_simp
  then show ?thesis
    using device_id_exact [where H = sample_digest, OF U H, of "replicate 52 CHR ''q''" "replicate 52 CHR ''q''"]
      device_id_exact [where H = sample_digest, OF U H, THEN conjunct2, rule_format, OF k] k
    by (auto simp: sample_digest_def)
qed

text \<open>
  The fingerprint has 256 bits and 52 characters hold 260: the last four are ignored, so \<open>ParseID\<close> accepts sixteen
  spellings of a fingerprint and is not a test for the canonical one.
\<close>
theorem ParseID_accepts_aliases:
  "let a = replicate 52 CHR ''a''; b = replicate 51 CHR ''a'' @ ''b'' in
   Device_ParseID plain_casing a = Inr a \<and> Device_ParseID plain_casing b = Inr b \<and> a \<noteq> b
   \<and> Base32_Decode (ToUpper plain_casing a) = Base32_Decode (ToUpper plain_casing b)"
  by code_simp

end
