(* ===== verification/Wire.thy ===== *)
theory Wire
  imports GoStrings
begin

text \<open>
  Byte-level encodings shared by the components that hash or authenticate structured data: \<open>[]byte(s)\<close> of a string,
  the big-endian integers of \<open>encoding/binary\<close>, and what makes a concatenation of fields unambiguous. A function
  is a \<open>prefix_code\<close> on a set of values when no encoding of a value is a proper prefix of another one, so that a
  sequence of fields determines each of them; fixed-width fields are prefix codes, and a count followed by that many
  fields is one.
\<close>

section \<open>Encodings\<close>

definition bytes_of :: "string \<Rightarrow> byte list" where
  "bytes_of s = map (\<lambda>c. word_of_nat (byte_of c)) s"

definition big_endian :: "nat \<Rightarrow> 'a::len word \<Rightarrow> byte list" where
  "big_endian n w = map (\<lambda>i. ucast (drop_bit (8 * (n - 1 - i)) w)) [0..<n]"

definition PutUint32 :: "32 word \<Rightarrow> byte list" where
  "PutUint32 w = big_endian 4 w"

definition PutUint64 :: "64 word \<Rightarrow> byte list" where
  "PutUint64 w = big_endian 8 w"

section \<open>Facts\<close>

lemma length_bytes_of [simp]: "length (bytes_of s) = length s"
  by (simp add: bytes_of_def)

lemma bytes_of_inject: "bytes_of a = bytes_of b \<Longrightarrow> a = b"
proof -
  have "inj (\<lambda>c. word_of_nat (byte_of c) :: byte)"
  proof (rule injI)
    fix x y :: char
    assume "(word_of_nat (byte_of x) :: byte) = word_of_nat (byte_of y)"
    then have "unat (word_of_nat (byte_of x) :: byte) = unat (word_of_nat (byte_of y) :: byte)" by simp
    then have "(byte_of x :: nat) = byte_of y" by (simp add: unsigned_of_nat take_bit_nat_eq_self)
    then show "x = y" by simp
  qed
  then show "bytes_of a = bytes_of b \<Longrightarrow> a = b" by (simp add: bytes_of_def inj_map_eq_map)
qed

lemma length_big_endian [simp]: "length (big_endian n w) = n"
  by (simp add: big_endian_def)

lemma big_endian_inject:
  fixes a b :: "'a::len word"
  assumes e: "big_endian n a = big_endian n b" and len: "LENGTH('a) = 8 * n"
  shows "a = b"
proof (rule bit_word_eqI)
  fix k
  assume "k < LENGTH('a)"
  then have k: "k < 8 * n" by (simp add: len)
  let ?i = "n - 1 - k div 8"
  have i: "?i < n" "8 * (n - 1 - ?i) + k mod 8 = k" using k by auto
  have "big_endian n a ! ?i = big_endian n b ! ?i" using e by simp
  then have "(ucast (drop_bit (8 * (n - 1 - ?i)) a) :: byte) = ucast (drop_bit (8 * (n - 1 - ?i)) b)"
    using i(1) by (simp add: big_endian_def)
  then have "bit (ucast (drop_bit (8 * (n - 1 - ?i)) a) :: byte) (k mod 8)
      = bit (ucast (drop_bit (8 * (n - 1 - ?i)) b) :: byte) (k mod 8)"
    by simp
  then show "bit a k = bit b k"
    using i k len by (simp add: bit_ucast_iff bit_drop_bit_eq)
qed

lemma length_PutUint32 [simp]: "length (PutUint32 w) = 4"
  by (simp add: PutUint32_def)

lemma length_PutUint64 [simp]: "length (PutUint64 w) = 8"
  by (simp add: PutUint64_def)

lemma PutUint32_inject: "PutUint32 a = PutUint32 b \<Longrightarrow> a = b"
  unfolding PutUint32_def by (rule big_endian_inject) simp_all

lemma PutUint64_inject: "PutUint64 a = PutUint64 b \<Longrightarrow> a = b"
  unfolding PutUint64_def by (rule big_endian_inject) simp_all

section \<open>Unambiguous concatenation\<close>

definition prefix_code :: "('a \<Rightarrow> bool) \<Rightarrow> ('a \<Rightarrow> byte list) \<Rightarrow> bool" where
  "prefix_code P f \<longleftrightarrow> (\<forall>x y r s. P x \<longrightarrow> P y \<longrightarrow> f x @ r = f y @ s \<longrightarrow> x = y \<and> r = s)"

lemma prefix_codeI:
  "(\<And>x y r s. P x \<Longrightarrow> P y \<Longrightarrow> f x @ r = f y @ s \<Longrightarrow> x = y \<and> r = s) \<Longrightarrow> prefix_code P f"
  unfolding prefix_code_def by blast

lemma prefix_codeD: "prefix_code P f \<Longrightarrow> P x \<Longrightarrow> P y \<Longrightarrow> f x @ r = f y @ s \<Longrightarrow> x = y \<and> r = s"
  unfolding prefix_code_def by blast

lemma fixed_width_code:
  assumes "\<And>x. P x \<Longrightarrow> length (f x) = n" and "\<And>x y. P x \<Longrightarrow> P y \<Longrightarrow> f x = f y \<Longrightarrow> x = y"
  shows "prefix_code P f"
  by (rule prefix_codeI) (use assms in \<open>simp add: append_eq_append_conv\<close>)

lemma PutUint32_code: "prefix_code (\<lambda>_. True) PutUint32"
  by (rule fixed_width_code [where n = 4]) (auto dest: PutUint32_inject)

lemma PutUint64_code: "prefix_code (\<lambda>_. True) PutUint64"
  by (rule fixed_width_code [where n = 8]) (auto dest: PutUint64_inject)

text \<open>Lists of equal length, field by field, and the list behind its count.\<close>

lemma concat_code:
  assumes "prefix_code P f"
  shows "length xs = length ys \<Longrightarrow> list_all P xs \<Longrightarrow> list_all P ys \<Longrightarrow>
    concat (map f xs) @ r = concat (map f ys) @ s \<Longrightarrow> xs = ys \<and> r = s"
proof (induction xs ys arbitrary: r s rule: list_induct2)
  case (Cons x xs y ys)
  have "x = y \<and> concat (map f xs) @ r = concat (map f ys) @ s"
    by (rule prefix_codeD [OF assms]) (use Cons.prems in auto)
  then show ?case using Cons.IH Cons.prems(1,2) by auto
qed auto

lemma counted_code:
  assumes "prefix_code P f"
  shows "prefix_code (\<lambda>xs. list_all P xs \<and> length xs < 2 ^ 32)
    (\<lambda>xs. PutUint32 (of_nat (length xs)) @ concat (map f xs))"
proof (rule prefix_codeI)
  fix xs ys :: "'a list" and r s
  assume xs: "list_all P xs \<and> length xs < 2 ^ 32" and ys: "list_all P ys \<and> length ys < 2 ^ 32"
    and e: "(PutUint32 (of_nat (length xs)) @ concat (map f xs)) @ r = (PutUint32 (of_nat (length ys)) @ concat (map f ys)) @ s"
  have n: "(of_nat (length xs) :: 32 word) = of_nat (length ys) \<and> concat (map f xs) @ r = concat (map f ys) @ s"
    by (rule prefix_codeD [OF PutUint32_code]) (use e in simp_all)
  then have "unat (of_nat (length xs) :: 32 word) = unat (of_nat (length ys) :: 32 word)" by simp
  then have "length xs = length ys" using xs ys by (simp add: unsigned_of_nat take_bit_nat_eq_self)
  then show "xs = ys \<and> r = s" using concat_code [OF assms _ conjunct1 [OF xs] conjunct1 [OF ys]] n by blast
qed

end
