(* ===== verification/Trust.thy ===== *)
theory Trust
  imports Device Wire "HOL-Library.AList"
begin

text \<open>
  \<open>internal/trust/trust.go\<close> and \<open>internal/trust/pairing.go\<close>: trusted peers and their hints, the matching of nearby
  sightings to peers, and the derivation of pair identifiers, verification codes and connectivity secrets from a
  pairing session. SHA-256 is the argument \<open>H\<close> and the case tables are \<open>U\<close>, as in \<open>Device\<close>. \<open>Clone\<close> copies storage and
  is the identity on values.
\<close>

unbundle bit_operations_syntax

section \<open>Peers\<close>

type_synonym pair_id = string

definition encodedPairIDLength :: nat where "encodedPairIDLength = 26"
definition ConnectivitySecretBytes :: nat where "ConnectivitySecretBytes = 32"

definition Secret_Valid :: "byte list \<Rightarrow> bool" where
  "Secret_Valid secret \<longleftrightarrow> length secret = ConnectivitySecretBytes"

definition NewPairID :: "casing \<Rightarrow> byte list \<Rightarrow> pair_id" where
  "NewPairID U random = encode_lower U (take 16 random)"

definition ParsePairID :: "casing \<Rightarrow> string \<Rightarrow> pair_id result" where
  "ParsePairID U value =
    (if length value \<noteq> encodedPairIDLength \<or> value \<noteq> ToLower U value then Inl [Trust_ErrInvalidPairID]
     else (case Base32_Decode (ToUpper U value) of
         None \<Rightarrow> Inl [Trust_ErrInvalidPairID]
       | Some decoded \<Rightarrow> if length decoded \<noteq> 16 then Inl [Trust_ErrInvalidPairID] else Inr value))"

definition PairID_Valid :: "casing \<Rightarrow> pair_id \<Rightarrow> bool" where
  "PairID_Valid U i = is_ok (ParsePairID U i)"

datatype trust_state = StateActive | StateRevoked | TrustStateUnknown string

record peer =
  pePairID :: pair_id
  peDeviceID :: device_id
  pePublicKey :: "byte list"
  peConnectivitySecret :: "byte list"
  peName :: string
  peRole :: role
  peState :: trust_state
  pePlatform :: string
  peArchitecture :: string
  peLogicalCPUCount :: "32 word"
  peTotalMemoryBytes :: "64 word"
  peToolIDs :: "string list"
  peSupportedExecutors :: "string list"
  peHintsObservedAt :: "time option"
  pePairedAt :: time
  peUpdatedAt :: time
  peRevokedAt :: "time option"

record peer_hints =
  phPlatform :: string
  phArchitecture :: string
  phLogicalCPUCount :: "32 word"
  phTotalMemoryBytes :: "64 word"
  phToolIDs :: "string list"
  phSupportedExecutors :: "string list"
  phObservedAt :: time

fun tool_ids_after :: "string \<Rightarrow> string list \<Rightarrow> bool" where
  "tool_ids_after previous [] = True"
| "tool_ids_after previous (value # values) =
    (if \<not> validateHint value \<or> length value > 64 \<or> value = [] \<or> value \<le> previous then False
     else tool_ids_after value values)"

definition validateToolIDs :: "string list \<Rightarrow> bool" where
  "validateToolIDs values \<longleftrightarrow> length values \<le> 128 \<and> tool_ids_after [] values"

fun executors_after :: "string \<Rightarrow> string list \<Rightarrow> bool" where
  "executors_after previous [] = True"
| "executors_after previous (value # values) =
    (if value \<noteq> ''container'' \<and> value \<noteq> ''native'' then False
     else if value \<le> previous then False
     else executors_after value values)"

definition validateSupportedExecutors :: "string list \<Rightarrow> bool" where
  "validateSupportedExecutors values \<longleftrightarrow> length values \<le> 8 \<and> executors_after [] values"

definition Hints_Validate :: "peer_hints \<Rightarrow> unit result" where
  "Hints_Validate hints =
    (if IsZero (phObservedAt hints) \<or> \<not> validateHint (phPlatform hints) \<or> \<not> validateHint (phArchitecture hints)
        \<or> phLogicalCPUCount hints > 4096 \<or> \<not> validateToolIDs (phToolIDs hints)
        \<or> \<not> validateSupportedExecutors (phSupportedExecutors hints)
     then Inl [Trust_ErrInvalidHints] else Inr ())"

definition Peer_Validate :: "casing \<Rightarrow> digest_fun \<Rightarrow> peer \<Rightarrow> unit result" where
  "Peer_Validate U H p =
    (if (case IDFromPublicKey U H (pePublicKey p) of Inl _ \<Rightarrow> True | Inr derived \<Rightarrow> peDeviceID p \<noteq> derived)
        \<or> \<not> PairID_Valid U (pePairID p) \<or> \<not> validateName (peName p)
        \<or> (length (peConnectivitySecret p) \<noteq> 0 \<and> \<not> Secret_Valid (peConnectivitySecret p))
        \<or> (peRole p \<noteq> RoleWorker \<and> peRole p \<noteq> RoleOrchestrator)
        \<or> \<not> validateHint (pePlatform p) \<or> \<not> validateHint (peArchitecture p)
        \<or> peLogicalCPUCount p > 4096 \<or> \<not> validateToolIDs (peToolIDs p)
        \<or> \<not> validateSupportedExecutors (peSupportedExecutors p)
        \<or> IsZero (pePairedAt p) \<or> peUpdatedAt p < pePairedAt p
     then Inl [Trust_ErrInvalidPeer]
     else if (case peHintsObservedAt p of
         None \<Rightarrow> pePlatform p \<noteq> [] \<or> peArchitecture p \<noteq> [] \<or> peLogicalCPUCount p \<noteq> 0 \<or> peTotalMemoryBytes p \<noteq> 0
           \<or> peToolIDs p \<noteq> [] \<or> peSupportedExecutors p \<noteq> []
       | Some t \<Rightarrow> IsZero t)
     then Inl [Trust_ErrInvalidPeer]
     else (case peState p of
         StateActive \<Rightarrow> if peRevokedAt p \<noteq> None then Inl [Trust_ErrInvalidPeer] else Inr ()
       | StateRevoked \<Rightarrow>
           (case peRevokedAt p of
              None \<Rightarrow> Inl [Trust_ErrInvalidPeer]
            | Some t \<Rightarrow> if t < pePairedAt p \<or> peUpdatedAt p \<noteq> t then Inl [Trust_ErrInvalidPeer] else Inr ())
       | TrustStateUnknown _ \<Rightarrow> Inl [Trust_ErrInvalidPeer]))"

text \<open>
  The two maps from names are association lists from a name to what carries it, in order. The result is filled in
  the order in which the names first occur.
\<close>

definition with_name :: "('a \<Rightarrow> string) \<Rightarrow> string \<Rightarrow> 'a list \<Rightarrow> 'a list" where
  "with_name f name xs = filter (\<lambda>x. f x = name) xs"

definition MatchNearbyHints :: "peer list \<Rightarrow> observation list \<Rightarrow> (device_id \<times> peer_hints) list" where
  "MatchNearbyHints peers nearby =
    (let workers = filter (\<lambda>p. peState p = StateActive \<and> peRole p = RoleWorker) peers;
         ready = filter (\<lambda>n. anRole (obAnnouncement n) = RoleWorker \<and> anEndpointReady (obAnnouncement n)) nearby
     in fold (\<lambda>name result.
          case (with_name peName name workers, with_name (\<lambda>n. anName (obAnnouncement n)) name ready) of
            ([p], [n]) \<Rightarrow>
              AList.update (peDeviceID p)
                \<lparr>phPlatform = anPlatform (obAnnouncement n), phArchitecture = anArchitecture (obAnnouncement n),
                 phLogicalCPUCount = anLogicalCPUCount (obAnnouncement n),
                 phTotalMemoryBytes = anTotalMemoryBytes (obAnnouncement n),
                 phToolIDs = [], phSupportedExecutors = [], phObservedAt = obSeenAt n\<rparr> result
          | _ \<Rightarrow> result) (remdups (map peName workers)) [])"

section \<open>Pairing\<close>

definition PairingBindingBytes :: nat where "PairingBindingBytes = 32"
definition verificationBytes :: nat where "verificationBytes = 10"

datatype pairing_state =
  PairingWaiting | PairingPaired | PairingRejected | PairingExpired | PairingFailed | PairingUnknown string

datatype direction = DirectionOutbound | DirectionInbound | DirectionUnknown string

record pairing =
  paID :: pair_id
  paPeerID :: device_id
  paPeerPublicKey :: "byte list"
  paPeerName :: string
  paPeerRole :: role
  paVerification :: string
  paDirection :: direction
  paState :: pairing_state
  paLocalConfirmed :: bool
  paRemoteConfirmed :: bool
  paStartedAt :: time
  paExpiresAt :: time
  paFailure :: string

definition crockford_alphabet :: string where
  "crockford_alphabet = ''0123456789ABCDEFGHJKMNPQRSTVWXYZ''"

text \<open>The inner loop writes the digits that the buffer holds and returns them with the bits that are left.\<close>

fun crockford_digits :: "32 word \<Rightarrow> nat \<Rightarrow> string \<times> nat" where
  "crockford_digits buffer bits =
    (if bits \<ge> 5
     then let bits' = bits - 5; (out, rest) = crockford_digits buffer bits'
       in (crockford_alphabet ! unat (drop_bit bits' buffer AND 31) # out, rest)
     else ([], bits))"

declare crockford_digits.simps [simp del]

fun crockford_loop :: "byte list \<Rightarrow> 32 word \<Rightarrow> nat \<Rightarrow> string" where
  "crockford_loop [] buffer bits =
    (if bits > 0 then [crockford_alphabet ! unat (push_bit (5 - bits) buffer AND 31)] else [])"
| "crockford_loop (value # contents) buffer bits =
    (let buffer' = push_bit 8 buffer OR ucast value; (out, rest) = crockford_digits buffer' (bits + 8)
     in out @ crockford_loop contents buffer' rest)"

definition crockford :: "byte list \<Rightarrow> string" where
  "crockford contents = crockford_loop contents 0 0"

definition validVerificationCode :: "string \<Rightarrow> bool" where
  "validVerificationCode code \<longleftrightarrow>
     (let parts = Split CHR ''-'' code in
      length parts = 4 \<and>
      list_all (\<lambda>part. length part = 4 \<and>
        list_all (\<lambda>(r, _). rune_value r \<in> set (map byte_of crockford_alphabet)) (runes part)) parts)"

definition pairingContext :: "casing \<Rightarrow> byte list \<Rightarrow> device_id \<Rightarrow> device_id \<Rightarrow> byte list result" where
  "pairingContext U binding initiatorID responderID =
    (if length binding \<noteq> PairingBindingBytes \<or> \<not> DeviceID_Valid U initiatorID \<or> \<not> DeviceID_Valid U responderID
        \<or> initiatorID = responderID
     then Inl [Trust_ErrInvalidPairing]
     else Inr (bytes_of ''ComputeHop pairing v1'' @ [0] @ binding @ bytes_of initiatorID @ [0] @ bytes_of responderID))"

definition DerivePairing ::
    "casing \<Rightarrow> digest_fun \<Rightarrow> byte list \<Rightarrow> device_id \<Rightarrow> device_id \<Rightarrow> (pair_id \<times> string) result" where
  "DerivePairing U H binding initiatorID responderID =
    ebind (pairingContext U binding initiatorID responderID) (\<lambda>context.
      let idDigest = H (bytes_of ''pair-id'' @ [0] @ context);
          i = encode_lower U (take 16 idDigest);
          codeDigest = H (bytes_of ''verify'' @ [0] @ context);
          encoded = crockford (take verificationBytes codeDigest);
          code = take 4 encoded @ ''-'' @ take 4 (drop 4 encoded) @ ''-'' @ take 4 (drop 8 encoded) @ ''-''
            @ take 4 (drop 12 encoded)
      in Inr (i, code))"

definition DeriveConnectivitySecret ::
    "casing \<Rightarrow> digest_fun \<Rightarrow> byte list \<Rightarrow> device_id \<Rightarrow> device_id \<Rightarrow> byte list result" where
  "DeriveConnectivitySecret U H binding initiatorID responderID =
    ebind (pairingContext U binding initiatorID responderID) (\<lambda>context.
      Inr (H (bytes_of ''connectivity-secret'' @ [0] @ context)))"

definition Pairing_Validate :: "casing \<Rightarrow> digest_fun \<Rightarrow> pairing \<Rightarrow> unit result" where
  "Pairing_Validate U H p =
    (if (case IDFromPublicKey U H (paPeerPublicKey p) of Inl _ \<Rightarrow> True | Inr derived \<Rightarrow> paPeerID p \<noteq> derived)
        \<or> \<not> PairID_Valid U (paID p) \<or> \<not> validateName (paPeerName p)
        \<or> (paPeerRole p \<noteq> RoleWorker \<and> paPeerRole p \<noteq> RoleOrchestrator)
        \<or> (paDirection p \<noteq> DirectionInbound \<and> paDirection p \<noteq> DirectionOutbound)
        \<or> IsZero (paStartedAt p) \<or> \<not> paExpiresAt p > paStartedAt p
        \<or> \<not> validVerificationCode (paVerification p)
     then Inl [Trust_ErrInvalidPairing]
     else (case paState p of
         PairingWaiting \<Rightarrow> if paFailure p \<noteq> [] then Inl [Trust_ErrInvalidPairing] else Inr ()
       | PairingPaired \<Rightarrow>
           if \<not> paLocalConfirmed p \<or> \<not> paRemoteConfirmed p \<or> paFailure p \<noteq> [] then Inl [Trust_ErrInvalidPairing] else Inr ()
       | PairingRejected \<Rightarrow> if paFailure p \<noteq> [] then Inl [Trust_ErrInvalidPairing] else Inr ()
       | PairingExpired \<Rightarrow> if paFailure p \<noteq> [] then Inl [Trust_ErrInvalidPairing] else Inr ()
       | PairingFailed \<Rightarrow> if TrimSpace (paFailure p) = [] then Inl [Trust_ErrInvalidPairing] else Inr ()
       | PairingUnknown _ \<Rightarrow> Inl [Trust_ErrInvalidPairing]))"

section \<open>Facts\<close>

lemma PairID_Valid_lower: "PairID_Valid U i \<longleftrightarrow> lower_base32 U 26 16 i"
  by (auto simp: PairID_Valid_def ParsePairID_def lower_base32_def encodedPairIDLength_def split: option.splits)

lemma ParsePairID_Inr: "ParsePairID U v = Inr i \<longleftrightarrow> PairID_Valid U v \<and> i = v"
  by (auto simp: PairID_Valid_def ParsePairID_def split: option.splits)

lemma crockford_digit: "crockford_alphabet ! unat (w AND 31) \<in> set crockford_alphabet" for w :: "32 word"
proof -
  have "w AND 31 = take_bit 5 w" by (simp add: take_bit_eq_mask mask_eq_decr_exp numeral_eq_Suc)
  then have "unat (w AND 31) < 32" using take_bit_nat_less_exp [of 5 "unat w"] by (simp add: unsigned_take_bit_eq)
  moreover have "length crockford_alphabet = 32" by code_simp
  ultimately show ?thesis by simp
qed

lemma crockford_digits_shape:
  "crockford_digits buffer bits = (out, rest) \<Longrightarrow>
   length out = bits div 5 \<and> rest = bits mod 5 \<and> set out \<subseteq> set crockford_alphabet"
proof (induction bits arbitrary: out rest rule: less_induct)
  case (less bits)
  show ?case
  proof (cases "bits \<ge> 5")
    case True
    obtain o' r' where o: "crockford_digits buffer (bits - 5) = (o', r')" by fastforce
    have "out = crockford_alphabet ! unat (drop_bit (bits - 5) buffer AND 31) # o'" "rest = r'"
      using less.prems True o by (subst (asm) crockford_digits.simps; simp add: Let_def)+
    moreover have "length o' = (bits - 5) div 5 \<and> r' = (bits - 5) mod 5 \<and> set o' \<subseteq> set crockford_alphabet"
      by (rule less.IH [OF _ o]) (use True in simp)
    moreover have "bits div 5 = Suc ((bits - 5) div 5)" "bits mod 5 = (bits - 5) mod 5"
      using True by (simp_all add: le_div_geq le_mod_geq)
    ultimately show ?thesis using crockford_digit by simp
  next
    case False
    then show ?thesis using less.prems by (subst (asm) crockford_digits.simps) auto
  qed
qed

lemma crockford_loop_shape:
  "bits < 5 \<Longrightarrow> length (crockford_loop contents buffer bits) = (8 * length contents + bits + 4) div 5
     \<and> set (crockford_loop contents buffer bits) \<subseteq> set crockford_alphabet"
proof (induction contents arbitrary: buffer bits)
  case Nil
  then show ?case using crockford_digit by auto
next
  case (Cons v contents)
  let ?b = "push_bit 8 buffer OR ucast v"
  obtain out rest where o: "crockford_digits ?b (bits + 8) = (out, rest)" by fastforce
  note s = crockford_digits_shape [OF o]
  have ih: "length (crockford_loop contents ?b rest) = (8 * length contents + rest + 4) div 5
      \<and> set (crockford_loop contents ?b rest) \<subseteq> set crockford_alphabet"
    by (rule Cons.IH) (use s in simp)
  have "(bits + 8) div 5 + (8 * n + (bits + 8) mod 5 + 4) div 5 = (8 * Suc n + bits + 4) div 5" for n
  proof -
    have "8 * Suc n + bits + 4 = (8 * n + (bits + 8) mod 5 + 4) + (bits + 8) div 5 * 5"
      using div_mult_mod_eq [of "bits + 8" 5] unfolding mult_Suc_right by linarith
    then show ?thesis by (simp only: div_mult_self1 [of 5, OF numeral_neq_zero])
  qed
  then show ?case using s ih o by simp
qed

lemma crockford_shape:
  "length (crockford bs) = (8 * length bs + 4) div 5" "set (crockford bs) \<subseteq> set crockford_alphabet"
  using crockford_loop_shape [of 0 bs 0] by (simp_all add: crockford_def)

lemma crockford_part:
  assumes "set s \<subseteq> set crockford_alphabet"
  shows "CHR ''-'' \<notin> set s" "list_all (\<lambda>(r, _). rune_value r \<in> set (map byte_of crockford_alphabet)) (runes s)"
proof -
  have f: "CHR ''-'' \<notin> set crockford_alphabet" "ascii crockford_alphabet" by code_simp+
  then show "CHR ''-'' \<notin> set s" using assms by blast
  have "ascii s" using f(2) assms by (auto simp: ascii_def list_all_iff)
  then show "list_all (\<lambda>(r, _). rune_value r \<in> set (map byte_of crockford_alphabet)) (runes s)"
    using assms by (auto simp: runes_ascii list_all_iff rune_value_def)
qed

lemma valid_code:
  assumes "length s = 16" "set s \<subseteq> set crockford_alphabet"
  shows "validVerificationCode (take 4 s @ ''-'' @ take 4 (drop 4 s) @ ''-'' @ take 4 (drop 8 s) @ ''-'' @ take 4 (drop 12 s))"
proof -
  have p: "set (take 4 (drop k s)) \<subseteq> set crockford_alphabet" for k
    using assms(2) by (meson set_drop_subset set_take_subset subset_trans)
  note no = crockford_part(1) [OF p] crockford_part(2) [OF p]
  have "Split CHR ''-'' (take 4 s @ ''-'' @ take 4 (drop 4 s) @ ''-'' @ take 4 (drop 8 s) @ ''-'' @ take 4 (drop 12 s))
      = [take 4 s, take 4 (drop 4 s), take 4 (drop 8 s), take 4 (drop 12 s)]"
    using no(1) [of 0] no(1) [of 4] no(1) [of 8] no(1) [of 12] by (simp add: Split_append_sep Split_single)
  then show ?thesis
    using no(2) [of 0] no(2) [of 4] no(2) [of 8] no(2) [of 12] assms(1)
    by (simp add: validVerificationCode_def Let_def)
qed

text \<open>What the derivations return: the code holds digits of Crockford's alphabet and dashes.\<close>

lemma derived_material:
  assumes H: "\<And>x. length (H x) = 32" and "length binding = 32" "DeviceID_Valid U a" "DeviceID_Valid U b" "a \<noteq> b"
  obtains i code secret where "DerivePairing U H binding a b = Inr (i, code)" "PairID_Valid U i" "validVerificationCode code"
    "DeriveConnectivitySecret U H binding a b = Inr secret" "Secret_Valid secret"
    "code \<noteq> []" "set code \<subseteq> insert CHR ''-'' (set crockford_alphabet)" "set i \<subseteq> set b32_lower" "length i = 26"
proof -
  obtain cx where c: "pairingContext U binding a b = Inr cx"
    using assms by (simp add: pairingContext_def PairingBindingBytes_def)
  define s where "s = crockford (take verificationBytes (H (bytes_of ''verify'' @ [0] @ cx)))"
  have s: "length s = 16" "set s \<subseteq> set crockford_alphabet"
    using H crockford_shape by (simp_all add: s_def verificationBytes_def)
  have part: "set (take 4 (drop k s)) \<subseteq> set crockford_alphabet" for k
    using s(2) by (meson set_drop_subset set_take_subset subset_trans)
  define code where "code = take 4 s @ ''-'' @ take 4 (drop 4 s) @ ''-'' @ take 4 (drop 8 s) @ ''-'' @ take 4 (drop 12 s)"
  have code: "code \<noteq> []" "set code \<subseteq> insert CHR ''-'' (set crockford_alphabet)"
    using part [of 0] part [of 4] part [of 8] part [of 12] by (auto simp: code_def)
  define i where "i = encode_lower U (take 16 (H (bytes_of ''pair-id'' @ [0] @ cx)))"
  have i: "length i = 26 \<and> set i \<subseteq> set b32_lower"
    unfolding i_def using encode_lower_char [of _ 26 U] H by simp
  have "PairID_Valid U i" unfolding PairID_Valid_lower by (rule lower_base32_I) (use i in auto)
  then show thesis
    using that [of i code "H (bytes_of ''connectivity-secret'' @ [0] @ cx)"] c code i valid_code [OF s] H
    by (simp add: DerivePairing_def DeriveConnectivitySecret_def Let_def Secret_Valid_def ConnectivitySecretBytes_def
        i_def code_def s_def)
qed

text \<open>
  C39: Pairing material. For a binding of 32 bytes and two different valid device identifiers, both ends derive a valid
  pair identifier, a verification code that \<open>Validate\<close> accepts and a connectivity secret of the required length; any other
  input is refused by both derivations.
\<close>
theorem pairing_material_is_valid:
  assumes "\<And>x. length (H x) = 32"
  shows "(length binding = 32 \<and> DeviceID_Valid U a \<and> DeviceID_Valid U b \<and> a \<noteq> b \<longrightarrow>
      (\<exists>i code secret. DerivePairing U H binding a b = Inr (i, code) \<and> PairID_Valid U i \<and> validVerificationCode code
        \<and> DeriveConnectivitySecret U H binding a b = Inr secret \<and> Secret_Valid secret))
    \<and> (\<not> (length binding = 32 \<and> DeviceID_Valid U a \<and> DeviceID_Valid U b \<and> a \<noteq> b) \<longrightarrow>
      DerivePairing U H binding a b = Inl [Trust_ErrInvalidPairing]
      \<and> DeriveConnectivitySecret U H binding a b = Inl [Trust_ErrInvalidPairing])"
proof (cases "length binding = 32 \<and> DeviceID_Valid U a \<and> DeviceID_Valid U b \<and> a \<noteq> b")
  case True
  then have "length binding = 32" "DeviceID_Valid U a" "DeviceID_Valid U b" "a \<noteq> b" by simp_all
  then obtain i code secret where "DerivePairing U H binding a b = Inr (i, code)" "PairID_Valid U i" "validVerificationCode code"
      "DeriveConnectivitySecret U H binding a b = Inr secret" "Secret_Valid secret"
    by (rule derived_material [where H = H, OF assms])
  then show ?thesis using True by blast
next
  case False
  then show ?thesis
    by (auto simp: DerivePairing_def DeriveConnectivitySecret_def pairingContext_def PairingBindingBytes_def)
qed

theorem pairing_material_is_valid_witness:
  "\<exists>i code. DerivePairing plain_casing sample_digest (replicate 32 5) (replicate 52 CHR ''a'') (replicate 52 CHR ''b'') = Inr (i, code)
     \<and> PairID_Valid plain_casing i \<and> validVerificationCode code"
proof -
  have H: "length (sample_digest x) = 32" for x by (simp add: sample_digest_def)
  have v: "DeviceID_Valid plain_casing (replicate 52 CHR ''a'')" "DeviceID_Valid plain_casing (replicate 52 CHR ''b'')"
    by code_simp+
  have n: "replicate 52 CHR ''a'' \<noteq> replicate 52 CHR ''b''" by simp
  show ?thesis
    using pairing_material_is_valid [where H = sample_digest and U = plain_casing and binding = "replicate 32 5"
        and a = "replicate 52 CHR ''a''" and b = "replicate 52 CHR ''b''", OF H] v n by auto
qed

end
