(* ===== verification/TrustRepository.thy ===== *)
theory TrustRepository
  imports Trust Database
begin

text \<open>
  \<open>internal/infra/sqlite/trust_repository.go\<close> on the tables of \<open>003_trust.sql\<close>, \<open>005_connectivity_secret.sql\<close>,
  \<open>009_trusted_device_hints.sql\<close>, \<open>010_trusted_device_tools.sql\<close> and \<open>012_trusted_device_executors.sql\<close>, with their
  checks, the unique pair identifier and the partial index that allows one active orchestrator. An upsert checks its
  conflict target first, so an insert for a known device becomes the update.

  The invariant \<open>trust_ok\<close> says that every row decodes to a valid peer, that revoked rows hold no secret, that the
  unique indexes hold and that the audit log of a device ends in its state.
\<close>

section \<open>Tables\<close>

record trust_row =
  t_device_id :: string
  t_pair_id :: string
  t_public_key :: "byte list"
  t_name :: string
  t_role :: string
  t_state :: string
  t_platform :: string
  t_arch :: string
  t_logical_cpu_count :: int
  t_total_memory_bytes :: int
  t_tool_ids :: "string list"
  t_supported_executors :: "string list"
  t_hints_observed_at_ns :: "int option"
  t_paired_at_ns :: int
  t_updated_at_ns :: int
  t_revoked_at_ns :: "int option"
  t_connectivity_secret :: "byte list option"

record trust_event =
  ev_device_id :: string
  ev_pair_id :: string
  ev_event :: string
  ev_at_ns :: int

record trust_db =
  trusted_devices :: "trust_row list"
  trust_events :: "trust_event list"

definition empty_trust :: trust_db where
  "empty_trust = \<lparr>trusted_devices = [], trust_events = []\<rparr>"

definition trust_row_check :: "trust_row \<Rightarrow> bool" where
  "trust_row_check r \<longleftrightarrow>
     t_role r \<in> {''worker'', ''orchestrator''} \<and> t_state r \<in> {''active'', ''revoked''}
     \<and> length (runes (t_device_id r)) = 52 \<and> length (runes (t_pair_id r)) = 26 \<and> length (t_public_key r) = 32
     \<and> 1 \<le> length (runes (t_name r)) \<and> length (runes (t_name r)) \<le> 80
     \<and> t_updated_at_ns r \<ge> t_paired_at_ns r
     \<and> (t_state r = ''active'' \<and> t_revoked_at_ns r = None
        \<or> t_state r = ''revoked'' \<and> t_revoked_at_ns r = Some (t_updated_at_ns r) \<and> t_updated_at_ns r \<ge> t_paired_at_ns r)
     \<and> (case t_connectivity_secret r of None \<Rightarrow> True | Some s \<Rightarrow> length s = 32)
     \<and> length (runes (t_platform r)) \<le> 32 \<and> CHR ''='' \<notin> set (t_platform r)
     \<and> length (runes (t_arch r)) \<le> 32 \<and> CHR ''='' \<notin> set (t_arch r)
     \<and> 0 \<le> t_logical_cpu_count r \<and> t_logical_cpu_count r \<le> 4096 \<and> 0 \<le> t_total_memory_bytes r
     \<and> (case t_hints_observed_at_ns r of None \<Rightarrow> True | Some t \<Rightarrow> t > 0)
     \<and> json_length (t_tool_ids r) \<le> 8192 \<and> json_length (t_supported_executors r) \<le> 512"

definition active_orchestrator :: "trust_row \<Rightarrow> bool" where
  "active_orchestrator r \<longleftrightarrow> t_state r = ''active'' \<and> t_role r = ''orchestrator''"

text \<open>The unique indexes beside the primary key, for one row against the others.\<close>

definition indexes_allow :: "trust_row \<Rightarrow> trust_row list \<Rightarrow> bool" where
  "indexes_allow r others \<longleftrightarrow>
     list_all (\<lambda>s. t_pair_id s \<noteq> t_pair_id r \<and> \<not> (active_orchestrator r \<and> active_orchestrator s)) others"

section \<open>Operations\<close>

definition role_string :: "role \<Rightarrow> string" where
  "role_string r = (case r of RoleWorker \<Rightarrow> ''worker'' | RoleOrchestrator \<Rightarrow> ''orchestrator'' | RoleUnknown v \<Rightarrow> v)"

definition Role_of :: "string \<Rightarrow> role" where
  "Role_of v = (if v = ''worker'' then RoleWorker else if v = ''orchestrator'' then RoleOrchestrator else RoleUnknown v)"

definition TrustState_of :: "string \<Rightarrow> trust_state" where
  "TrustState_of v = (if v = ''active'' then StateActive else if v = ''revoked'' then StateRevoked else TrustStateUnknown v)"

definition nullableSecret :: "byte list \<Rightarrow> byte list option" where
  "nullableSecret s = (if length s = 0 then None else Some s)"

definition scanTrustedPeer :: "casing \<Rightarrow> digest_fun \<Rightarrow> trust_row \<Rightarrow> peer result" where
  "scanTrustedPeer U H r =
    ebind (Device_ParseID U (t_device_id r)) (\<lambda>deviceID.
    ebind (ParsePairID U (t_pair_id r)) (\<lambda>pairID.
    let p = \<lparr>pePairID = pairID, peDeviceID = deviceID, pePublicKey = t_public_key r,
          peConnectivitySecret = (case t_connectivity_secret r of None \<Rightarrow> [] | Some s \<Rightarrow> s),
          peName = t_name r, peRole = Role_of (t_role r), peState = TrustState_of (t_state r),
          pePlatform = t_platform r, peArchitecture = t_arch r,
          peLogicalCPUCount = word_of_int (t_logical_cpu_count r),
          peTotalMemoryBytes = word_of_int (t_total_memory_bytes r),
          peToolIDs = t_tool_ids r, peSupportedExecutors = t_supported_executors r,
          peHintsObservedAt = t_hints_observed_at_ns r,
          pePairedAt = t_paired_at_ns r, peUpdatedAt = t_updated_at_ns r, peRevokedAt = t_revoked_at_ns r\<rparr>
    in if t_logical_cpu_count r < 0 \<or> t_total_memory_bytes r < 0 then Inl [Trust_ErrInvalidPeer]
       else ebind (Peer_Validate U H p) (\<lambda>_. Inr p)))"

definition queryTrustedPeer :: "casing \<Rightarrow> digest_fun \<Rightarrow> trust_db \<Rightarrow> device_id \<Rightarrow> peer result" where
  "queryTrustedPeer U H d i =
    (case row_with t_device_id i (trusted_devices d) of
       None \<Rightarrow> Inl [Sqlite_ErrNoRows] | Some r \<Rightarrow> scanTrustedPeer U H r)"

definition paired_row :: "peer \<Rightarrow> trust_row" where
  "paired_row p = \<lparr>t_device_id = peDeviceID p, t_pair_id = pePairID p, t_public_key = pePublicKey p,
     t_name = peName p, t_role = role_string (peRole p), t_state = ''active'',
     t_platform = [], t_arch = [], t_logical_cpu_count = 0, t_total_memory_bytes = 0,
     t_tool_ids = [], t_supported_executors = [], t_hints_observed_at_ns = None,
     t_paired_at_ns = UnixNano (pePairedAt p), t_updated_at_ns = UnixNano (peUpdatedAt p),
     t_revoked_at_ns = None, t_connectivity_secret = nullableSecret (peConnectivitySecret p)\<rparr>"

definition repaired_row :: "peer \<Rightarrow> trust_row \<Rightarrow> trust_row" where
  "repaired_row p r = r\<lparr>t_pair_id := pePairID p, t_public_key := pePublicKey p, t_name := peName p,
     t_role := role_string (peRole p), t_state := ''active'',
     t_paired_at_ns := UnixNano (pePairedAt p), t_updated_at_ns := UnixNano (peUpdatedAt p),
     t_revoked_at_ns := None, t_connectivity_secret := nullableSecret (peConnectivitySecret p)\<rparr>"

text \<open>\<open>INSERT ... ON CONFLICT(device_id) DO UPDATE ... WHERE trusted_devices.state = 'revoked'\<close>\<close>

definition upsert_peer :: "peer \<Rightarrow> trust_row list \<Rightarrow> trust_row list result" where
  "upsert_peer p rows =
    (let row = paired_row p; others = filter (\<lambda>r. t_device_id r \<noteq> peDeviceID p) rows in
     if \<not> trust_row_check row then Inl [Sqlite_ErrConstraint]
     else (case row_with t_device_id (peDeviceID p) rows of
         None \<Rightarrow> if indexes_allow row others then Inr (rows @ [row]) else Inl [Sqlite_ErrConstraint]
       | Some old \<Rightarrow>
           if t_state old \<noteq> ''revoked'' then Inr rows
           else if trust_row_check (repaired_row p old) \<and> indexes_allow (repaired_row p old) others
           then Inr (update_where (\<lambda>r. t_device_id r = peDeviceID p) (repaired_row p) rows)
           else Inl [Sqlite_ErrConstraint]))"

definition Activate_tx :: "casing \<Rightarrow> digest_fun \<Rightarrow> peer \<Rightarrow> trust_db \<Rightarrow> (trust_db \<times> unit) result" where
  "Activate_tx U H p d =
    ebind (Peer_Validate U H p) (\<lambda>_.
    if peState p \<noteq> StateActive then Inl [Trust_ErrInvalidPeer]
    else
    let proceed =
      (if peRole p = RoleOrchestrator \<and> list_ex (\<lambda>r. t_role r = ''orchestrator'' \<and> t_state r = ''active''
            \<and> t_device_id r \<noteq> peDeviceID p) (trusted_devices d)
       then Inl [Trust_ErrConflict]
       else (case upsert_peer p (trusted_devices d) of
           Inl e \<Rightarrow> Inl [Trust_ErrConflict]
         | Inr rows \<Rightarrow>
             Inr (d\<lparr>trusted_devices := rows, trust_events := trust_events d @
               [\<lparr>ev_device_id = peDeviceID p, ev_pair_id = pePairID p, ev_event = ''paired'',
                 ev_at_ns = UnixNano (pePairedAt p)\<rparr>]\<rparr>, ())))
    in (case queryTrustedPeer U H d (peDeviceID p) of
         Inr existing \<Rightarrow>
           if peState existing = StateActive
           then if pePairID existing = pePairID p \<and> pePublicKey existing = pePublicKey p
             then Inr (d, ()) else Inl [Trust_ErrConflict]
           else proceed
       | Inl e \<Rightarrow> if errors_is e Sqlite_ErrNoRows then proceed else Inl e))"

definition Activate :: "casing \<Rightarrow> digest_fun \<Rightarrow> peer \<Rightarrow> trust_db \<Rightarrow> trust_db \<times> unit result" where
  "Activate U H p d = transact d (Activate_tx U H p d)"

definition Trust_Get :: "casing \<Rightarrow> digest_fun \<Rightarrow> trust_db \<Rightarrow> device_id \<Rightarrow> peer result" where
  "Trust_Get U H d i =
    (if \<not> DeviceID_Valid U i then Inl [Device_ErrInvalidID]
     else remap Sqlite_ErrNoRows Trust_ErrNotFound (queryTrustedPeer U H d i))"

definition Trust_List :: "casing \<Rightarrow> digest_fun \<Rightarrow> trust_db \<Rightarrow> peer list result" where
  "Trust_List U H d =
    collect (scanTrustedPeer U H)
      (sort_key (\<lambda>r. (if t_state r = ''active'' then 0 else 1 :: nat, t_name r, t_device_id r)) (trusted_devices d))"

definition revoked_row :: "time \<Rightarrow> trust_row \<Rightarrow> trust_row" where
  "revoked_row at r = r\<lparr>t_state := ''revoked'', t_updated_at_ns := UnixNano at,
     t_revoked_at_ns := Some (UnixNano at), t_connectivity_secret := None\<rparr>"

definition Revoke_tx ::
    "casing \<Rightarrow> digest_fun \<Rightarrow> device_id \<Rightarrow> time \<Rightarrow> trust_db \<Rightarrow> (trust_db \<times> peer) result" where
  "Revoke_tx U H i at0 d =
    (if \<not> DeviceID_Valid U i \<or> IsZero at0 then Inl [Trust_ErrInvalidPeer]
     else ebind (remap Sqlite_ErrNoRows Trust_ErrNotFound (queryTrustedPeer U H d i)) (\<lambda>p.
       if peState p = StateRevoked then Inr (d, p)
       else let at = (if at0 < peUpdatedAt p then peUpdatedAt p else at0) in
         ebind (sql_update trust_row_check
             (\<lambda>r. t_device_id r = i \<and> (t_state r = ''active'' \<and> t_updated_at_ns r = UnixNano (peUpdatedAt p)))
             (revoked_row at) (trusted_devices d)) (\<lambda>(rows, n).
           if n \<noteq> 1 then Inl [Trust_ErrConflict]
           else Inr (d\<lparr>trusted_devices := rows, trust_events := trust_events d @
                 [\<lparr>ev_device_id = i, ev_pair_id = pePairID p, ev_event = ''revoked'', ev_at_ns = UnixNano at\<rparr>]\<rparr>,
               p\<lparr>peState := StateRevoked, peUpdatedAt := at, peRevokedAt := Some at, peConnectivitySecret := []\<rparr>))))"

definition Revoke :: "casing \<Rightarrow> digest_fun \<Rightarrow> device_id \<Rightarrow> time \<Rightarrow> trust_db \<Rightarrow> trust_db \<times> peer result" where
  "Revoke U H i at d = transact d (Revoke_tx U H i at d)"

definition hinted_row :: "peer_hints \<Rightarrow> trust_row \<Rightarrow> trust_row" where
  "hinted_row h r = r\<lparr>t_platform := phPlatform h, t_arch := phArchitecture h,
     t_logical_cpu_count := uint (phLogicalCPUCount h), t_total_memory_bytes := sint (phTotalMemoryBytes h),
     t_tool_ids := json_list (phToolIDs h), t_supported_executors := json_list (phSupportedExecutors h),
     t_hints_observed_at_ns := Some (UnixNano (phObservedAt h))\<rparr>"

definition UpdateHints_tx ::
    "casing \<Rightarrow> digest_fun \<Rightarrow> device_id \<Rightarrow> peer_hints \<Rightarrow> trust_db \<Rightarrow> (trust_db \<times> peer) result" where
  "UpdateHints_tx U H i h d =
    (if \<not> DeviceID_Valid U i then Inl [Device_ErrInvalidID]
     else ebind (Hints_Validate h) (\<lambda>_.
       ebind (remap Sqlite_ErrNoRows Trust_ErrNotFound (queryTrustedPeer U H d i)) (\<lambda>p.
       if peState p \<noteq> StateActive then Inr (d, p)
       else if (case peHintsObservedAt p of None \<Rightarrow> False | Some t \<Rightarrow> phObservedAt h < t) then Inr (d, p)
       else ebind (sql_update trust_row_check (\<lambda>r. t_device_id r = i \<and> t_state r = ''active'')
              (hinted_row h) (trusted_devices d)) (\<lambda>(rows, n).
         if n \<noteq> 1 then Inl [Trust_ErrConflict]
         else let d' = d\<lparr>trusted_devices := rows\<rparr> in
           ebind (queryTrustedPeer U H d' i) (\<lambda>q. Inr (d', q))))))"

definition UpdateHints ::
    "casing \<Rightarrow> digest_fun \<Rightarrow> device_id \<Rightarrow> peer_hints \<Rightarrow> trust_db \<Rightarrow> trust_db \<times> peer result" where
  "UpdateHints U H i h d = transact d (UpdateHints_tx U H i h d)"

section \<open>Valid rows\<close>

text \<open>\<open>Validate\<close> in three parts: identity, hints and lifecycle.\<close>

definition identity_ok :: "casing \<Rightarrow> digest_fun \<Rightarrow> peer \<Rightarrow> bool" where
  "identity_ok U H p \<longleftrightarrow> IDFromPublicKey U H (pePublicKey p) = Inr (peDeviceID p) \<and> PairID_Valid U (pePairID p)
     \<and> validateName (peName p) \<and> (peConnectivitySecret p = [] \<or> Secret_Valid (peConnectivitySecret p))
     \<and> (peRole p = RoleWorker \<or> peRole p = RoleOrchestrator)"

definition hints_ok :: "peer \<Rightarrow> bool" where
  "hints_ok p \<longleftrightarrow> validateHint (pePlatform p) \<and> validateHint (peArchitecture p) \<and> peLogicalCPUCount p \<le> 4096
     \<and> validateToolIDs (peToolIDs p) \<and> validateSupportedExecutors (peSupportedExecutors p)
     \<and> (case peHintsObservedAt p of
          None \<Rightarrow> pePlatform p = [] \<and> peArchitecture p = [] \<and> peLogicalCPUCount p = 0 \<and> peTotalMemoryBytes p = 0
            \<and> peToolIDs p = [] \<and> peSupportedExecutors p = []
        | Some t \<Rightarrow> \<not> IsZero t)"

lemma hints_ok_update [simp]:
  "hints_ok (p\<lparr>pePairID := a\<rparr>) = hints_ok p" "hints_ok (p\<lparr>pePublicKey := b\<rparr>) = hints_ok p"
  "hints_ok (p\<lparr>peConnectivitySecret := c\<rparr>) = hints_ok p" "hints_ok (p\<lparr>peName := n\<rparr>) = hints_ok p"
  "hints_ok (p\<lparr>peRole := r\<rparr>) = hints_ok p" "hints_ok (p\<lparr>peState := s\<rparr>) = hints_ok p"
  "hints_ok (p\<lparr>pePairedAt := t\<rparr>) = hints_ok p" "hints_ok (p\<lparr>peUpdatedAt := t\<rparr>) = hints_ok p"
  "hints_ok (p\<lparr>peRevokedAt := u\<rparr>) = hints_ok p"
  by (simp_all add: hints_ok_def split: option.split)

definition life_ok :: "peer \<Rightarrow> bool" where
  "life_ok p \<longleftrightarrow> \<not> IsZero (pePairedAt p) \<and> pePairedAt p \<le> peUpdatedAt p
     \<and> (peState p = StateActive \<and> peRevokedAt p = None
        \<or> peState p = StateRevoked \<and> peRevokedAt p = Some (peUpdatedAt p))"

lemma Peer_Validate_iff: "Peer_Validate U H p = Inr () \<longleftrightarrow> identity_ok U H p \<and> hints_ok p \<and> life_ok p"
proof -
  have d: "(case IDFromPublicKey U H (pePublicKey p) of Inl _ \<Rightarrow> True | Inr derived \<Rightarrow> peDeviceID p \<noteq> derived)
      \<longleftrightarrow> IDFromPublicKey U H (pePublicKey p) \<noteq> Inr (peDeviceID p)"
    by (auto split: sum.splits)
  show ?thesis
    unfolding Peer_Validate_def d
    by (auto simp: identity_ok_def hints_ok_def life_ok_def not_less split: option.splits trust_state.splits if_splits)
qed

definition peer_of :: "trust_row \<Rightarrow> peer" where
  "peer_of r = \<lparr>pePairID = t_pair_id r, peDeviceID = t_device_id r, pePublicKey = t_public_key r,
          peConnectivitySecret = (case t_connectivity_secret r of None \<Rightarrow> [] | Some s \<Rightarrow> s),
          peName = t_name r, peRole = Role_of (t_role r), peState = TrustState_of (t_state r),
          pePlatform = t_platform r, peArchitecture = t_arch r,
          peLogicalCPUCount = word_of_int (t_logical_cpu_count r),
          peTotalMemoryBytes = word_of_int (t_total_memory_bytes r),
          peToolIDs = t_tool_ids r, peSupportedExecutors = t_supported_executors r,
          peHintsObservedAt = t_hints_observed_at_ns r,
          pePairedAt = t_paired_at_ns r, peUpdatedAt = t_updated_at_ns r, peRevokedAt = t_revoked_at_ns r\<rparr>"

definition row_valid :: "casing \<Rightarrow> digest_fun \<Rightarrow> trust_row \<Rightarrow> bool" where
  "row_valid U H r \<longleftrightarrow> DeviceID_Valid U (t_device_id r) \<and> 0 \<le> t_logical_cpu_count r \<and> 0 \<le> t_total_memory_bytes r
     \<and> identity_ok U H (peer_of r) \<and> hints_ok (peer_of r) \<and> life_ok (peer_of r)"

lemma scanTrustedPeer_iff: "scanTrustedPeer U H r = Inr p \<longleftrightarrow> row_valid U H r \<and> p = peer_of r"
proof -
  have "scanTrustedPeer U H r = ebind (Device_ParseID U (t_device_id r)) (\<lambda>i. ebind (ParsePairID U (t_pair_id r)) (\<lambda>j.
      let p = (peer_of r)\<lparr>pePairID := j, peDeviceID := i\<rparr> in
      if t_logical_cpu_count r < 0 \<or> t_total_memory_bytes r < 0 then Inl [Trust_ErrInvalidPeer]
      else ebind (Peer_Validate U H p) (\<lambda>_. Inr p)))"
    by (simp add: scanTrustedPeer_def peer_of_def)
  moreover have "(peer_of r)\<lparr>pePairID := t_pair_id r, peDeviceID := t_device_id r\<rparr> = peer_of r"
    by (simp add: peer_of_def)
  moreover have "identity_ok U H (peer_of r) \<Longrightarrow> PairID_Valid U (t_pair_id r)" by (simp add: identity_ok_def peer_of_def)
  ultimately show ?thesis
    by (auto simp: result_simps Device_ParseID_Inr ParsePairID_Inr row_valid_def Let_def not_less
        Peer_Validate_iff split: if_splits)
qed

text \<open>The audit log of a device: the state its last event leaves.\<close>

definition audit :: "trust_db \<Rightarrow> device_id \<Rightarrow> string option" where
  "audit d i = (case rev (filter (\<lambda>e. ev_device_id e = i) (trust_events d)) of
     [] \<Rightarrow> None | e # _ \<Rightarrow> Some (if ev_event e = ''paired'' then ''active'' else ''revoked''))"

definition stored_ok :: "casing \<Rightarrow> digest_fun \<Rightarrow> trust_row \<Rightarrow> bool" where
  "stored_ok U H r \<longleftrightarrow> row_valid U H r \<and> trust_row_check r \<and> nano_ok (t_updated_at_ns r)
     \<and> (t_state r = ''revoked'' \<longrightarrow> t_connectivity_secret r = None)"

definition trust_ok :: "casing \<Rightarrow> digest_fun \<Rightarrow> trust_db \<Rightarrow> bool" where
  "trust_ok U H d \<longleftrightarrow> keyed t_device_id (trusted_devices d) \<and> keyed t_pair_id (trusted_devices d)
     \<and> (\<forall>r\<in>set (trusted_devices d). stored_ok U H r)
     \<and> (\<forall>r\<in>set (trusted_devices d). \<forall>s\<in>set (trusted_devices d).
          active_orchestrator r \<and> active_orchestrator s \<longrightarrow> r = s)
     \<and> (\<forall>i. audit d i = map_option t_state (row_with t_device_id i (trusted_devices d)))"

lemma trust_ok_row:
  "trust_ok U H d \<Longrightarrow> row_with t_device_id i (trusted_devices d) = Some r \<Longrightarrow> stored_ok U H r \<and> t_device_id r = i"
  by (auto simp: trust_ok_def dest: row_with_SomeD)

lemma query_Inr_iff:
  "queryTrustedPeer U H d i = Inr p \<longleftrightarrow>
   (\<exists>r. row_with t_device_id i (trusted_devices d) = Some r \<and> row_valid U H r \<and> p = peer_of r)"
  by (auto simp: queryTrustedPeer_def scanTrustedPeer_iff split: option.split)

lemma query_ok:
  assumes "trust_ok U H d"
  shows "queryTrustedPeer U H d i = (case row_with t_device_id i (trusted_devices d) of
    None \<Rightarrow> Inl [Sqlite_ErrNoRows] | Some r \<Rightarrow> Inr (peer_of r))"
  using trust_ok_row [OF assms, of i]
  by (auto simp: queryTrustedPeer_def scanTrustedPeer_iff stored_ok_def split: option.split)

lemma Role_of_string: "r = RoleWorker \<or> r = RoleOrchestrator \<Longrightarrow> Role_of (role_string r) = r"
  by (auto simp: Role_of_def role_string_def)

lemma secret_nullable [simp]: "(case nullableSecret s of None \<Rightarrow> [] | Some t \<Rightarrow> t) = s"
  by (simp add: nullableSecret_def)

lemma derived_id_valid:
  assumes "\<And>x. length (H x) = 32" "IDFromPublicKey U H key = Inr i"
  shows "DeviceID_Valid U i"
proof -
  have "i = encode_lower U (H key)" using assms(2) by (simp add: IDFromPublicKey_def split: if_splits)
  then show ?thesis
    unfolding DeviceID_Valid_lower by (intro lower_base32_I) (use encode_lower_char [of "H key" 52 U] assms(1) in auto)
qed

lemma life_ok_row:
  assumes "trust_row_check r" "nano_ok (t_paired_at_ns r)"
  shows "life_ok (peer_of r)"
  using assms by (auto simp: life_ok_def peer_of_def trust_row_check_def TrustState_of_def)

section \<open>Changing a row\<close>

definition put_row :: "trust_row \<Rightarrow> trust_row list \<Rightarrow> trust_row list" where
  "put_row r rows =
    (if row_with t_device_id (t_device_id r) rows = None then rows @ [r]
     else map (\<lambda>s. if t_device_id s = t_device_id r then r else s) rows)"

lemma update_where_put:
  assumes "keyed k rows" "row_with k i rows = Some old" "p old"
  shows "update_where (\<lambda>s. k s = i \<and> p s) f rows = map (\<lambda>s. if k s = i then f old else s) rows"
proof -
  have "s = old" if "s \<in> set rows" "k s = i" for s
    using assms(1,2) that row_with_mem [of k rows s] by simp
  then show ?thesis using assms(3) by (auto simp: update_where_def)
qed

lemma row_with_replace:
  "row_with k x (map (\<lambda>s. if k s = k r then r else s) rows) =
    (if x = k r then map_option (\<lambda>_. r) (row_with k x rows) else row_with k x rows)"
  by (induction rows) auto

lemma row_with_put: "row_with t_device_id x (put_row r rows) = (if x = t_device_id r then Some r else row_with t_device_id x rows)"
proof (cases "row_with t_device_id (t_device_id r) rows")
  case None
  then show ?thesis by (auto simp: put_row_def row_with_append split: option.split)
next
  case (Some s)
  then show ?thesis by (simp add: put_row_def row_with_replace [of t_device_id x r rows])
qed

lemma set_put_row: "set (put_row r rows) = insert r {s \<in> set rows. t_device_id s \<noteq> t_device_id r}"
  by (auto simp: put_row_def row_with_None_iff image_iff)

lemma distinct_replace:
  assumes "distinct (map g rows)" "distinct (map k rows)" "\<And>s. s \<in> set rows \<Longrightarrow> k s \<noteq> k r \<Longrightarrow> g s \<noteq> g r"
  shows "distinct (map g (map (\<lambda>s. if k s = k r then r else s) rows))"
  using assms
proof (induction rows)
  case (Cons a rows)
  have ih: "distinct (map g (map (\<lambda>s. if k s = k r then r else s) rows))" using Cons by auto
  show ?case
  proof (cases "k a = k r")
    case True
    then have "map (\<lambda>s. if k s = k r then r else s) rows = rows"
      using Cons.prems(2) by (auto intro!: map_idI) (metis image_eqI)
    moreover have "g r \<notin> g ` set rows"
    proof
      assume "g r \<in> g ` set rows"
      then obtain s where s: "s \<in> set rows" "g s = g r" by auto
      have "k s \<noteq> k r" using Cons.prems(2) True s(1) by (auto simp: image_iff)
      then show False using Cons.prems(3) s by auto
    qed
    ultimately show ?thesis using True ih by simp
  next
    case False
    then have "g a \<noteq> g r" using Cons.prems(3) by simp
    then have "g a \<notin> (\<lambda>s. g (if k s = k r then r else s)) ` set rows"
      using Cons.prems(1) by (auto split: if_splits)
    then show ?thesis using False ih by (simp add: image_image)
  qed
qed simp

lemma keyed_put_row:
  assumes "keyed t_device_id rows" "keyed g rows" "\<And>s. s \<in> set rows \<Longrightarrow> t_device_id s \<noteq> t_device_id r \<Longrightarrow> g s \<noteq> g r"
  shows "keyed g (put_row r rows)"
proof (cases "row_with t_device_id (t_device_id r) rows")
  case None
  then have "g s \<noteq> g r" if "s \<in> set rows" for s
    using assms(3) [OF that] that by (auto simp: row_with_None_iff image_iff)
  then have "g r \<notin> g ` set rows" by (metis image_iff)
  then show ?thesis using assms(2) None by (simp add: put_row_def keyed_def)
next
  case (Some s)
  then show ?thesis
    using distinct_replace [of g rows t_device_id r] assms by (simp add: put_row_def keyed_def del: map_map)
qed

definition logged :: "trust_row \<Rightarrow> trust_event \<Rightarrow> bool" where
  "logged r e \<longleftrightarrow> ev_device_id e = t_device_id r
     \<and> t_state r = (if ev_event e = ''paired'' then ''active'' else ''revoked'')"

lemma audit_event:
  "audit (d\<lparr>trusted_devices := rows, trust_events := trust_events d @ [e]\<rparr>) i =
    (if ev_device_id e = i then Some (if ev_event e = ''paired'' then ''active'' else ''revoked'') else audit d i)"
  by (simp add: audit_def)

lemma trust_ok_replaced:
  assumes d: "trust_ok U H d" and r: "stored_ok U H r"
    and x: "indexes_allow r (filter (\<lambda>s. t_device_id s \<noteq> t_device_id r) (trusted_devices d))"
    and d': "trusted_devices d' = put_row r (trusted_devices d)"
    and e: "\<And>i. audit d' i = (if i = t_device_id r then Some (t_state r) else audit d i)"
  shows "trust_ok U H d'"
proof -
  let ?rows = "trusted_devices d"
  have k: "keyed t_device_id ?rows" "keyed t_pair_id ?rows" using d by (simp_all add: trust_ok_def)
  have others: "t_pair_id s \<noteq> t_pair_id r \<and> \<not> (active_orchestrator r \<and> active_orchestrator s)"
    if "s \<in> set ?rows" "t_device_id s \<noteq> t_device_id r" for s
    using x that by (simp add: indexes_allow_def list_all_iff)
  have "keyed t_device_id (put_row r ?rows)" by (rule keyed_put_row [OF k(1) k(1)]) simp
  moreover have "keyed t_pair_id (put_row r ?rows)" by (rule keyed_put_row [OF k]) (use others in blast)
  moreover have "\<forall>s\<in>set (put_row r ?rows). stored_ok U H s" using d r by (auto simp: trust_ok_def set_put_row)
  moreover have "\<forall>a\<in>set (put_row r ?rows). \<forall>b\<in>set (put_row r ?rows).
      active_orchestrator a \<and> active_orchestrator b \<longrightarrow> a = b"
    using d others by (auto simp: trust_ok_def set_put_row)
  moreover have "audit d' i = map_option t_state (row_with t_device_id i (put_row r ?rows))" for i
    using d e by (auto simp: row_with_put trust_ok_def)
  ultimately show ?thesis by (simp add: trust_ok_def d')
qed

lemma trust_ok_put:
  assumes "trust_ok U H d" "stored_ok U H r" "logged r e"
    and "indexes_allow r (filter (\<lambda>s. t_device_id s \<noteq> t_device_id r) (trusted_devices d))"
  shows "trust_ok U H (d\<lparr>trusted_devices := put_row r (trusted_devices d), trust_events := trust_events d @ [e]\<rparr>)"
  by (rule trust_ok_replaced [OF assms(1,2,4)]) (use assms(3) in \<open>auto simp: audit_event logged_def\<close>)

text \<open>A row that keeps its pair and becomes no active orchestrator meets the indexes it met before.\<close>

lemma indexes_allow_kept:
  assumes "trust_ok U H d" "row_with t_device_id i (trusted_devices d) = Some old" "t_pair_id r = t_pair_id old"
    and "active_orchestrator r \<Longrightarrow> active_orchestrator old"
  shows "indexes_allow r (filter (\<lambda>s. t_device_id s \<noteq> i) (trusted_devices d))"
proof -
  have old: "old \<in> set (trusted_devices d)" "t_device_id old = i" using row_with_SomeD [OF assms(2)] by auto
  have "t_pair_id s \<noteq> t_pair_id r" if "s \<in> set (trusted_devices d)" "t_device_id s \<noteq> i" for s
  proof -
    have "inj_on t_pair_id (set (trusted_devices d))" using assms(1) by (simp add: trust_ok_def keyed_def distinct_map)
    then show ?thesis using old that assms(3) by (auto dest: inj_onD)
  qed
  moreover have "\<not> (active_orchestrator r \<and> active_orchestrator s)" if "s \<in> set (trusted_devices d)" "t_device_id s \<noteq> i" for s
    using assms(1,4) old that by (auto simp: trust_ok_def)
  ultimately show ?thesis by (simp add: indexes_allow_def list_all_iff)
qed

section \<open>Operations keep the invariant\<close>

lemma peer_of_paired:
  "peer_of (paired_row p) = p\<lparr>peRole := Role_of (role_string (peRole p)), peState := StateActive,
     pePlatform := [], peArchitecture := [], peLogicalCPUCount := 0, peTotalMemoryBytes := 0,
     peToolIDs := [], peSupportedExecutors := [], peHintsObservedAt := None,
     pePairedAt := UnixNano (pePairedAt p), peUpdatedAt := UnixNano (peUpdatedAt p), peRevokedAt := None\<rparr>"
  by (simp add: peer_of_def paired_row_def TrustState_of_def)

lemma peer_of_repaired:
  "t_device_id r = peDeviceID p \<Longrightarrow>
   peer_of (repaired_row p r) = (peer_of r)\<lparr>pePairID := pePairID p, pePublicKey := pePublicKey p,
     peConnectivitySecret := peConnectivitySecret p, peName := peName p, peRole := Role_of (role_string (peRole p)),
     peState := StateActive, pePairedAt := UnixNano (pePairedAt p), peUpdatedAt := UnixNano (peUpdatedAt p),
     peRevokedAt := None\<rparr>"
  by (simp add: peer_of_def repaired_row_def TrustState_of_def)

lemma row_device [simp]: "t_device_id (paired_row p) = peDeviceID p" "t_device_id (repaired_row p r) = t_device_id r"
  by (simp_all add: paired_row_def repaired_row_def)

definition activated :: "peer \<Rightarrow> trust_row \<Rightarrow> trust_row option \<Rightarrow> bool" where
  "activated p r old \<longleftrightarrow> r = (case old of None \<Rightarrow> paired_row p | Some s \<Rightarrow> repaired_row p s)"

lemma activated_stored:
  assumes H: "\<And>x. length (H x) = 32" and p: "Peer_Validate U H p = Inr ()" and r: "activated p r old"
    and old: "\<And>s. old = Some s \<Longrightarrow> stored_ok U H s \<and> t_device_id s = peDeviceID p" and c: "trust_row_check r"
  shows "stored_ok U H r" "t_device_id r = peDeviceID p"
proof -
  have i: "identity_ok U H p" using p by (simp add: Peer_Validate_iff)
  have dev: "DeviceID_Valid U (peDeviceID p)" using derived_id_valid [where H = H, OF H] i by (auto simp: identity_ok_def)
  have hint: "validateHint []" "validateToolIDs []" "validateSupportedExecutors []"
    by (simp_all add: validateHint_def validateToolIDs_def validateSupportedExecutors_def)
  have "stored_ok U H r \<and> t_device_id r = peDeviceID p"
  proof (cases old)
    case None
    then have r: "r = paired_row p" using r by (simp add: activated_def)
    have "identity_ok U H (peer_of r)" "hints_ok (peer_of r)"
      using i hint Role_of_string unfolding r peer_of_paired by (auto simp: identity_ok_def hints_ok_def)
    moreover have "life_ok (peer_of r)" by (rule life_ok_row [OF c]) (simp add: r paired_row_def)
    ultimately show ?thesis using c dev by (simp add: stored_ok_def row_valid_def r paired_row_def)
  next
    case (Some s)
    then have r: "r = repaired_row p s" using r by (simp add: activated_def)
    have s: "row_valid U H s" "t_device_id s = peDeviceID p" using old [OF Some] by (simp_all add: stored_ok_def)
    have dev_s: "peDeviceID (peer_of s) = peDeviceID p" using s(2) by (simp add: peer_of_def)
    have "identity_ok U H (peer_of r)"
      using i Role_of_string unfolding r peer_of_repaired [OF s(2)] by (simp add: identity_ok_def dev_s)
    moreover have "hints_ok (peer_of s)" using s(1) by (simp add: row_valid_def)
    then have "hints_ok (peer_of r)" unfolding r peer_of_repaired [OF s(2)] by simp
    moreover have "life_ok (peer_of r)" by (rule life_ok_row [OF c]) (simp add: r repaired_row_def)
    ultimately show ?thesis using c dev s by (simp add: stored_ok_def row_valid_def r repaired_row_def)
  qed
  then show "stored_ok U H r" "t_device_id r = peDeviceID p" by simp_all
qed

lemma upsert_put:
  assumes k: "keyed t_device_id rows" and u: "upsert_peer p rows = Inr rows'"
    and s: "\<And>old. row_with t_device_id (peDeviceID p) rows = Some old \<Longrightarrow> t_state old = ''revoked''"
  obtains r where "activated p r (row_with t_device_id (peDeviceID p) rows)" "rows' = put_row r rows"
    "trust_row_check r" "indexes_allow r (filter (\<lambda>s. t_device_id s \<noteq> peDeviceID p) rows)"
proof (cases "row_with t_device_id (peDeviceID p) rows")
  case None
  then show thesis
    using that [of "paired_row p"] u
    by (auto simp: upsert_peer_def Let_def activated_def put_row_def split: if_splits)
next
  case (Some old)
  have o: "t_state old = ''revoked''" "t_device_id old = peDeviceID p" using s Some row_with_SomeD [OF Some] by auto
  have "update_where (\<lambda>r. t_device_id r = peDeviceID p) (repaired_row p) rows
      = map (\<lambda>s. if t_device_id s = peDeviceID p then repaired_row p old else s) rows"
    using update_where_put [OF k Some, of "\<lambda>_. True"] by simp
  then show thesis
    using that [of "repaired_row p old"] u Some o
    by (auto simp: upsert_peer_def Let_def activated_def put_row_def split: if_splits)
qed

lemma Activate_tx_Inr:
  assumes H: "\<And>x. length (H x) = 32" and d: "trust_ok U H d" and a: "Activate_tx U H p d = Inr (d', u)"
  obtains (same) r where "d' = d" "row_with t_device_id (peDeviceID p) (trusted_devices d) = Some r"
      "t_state r = ''active''" "t_pair_id r = pePairID p" "t_public_key r = pePublicKey p"
  | (put) r e where "activated p r (row_with t_device_id (peDeviceID p) (trusted_devices d))" "stored_ok U H r"
      "d' = d\<lparr>trusted_devices := put_row r (trusted_devices d), trust_events := trust_events d @ [e]\<rparr>"
      "t_device_id r = peDeviceID p" "trust_ok U H d'" "peState p = StateActive"
      "\<And>s. row_with t_device_id (peDeviceID p) (trusted_devices d) = Some s \<Longrightarrow> t_state s = ''revoked''"
proof -
  let ?row = "row_with t_device_id (peDeviceID p) (trusted_devices d)"
  have v: "Peer_Validate U H p = Inr ()" "peState p = StateActive"
    using a by (auto simp: Activate_tx_def result_simps split: if_splits)
  have k: "keyed t_device_id (trusted_devices d)" using d by (simp add: trust_ok_def)
  note q = query_ok [OF d, of "peDeviceID p"]
  show thesis
  proof (cases "\<exists>r. ?row = Some r \<and> t_state r = ''active''")
    case True
    then obtain r where r: "?row = Some r" "t_state r = ''active''" by blast
    then have "d' = d" "t_pair_id r = pePairID p" "t_public_key r = pePublicKey p"
      using a v q by (auto simp: Activate_tx_def Let_def peer_of_def TrustState_of_def split: if_splits)
    then show thesis using same r by blast
  next
    case False
    have rev: "t_state s = ''revoked''" if "?row = Some s" for s
      using False that trust_ok_row [OF d that] by (auto simp: stored_ok_def trust_row_check_def)
    define proceed where "proceed = (if peRole p = RoleOrchestrator \<and> list_ex (\<lambda>r. t_role r = ''orchestrator'' \<and> t_state r = ''active''
            \<and> t_device_id r \<noteq> peDeviceID p) (trusted_devices d)
       then Inl [Trust_ErrConflict]
       else (case upsert_peer p (trusted_devices d) of
           Inl e \<Rightarrow> Inl [Trust_ErrConflict]
         | Inr rows \<Rightarrow>
             Inr (d\<lparr>trusted_devices := rows, trust_events := trust_events d @
               [\<lparr>ev_device_id = peDeviceID p, ev_pair_id = pePairID p, ev_event = ''paired'',
                 ev_at_ns = UnixNano (pePairedAt p)\<rparr>]\<rparr>, ())))"
    have "Activate_tx U H p d = proceed"
      using v q rev
      by (cases ?row) (auto simp: Activate_tx_def Let_def proceed_def [symmetric] peer_of_def TrustState_of_def)
    then obtain rows where rows: "upsert_peer p (trusted_devices d) = Inr rows"
      "d' = d\<lparr>trusted_devices := rows, trust_events := trust_events d @
         [\<lparr>ev_device_id = peDeviceID p, ev_pair_id = pePairID p, ev_event = ''paired'', ev_at_ns = UnixNano (pePairedAt p)\<rparr>]\<rparr>"
      using a by (auto simp: proceed_def split: if_splits sum.splits)
    obtain r where r: "activated p r ?row" "rows = put_row r (trusted_devices d)" "trust_row_check r"
      "indexes_allow r (filter (\<lambda>s. t_device_id s \<noteq> peDeviceID p) (trusted_devices d))"
      by (rule upsert_put [OF k rows(1) rev])
    have s: "stored_ok U H r" "t_device_id r = peDeviceID p"
      by (rule activated_stored [where H = H, OF H v(1) r(1) _ r(3)]; use trust_ok_row [OF d] in blast)+
    have "t_state r = ''active''"
      using r(1) by (simp add: activated_def paired_row_def repaired_row_def split: option.splits)
    then have "trust_ok U H d'"
      unfolding rows(2) r(2) by (intro trust_ok_put [OF d s(1)]) (use r(4) s(2) in \<open>simp_all add: logged_def\<close>)
    then show thesis using put [OF r(1) s(1) rows(2) [unfolded r(2)] s(2) _ v(2) rev] by blast
  qed
qed

lemma Activate_ok:
  assumes "\<And>x. length (H x) = 32" "trust_ok U H d" "Activate U H p d = (d', r)"
  shows "trust_ok U H d'"
proof (cases r)
  case (Inl e)
  then show ?thesis using assms by (simp add: Activate_def transact_Inl_iff)
next
  case (Inr u)
  then have a: "Activate_tx U H p d = Inr (d', u)" using assms(3) by (simp add: Activate_def transact_Inr_iff)
  show ?thesis by (rule Activate_tx_Inr [where H = H, OF assms(1,2) a]) (use assms(2) in auto)
qed

lemma revoked_stored:
  assumes "stored_ok U H r" "trust_row_check (revoked_row at r)"
  shows "stored_ok U H (revoked_row at r)"
proof -
  have p: "peer_of (revoked_row at r) = (peer_of r)\<lparr>peConnectivitySecret := [], peState := StateRevoked,
      peUpdatedAt := UnixNano at, peRevokedAt := Some (UnixNano at)\<rparr>"
    by (simp add: peer_of_def revoked_row_def TrustState_of_def)
  have r: "row_valid U H r" using assms(1) by (simp add: stored_ok_def)
  have "identity_ok U H (peer_of (revoked_row at r))" "hints_ok (peer_of (revoked_row at r))"
    using r unfolding p by (simp_all add: row_valid_def identity_ok_def)
  moreover have "life_ok (peer_of (revoked_row at r))"
    using r assms(2) unfolding p by (auto simp: row_valid_def life_ok_def trust_row_check_def revoked_row_def peer_of_def)
  ultimately show ?thesis
    using assms(2) r by (simp add: stored_ok_def row_valid_def revoked_row_def)
qed

lemma revoked_check:
  assumes "trust_row_check r" "t_paired_at_ns r \<le> UnixNano at"
  shows "trust_row_check (revoked_row at r)"
proof -
  have f: "t_role (revoked_row at r) = t_role r" "t_state (revoked_row at r) = ''revoked''"
    "t_device_id (revoked_row at r) = t_device_id r" "t_pair_id (revoked_row at r) = t_pair_id r"
    "t_public_key (revoked_row at r) = t_public_key r" "t_name (revoked_row at r) = t_name r"
    "t_updated_at_ns (revoked_row at r) = UnixNano at" "t_paired_at_ns (revoked_row at r) = t_paired_at_ns r"
    "t_revoked_at_ns (revoked_row at r) = Some (UnixNano at)" "t_connectivity_secret (revoked_row at r) = None"
    "t_platform (revoked_row at r) = t_platform r" "t_arch (revoked_row at r) = t_arch r"
    "t_logical_cpu_count (revoked_row at r) = t_logical_cpu_count r"
    "t_total_memory_bytes (revoked_row at r) = t_total_memory_bytes r"
    "t_tool_ids (revoked_row at r) = t_tool_ids r" "t_supported_executors (revoked_row at r) = t_supported_executors r"
    "t_hints_observed_at_ns (revoked_row at r) = t_hints_observed_at_ns r"
    by (simp_all add: revoked_row_def)
  show ?thesis using assms unfolding trust_row_check_def f by simp
qed

lemma Revoke_tx_cases:
  assumes d: "trust_ok U H d" and r: "row_with t_device_id i (trusted_devices d) = Some r"
    and v: "DeviceID_Valid U i" "\<not> IsZero at"
  defines "t \<equiv> if at < t_updated_at_ns r then t_updated_at_ns r else at"
  shows "Revoke_tx U H i at d =
    (if t_state r = ''revoked'' then Inr (d, peer_of r)
     else if \<not> trust_row_check (revoked_row t r) then Inl [Sqlite_ErrConstraint]
     else Inr (d\<lparr>trusted_devices := put_row (revoked_row t r) (trusted_devices d), trust_events := trust_events d @
           [\<lparr>ev_device_id = i, ev_pair_id = t_pair_id r, ev_event = ''revoked'', ev_at_ns = UnixNano t\<rparr>]\<rparr>,
         (peer_of r)\<lparr>peState := StateRevoked, peUpdatedAt := t, peRevokedAt := Some t, peConnectivitySecret := []\<rparr>))"
proof -
  let ?rows = "trusted_devices d"
  have k: "keyed t_device_id ?rows" using d by (simp add: trust_ok_def)
  have s: "stored_ok U H r" "t_device_id r = i" using trust_ok_row [OF d r] by auto
  have q: "queryTrustedPeer U H d i = Inr (peer_of r)" using query_ok [OF d, of i] r by simp
  have st: "t_state r = ''active'' \<or> t_state r = ''revoked''" using s(1) by (auto simp: stored_ok_def trust_row_check_def)
  have u: "UnixNano (peUpdatedAt (peer_of r)) = t_updated_at_ns r" using s(1) by (simp add: peer_of_def stored_ok_def)
  have t: "(if at < peUpdatedAt (peer_of r) then peUpdatedAt (peer_of r) else at) = t" by (simp add: t_def peer_of_def)
  have key: "t_device_id (revoked_row t r) = i" using s(2) by (simp add: revoked_row_def)
  have put: "map (\<lambda>s. if t_device_id s = i then revoked_row t r else s) ?rows = put_row (revoked_row t r) ?rows"
    using key r by (simp add: put_row_def)
  show ?thesis
  proof (cases "t_state r = ''revoked''")
    case True
    then show ?thesis using v q by (simp add: Revoke_tx_def peer_of_def TrustState_of_def)
  next
    case False
    let ?p = "\<lambda>s. t_state s = ''active'' \<and> t_updated_at_ns s = t_updated_at_ns r"
    have one: "s = r" if "s \<in> set ?rows" "t_device_id s = i" for s using k r that row_with_mem [of t_device_id ?rows s] by simp
    have "sql_update trust_row_check (\<lambda>s. t_device_id s = i \<and> ?p s) (revoked_row t) ?rows =
        (if \<not> trust_row_check (revoked_row t r) then Inl [Sqlite_ErrConstraint] else Inr (put_row (revoked_row t r) ?rows, 1))"
      using sql_update_key [OF k r, of ?p trust_row_check "revoked_row t"] update_where_put [OF k r, of ?p "revoked_row t"]
        put False st r one row_with_SomeD [OF r] by (auto simp: sql_update_def list_ex_iff)
    moreover have "peState (peer_of r) \<noteq> StateRevoked" "pePairID (peer_of r) = t_pair_id r"
      using False st by (auto simp: peer_of_def TrustState_of_def)
    ultimately show ?thesis
      using v q False unfolding Revoke_tx_def by (simp add: u t Let_def)
  qed
qed

lemma revoked_ok:
  assumes d: "trust_ok U H d" and r: "row_with t_device_id i (trusted_devices d) = Some r" and c: "trust_row_check (revoked_row t r)"
    and e: "ev_device_id e = i" "ev_event e = ''revoked''"
  shows "trust_ok U H (d\<lparr>trusted_devices := put_row (revoked_row t r) (trusted_devices d), trust_events := trust_events d @ [e]\<rparr>)"
proof (rule trust_ok_put [OF d])
  have s: "stored_ok U H r" "t_device_id r = i" using trust_ok_row [OF d r] by auto
  show "stored_ok U H (revoked_row t r)" by (rule revoked_stored [OF s(1) c])
  show "logged (revoked_row t r) e" using e s(2) by (simp add: logged_def revoked_row_def)
  have "t_device_id (revoked_row t r) = i" using s(2) by (simp add: revoked_row_def)
  then show "indexes_allow (revoked_row t r)
      (filter (\<lambda>s. t_device_id s \<noteq> t_device_id (revoked_row t r)) (trusted_devices d))"
    using indexes_allow_kept [OF d r, of "revoked_row t r"] by (simp add: revoked_row_def active_orchestrator_def)
qed

lemma Revoke_ok:
  assumes d: "trust_ok U H d" and a: "Revoke U H i at d = (d', x)"
  shows "trust_ok U H d'"
proof (cases "row_with t_device_id i (trusted_devices d)")
  case None
  have "queryTrustedPeer U H d i = Inl [Sqlite_ErrNoRows]" using query_ok [OF d, of i] None by simp
  then have "\<exists>e. Revoke_tx U H i at d = Inl e" by (auto simp: Revoke_tx_def remap_def)
  then show ?thesis using a d by (auto simp: Revoke_def)
next
  case (Some r)
  show ?thesis
  proof (cases "DeviceID_Valid U i \<and> \<not> IsZero at")
    case True
    then show ?thesis
      using a d Revoke_tx_cases [OF d Some, of at] revoked_ok [OF d Some] by (auto simp: Revoke_def split: if_splits)
  next
    case False
    then have "\<exists>e. Revoke_tx U H i at d = Inl e" by (auto simp: Revoke_tx_def)
    then show ?thesis using a d by (auto simp: Revoke_def)
  qed
qed

lemma UpdateHints_ok:
  assumes d: "trust_ok U H d" and a: "UpdateHints U H i h d = (d', x)"
  shows "trust_ok U H d'"
proof (cases "d' = d")
  case False
  then obtain q where tx: "UpdateHints_tx U H i h d = Inr (d', q)"
    using a by (cases x) (auto simp: UpdateHints_def transact_Inl_iff transact_Inr_iff)
  let ?rows = "trusted_devices d"
  have k: "keyed t_device_id ?rows" using d by (simp add: trust_ok_def)
  obtain p rows where p: "queryTrustedPeer U H d i = Inr p"
    and up: "sql_update trust_row_check (\<lambda>r. t_device_id r = i \<and> t_state r = ''active'') (hinted_row h) ?rows = Inr (rows, 1)"
    and d': "d' = d\<lparr>trusted_devices := rows\<rparr>" and q: "queryTrustedPeer U H d' i = Inr q"
    using tx False by (auto simp: UpdateHints_tx_def result_simps Let_def split: if_splits)
  obtain r where r: "row_with t_device_id i ?rows = Some r" using p by (auto simp: query_Inr_iff)
  have s: "stored_ok U H r" "t_device_id r = i" using trust_ok_row [OF d r] by auto
  have act: "t_state r = ''active''"
  proof (rule ccontr)
    assume "t_state r \<noteq> ''active''"
    then show False using up affected_key [OF k r, of "\<lambda>r. t_state r = ''active''"] by (simp add: sql_update_Inr_iff)
  qed
  have key: "t_device_id (hinted_row h r) = i" using s(2) by (simp add: hinted_row_def)
  have rows: "rows = put_row (hinted_row h r) ?rows"
    using up update_where_put [OF k r, of "\<lambda>r. t_state r = ''active''" "hinted_row h"] act r key
    by (simp add: sql_update_Inr_iff put_row_def)
  have c: "trust_row_check (hinted_row h r)"
    using up act s(2) row_with_SomeD [OF r] by (auto simp: sql_update_Inr_iff list_all_iff)
  have "row_valid U H (hinted_row h r)"
    using q by (simp add: query_Inr_iff d' rows row_with_put key)
  then have st: "stored_ok U H (hinted_row h r)" using s(1) c act by (simp add: stored_ok_def hinted_row_def)
  show ?thesis
  proof (rule trust_ok_replaced [OF d st])
    show "trusted_devices d' = put_row (hinted_row h r) ?rows" by (simp add: d' rows)
    show "indexes_allow (hinted_row h r) (filter (\<lambda>s. t_device_id s \<noteq> t_device_id (hinted_row h r)) ?rows)"
      unfolding key by (rule indexes_allow_kept [OF d r]) (simp_all add: hinted_row_def active_orchestrator_def)
    show "audit d' k = (if k = t_device_id (hinted_row h r) then Some (t_state (hinted_row h r)) else audit d k)" for k
      using d r key act by (auto simp: audit_def d' trust_ok_def hinted_row_def)
  qed
qed (use d in simp)

section \<open>Properties\<close>

inductive trust_reachable :: "casing \<Rightarrow> digest_fun \<Rightarrow> trust_db \<Rightarrow> bool" for U H where
  start: "trust_reachable U H empty_trust"
| activate: "trust_reachable U H d \<Longrightarrow> Activate U H p d = (d', r) \<Longrightarrow> trust_reachable U H d'"
| revoke: "trust_reachable U H d \<Longrightarrow> Revoke U H i at d = (d', x) \<Longrightarrow> trust_reachable U H d'"
| hints: "trust_reachable U H d \<Longrightarrow> UpdateHints U H i h d = (d', x) \<Longrightarrow> trust_reachable U H d'"

lemma trust_reachable_ok:
  assumes "trust_reachable U H d" "\<And>x. length (H x) = 32"
  shows "trust_ok U H d"
  using assms(1)
proof (induction rule: trust_reachable.induct)
  case start
  then show ?case by (simp add: trust_ok_def empty_trust_def audit_def)
next
  case (activate d p d' r)
  show ?case by (rule Activate_ok [where H = H, OF assms(2) activate(3,2)])
qed (blast intro: Revoke_ok UpdateHints_ok)+

lemma Trust_Get_row:
  assumes "trust_ok U H d" "DeviceID_Valid U i"
  shows "Trust_Get U H d i = (case row_with t_device_id i (trusted_devices d) of
    None \<Rightarrow> Inl [Trust_ErrNotFound] | Some r \<Rightarrow> Inr (peer_of r))"
  using assms(2) query_ok [OF assms(1), of i] by (simp add: Trust_Get_def remap_def split: option.split)

lemma Trust_Get_Inr:
  assumes "trust_ok U H d"
  shows "Trust_Get U H d i = Inr p \<longleftrightarrow> (\<exists>r. row_with t_device_id i (trusted_devices d) = Some r \<and> p = peer_of r)"
proof
  assume "Trust_Get U H d i = Inr p"
  then show "\<exists>r. row_with t_device_id i (trusted_devices d) = Some r \<and> p = peer_of r"
    by (auto simp: Trust_Get_def query_Inr_iff split: if_splits)
next
  assume "\<exists>r. row_with t_device_id i (trusted_devices d) = Some r \<and> p = peer_of r"
  then obtain r where r: "row_with t_device_id i (trusted_devices d) = Some r" "p = peer_of r" by blast
  then have "DeviceID_Valid U i" using trust_ok_row [OF assms r(1)] by (auto simp: stored_ok_def row_valid_def)
  then show "Trust_Get U H d i = Inr p" using Trust_Get_row [OF assms] r by simp
qed

text \<open>An orchestrator paired with a worker's empty database.\<close>

definition sample_peer :: peer where
  "sample_peer = \<lparr>pePairID = replicate 26 CHR ''a'', peDeviceID = encode_lower plain_casing (replicate 32 1),
     pePublicKey = replicate 32 1, peConnectivitySecret = replicate 32 7, peName = ''desk'', peRole = RoleOrchestrator,
     peState = StateActive, pePlatform = [], peArchitecture = [], peLogicalCPUCount = 0, peTotalMemoryBytes = 0,
     peToolIDs = [], peSupportedExecutors = [], peHintsObservedAt = None, pePairedAt = 100, peUpdatedAt = 100,
     peRevokedAt = None\<rparr>"

definition sample_trust :: trust_db where
  "sample_trust = \<lparr>trusted_devices = [paired_row sample_peer], trust_events =
     [\<lparr>ev_device_id = peDeviceID sample_peer, ev_pair_id = pePairID sample_peer, ev_event = ''paired'', ev_at_ns = 100\<rparr>]\<rparr>"

lemma sample_digest_length: "length (sample_digest x) = 32"
  by (simp add: sample_digest_def)

lemma sample_activation: "Activate plain_casing sample_digest sample_peer empty_trust = (sample_trust, Inr ())"
  by code_simp

lemma sample_trust_reachable: "trust_reachable plain_casing sample_digest sample_trust"
  using trust_reachable.start sample_activation by (rule trust_reachable.activate)

lemma sample_trust_get: "Trust_Get plain_casing sample_digest sample_trust (peDeviceID sample_peer) = Inr sample_peer"
  by code_simp

text \<open>
  C10: What a worker trusts. In every database that pairings, revocations and hints can lead to, a stored peer is valid
  and stored under the fingerprint of its key; two peers never share a pair identifier; at most one orchestrator
  is active; a revoked peer has no connectivity secret; and the last audit event of a device is its state.
\<close>
theorem trust_invariant:
  assumes "trust_reachable U H d" "\<And>x. length (H x) = 32"
  shows "(\<forall>i p. Trust_Get U H d i = Inr p \<longrightarrow>
      Peer_Validate U H p = Inr () \<and> peDeviceID p = i \<and> IDFromPublicKey U H (pePublicKey p) = Inr i
      \<and> (peState p = StateRevoked \<longrightarrow> peConnectivitySecret p = [])
      \<and> audit d i = Some (if peState p = StateActive then ''active'' else ''revoked''))
    \<and> (\<forall>i j p q. Trust_Get U H d i = Inr p \<and> Trust_Get U H d j = Inr q \<and> i \<noteq> j \<longrightarrow>
      pePairID p \<noteq> pePairID q
      \<and> \<not> (peRole p = RoleOrchestrator \<and> peRole q = RoleOrchestrator \<and> peState p = StateActive \<and> peState q = StateActive))"
proof -
  have d: "trust_ok U H d" by (rule trust_reachable_ok [where H = H, OF assms])
  have one: "Peer_Validate U H p = Inr () \<and> peDeviceID p = i \<and> IDFromPublicKey U H (pePublicKey p) = Inr i
      \<and> (peState p = StateRevoked \<longrightarrow> peConnectivitySecret p = [])
      \<and> audit d i = Some (if peState p = StateActive then ''active'' else ''revoked'')"
    if g: "Trust_Get U H d i = Inr p" for i p
  proof -
    obtain r where r: "row_with t_device_id i (trusted_devices d) = Some r" "p = peer_of r"
      using g by (auto simp: Trust_Get_Inr [OF d])
    have s: "stored_ok U H r" "t_device_id r = i" using trust_ok_row [OF d r(1)] by auto
    have st: "t_state r = ''active'' \<or> t_state r = ''revoked''" using s(1) by (auto simp: stored_ok_def trust_row_check_def)
    have v: "Peer_Validate U H p = Inr ()" using s(1) r(2) by (simp add: stored_ok_def row_valid_def Peer_Validate_iff)
    moreover have "peDeviceID p = i" using r(2) s(2) by (simp add: peer_of_def)
    moreover have "audit d i = Some (t_state r)" using d r(1) by (simp add: trust_ok_def)
    moreover have "IDFromPublicKey U H (pePublicKey p) = Inr (peDeviceID p)"
      using v by (simp add: Peer_Validate_iff identity_ok_def)
    ultimately show ?thesis using st s(1) r(2) by (auto simp: peer_of_def TrustState_of_def stored_ok_def)
  qed
  have two: "pePairID p \<noteq> pePairID q
      \<and> \<not> (peRole p = RoleOrchestrator \<and> peRole q = RoleOrchestrator \<and> peState p = StateActive \<and> peState q = StateActive)"
    if g: "Trust_Get U H d i = Inr p" "Trust_Get U H d j = Inr q" "i \<noteq> j" for i j p q
  proof -
    obtain r s where r: "row_with t_device_id i (trusted_devices d) = Some r" "p = peer_of r"
      and s: "row_with t_device_id j (trusted_devices d) = Some s" "q = peer_of s"
      using g by (auto simp: Trust_Get_Inr [OF d])
    have m: "r \<in> set (trusted_devices d)" "s \<in> set (trusted_devices d)" "r \<noteq> s"
      using row_with_SomeD [OF r(1)] row_with_SomeD [OF s(1)] g(3) by auto
    have "inj_on t_pair_id (set (trusted_devices d))" using d by (simp add: trust_ok_def keyed_def distinct_map)
    then have "t_pair_id r \<noteq> t_pair_id s" using m by (auto dest: inj_onD)
    moreover have "\<not> (active_orchestrator r \<and> active_orchestrator s)" using d m by (auto simp: trust_ok_def)
    ultimately show ?thesis
      using r(2) s(2) by (auto simp: peer_of_def active_orchestrator_def Role_of_def TrustState_of_def split: if_splits)
  qed
  show ?thesis using one two by blast
qed

theorem trust_invariant_witness:
  "trust_reachable plain_casing sample_digest sample_trust
   \<and> Trust_Get plain_casing sample_digest sample_trust (peDeviceID sample_peer) = Inr sample_peer
   \<and> Peer_Validate plain_casing sample_digest sample_peer = Inr ()
   \<and> audit sample_trust (peDeviceID sample_peer) = Some ''active''"
  using trust_invariant [where H = sample_digest, OF sample_trust_reachable sample_digest_length] sample_trust_get
    sample_trust_reachable by (auto simp: sample_peer_def)

text \<open>
  Activation. After a successful \<open>Activate\<close> the device is trusted: \<open>Get\<close> returns an active peer with the pair and the key
  that were given, and what is stored of other devices is unchanged. An active device is not replaced: a
  different pairing for it is a conflict that changes nothing. A failed \<open>Activate\<close> changes nothing.
\<close>
theorem activation_pins_the_peer:
  assumes "trust_reachable U H d" "\<And>x. length (H x) = 32" "Activate U H p d = (d', res)"
  shows "(\<forall>e. res = Inl e \<longrightarrow> d' = d)
    \<and> (res = Inr () \<longrightarrow> (\<exists>q. Trust_Get U H d' (peDeviceID p) = Inr q \<and> peState q = StateActive
        \<and> pePairID q = pePairID p \<and> pePublicKey q = pePublicKey p)
        \<and> (\<forall>k. k \<noteq> peDeviceID p \<longrightarrow> Trust_Get U H d' k = Trust_Get U H d k))
    \<and> (\<forall>q. Trust_Get U H d (peDeviceID p) = Inr q \<and> peState q = StateActive \<and> pePairID q \<noteq> pePairID p \<longrightarrow>
        d' = d \<and> res \<noteq> Inr ())"
proof -
  have d: "trust_ok U H d" by (rule trust_reachable_ok [where H = H, OF assms(1,2)])
  have fail: "d' = d" if "res = Inl e" for e using assms(3) that by (simp add: Activate_def transact_Inl_iff)
  have ok: "(\<exists>q. Trust_Get U H d' (peDeviceID p) = Inr q \<and> peState q = StateActive
        \<and> pePairID q = pePairID p \<and> pePublicKey q = pePublicKey p)
      \<and> (\<forall>k. k \<noteq> peDeviceID p \<longrightarrow> Trust_Get U H d' k = Trust_Get U H d k)
      \<and> (\<forall>q. Trust_Get U H d (peDeviceID p) = Inr q \<and> peState q = StateActive \<longrightarrow> pePairID q = pePairID p)"
    if "res = Inr u" for u
  proof -
    have "Activate_tx U H p d = Inr (d', u)" using assms(3) that by (simp add: Activate_def transact_Inr_iff)
    then show ?thesis
    proof (cases rule: Activate_tx_Inr [where H = H, OF assms(2) d, consumes 1, case_names same put])
      case (same r)
      have "Trust_Get U H d (peDeviceID p) = Inr (peer_of r)" using same(2) by (simp add: Trust_Get_Inr [OF d])
      then show ?thesis using same by (simp add: peer_of_def TrustState_of_def)
    next
      case (put r e)
      have row: "row_with t_device_id k (trusted_devices d') =
          (if k = peDeviceID p then Some r else row_with t_device_id k (trusted_devices d))" for k
        using put(3,4) by (simp add: row_with_put)
      have "Trust_Get U H d' (peDeviceID p) = Inr (peer_of r)" by (simp add: Trust_Get_Inr [OF put(5)] row)
      moreover have "peState (peer_of r) = StateActive" "pePairID (peer_of r) = pePairID p" "pePublicKey (peer_of r) = pePublicKey p"
        using put(1) by (simp_all add: activated_def peer_of_def paired_row_def repaired_row_def TrustState_of_def split: option.splits)
      moreover have "Trust_Get U H d' k = Trust_Get U H d k" if "k \<noteq> peDeviceID p" for k
        using that row by (simp add: Trust_Get_def queryTrustedPeer_def)
      moreover have "pePairID q = pePairID p" if "Trust_Get U H d (peDeviceID p) = Inr q" "peState q = StateActive" for q
        using that put(7) by (auto simp: Trust_Get_Inr [OF d] peer_of_def TrustState_of_def)
      ultimately show ?thesis by blast
    qed
  qed
  show ?thesis
  proof (cases res)
    case (Inl e)
    then show ?thesis using fail [OF Inl] by simp
  next
    case (Inr u)
    from ok [OF this] Inr show ?thesis by blast
  qed
qed

theorem activation_pins_the_peer_witness:
  "Activate plain_casing sample_digest sample_peer empty_trust = (sample_trust, Inr ())
   \<and> (\<exists>q. Trust_Get plain_casing sample_digest sample_trust (peDeviceID sample_peer) = Inr q
        \<and> pePublicKey q = pePublicKey sample_peer)
   \<and> Trust_Get plain_casing sample_digest sample_trust (replicate 52 CHR ''b'')
      = Trust_Get plain_casing sample_digest empty_trust (replicate 52 CHR ''b'')"
proof -
  have "replicate 52 CHR ''b'' \<noteq> peDeviceID sample_peer" by code_simp
  then show ?thesis
    using activation_pins_the_peer [where H = sample_digest, OF trust_reachable.start sample_digest_length sample_activation]
      sample_activation by blast
qed

text \<open>
  C36: Revocation is always possible. On every reachable database and at every representable instant, even one before the
  last update, revoking a known device succeeds: it is then stored as revoked, without its secret, and no other device
  is affected.
\<close>
theorem revocation_always_succeeds:
  assumes "trust_reachable U H d" "\<And>x. length (H x) = 32" "Trust_Get U H d i = Inr p" "nano_ok at"
  shows "\<exists>d' q. Revoke U H i at d = (d', Inr q) \<and> Trust_Get U H d' i = Inr q \<and> peState q = StateRevoked
    \<and> peConnectivitySecret q = [] \<and> pePairID q = pePairID p
    \<and> (\<forall>k. k \<noteq> i \<longrightarrow> Trust_Get U H d' k = Trust_Get U H d k)"
proof -
  have d: "trust_ok U H d" by (rule trust_reachable_ok [where H = H, OF assms(1,2)])
  obtain r where r: "row_with t_device_id i (trusted_devices d) = Some r" "p = peer_of r"
    using assms(3) by (auto simp: Trust_Get_Inr [OF d])
  have s: "stored_ok U H r" "t_device_id r = i" using trust_ok_row [OF d r(1)] by auto
  have v: "DeviceID_Valid U i" using assms(3) by (auto simp: Trust_Get_def split: if_splits)
  define t where "t = (if at < t_updated_at_ns r then t_updated_at_ns r else at)"
  have t: "nano_ok t" "t_paired_at_ns r \<le> t"
    using assms(4) s(1) by (auto simp: t_def stored_ok_def trust_row_check_def)
  have c: "trust_row_check (revoked_row t r)" by (rule revoked_check) (use s(1) t in \<open>auto simp: stored_ok_def\<close>)
  note tx = Revoke_tx_cases [OF d r(1) v nano_ok_not_zero [OF assms(4)], folded t_def]
  show ?thesis
  proof (cases "t_state r = ''revoked''")
    case True
    then have "Revoke U H i at d = (d, Inr p)" using tx r(2) by (simp add: Revoke_def)
    then show ?thesis
      using assms(3) s(1) True r(2) by (auto simp: peer_of_def TrustState_of_def stored_ok_def)
  next
    case False
    define d' where "d' = d\<lparr>trusted_devices := put_row (revoked_row t r) (trusted_devices d), trust_events := trust_events d @
           [\<lparr>ev_device_id = i, ev_pair_id = t_pair_id r, ev_event = ''revoked'', ev_at_ns = UnixNano t\<rparr>]\<rparr>"
    let ?q = "(peer_of r)\<lparr>peState := StateRevoked, peUpdatedAt := t, peRevokedAt := Some t, peConnectivitySecret := []\<rparr>"
    have run: "Revoke U H i at d = (d', Inr ?q)" using tx False c by (simp add: Revoke_def d'_def)
    have "trust_ok U H d'" by (rule Revoke_ok [OF d run])
    moreover have "row_with t_device_id k (trusted_devices d') =
        (if k = i then Some (revoked_row t r) else row_with t_device_id k (trusted_devices d))" for k
      using s(2) by (simp add: d'_def row_with_put revoked_row_def)
    moreover have "peer_of (revoked_row t r) = ?q" using t(1) by (simp add: peer_of_def revoked_row_def TrustState_of_def)
    moreover have "Trust_Get U H d' k = Trust_Get U H d k" if "k \<noteq> i" for k
      using that calculation(2) by (simp add: Trust_Get_def queryTrustedPeer_def)
    ultimately have "Trust_Get U H d' i = Inr ?q \<and> (\<forall>k. k \<noteq> i \<longrightarrow> Trust_Get U H d' k = Trust_Get U H d k)"
      by (simp add: Trust_Get_Inr)
    then show ?thesis using run r(2) by (auto simp: peer_of_def)
  qed
qed

theorem revocation_always_succeeds_witness:
  "nano_ok 50 \<and> Trust_Get plain_casing sample_digest sample_trust (peDeviceID sample_peer) = Inr sample_peer
   \<and> (\<exists>d' q. Revoke plain_casing sample_digest (peDeviceID sample_peer) 50 sample_trust = (d', Inr q)
        \<and> Trust_Get plain_casing sample_digest d' (peDeviceID sample_peer) = Inr q \<and> peState q = StateRevoked)"
proof -
  have n: "nano_ok 50" by (simp add: nano_ok_def)
  show ?thesis
    using revocation_always_succeeds [where H = sample_digest, OF sample_trust_reachable sample_digest_length sample_trust_get n]
      n sample_trust_get by blast
qed

end
