(* ===== verification/TrustInterface.thy ===== *)
theory TrustInterface
  imports TrustRepository
begin

text \<open>
  \<open>trust.Repository\<close> as its clients see it: what an operation can add to the set of active peers, and that a listing
  shows what \<open>Get\<close> returns. The repository on SQLite provides it.
\<close>

text \<open>What a pin fixes: the device, its key, its role and the pairing with its secret.\<close>

definition same_pin :: "peer \<Rightarrow> peer \<Rightarrow> bool" where
  "same_pin p q \<longleftrightarrow> peDeviceID p = peDeviceID q \<and> pePublicKey p = pePublicKey q \<and> peRole p = peRole q
     \<and> pePairID p = pePairID q \<and> peConnectivitySecret p = peConnectivitySecret q"

locale trust_repository =
  fixes ok :: "'d \<Rightarrow> bool"
    and get :: "'d \<Rightarrow> device_id \<Rightarrow> peer result"
    and all_peers :: "'d \<Rightarrow> peer list result"
    and activate :: "peer \<Rightarrow> 'd \<Rightarrow> 'd \<times> unit result"
    and revoke :: "device_id \<Rightarrow> time \<Rightarrow> 'd \<Rightarrow> 'd \<times> peer result"
    and update_hints :: "device_id \<Rightarrow> peer_hints \<Rightarrow> 'd \<Rightarrow> 'd \<times> peer result"
  assumes activate_ok: "ok d \<Longrightarrow> activate p d = (d', r) \<Longrightarrow> ok d'"
    and revoke_ok: "ok d \<Longrightarrow> revoke i t d = (d', x) \<Longrightarrow> ok d'"
    and hints_ok: "ok d \<Longrightarrow> update_hints i h d = (d', x) \<Longrightarrow> ok d'"
    and activate_active: "ok d \<Longrightarrow> activate p d = (d', r) \<Longrightarrow> get d' k = Inr q \<Longrightarrow> peState q = StateActive \<Longrightarrow>
      get d k = Inr q \<or> r = Inr () \<and> same_pin q p"
    and revoke_active: "ok d \<Longrightarrow> revoke i t d = (d', x) \<Longrightarrow> get d' k = Inr q \<Longrightarrow> peState q = StateActive \<Longrightarrow>
      get d k = Inr q"
    and hints_active: "ok d \<Longrightarrow> update_hints i h d = (d', x) \<Longrightarrow> get d' k = Inr q \<Longrightarrow> peState q = StateActive \<Longrightarrow>
      \<exists>q0. get d k = Inr q0 \<and> peState q0 = StateActive \<and> same_pin q q0"
    and list_ok: "ok d \<Longrightarrow> is_ok (all_peers d)"
    and list_get: "ok d \<Longrightarrow> all_peers d = Inr ps \<Longrightarrow> p \<in> set ps \<Longrightarrow> get d (peDeviceID p) = Inr p"
    and get_listed: "ok d \<Longrightarrow> all_peers d = Inr ps \<Longrightarrow> get d k = Inr p \<Longrightarrow> p \<in> set ps"
begin

text \<open>A property of pins that holds of every active peer is kept, as long as it holds of the peers that are activated.\<close>

lemma activate_pins:
  assumes "ok d" "activate p d = (d', r)" "\<And>a b. same_pin a b \<Longrightarrow> P b \<Longrightarrow> P a" "P p"
    and "\<And>k q. get d k = Inr q \<Longrightarrow> peState q = StateActive \<Longrightarrow> P q"
    and "get d' k = Inr q" "peState q = StateActive"
  shows "P q"
  using activate_active [OF assms(1,2,6,7)] assms(3-5,7) by blast

lemma revoke_pins:
  assumes "ok d" "revoke i t d = (d', x)" "\<And>k q. get d k = Inr q \<Longrightarrow> peState q = StateActive \<Longrightarrow> P q"
    and "get d' k = Inr q" "peState q = StateActive"
  shows "P q"
  using revoke_active [OF assms(1,2,4,5)] assms(3,5) by blast

lemma hints_pins:
  assumes "ok d" "update_hints i h d = (d', x)" "\<And>a b. same_pin a b \<Longrightarrow> P b \<Longrightarrow> P a"
    and "\<And>k q. get d k = Inr q \<Longrightarrow> peState q = StateActive \<Longrightarrow> P q"
    and "get d' k = Inr q" "peState q = StateActive"
  shows "P q"
  using hints_active [OF assms(1,2,5,6)] assms(3,4) by blast

lemma listed_active:
  assumes "ok d" "\<And>k q. get d k = Inr q \<Longrightarrow> peState q = StateActive \<Longrightarrow> P q"
  obtains ps where "all_peers d = Inr ps" "\<And>p. p \<in> set ps \<Longrightarrow> peState p = StateActive \<Longrightarrow> P p"
  using list_ok [OF assms(1)] list_get [OF assms(1)] assms(2) by (cases "all_peers d") auto

end

section \<open>The repository on SQLite\<close>

lemma same_pin_refl [simp]: "same_pin p p"
  by (simp add: same_pin_def)

lemma activated_pin:
  assumes "activated p r old" "t_device_id r = peDeviceID p" "peRole p = RoleWorker \<or> peRole p = RoleOrchestrator"
  shows "same_pin (peer_of r) p"
  using assms Role_of_string [OF assms(3)]
  by (cases old) (auto simp: activated_def same_pin_def peer_of_def paired_row_def repaired_row_def)

lemma Trust_Get_put:
  assumes "trust_ok U H d'" "trusted_devices d' = put_row r (trusted_devices d)" "Trust_Get U H d' k = Inr q" "trust_ok U H d"
  shows "Trust_Get U H d k = Inr q \<or> k = t_device_id r \<and> q = peer_of r"
  using assms by (auto simp: Trust_Get_Inr row_with_put split: if_splits)

lemma Activate_active:
  assumes H: "\<And>x. length (H x) = 32" and d: "trust_ok U H d" and a: "Activate U H p d = (d', r)"
    and q: "Trust_Get U H d' k = Inr q"
  shows "Trust_Get U H d k = Inr q \<or> r = Inr () \<and> same_pin q p"
proof (cases r)
  case (Inl e)
  then show ?thesis using a q by (simp add: Activate_def transact_Inl_iff)
next
  case (Inr u)
  then have tx: "Activate_tx U H p d = Inr (d', u)" using a by (simp add: Activate_def transact_Inr_iff)
  then have role: "peRole p = RoleWorker \<or> peRole p = RoleOrchestrator"
    by (auto simp: Activate_tx_def result_simps Peer_Validate_iff identity_ok_def)
  show ?thesis
    using tx
  proof (cases rule: Activate_tx_Inr [where H = H, OF H d, consumes 1, case_names same put])
    case (same r)
    then show ?thesis using q by simp
  next
    case (put r e)
    then show ?thesis using Trust_Get_put [OF put(5) _ q d, of r] activated_pin [OF put(1,4) role] Inr by auto
  qed
qed

lemma Revoke_active:
  assumes d: "trust_ok U H d" and a: "Revoke U H i t d = (d', x)"
    and q: "Trust_Get U H d' k = Inr q" "peState q = StateActive"
  shows "Trust_Get U H d k = Inr q"
proof (cases "d' = d")
  case False
  then obtain y where tx: "Revoke_tx U H i t d = Inr (d', y)"
    using a by (cases x) (auto simp: Revoke_def transact_Inl_iff transact_Inr_iff)
  then have v: "DeviceID_Valid U i" "\<not> IsZero t" by (auto simp: Revoke_tx_def split: if_splits)
  obtain r where r: "row_with t_device_id i (trusted_devices d) = Some r"
    using tx v by (auto simp: Revoke_tx_def result_simps query_Inr_iff)
  obtain s where "trusted_devices d' = put_row (revoked_row s r) (trusted_devices d)"
    using tx False unfolding Revoke_tx_cases [OF d r v] by (auto simp: Let_def split: if_splits)
  then show ?thesis
    using Trust_Get_put [OF Revoke_ok [OF d a] _ q(1) d, of "revoked_row s r"] q(2)
    by (auto simp: peer_of_def revoked_row_def TrustState_of_def)
qed (use q in simp)

lemma UpdateHints_active:
  assumes d: "trust_ok U H d" and a: "UpdateHints U H i h d = (d', x)"
    and q: "Trust_Get U H d' k = Inr q" "peState q = StateActive"
  shows "\<exists>q0. Trust_Get U H d k = Inr q0 \<and> peState q0 = StateActive \<and> same_pin q q0"
proof (cases "d' = d")
  case False
  then obtain y where tx: "UpdateHints_tx U H i h d = Inr (d', y)"
    using a by (cases x) (auto simp: UpdateHints_def transact_Inl_iff transact_Inr_iff)
  let ?rows = "trusted_devices d"
  obtain rows where up: "sql_update trust_row_check (\<lambda>r. t_device_id r = i \<and> t_state r = ''active'') (hinted_row h) ?rows = Inr (rows, 1)"
    and d': "d' = d\<lparr>trusted_devices := rows\<rparr>"
    using tx False by (auto simp: UpdateHints_tx_def result_simps Let_def split: if_splits)
  obtain s where s: "row_with t_device_id k rows = Some s" "q = peer_of s"
    using q(1) unfolding Trust_Get_Inr [OF UpdateHints_ok [OF d a]] by (auto simp: d')
  have "row_with t_device_id k (update_where p (hinted_row h) rs) =
      map_option (\<lambda>r. if p r then hinted_row h r else r) (row_with t_device_id k rs)" for p rs
    by (induction rs) (auto simp: update_where_def hinted_row_def)
  then obtain r where r: "row_with t_device_id k ?rows = Some r" "s = r \<or> s = hinted_row h r"
    using s(1) up by (auto simp: sql_update_Inr_iff split: if_splits)
  have "same_pin (peer_of s) (peer_of r)" "peState (peer_of r) = peState (peer_of s)"
    using r(2) by (auto simp: same_pin_def peer_of_def hinted_row_def)
  then show ?thesis using r(1) q(2) s(2) by (auto simp: Trust_Get_Inr [OF d])
qed (use q in auto)

lemma collect_is_ok: "(\<And>x. x \<in> set xs \<Longrightarrow> is_ok (f x)) \<Longrightarrow> is_ok (collect f xs)"
  by (induction xs) (fastforce simp: is_ok_iff)+

lemma collect_mem: "collect f xs = Inr ys \<Longrightarrow> y \<in> set ys \<Longrightarrow> \<exists>x\<in>set xs. f x = Inr y"
  by (induction xs arbitrary: ys) (auto simp: result_simps)

lemma Trust_List_is_ok:
  assumes "trust_ok U H d"
  shows "is_ok (Trust_List U H d)"
  unfolding Trust_List_def
proof (rule collect_is_ok)
  fix r assume "r \<in> set (sort_key (\<lambda>r. (if t_state r = ''active'' then 0 else 1 :: nat, t_name r, t_device_id r)) (trusted_devices d))"
  then have "row_valid U H r" using assms by (simp add: trust_ok_def stored_ok_def)
  then show "is_ok (scanTrustedPeer U H r)" by (simp add: is_ok_iff scanTrustedPeer_iff)
qed

lemma Trust_List_Get:
  assumes d: "trust_ok U H d" and l: "Trust_List U H d = Inr ps" and p: "p \<in> set ps"
  shows "Trust_Get U H d (peDeviceID p) = Inr p"
proof -
  obtain r where r: "r \<in> set (trusted_devices d)" "scanTrustedPeer U H r = Inr p"
    using collect_mem [OF l [unfolded Trust_List_def] p] by auto
  then have "p = peer_of r" by (simp add: scanTrustedPeer_iff)
  moreover have "row_with t_device_id (t_device_id r) (trusted_devices d) = Some r"
    by (rule row_with_mem) (use d r(1) in \<open>simp_all add: trust_ok_def\<close>)
  ultimately show ?thesis by (simp add: Trust_Get_Inr [OF d] peer_of_def)
qed

lemma collect_covers: "collect f xs = Inr ys \<Longrightarrow> x \<in> set xs \<Longrightarrow> f x = Inr y \<Longrightarrow> y \<in> set ys"
  by (induction xs arbitrary: ys) (auto simp: result_simps)

lemma Trust_Get_listed:
  assumes d: "trust_ok U H d" and l: "Trust_List U H d = Inr ps" and g: "Trust_Get U H d k = Inr p"
  shows "p \<in> set ps"
proof -
  obtain r where r: "row_with t_device_id k (trusted_devices d) = Some r" "p = peer_of r"
    using g by (auto simp: Trust_Get_Inr [OF d])
  have "r \<in> set (trusted_devices d)" "scanTrustedPeer U H r = Inr p"
    using row_with_SomeD [OF r(1)] trust_ok_row [OF d r(1)] r(2) by (auto simp: scanTrustedPeer_iff stored_ok_def)
  then show ?thesis using collect_covers [OF l [unfolded Trust_List_def], of r] by simp
qed

text \<open>SHA-256 is a parameter, whose results have 32 bytes.\<close>

definition digest_ok :: "digest_fun \<Rightarrow> bool" where
  "digest_ok H \<longleftrightarrow> (\<forall>x. length (H x) = 32)"

lemma digest_ok_length: "digest_ok H \<Longrightarrow> length (H x) = 32"
  by (simp add: digest_ok_def)

definition pins_ok :: "casing \<Rightarrow> digest_fun \<Rightarrow> trust_db \<Rightarrow> bool" where
  "pins_ok U H d \<longleftrightarrow> digest_ok H \<and> trust_ok U H d"

lemma Activate_pins_ok: "pins_ok U H d \<Longrightarrow> Activate U H p d = (d', r) \<Longrightarrow> pins_ok U H d'"
  unfolding pins_ok_def by (metis Activate_ok digest_ok_length)

lemma Activate_pins_active:
  "pins_ok U H d \<Longrightarrow> Activate U H p d = (d', r) \<Longrightarrow> Trust_Get U H d' k = Inr q \<Longrightarrow>
   Trust_Get U H d k = Inr q \<or> r = Inr () \<and> same_pin q p"
  unfolding pins_ok_def by (metis Activate_active digest_ok_length)

interpretation sqlite_trust:
  trust_repository "pins_ok U H" "Trust_Get U H" "Trust_List U H" "Activate U H" "Revoke U H" "UpdateHints U H" for U H
proof unfold_locales
  show "pins_ok U H d'" if "pins_ok U H d" "Activate U H p d = (d', r)" for d p d' r
    by (rule Activate_pins_ok [OF that])
  show "Trust_Get U H d k = Inr q \<or> r = Inr () \<and> same_pin q p"
    if "pins_ok U H d" "Activate U H p d = (d', r)" "Trust_Get U H d' k = Inr q" "peState q = StateActive" for d p d' r k q
    by (rule Activate_pins_active [OF that(1-3)])
qed (unfold pins_ok_def; (elim conjE)?;
    blast intro: Revoke_ok UpdateHints_ok Revoke_active UpdateHints_active Trust_List_is_ok Trust_List_Get Trust_Get_listed)+

end
