(* ===== verification/PairingService.thy ===== *)
theory PairingService
  imports TrustInterface
begin

text \<open>
  \<open>internal/app/pairing/service.go\<close> and \<open>internal/session/pairing.go\<close>: pairing ceremonies between two devices.

  The service keeps its ceremonies behind a mutex and works outside it while it sends, receives and stores. The record
  \<open>pairing_service\<close> is what the mutex guards, with the trust database, the decisions that were sent, the channels that were
  closed and the errors that were reported. A goroutine is a \<open>task\<close>: what it has left to do when it holds no lock.
  \<open>run_task\<close> takes one task to the next point where it waits, and the step relation \<open>pairing_run\<close> interleaves the tasks
  with the calls of the user in any order. \<open>Confirm\<close>, \<open>Reject\<close>, \<open>Accept\<close> and \<open>monitor\<close> are the same sections in sequence.

  What comes from outside is an argument: a \<open>moment\<close> holds the clock, the result of a send and what arrives on the channel.
  \<open>Err\<close> is the text of an error and \<open>fold_rune\<close> the case folding of Unicode behind \<open>strings.EqualFold\<close>. Deadlines and
  cancelled contexts show up as results of the calls they end.
\<close>

section \<open>Sessions\<close>

abbreviation Session_ErrInvalidPeer :: sentinel where "Session_ErrInvalidPeer \<equiv> ''session.ErrInvalidPeer''"
abbreviation Session_ErrProtocol :: sentinel where "Session_ErrProtocol \<equiv> ''session.ErrProtocol''"
abbreviation Pairing_ErrMissingDependency :: sentinel where "Pairing_ErrMissingDependency \<equiv> ''pairing.ErrMissingDependency''"

record local_device =
  ldIdentity :: identity
  ldName :: string
  ldRole :: role
  ldPresenceID :: presence_id

definition LocalDevice_Validate :: "casing \<Rightarrow> digest_fun \<Rightarrow> local_device \<Rightarrow> unit result" where
  "LocalDevice_Validate U H loc =
    (if \<not> is_ok (Identity_Validate U H (ldIdentity loc)) \<or> \<not> validateName (ldName loc)
        \<or> (ldRole loc \<noteq> RoleWorker \<and> ldRole loc \<noteq> RoleOrchestrator) \<or> \<not> PresenceID_Valid U (ldPresenceID loc)
     then Inl [Session_ErrInvalidPeer] else Inr ())"

record session_peer =
  spID :: device_id
  spPublicKey :: "byte list"
  spName :: string
  spRole :: role
  spPresenceID :: presence_id

definition SessionPeer_Validate :: "casing \<Rightarrow> digest_fun \<Rightarrow> session_peer \<Rightarrow> unit result" where
  "SessionPeer_Validate U H p =
    (if (case IDFromPublicKey U H (spPublicKey p) of Inl _ \<Rightarrow> True | Inr i \<Rightarrow> i \<noteq> spID p)
        \<or> \<not> validateName (spName p) \<or> (spRole p \<noteq> RoleWorker \<and> spRole p \<noteq> RoleOrchestrator)
        \<or> \<not> PresenceID_Valid U (spPresenceID p)
     then Inl [Session_ErrInvalidPeer] else Inr ())"

record pairing_decision =
  dePairingID :: pair_id
  deConfirmed :: bool
  deCommitted :: bool

text \<open>A channel is known by a handle, and answers with the peer and the binding of its session.\<close>

record channel =
  chHandle :: nat
  chPeer :: session_peer
  chBinding :: "byte list"

section \<open>State\<close>

definition defaultPairingLifetime :: int where "defaultPairingLifetime = 5 * 60 * 10 ^ 9"
definition maximumPendingPairings :: nat where "maximumPendingPairings = 16"

record pending_pairing =
  pnValue :: pairing
  pnSecret :: "byte list"
  pnChannel :: channel
  pnActivating :: bool
  pnLocalCommitted :: bool
  pnRemoteCommitted :: bool

record pairing_service =
  svLocal :: local_device
  svLifetime :: int
  svRepository :: trust_db
  svPairings :: "(pair_id \<times> pending_pairing) list"
  svSent :: "(nat \<times> pairing_decision) list"
  svClosed :: "nat list"
  svReported :: "goerror list"

definition Close_channel :: "channel \<Rightarrow> pairing_service \<Rightarrow> pairing_service" where
  "Close_channel c s = s\<lparr>svClosed := svClosed s @ [chHandle c]\<rparr>"

definition reportError :: "goerror \<Rightarrow> pairing_service \<Rightarrow> pairing_service" where
  "reportError e s = s\<lparr>svReported := svReported s @ [e]\<rparr>"

text \<open>\<open>SendDecision\<close> with the result \<open>r\<close>: a decision counts as sent when the call succeeds.\<close>

definition SendDecision :: "goerror option \<Rightarrow> channel \<Rightarrow> pairing_decision \<Rightarrow> pairing_service \<Rightarrow> pairing_service" where
  "SendDecision r c d s = (case r of None \<Rightarrow> s\<lparr>svSent := svSent s @ [(chHandle c, d)]\<rparr> | Some _ \<Rightarrow> s)"

text \<open>\<open>entry := service.pairings[id]; if entry != nil { ... }\<close> for an update of the entry.\<close>

definition on_entry :: "pair_id \<Rightarrow> (pending_pairing \<Rightarrow> pending_pairing) \<Rightarrow> pairing_service \<Rightarrow> pairing_service" where
  "on_entry i f s = s\<lparr>svPairings := AList.map_entry i f (svPairings s)\<rparr>"

definition set_pairing_state :: "pairing_state \<Rightarrow> pending_pairing \<Rightarrow> pending_pairing" where
  "set_pairing_state st e = e\<lparr>pnValue := (pnValue e)\<lparr>paState := st\<rparr>\<rparr>"

definition set_failed :: "string \<Rightarrow> pending_pairing \<Rightarrow> pending_pairing" where
  "set_failed reason e = e\<lparr>pnValue := (pnValue e)\<lparr>paState := PairingFailed, paFailure := reason\<rparr>\<rparr>"

definition waiting :: "pending_pairing \<Rightarrow> bool" where
  "waiting e \<longleftrightarrow> paState (pnValue e) = PairingWaiting"

definition when_waiting :: "(pending_pairing \<Rightarrow> pending_pairing) \<Rightarrow> pending_pairing \<Rightarrow> pending_pairing" where
  "when_waiting f e = (if waiting e then f e else e)"

section \<open>Roles\<close>

fun check_roles :: "role \<Rightarrow> peer list \<Rightarrow> unit result" where
  "check_roles localRole [] = Inr ()"
| "check_roles localRole (p # peers) =
    (if peState p \<noteq> StateActive then check_roles localRole peers
     else if localRole = RoleWorker \<and> peRole p \<noteq> RoleOrchestrator then Inl [Trust_ErrConflict]
     else if localRole = RoleOrchestrator \<and> peRole p \<noteq> RoleWorker then Inl [Trust_ErrConflict]
     else check_roles localRole peers)"

definition ValidateLocalRole :: "casing \<Rightarrow> digest_fun \<Rightarrow> role \<Rightarrow> trust_db \<Rightarrow> unit result" where
  "ValidateLocalRole U H localRole d =
    (if localRole \<noteq> RoleWorker \<and> localRole \<noteq> RoleOrchestrator then Inl [Pairing_ErrMissingDependency]
     else ebind (Trust_List U H d) (check_roles localRole))"

definition NewPairingService :: "casing \<Rightarrow> digest_fun \<Rightarrow> local_device \<Rightarrow> int \<Rightarrow> trust_db \<Rightarrow> pairing_service result" where
  "NewPairingService U H loc lifetime d =
    (if \<not> is_ok (LocalDevice_Validate U H loc) then Inl [Pairing_ErrMissingDependency]
     else let lifetime' = (if lifetime = 0 then defaultPairingLifetime else lifetime) in
       if lifetime' < 60 * 10 ^ 9 \<or> lifetime' > 15 * (60 * 10 ^ 9) then Inl [Pairing_ErrMissingDependency]
       else ebind (ValidateLocalRole U H (ldRole loc) d) (\<lambda>_.
         Inr \<lparr>svLocal = loc, svLifetime = lifetime', svRepository = d, svPairings = [], svSent = [], svClosed = [],
           svReported = []\<rparr>))"

section \<open>Ceremonies\<close>

definition expire :: "time \<Rightarrow> pending_pairing \<Rightarrow> pending_pairing" where
  "expire now e = (if waiting e \<and> \<not> paExpiresAt (pnValue e) > now then set_pairing_state PairingExpired e else e)"

definition prunePairingsLocked :: "time \<Rightarrow> pairing_service \<Rightarrow> pairing_service" where
  "prunePairingsLocked now s = s\<lparr>
     svPairings := filter (\<lambda>(i, e). \<not> (\<not> waiting e \<and> now > paExpiresAt (pnValue e) + svLifetime s))
       (map (\<lambda>(i, e). (i, expire now e)) (svPairings s)),
     svClosed := svClosed s @ map (\<lambda>(i, e). chHandle (pnChannel e))
       (filter (\<lambda>(i, e). waiting e \<and> \<not> paExpiresAt (pnValue e) > now) (svPairings s))\<rparr>"

definition ListPairings :: "time \<Rightarrow> pairing_service \<Rightarrow> pairing_service \<times> pairing list" where
  "ListPairings now s =
    (let s1 = prunePairingsLocked now s in
     (s1, sort_key (\<lambda>v. (- paStartedAt v, paID v)) (map (\<lambda>(i, e). pnValue e) (svPairings s1))))"

text \<open>The checks of \<open>register\<close> before the ceremony exists.\<close>

definition register_value ::
    "casing \<Rightarrow> digest_fun \<Rightarrow> time \<Rightarrow> channel \<Rightarrow> direction \<Rightarrow> pairing_service \<Rightarrow> (pairing \<times> byte list) result" where
  "register_value U H now c dir s =
    (let p = chPeer c; loc = svLocal s in
     ebind (SessionPeer_Validate U H p) (\<lambda>_.
     if dir = DirectionOutbound \<and> (ldRole loc \<noteq> RoleOrchestrator \<or> spRole p \<noteq> RoleWorker) then Inl [Trust_ErrInvalidPairing]
     else if dir = DirectionInbound \<and> (ldRole loc \<noteq> RoleWorker \<or> spRole p \<noteq> RoleOrchestrator) then Inl [Trust_ErrInvalidPairing]
     else
     ebind (case Trust_Get U H (svRepository s) (spID p) of
         Inr existing \<Rightarrow> if peState existing = StateActive then Inl [Trust_ErrConflict] else Inr ()
       | Inl e \<Rightarrow> if \<not> errors_is e Trust_ErrNotFound then Inl e else Inr ()) (\<lambda>_.
     ebind (if ldRole loc = RoleWorker
            then ebind (Trust_List U H (svRepository s)) (\<lambda>peers.
              if list_ex (\<lambda>x. peState x = StateActive \<and> peRole x = RoleOrchestrator) peers
              then Inl [Trust_ErrConflict] else Inr ())
            else Inr ()) (\<lambda>_.
     let (initiatorID, responderID) =
       (if dir = DirectionInbound then (spID p, id_id (ldIdentity loc)) else (id_id (ldIdentity loc), spID p)) in
     ebind (DerivePairing U H (chBinding c) initiatorID responderID) (\<lambda>(i, verification).
     ebind (DeriveConnectivitySecret U H (chBinding c) initiatorID responderID) (\<lambda>secret.
     let v = \<lparr>paID = i, paPeerID = spID p, paPeerPublicKey = spPublicKey p, paPeerName = spName p,
           paPeerRole = spRole p, paVerification = verification, paDirection = dir, paState = PairingWaiting,
           paLocalConfirmed = False, paRemoteConfirmed = False, paStartedAt = now,
           paExpiresAt = now + svLifetime s, paFailure = []\<rparr> in
     ebind (Pairing_Validate U H v) (\<lambda>_. Inr (v, secret))))))))"

definition register_locked :: "time \<Rightarrow> channel \<Rightarrow> pairing \<Rightarrow> byte list \<Rightarrow> pairing_service \<Rightarrow> pairing_service \<times> pairing result" where
  "register_locked now c v secret s =
    (let s1 = prunePairingsLocked now s in
     if length (filter (\<lambda>(i, e). waiting e) (svPairings s1)) \<ge> maximumPendingPairings
     then (s1, Inl [Trust_ErrPairingUnavailable])
     else if map_of (svPairings s1) (paID v) \<noteq> None then (s1, Inl [Trust_ErrConflict])
     else (s1\<lparr>svPairings := svPairings s1 @ [(paID v, \<lparr>pnValue = v, pnSecret = secret, pnChannel = c,
               pnActivating = False, pnLocalCommitted = False, pnRemoteCommitted = False\<rparr>)]\<rparr>, Inr v))"

definition register ::
    "casing \<Rightarrow> digest_fun \<Rightarrow> time \<Rightarrow> channel \<Rightarrow> direction \<Rightarrow> pairing_service \<Rightarrow> pairing_service \<times> pairing result" where
  "register U H now c dir s =
    (case register_value U H now c dir s of
       Inl e \<Rightarrow> (s, Inl e)
     | Inr (v, secret) \<Rightarrow> register_locked now c v secret s)"

text \<open>Rune by rune: equal, or the two cases of an ASCII letter, or folded by Unicode.\<close>

definition rune_fold :: "(nat \<Rightarrow> nat \<Rightarrow> bool) \<Rightarrow> nat \<Rightarrow> nat \<Rightarrow> bool" where
  "rune_fold fold_rune a b \<longleftrightarrow> a = b \<or>
     (let low = min a b; high = max a b in
      if high < 128 then 65 \<le> low \<and> low \<le> 90 \<and> high = low + 32 else fold_rune low high)"

definition EqualFold :: "(nat \<Rightarrow> nat \<Rightarrow> bool) \<Rightarrow> string \<Rightarrow> string \<Rightarrow> bool" where
  "EqualFold fold_rune s t =
     list_all2 (rune_fold fold_rune) (map (\<lambda>(r, _). rune_value r) (runes s)) (map (\<lambda>(r, _). rune_value r) (runes t))"

definition resolvePairingLocked ::
    "casing \<Rightarrow> (nat \<Rightarrow> nat \<Rightarrow> bool) \<Rightarrow> string \<Rightarrow> pairing_service \<Rightarrow> (pair_id \<times> pending_pairing) result" where
  "resolvePairingLocked U fold_rune selector s =
    (let selector' = ToUpper U (TrimSpace selector);
         matches = filter (\<lambda>(i, e). prefix selector' (ToUpper U i)
           \<or> EqualFold fold_rune (paVerification (pnValue e)) selector') (svPairings s)
     in if selector' = [] \<or> matches = [] then Inl [Trust_ErrPairingNotFound]
        else if length matches > 1 then Inl [Trust_ErrConflict]
        else Inr (hd matches))"

definition updateLocalDecision ::
    "casing \<Rightarrow> (nat \<Rightarrow> nat \<Rightarrow> bool) \<Rightarrow> time \<Rightarrow> string \<Rightarrow> bool \<Rightarrow> pairing_service \<Rightarrow> pairing_service \<times> pending_pairing result" where
  "updateLocalDecision U fold_rune now selector confirmed s =
    (let s1 = prunePairingsLocked now s in
     case resolvePairingLocked U fold_rune selector s1 of
       Inl e \<Rightarrow> (s1, Inl e)
     | Inr (i, e) \<Rightarrow>
         if \<not> waiting e \<or> pnActivating e then (s1, Inl [Trust_ErrConflict])
         else
           let e' = (if confirmed then e\<lparr>pnValue := (pnValue e)\<lparr>paLocalConfirmed := True\<rparr>\<rparr>
                     else set_pairing_state PairingRejected e)
           in (on_entry i (\<lambda>_. e') s1, Inr e'))"

definition fail :: "(goerror \<Rightarrow> string) \<Rightarrow> pair_id \<Rightarrow> goerror \<Rightarrow> pairing_service \<Rightarrow> pairing_service" where
  "fail Err i e = on_entry i (when_waiting (set_failed (Err e)))"

definition getPairing :: "pair_id \<Rightarrow> pairing_service \<Rightarrow> pairing result" where
  "getPairing i s = (case map_of (svPairings s) i of None \<Rightarrow> Inl [Trust_ErrPairingNotFound] | Some e \<Rightarrow> Inr (pnValue e))"

section \<open>Activation\<close>

text \<open>\<open>maybeActivate\<close> holds the lock three times, around the transaction of the repository and the announcement.\<close>

definition activate_claim :: "pair_id \<Rightarrow> pairing_service \<Rightarrow> pairing_service \<times> pending_pairing option" where
  "activate_claim i s =
    (case map_of (svPairings s) i of
       None \<Rightarrow> (s, None)
     | Some e \<Rightarrow>
         if \<not> waiting e \<or> pnActivating e \<or> \<not> paLocalConfirmed (pnValue e) \<or> \<not> paRemoteConfirmed (pnValue e)
         then (s, None)
         else (on_entry i (\<lambda>e. e\<lparr>pnActivating := True\<rparr>) s, Some (e\<lparr>pnActivating := True\<rparr>)))"

definition activated_peer :: "time \<Rightarrow> pending_pairing \<Rightarrow> peer" where
  "activated_peer now e =
    (let v = pnValue e in
     \<lparr>pePairID = paID v, peDeviceID = paPeerID v, pePublicKey = paPeerPublicKey v, peConnectivitySecret = pnSecret e,
      peName = paPeerName v, peRole = paPeerRole v, peState = StateActive, pePlatform = [], peArchitecture = [],
      peLogicalCPUCount = 0, peTotalMemoryBytes = 0, peToolIDs = [], peSupportedExecutors = [],
      peHintsObservedAt = None, pePairedAt = now, peUpdatedAt = now, peRevokedAt = None\<rparr>)"

definition activate_store :: "casing \<Rightarrow> digest_fun \<Rightarrow> time \<Rightarrow> pending_pairing \<Rightarrow> pairing_service \<Rightarrow> pairing_service \<times> unit result" where
  "activate_store U H now e s =
    (let (d, r) = Activate U H (activated_peer now e) (svRepository s) in (s\<lparr>svRepository := d\<rparr>, r))"

definition activate_record ::
    "(goerror \<Rightarrow> string) \<Rightarrow> pair_id \<Rightarrow> channel \<Rightarrow> unit result \<Rightarrow> pairing_service \<Rightarrow> pairing_service" where
  "activate_record Err i c r s =
    (case r of
       Inl err \<Rightarrow> Close_channel c (reportError err
         (on_entry i (when_waiting (\<lambda>e. set_failed (Err err) (e\<lparr>pnActivating := False\<rparr>))) s))
     | Inr _ \<Rightarrow> on_entry i (when_waiting (\<lambda>e. set_pairing_state PairingPaired (e\<lparr>pnActivating := False, pnLocalCommitted := True\<rparr>))) s)"

definition both_committed :: "pair_id \<Rightarrow> pairing_service \<Rightarrow> bool" where
  "both_committed i s = (case map_of (svPairings s) i of None \<Rightarrow> False | Some e \<Rightarrow> pnLocalCommitted e \<and> pnRemoteCommitted e)"

definition activate_announce :: "goerror option \<Rightarrow> pair_id \<Rightarrow> channel \<Rightarrow> pairing_service \<Rightarrow> pairing_service" where
  "activate_announce r i c s =
    (let s1 = SendDecision r c \<lparr>dePairingID = i, deConfirmed = True, deCommitted = True\<rparr> s;
         s2 = (case r of None \<Rightarrow> s1 | Some e \<Rightarrow> reportError e s1)
     in if both_committed i s2 then Close_channel c s2 else s2)"

datatype received = Decided pairing_decision | ReceiveFailed bool

record moment =
  mNow :: time
  mSend :: "goerror option"
  mReceived :: received

definition maybeActivate ::
    "casing \<Rightarrow> digest_fun \<Rightarrow> (goerror \<Rightarrow> string) \<Rightarrow> moment \<Rightarrow> pair_id \<Rightarrow> pairing_service \<Rightarrow> pairing_service" where
  "maybeActivate U H Err m i s =
    (case activate_claim i s of
       (s1, None) \<Rightarrow> s1
     | (s1, Some e) \<Rightarrow>
         let (s2, r) = activate_store U H (mNow m) e s1; s3 = activate_record Err i (pnChannel e) r s2 in
         (case r of Inl _ \<Rightarrow> s3 | Inr _ \<Rightarrow> activate_announce (mSend m) i (pnChannel e) s3))"

section \<open>The user's operations\<close>

text \<open>\<open>sendDecision\<close> only adds a deadline to \<open>SendDecision\<close>. The commit of an activation has its own send, \<open>mSend\<close> of \<open>m2\<close>.\<close>

definition sendDecision :: "moment \<Rightarrow> channel \<Rightarrow> pair_id \<Rightarrow> bool \<Rightarrow> pairing_service \<Rightarrow> pairing_service \<times> goerror option" where
  "sendDecision m c i confirmed s =
    (SendDecision (mSend m) c \<lparr>dePairingID = i, deConfirmed = confirmed, deCommitted = False\<rparr> s, mSend m)"

definition Confirm ::
    "casing \<Rightarrow> digest_fun \<Rightarrow> (nat \<Rightarrow> nat \<Rightarrow> bool) \<Rightarrow> (goerror \<Rightarrow> string) \<Rightarrow> moment \<Rightarrow> moment \<Rightarrow> string \<Rightarrow> pairing_service \<Rightarrow> pairing_service \<times> pairing result"
    where
  "Confirm U H fold_rune Err m m2 selector s =
    (case updateLocalDecision U fold_rune (mNow m) selector True s of
       (s1, Inl e) \<Rightarrow> (s1, Inl e)
     | (s1, Inr e) \<Rightarrow>
         let i = paID (pnValue e) in
         (case sendDecision m (pnChannel e) i True s1 of
            (s2, Some err) \<Rightarrow> (fail Err i err s2, Inl [Trust_ErrPairingUnavailable])
          | (s2, None) \<Rightarrow> let s3 = maybeActivate U H Err m2 i s2 in (s3, getPairing i s3)))"

definition Reject ::
    "casing \<Rightarrow> (nat \<Rightarrow> nat \<Rightarrow> bool) \<Rightarrow> moment \<Rightarrow> string \<Rightarrow> pairing_service \<Rightarrow> pairing_service \<times> pairing result" where
  "Reject U fold_rune m selector s =
    (case updateLocalDecision U fold_rune (mNow m) selector False s of
       (s1, Inl e) \<Rightarrow> (s1, Inl e)
     | (s1, Inr e) \<Rightarrow>
         let i = paID (pnValue e); s2 = Close_channel (pnChannel e) (fst (sendDecision m (pnChannel e) i False s1))
         in (s2, getPairing i s2))"

definition Begin ::
    "casing \<Rightarrow> digest_fun \<Rightarrow> observation result \<Rightarrow> channel result \<Rightarrow> time \<Rightarrow> pairing_service \<Rightarrow> pairing_service \<times> pairing result" where
  "Begin U H target dialled now s =
    (if ldRole (svLocal s) \<noteq> RoleOrchestrator then (s, Inl [Trust_ErrPairingUnavailable])
     else (case target of
       Inl e \<Rightarrow> (s, Inl e)
     | Inr t \<Rightarrow>
         if anRole (obAnnouncement t) \<noteq> RoleWorker then (s, Inl [Trust_ErrPairingUnavailable])
         else if \<not> anEndpointReady (obAnnouncement t) then (s, Inl [Trust_ErrPairingUnavailable])
         else (case dialled of
             Inl _ \<Rightarrow> (s, Inl [Trust_ErrPairingUnavailable])
           | Inr c \<Rightarrow>
               (case register U H now c DirectionOutbound s of
                  (s1, Inl e) \<Rightarrow> (Close_channel c s1, Inl e)
                | (s1, Inr v) \<Rightarrow> (s1, Inr v)))))"

definition acceptInbound ::
    "casing \<Rightarrow> digest_fun \<Rightarrow> time \<Rightarrow> channel \<Rightarrow> pairing_service \<Rightarrow> pairing_service \<times> pairing result" where
  "acceptInbound U H now c s =
    (if ldRole (svLocal s) \<noteq> RoleWorker then (s, Inl [Trust_ErrPairingUnavailable])
     else register U H now c DirectionInbound s)"

definition Accept :: "casing \<Rightarrow> digest_fun \<Rightarrow> time \<Rightarrow> channel \<Rightarrow> pairing_service \<Rightarrow> pairing_service \<times> pairing result" where
  "Accept U H now c s =
    (case acceptInbound U H now c s of
       (s1, Inl e) \<Rightarrow> (Close_channel c (reportError e s1), Inl e)
     | (s1, Inr v) \<Rightarrow> (s1, Inr v))"

definition Unpair :: "casing \<Rightarrow> digest_fun \<Rightarrow> time \<Rightarrow> string \<Rightarrow> pairing_service \<Rightarrow> pairing_service \<times> peer result" where
  "Unpair U H now selector s =
    (case Trust_List U H (svRepository s) of
       Inl e \<Rightarrow> (s, Inl e)
     | Inr peers \<Rightarrow>
         let selector' = TrimSpace selector;
             matches = filter (\<lambda>p. peState p = StateActive
               \<and> (peName p = selector' \<or> peDeviceID p = selector' \<or> prefix selector' (peDeviceID p))) peers
         in (case matches of
               [] \<Rightarrow> (s, Inl [Trust_ErrNotFound])
             | [p] \<Rightarrow> (let (d, r) = Revoke U H (peDeviceID p) now (svRepository s) in (s\<lparr>svRepository := d\<rparr>, r))
             | _ \<Rightarrow> (s, Inl [Trust_ErrConflict])))"

fun update_all_hints :: "casing \<Rightarrow> digest_fun \<Rightarrow> (device_id \<times> peer_hints) list \<Rightarrow> trust_db \<Rightarrow> trust_db \<times> unit result" where
  "update_all_hints U H [] d = (d, Inr ())"
| "update_all_hints U H ((i, h) # hs) d =
    (case UpdateHints U H i h d of
       (d', Inl e) \<Rightarrow> (d', Inl e)
     | (d', Inr _) \<Rightarrow> update_all_hints U H hs d')"

definition RefreshTrustedHints ::
    "casing \<Rightarrow> digest_fun \<Rightarrow> observation list \<Rightarrow> pairing_service \<Rightarrow> pairing_service \<times> peer list result" where
  "RefreshTrustedHints U H devices s =
    (case Trust_List U H (svRepository s) of
       Inl e \<Rightarrow> (s, Inl e)
     | Inr peers \<Rightarrow>
         (case update_all_hints U H (MatchNearbyHints peers devices) (svRepository s) of
            (d, Inl e) \<Rightarrow> (s\<lparr>svRepository := d\<rparr>, Inl e)
          | (d, Inr _) \<Rightarrow> (s\<lparr>svRepository := d\<rparr>, Trust_List U H d)))"

section \<open>The monitor\<close>

text \<open>What the loop does with what it received: it ends, or the peer confirmed and \<open>maybeActivate\<close> comes next.\<close>

definition receive_decision ::
    "(goerror \<Rightarrow> string) \<Rightarrow> received \<Rightarrow> channel \<Rightarrow> pair_id \<Rightarrow> pairing_service \<Rightarrow> pairing_service \<times> bool" where
  "receive_decision Err r c i s =
    (case r of
       ReceiveFailed deadline \<Rightarrow>
         (Close_channel c (on_entry i (when_waiting (if deadline then set_pairing_state PairingExpired
            else set_failed ''pairing connection closed before both devices confirmed'')) s), False)
     | Decided d \<Rightarrow>
         if dePairingID d \<noteq> i then (Close_channel c (fail Err i [Session_ErrProtocol] s), False)
         else if \<not> deConfirmed d then (Close_channel c (on_entry i (when_waiting (set_pairing_state PairingRejected)) s), False)
         else (on_entry i (\<lambda>e.
             let e1 = (if waiting e then e\<lparr>pnValue := (pnValue e)\<lparr>paRemoteConfirmed := True\<rparr>\<rparr> else e)
             in if deCommitted d then e1\<lparr>pnRemoteCommitted := True\<rparr> else e1) s, True))"

definition ceremony_over :: "pair_id \<Rightarrow> pairing_service \<Rightarrow> bool" where
  "ceremony_over i s =
    (case map_of (svPairings s) i of
       None \<Rightarrow> True
     | Some e \<Rightarrow> paState (pnValue e) \<in> {PairingRejected, PairingExpired, PairingFailed}
         \<or> pnLocalCommitted e \<and> pnRemoteCommitted e)"

text \<open>The loop over what arrives; it is still waiting when the list ends before the ceremony does.\<close>

fun monitor ::
    "casing \<Rightarrow> digest_fun \<Rightarrow> (goerror \<Rightarrow> string) \<Rightarrow> channel \<Rightarrow> pair_id \<Rightarrow> moment list \<Rightarrow> pairing_service \<Rightarrow> pairing_service" where
  "monitor U H Err c i [] s = s"
| "monitor U H Err c i (m # ms) s =
    (case receive_decision Err (mReceived m) c i s of
       (s1, False) \<Rightarrow> s1
     | (s1, True) \<Rightarrow>
         let s2 = maybeActivate U H Err m i s1 in
         if ceremony_over i s2 then Close_channel c s2 else monitor U H Err c i ms s2)"

section \<open>Interleaving\<close>

text \<open>A call of \<open>maybeActivate\<close> by the monitor resumes the loop of its channel; one by \<open>Confirm\<close> resumes nothing.\<close>

type_synonym resume = "channel option"

datatype task =
    Registering channel pairing "byte list"
  | Monitoring channel pair_id
  | Checking channel pair_id
  | Confirming pending_pairing
  | Rejecting pending_pairing
  | Claiming pair_id resume
  | Storing pair_id pending_pairing resume
  | Recording pair_id channel "unit result" resume
  | Announcing pair_id channel resume

definition resumed :: "pair_id \<Rightarrow> resume \<Rightarrow> task list" where
  "resumed i k = (case k of None \<Rightarrow> [] | Some c \<Rightarrow> [Checking c i])"

definition refuse :: "direction \<Rightarrow> channel \<Rightarrow> goerror \<Rightarrow> pairing_service \<Rightarrow> pairing_service" where
  "refuse dir c e s = Close_channel c (if dir = DirectionInbound then reportError e s else s)"

fun run_task ::
    "casing \<Rightarrow> digest_fun \<Rightarrow> (goerror \<Rightarrow> string) \<Rightarrow> moment \<Rightarrow> task \<Rightarrow> pairing_service \<Rightarrow> pairing_service \<times> task list" where
  "run_task U H Err m (Registering c v secret) s =
    (case register_locked (mNow m) c v secret s of
       (s1, Inl e) \<Rightarrow> (refuse (paDirection v) c e s1, [])
     | (s1, Inr _) \<Rightarrow> (s1, [Monitoring c (paID v)]))"
| "run_task U H Err m (Monitoring c i) s =
    (case receive_decision Err (mReceived m) c i s of
       (s1, False) \<Rightarrow> (s1, [])
     | (s1, True) \<Rightarrow> (s1, [Claiming i (Some c)]))"
| "run_task U H Err m (Checking c i) s =
    (if ceremony_over i s then (Close_channel c s, []) else (s, [Monitoring c i]))"
| "run_task U H Err m (Confirming e) s =
    (let i = paID (pnValue e) in
     case sendDecision m (pnChannel e) i True s of
       (s1, Some err) \<Rightarrow> (fail Err i err s1, [])
     | (s1, None) \<Rightarrow> (s1, [Claiming i None]))"
| "run_task U H Err m (Rejecting e) s =
    (Close_channel (pnChannel e) (fst (sendDecision m (pnChannel e) (paID (pnValue e)) False s)), [])"
| "run_task U H Err m (Claiming i k) s =
    (case activate_claim i s of
       (s1, None) \<Rightarrow> (s1, resumed i k)
     | (s1, Some e) \<Rightarrow> (s1, [Storing i e k]))"
| "run_task U H Err m (Storing i e k) s =
    (let (s1, r) = activate_store U H (mNow m) e s in (s1, [Recording i (pnChannel e) r k]))"
| "run_task U H Err m (Recording i c r k) s =
    (activate_record Err i c r s, (case r of Inl _ \<Rightarrow> resumed i k | Inr _ \<Rightarrow> [Announcing i c k]))"
| "run_task U H Err m (Announcing i c k) s = (activate_announce (mSend m) i c s, resumed i k)"

text \<open>What happened, as far as consent depends on it.\<close>

datatype pairing_event =
    Registered pair_id channel
  | LocallyConfirmed pair_id
  | Heard channel pairing_decision

record world =
  wService :: pairing_service
  wTasks :: "task list"
  wTrace :: "pairing_event list"

definition observed :: "task \<Rightarrow> moment \<Rightarrow> task list \<Rightarrow> pairing_event list" where
  "observed t m ts =
    (case t of
       Registering c v secret \<Rightarrow> if ts = [] then [] else [Registered (paID v) c]
     | Monitoring c i \<Rightarrow> (case mReceived m of Decided d \<Rightarrow> [Heard c d] | ReceiveFailed _ \<Rightarrow> [])
     | _ \<Rightarrow> [])"

inductive pairing_run ::
    "casing \<Rightarrow> digest_fun \<Rightarrow> (nat \<Rightarrow> nat \<Rightarrow> bool) \<Rightarrow> (goerror \<Rightarrow> string) \<Rightarrow> pairing_service \<Rightarrow> world \<Rightarrow> bool"
  for U H fold_rune Err s0 where
  start: "pairing_run U H fold_rune Err s0 \<lparr>wService = s0, wTasks = [], wTrace = []\<rparr>"
| request: "pairing_run U H fold_rune Err s0 w \<Longrightarrow> dir = DirectionOutbound \<or> dir = DirectionInbound \<Longrightarrow>
    register_value U H now c dir (wService w) = Inr (v, secret) \<Longrightarrow>
    pairing_run U H fold_rune Err s0 (w\<lparr>wTasks := wTasks w @ [Registering c v secret]\<rparr>)"
| request_fails: "pairing_run U H fold_rune Err s0 w \<Longrightarrow> register_value U H now c dir (wService w) = Inl e \<Longrightarrow>
    pairing_run U H fold_rune Err s0 (w\<lparr>wService := refuse dir c e (wService w)\<rparr>)"
| confirm: "pairing_run U H fold_rune Err s0 w \<Longrightarrow>
    updateLocalDecision U fold_rune now selector True (wService w) = (s, Inr e) \<Longrightarrow>
    pairing_run U H fold_rune Err s0 \<lparr>wService = s, wTasks = wTasks w @ [Confirming e],
      wTrace = wTrace w @ [LocallyConfirmed (paID (pnValue e))]\<rparr>"
| reject: "pairing_run U H fold_rune Err s0 w \<Longrightarrow>
    updateLocalDecision U fold_rune now selector False (wService w) = (s, Inr e) \<Longrightarrow>
    pairing_run U H fold_rune Err s0 (w\<lparr>wService := s, wTasks := wTasks w @ [Rejecting e]\<rparr>)"
| decision_fails: "pairing_run U H fold_rune Err s0 w \<Longrightarrow>
    updateLocalDecision U fold_rune now selector confirmed (wService w) = (s, Inl e) \<Longrightarrow>
    pairing_run U H fold_rune Err s0 (w\<lparr>wService := s\<rparr>)"
| pairings: "pairing_run U H fold_rune Err s0 w \<Longrightarrow> ListPairings now (wService w) = (s, vs) \<Longrightarrow>
    pairing_run U H fold_rune Err s0 (w\<lparr>wService := s\<rparr>)"
| unpair: "pairing_run U H fold_rune Err s0 w \<Longrightarrow> Unpair U H now selector (wService w) = (s, r) \<Longrightarrow>
    pairing_run U H fold_rune Err s0 (w\<lparr>wService := s\<rparr>)"
| refresh: "pairing_run U H fold_rune Err s0 w \<Longrightarrow> RefreshTrustedHints U H devices (wService w) = (s, ps) \<Longrightarrow>
    pairing_run U H fold_rune Err s0 (w\<lparr>wService := s\<rparr>)"
| work: "pairing_run U H fold_rune Err s0 w \<Longrightarrow> wTasks w = before @ t # after \<Longrightarrow>
    run_task U H Err m t (wService w) = (s, ts) \<Longrightarrow>
    pairing_run U H fold_rune Err s0 \<lparr>wService = s, wTasks = before @ ts @ after, wTrace = wTrace w @ observed t m ts\<rparr>"

section \<open>What is kept\<close>

text \<open>The fields of a ceremony follow from the channel, the local device and the direction.\<close>

definition ceremony :: "casing \<Rightarrow> digest_fun \<Rightarrow> local_device \<Rightarrow> channel \<Rightarrow> pairing \<Rightarrow> byte list \<Rightarrow> bool" where
  "ceremony U H loc c v secret \<longleftrightarrow>
     paPeerID v = spID (chPeer c) \<and> paPeerPublicKey v = spPublicKey (chPeer c) \<and> paPeerRole v = spRole (chPeer c)
     \<and> (ldRole loc = RoleOrchestrator \<and> paPeerRole v = RoleWorker \<or> ldRole loc = RoleWorker \<and> paPeerRole v = RoleOrchestrator)
     \<and> (let (initiator, responder) = (if paDirection v = DirectionInbound then (paPeerID v, id_id (ldIdentity loc))
              else (id_id (ldIdentity loc), paPeerID v)) in
        DerivePairing U H (chBinding c) initiator responder = Inr (paID v, paVerification v)
        \<and> DeriveConnectivitySecret U H (chBinding c) initiator responder = Inr secret)"

definition remotely_confirmed :: "pairing_event list \<Rightarrow> pair_id \<Rightarrow> bool" where
  "remotely_confirmed T i \<longleftrightarrow> (\<exists>c d. Registered i c \<in> set T \<and> Heard c d \<in> set T \<and> dePairingID d = i \<and> deConfirmed d)"

text \<open>The part of \<open>Validate\<close> that no operation changes, and what it asks of the state.\<close>

definition pairing_identity :: "casing \<Rightarrow> digest_fun \<Rightarrow> pairing \<Rightarrow> bool" where
  "pairing_identity U H p \<longleftrightarrow> IDFromPublicKey U H (paPeerPublicKey p) = Inr (paPeerID p) \<and> PairID_Valid U (paID p)
     \<and> validateName (paPeerName p) \<and> (paPeerRole p = RoleWorker \<or> paPeerRole p = RoleOrchestrator)
     \<and> (paDirection p = DirectionInbound \<or> paDirection p = DirectionOutbound)
     \<and> \<not> IsZero (paStartedAt p) \<and> paExpiresAt p > paStartedAt p \<and> validVerificationCode (paVerification p)"

lemma Pairing_Validate_iff:
  "Pairing_Validate U H p = Inr () \<longleftrightarrow> pairing_identity U H p \<and>
     (case paState p of
        PairingPaired \<Rightarrow> paLocalConfirmed p \<and> paRemoteConfirmed p \<and> paFailure p = []
      | PairingFailed \<Rightarrow> TrimSpace (paFailure p) \<noteq> []
      | PairingUnknown _ \<Rightarrow> False
      | _ \<Rightarrow> paFailure p = [])"
proof -
  have d: "(case IDFromPublicKey U H (paPeerPublicKey p) of Inl _ \<Rightarrow> True | Inr derived \<Rightarrow> paPeerID p \<noteq> derived)
      \<longleftrightarrow> IDFromPublicKey U H (paPeerPublicKey p) \<noteq> Inr (paPeerID p)"
    by (auto split: sum.splits)
  show ?thesis
    unfolding Pairing_Validate_def d by (auto simp: pairing_identity_def split: pairing_state.splits)
qed

text \<open>
  A ceremony can end while its activation is under way, and its entry can even be gone by the time the outcome is
  recorded. So that a ceremony is paired only after both confirmed is a fact about what happened.
\<close>

definition state_ok :: "pairing_event list \<Rightarrow> pairing \<Rightarrow> bool" where
  "state_ok T v \<longleftrightarrow>
     (case paState v of
        PairingPaired \<Rightarrow> LocallyConfirmed (paID v) \<in> set T \<and> remotely_confirmed T (paID v) \<and> paFailure v = []
      | PairingFailed \<Rightarrow> TrimSpace (paFailure v) \<noteq> []
      | PairingUnknown _ \<Rightarrow> False
      | _ \<Rightarrow> paFailure v = [])"

definition entry_ok :: "casing \<Rightarrow> digest_fun \<Rightarrow> local_device \<Rightarrow> pairing_event list \<Rightarrow> pair_id \<Rightarrow> pending_pairing \<Rightarrow> bool" where
  "entry_ok U H loc T i e \<longleftrightarrow>
     paID (pnValue e) = i \<and> Registered i (pnChannel e) \<in> set T \<and> ceremony U H loc (pnChannel e) (pnValue e) (pnSecret e)
     \<and> pairing_identity U H (pnValue e) \<and> state_ok T (pnValue e)
     \<and> (paLocalConfirmed (pnValue e) \<longrightarrow> LocallyConfirmed i \<in> set T)
     \<and> (paRemoteConfirmed (pnValue e) \<longrightarrow> remotely_confirmed T i)"

definition pairings_ok ::
    "casing \<Rightarrow> digest_fun \<Rightarrow> local_device \<Rightarrow> pairing_event list \<Rightarrow> (pair_id \<times> pending_pairing) list \<Rightarrow> bool" where
  "pairings_ok U H loc T ps \<longleftrightarrow> distinct (map fst ps) \<and> (\<forall>(i, e)\<in>set ps. entry_ok U H loc T i e)
     \<and> length (filter (\<lambda>(i, e). waiting e) ps) \<le> maximumPendingPairings"

text \<open>Consent to a pin: its ceremony was registered and confirmed here, and the peer's confirmation arrived.\<close>

definition consented :: "casing \<Rightarrow> digest_fun \<Rightarrow> local_device \<Rightarrow> pairing_event list \<Rightarrow> peer \<Rightarrow> bool" where
  "consented U H loc T q \<longleftrightarrow>
     (\<exists>c v. Registered (pePairID q) c \<in> set T \<and> ceremony U H loc c v (peConnectivitySecret q)
        \<and> paID v = pePairID q \<and> paPeerID v = peDeviceID q \<and> paPeerPublicKey v = pePublicKey q \<and> paPeerRole v = peRole q)
     \<and> LocallyConfirmed (pePairID q) \<in> set T \<and> remotely_confirmed T (pePairID q)"

fun task_ok :: "casing \<Rightarrow> digest_fun \<Rightarrow> local_device \<Rightarrow> pairing_event list \<Rightarrow> task \<Rightarrow> bool" where
  "task_ok U H loc T (Registering c v secret) =
    (ceremony U H loc c v secret \<and> pairing_identity U H v \<and> paState v = PairingWaiting \<and> paFailure v = []
     \<and> \<not> paLocalConfirmed v \<and> \<not> paRemoteConfirmed v)"
| "task_ok U H loc T (Monitoring c i) = (Registered i c \<in> set T)"
| "task_ok U H loc T (Checking c i) = (Registered i c \<in> set T)"
| "task_ok U H loc T (Confirming e) = True"
| "task_ok U H loc T (Rejecting e) = True"
| "task_ok U H loc T (Claiming i k) = (\<forall>c. k = Some c \<longrightarrow> Registered i c \<in> set T)"
| "task_ok U H loc T (Storing i e k) =
    (entry_ok U H loc T i e \<and> paLocalConfirmed (pnValue e) \<and> paRemoteConfirmed (pnValue e)
     \<and> (\<forall>c. k = Some c \<longrightarrow> Registered i c \<in> set T))"
| "task_ok U H loc T (Recording i c r k) =
    ((r = Inr () \<longrightarrow> LocallyConfirmed i \<in> set T \<and> remotely_confirmed T i) \<and> (\<forall>c. k = Some c \<longrightarrow> Registered i c \<in> set T))"
| "task_ok U H loc T (Announcing i c k) = (\<forall>c. k = Some c \<longrightarrow> Registered i c \<in> set T)"

definition pinned_before :: "casing \<Rightarrow> digest_fun \<Rightarrow> trust_db \<Rightarrow> peer \<Rightarrow> bool" where
  "pinned_before U H d q \<longleftrightarrow> (\<exists>k p. Trust_Get U H d k = Inr p \<and> peState p = StateActive \<and> same_pin q p)"

definition pins_explained :: "casing \<Rightarrow> digest_fun \<Rightarrow> pairing_service \<Rightarrow> pairing_event list \<Rightarrow> trust_db \<Rightarrow> bool" where
  "pins_explained U H s0 T d \<longleftrightarrow> pins_ok U H d \<and> (\<forall>k q. Trust_Get U H d k = Inr q \<longrightarrow> peState q = StateActive \<longrightarrow>
     pinned_before U H (svRepository s0) q \<or> consented U H (svLocal s0) T q)"

definition world_ok :: "casing \<Rightarrow> digest_fun \<Rightarrow> pairing_service \<Rightarrow> world \<Rightarrow> bool" where
  "world_ok U H s0 w \<longleftrightarrow> svLocal (wService w) = svLocal s0
     \<and> pairings_ok U H (svLocal s0) (wTrace w) (svPairings (wService w))
     \<and> (\<forall>t\<in>set (wTasks w). task_ok U H (svLocal s0) (wTrace w) t)
     \<and> pins_explained U H s0 (wTrace w) (svRepository (wService w))"

subsection \<open>Entries\<close>

lemma remotely_confirmed_mono: "remotely_confirmed T i \<Longrightarrow> remotely_confirmed (T @ T') i"
  by (auto simp: remotely_confirmed_def)

lemma state_ok_mono: "state_ok T v \<Longrightarrow> state_ok (T @ T') v"
  by (auto simp: state_ok_def remotely_confirmed_mono split: pairing_state.splits)

lemma entry_ok_mono: "entry_ok U H loc T i e \<Longrightarrow> entry_ok U H loc (T @ T') i e"
  by (auto simp: entry_ok_def remotely_confirmed_mono state_ok_mono)

lemma pairings_ok_mono: "pairings_ok U H loc T ps \<Longrightarrow> pairings_ok U H loc (T @ T') ps"
  by (auto simp: pairings_ok_def entry_ok_mono)

lemma consented_mono: "consented U H loc T q \<Longrightarrow> consented U H loc (T @ T') q"
  by (auto simp: consented_def remotely_confirmed_mono)

lemma task_ok_mono: "task_ok U H loc T t \<Longrightarrow> task_ok U H loc (T @ T') t"
  by (cases t) (auto simp: entry_ok_mono remotely_confirmed_mono)

lemma pins_explained_mono: "pins_explained U H s0 T d \<Longrightarrow> pins_explained U H s0 (T @ T') d"
  unfolding pins_explained_def using consented_mono by blast

lemma ceremony_update [simp]:
  "ceremony U H loc c (v\<lparr>paState := st\<rparr>) secret = ceremony U H loc c v secret"
  "ceremony U H loc c (v\<lparr>paFailure := f\<rparr>) secret = ceremony U H loc c v secret"
  "ceremony U H loc c (v\<lparr>paLocalConfirmed := b\<rparr>) secret = ceremony U H loc c v secret"
  "ceremony U H loc c (v\<lparr>paRemoteConfirmed := b\<rparr>) secret = ceremony U H loc c v secret"
  by (simp_all add: ceremony_def)

lemma pairing_identity_update [simp]:
  "pairing_identity U H (v\<lparr>paState := st\<rparr>) = pairing_identity U H v"
  "pairing_identity U H (v\<lparr>paFailure := f\<rparr>) = pairing_identity U H v"
  "pairing_identity U H (v\<lparr>paLocalConfirmed := b\<rparr>) = pairing_identity U H v"
  "pairing_identity U H (v\<lparr>paRemoteConfirmed := b\<rparr>) = pairing_identity U H v"
  by (simp_all add: pairing_identity_def)

lemmas entry_simps = entry_ok_def state_ok_def waiting_def set_pairing_state_def set_failed_def

lemma entry_flags [simp]:
  "entry_ok U H loc T i (e\<lparr>pnActivating := b\<rparr>) = entry_ok U H loc T i e"
  "entry_ok U H loc T i (e\<lparr>pnLocalCommitted := b\<rparr>) = entry_ok U H loc T i e"
  "entry_ok U H loc T i (e\<lparr>pnRemoteCommitted := b\<rparr>) = entry_ok U H loc T i e"
  "waiting (e\<lparr>pnActivating := b\<rparr>) = waiting e" "waiting (e\<lparr>pnLocalCommitted := b\<rparr>) = waiting e"
  "waiting (e\<lparr>pnRemoteCommitted := b\<rparr>) = waiting e"
  by (simp_all add: entry_ok_def waiting_def)

lemma entry_closed:
  assumes "entry_ok U H loc T i e" "waiting e"
  shows "st = PairingRejected \<or> st = PairingExpired \<Longrightarrow> entry_ok U H loc T i (set_pairing_state st e)"
    and "TrimSpace reason \<noteq> [] \<Longrightarrow> entry_ok U H loc T i (set_failed reason e)"
    and "LocallyConfirmed i \<in> set T \<Longrightarrow> remotely_confirmed T i \<Longrightarrow> entry_ok U H loc T i (set_pairing_state PairingPaired e)"
  using assms by (auto simp: entry_simps)

lemma not_waiting [simp]:
  "\<not> waiting (set_failed reason e)" "waiting (set_pairing_state st e) \<longleftrightarrow> st = PairingWaiting"
  by (simp_all add: waiting_def set_failed_def set_pairing_state_def)

lemma entry_confirmed:
  assumes "entry_ok U H loc T i e" "waiting e"
  shows "LocallyConfirmed i \<in> set T \<Longrightarrow> entry_ok U H loc T i (e\<lparr>pnValue := (pnValue e)\<lparr>paLocalConfirmed := True\<rparr>\<rparr>)"
    and "remotely_confirmed T i \<Longrightarrow> entry_ok U H loc T i (e\<lparr>pnValue := (pnValue e)\<lparr>paRemoteConfirmed := True\<rparr>\<rparr>)"
  using assms by (auto simp: entry_simps)

subsection \<open>Tables\<close>

lemma map_entry_keys [simp]: "map fst (AList.map_entry i f ps) = map fst ps"
  by (induction ps) auto

lemma map_entry_mem:
  assumes "distinct (map fst ps)" "(j, e) \<in> set (AList.map_entry i f ps)"
  shows "\<exists>e0. (j, e0) \<in> set ps \<and> e = (if j = i then f e0 else e0)"
  using assms
proof (induction ps)
  case (Cons p ps)
  then show ?case by (cases p) (force split: if_splits)
qed simp

lemma map_entry_waiting:
  assumes "\<And>e. (i, e) \<in> set ps \<Longrightarrow> waiting (f e) \<Longrightarrow> waiting e"
  shows "length (filter (\<lambda>(i, e). waiting e) (AList.map_entry i f ps)) \<le> length (filter (\<lambda>(i, e). waiting e) ps)"
  using assms
proof (induction ps)
  case (Cons p ps)
  then show ?case by (cases p) (auto simp: le_Suc_eq)
qed simp

lemma pairings_ok_map_entry:
  assumes "pairings_ok U H loc T ps"
    and "\<And>e. (i, e) \<in> set ps \<Longrightarrow> entry_ok U H loc T i e \<Longrightarrow> entry_ok U H loc T i (f e) \<and> (waiting (f e) \<longrightarrow> waiting e)"
  shows "pairings_ok U H loc T (AList.map_entry i f ps)"
  unfolding pairings_ok_def
proof (intro conjI ballI)
  have p: "distinct (map fst ps)" "\<And>j e. (j, e) \<in> set ps \<Longrightarrow> entry_ok U H loc T j e"
    "length (filter (\<lambda>(i, e). waiting e) ps) \<le> maximumPendingPairings"
    using assms(1) by (auto simp: pairings_ok_def)
  show "distinct (map fst (AList.map_entry i f ps))" using p(1) by simp
  show "case x of (j, e) \<Rightarrow> entry_ok U H loc T j e" if "x \<in> set (AList.map_entry i f ps)" for x
    using map_entry_mem [OF p(1), of "fst x" "snd x" i f] that p(2) assms(2) by (fastforce simp: case_prod_unfold split: if_splits)
  show "length (filter (\<lambda>(i, e). waiting e) (AList.map_entry i f ps)) \<le> maximumPendingPairings"
    using map_entry_waiting [of i ps f] p assms(2) by (meson le_trans)
qed

lemma on_entry_fields [simp]:
  "svLocal (on_entry i f s) = svLocal s" "svRepository (on_entry i f s) = svRepository s"
  "svPairings (on_entry i f s) = AList.map_entry i f (svPairings s)"
  by (simp_all add: on_entry_def)

lemma outside_fields [simp]:
  "svLocal (Close_channel c s) = svLocal s" "svRepository (Close_channel c s) = svRepository s"
  "svPairings (Close_channel c s) = svPairings s"
  "svLocal (reportError e s) = svLocal s" "svRepository (reportError e s) = svRepository s"
  "svPairings (reportError e s) = svPairings s"
  "svLocal (SendDecision r c d s) = svLocal s" "svRepository (SendDecision r c d s) = svRepository s"
  "svPairings (SendDecision r c d s) = svPairings s"
  "svLocal (refuse dir c x s) = svLocal s" "svRepository (refuse dir c x s) = svRepository s"
  "svPairings (refuse dir c x s) = svPairings s"
  by (simp_all add: Close_channel_def reportError_def SendDecision_def refuse_def split: option.split)

lemma when_waiting_ok:
  assumes "entry_ok U H loc T i e" "waiting e \<Longrightarrow> entry_ok U H loc T i (f e) \<and> \<not> waiting (f e)"
  shows "entry_ok U H loc T i (when_waiting f e) \<and> (waiting (when_waiting f e) \<longrightarrow> waiting e)"
  using assms by (auto simp: when_waiting_def)

lemma prunePairingsLocked_ok:
  assumes "pairings_ok U H loc T (svPairings s)"
  shows "pairings_ok U H loc T (svPairings (prunePairingsLocked now s))"
    and "svLocal (prunePairingsLocked now s) = svLocal s" "svRepository (prunePairingsLocked now s) = svRepository s"
proof -
  let ?f = "\<lambda>(i, e). (i, expire now e)" and ?ps = "svPairings s"
  have key: "fst \<circ> ?f = fst" by auto
  have w: "length (filter (\<lambda>(i, e). waiting e) (filter p (map ?f qs))) \<le> length (filter (\<lambda>(i, e). waiting e) qs)" for p qs
    by (induction qs) (auto simp: expire_def le_Suc_eq)
  have "distinct (map fst (filter p (map ?f ?ps)))" for p
  proof (rule distinct_map_filter)
    show "distinct (map fst (map ?f ?ps))" using assms by (simp add: pairings_ok_def key)
  qed
  moreover have "entry_ok U H loc T i (expire now e)" if "(i, e) \<in> set ?ps" for i e
  proof -
    have "entry_ok U H loc T i e" using assms that by (auto simp: pairings_ok_def)
    then show ?thesis using entry_closed(1) by (simp add: expire_def)
  qed
  ultimately show "pairings_ok U H loc T (svPairings (prunePairingsLocked now s))"
    using w [of _ ?ps] assms unfolding pairings_ok_def prunePairingsLocked_def by (force intro: le_trans)
qed (simp_all add: prunePairingsLocked_def)

subsection \<open>Operations\<close>

lemma register_value_ok:
  assumes "register_value U H now c dir s = Inr (v, secret)" "dir = DirectionOutbound \<or> dir = DirectionInbound"
  shows "task_ok U H (svLocal s) T (Registering c v secret)"
  using assms
  by (auto simp: register_value_def Let_def result_simps ceremony_def Pairing_Validate_iff case_prod_unfold split: if_splits)

lemma register_locked_ok:
  assumes "pairings_ok U H loc T (svPairings s)" "register_locked now c v secret s = (s', r)"
    and "task_ok U H loc T (Registering c v secret)"
  shows "pairings_ok U H loc (case r of Inl _ \<Rightarrow> T | Inr _ \<Rightarrow> T @ [Registered (paID v) c]) (svPairings s')"
    and "svLocal s' = svLocal s" "svRepository s' = svRepository s"
proof -
  let ?s = "prunePairingsLocked now s" and ?T = "T @ [Registered (paID v) c]"
  note p = prunePairingsLocked_ok [OF assms(1), of now]
  show "pairings_ok U H loc (case r of Inl _ \<Rightarrow> T | Inr _ \<Rightarrow> ?T) (svPairings s')"
  proof (cases r)
    case (Inl e)
    then show ?thesis using assms(2) p(1) by (auto simp: register_locked_def Let_def split: if_splits)
  next
    case (Inr u)
    define e where "e = \<lparr>pnValue = v, pnSecret = secret, pnChannel = c, pnActivating = False, pnLocalCommitted = False, pnRemoteCommitted = False\<rparr>"
    have new: "svPairings s' = svPairings ?s @ [(paID v, e)]" "map_of (svPairings ?s) (paID v) = None"
      "length (filter (\<lambda>(i, e). waiting e) (svPairings ?s)) < maximumPendingPairings"
      using assms(2) Inr by (auto simp: register_locked_def Let_def e_def split: if_splits)
    have "entry_ok U H loc ?T (paID v) e" using assms(3) by (simp add: entry_ok_def e_def state_ok_def)
    moreover have "pairings_ok U H loc ?T (svPairings ?s)" by (rule pairings_ok_mono [OF p(1)])
    moreover have "paID v \<notin> fst ` set (svPairings ?s)" using new(2) by (simp add: map_of_eq_None_iff)
    ultimately show ?thesis using Inr new(1,3) by (auto simp: pairings_ok_def)
  qed
  show "svLocal s' = svLocal s" "svRepository s' = svRepository s"
    using assms(2) p(2,3) by (auto simp: register_locked_def Let_def split: if_splits)
qed

lemma resolve_mem:
  assumes "resolvePairingLocked U fold_rune selector s = Inr (i, e)"
  shows "(i, e) \<in> set (svPairings s)"
proof -
  obtain p where "filter p (svPairings s) \<noteq> []" "hd (filter p (svPairings s)) = (i, e)"
    using assms unfolding resolvePairingLocked_def by (simp add: Let_def split: if_splits)
  then show ?thesis using hd_in_set [of "filter p (svPairings s)"] by simp
qed

lemma updateLocalDecision_ok:
  assumes "pairings_ok U H loc T (svPairings s)" "updateLocalDecision U fold_rune now selector confirmed s = (s', r)"
  shows "pairings_ok U H loc (case r of Inl _ \<Rightarrow> T | Inr e \<Rightarrow> if confirmed then T @ [LocallyConfirmed (paID (pnValue e))] else T)
      (svPairings s')"
    and "svLocal s' = svLocal s" "svRepository s' = svRepository s"
proof -
  let ?s = "prunePairingsLocked now s"
  note p = prunePairingsLocked_ok [OF assms(1), of now]
  show "pairings_ok U H loc (case r of Inl _ \<Rightarrow> T | Inr e \<Rightarrow> if confirmed then T @ [LocallyConfirmed (paID (pnValue e))] else T)
      (svPairings s')"
  proof (cases r)
    case (Inl e)
    then show ?thesis using assms(2) p(1) by (auto simp: updateLocalDecision_def Let_def split: if_splits sum.splits)
  next
    case (Inr e')
    obtain i e where m: "(i, e) \<in> set (svPairings ?s)" and w: "waiting e" and s': "s' = on_entry i (\<lambda>_. e') ?s"
      and e': "e' = (if confirmed then e\<lparr>pnValue := (pnValue e)\<lparr>paLocalConfirmed := True\<rparr>\<rparr> else set_pairing_state PairingRejected e)"
      using assms(2) Inr resolve_mem by (fastforce simp: updateLocalDecision_def Let_def split: if_splits sum.splits)
    define T' where "T' = (if confirmed then T @ [LocallyConfirmed i] else T)"
    have pT: "pairings_ok U H loc T' (svPairings ?s)" using p(1) pairings_ok_mono [OF p(1)] by (simp add: T'_def)
    then have e: "entry_ok U H loc T' i e" using m by (auto simp: pairings_ok_def)
    have ok: "entry_ok U H loc T' i e'" using entry_confirmed(1) [OF e w] entry_closed(1) [OF e w] by (cases confirmed) (simp_all add: e' T'_def)
    have "(i, f) \<in> set (svPairings ?s) \<Longrightarrow> f = e" for f
      using pT m by (auto simp: pairings_ok_def dest: eq_key_imp_eq_value)
    then have "pairings_ok U H loc T' (svPairings s')"
      unfolding s' on_entry_fields by (intro pairings_ok_map_entry [OF pT]) (use ok w in auto)
    moreover have "paID (pnValue e') = i" using ok by (simp add: entry_ok_def)
    ultimately show ?thesis using Inr by (cases confirmed) (simp_all add: T'_def)
  qed
  show "svLocal s' = svLocal s" "svRepository s' = svRepository s"
    using assms(2) p(2,3) by (auto simp: updateLocalDecision_def Let_def split: if_splits sum.splits)
qed

lemma fail_ok:
  assumes "pairings_ok U H loc T (svPairings s)" "TrimSpace (Err e) \<noteq> []"
  shows "pairings_ok U H loc T (svPairings (fail Err i e s))"
  unfolding fail_def on_entry_fields
  by (intro pairings_ok_map_entry [OF assms(1)] when_waiting_ok) (use assms(2) in \<open>simp_all add: entry_closed\<close>)

lemma receive_decision_ok:
  assumes "pairings_ok U H loc T (svPairings s)" "receive_decision Err r c i s = (s', going)" "Registered i c \<in> set T"
    and "\<And>e. TrimSpace (Err e) \<noteq> []"
  shows "pairings_ok U H loc (T @ (case r of Decided d \<Rightarrow> [Heard c d] | ReceiveFailed _ \<Rightarrow> [])) (svPairings s')"
    and "svLocal s' = svLocal s" "svRepository s' = svRepository s"
proof -
  define T' where "T' = T @ (case r of Decided d \<Rightarrow> [Heard c d] | ReceiveFailed _ \<Rightarrow> [])"
  have pT: "pairings_ok U H loc T' (svPairings s)" unfolding T'_def by (rule pairings_ok_mono [OF assms(1)])
  have lost: "TrimSpace ''pairing connection closed before both devices confirmed'' \<noteq> []" by code_simp
  have "pairings_ok U H loc T' (svPairings s')"
  proof (cases "\<exists>d. r = Decided d \<and> dePairingID d = i \<and> deConfirmed d")
    case True
    then obtain d where d: "r = Decided d" "dePairingID d = i" "deConfirmed d" by blast
    have rc: "remotely_confirmed T' i" using d assms(3) by (auto simp: remotely_confirmed_def T'_def)
    have w: "waiting (e\<lparr>pnValue := (pnValue e)\<lparr>paRemoteConfirmed := True\<rparr>\<rparr>) = waiting e" for e by (simp add: waiting_def)
    have "svPairings s' = AList.map_entry i (\<lambda>e.
             let e1 = (if waiting e then e\<lparr>pnValue := (pnValue e)\<lparr>paRemoteConfirmed := True\<rparr>\<rparr> else e)
             in if deCommitted d then e1\<lparr>pnRemoteCommitted := True\<rparr> else e1) (svPairings s)"
      using assms(2) d by (auto simp: receive_decision_def)
    then show ?thesis
      using pairings_ok_map_entry [OF pT] entry_confirmed(2) [OF _ _ rc] w by (simp add: Let_def)
  next
    case False
    then show ?thesis
      using assms(2) fail_ok [where Err = Err, OF pT assms(4)] pT entry_closed lost
      by (auto simp: receive_decision_def split: received.splits if_splits intro!: pairings_ok_map_entry when_waiting_ok)
  qed
  then show "pairings_ok U H loc (T @ (case r of Decided d \<Rightarrow> [Heard c d] | ReceiveFailed _ \<Rightarrow> [])) (svPairings s')"
    by (simp add: T'_def)
  show "svLocal s' = svLocal s" "svRepository s' = svRepository s"
    using assms(2) by (auto simp: receive_decision_def fail_def split: received.splits if_splits)
qed

lemma activate_claim_ok:
  assumes "pairings_ok U H loc T (svPairings s)" "activate_claim i s = (s', k)"
  shows "pairings_ok U H loc T (svPairings s')" "svLocal s' = svLocal s" "svRepository s' = svRepository s"
    and "\<And>e. k = Some e \<Longrightarrow> entry_ok U H loc T i e \<and> paLocalConfirmed (pnValue e) \<and> paRemoteConfirmed (pnValue e)"
proof -
  have mem: "entry_ok U H loc T i e" if "map_of (svPairings s) i = Some e" for e
    using assms(1) map_of_SomeD [OF that] by (auto simp: pairings_ok_def)
  show "pairings_ok U H loc T (svPairings s')"
    using assms pairings_ok_map_entry [OF assms(1), of i "\<lambda>e. e\<lparr>pnActivating := True\<rparr>"]
    by (auto simp: activate_claim_def split: option.splits if_splits)
  show "svLocal s' = svLocal s" "svRepository s' = svRepository s"
    using assms(2) by (auto simp: activate_claim_def split: option.splits if_splits)
  show "entry_ok U H loc T i e \<and> paLocalConfirmed (pnValue e) \<and> paRemoteConfirmed (pnValue e)" if "k = Some e" for e
    using assms(2) that mem by (auto simp: activate_claim_def split: option.splits if_splits)
qed

lemma activate_record_ok:
  assumes "pairings_ok U H loc T (svPairings s)" "task_ok U H loc T (Recording i c r k)" "\<And>e. TrimSpace (Err e) \<noteq> []"
  shows "pairings_ok U H loc T (svPairings (activate_record Err i c r s))"
    and "svLocal (activate_record Err i c r s) = svLocal s" "svRepository (activate_record Err i c r s) = svRepository s"
proof -
  show "pairings_ok U H loc T (svPairings (activate_record Err i c r s))"
  proof (cases r)
    case (Inl err)
    then show ?thesis
      using assms(1,3) by (auto simp: activate_record_def intro!: pairings_ok_map_entry when_waiting_ok entry_closed(2))
  next
    case (Inr u)
    then show ?thesis
      using assms(1,2) by (auto simp: activate_record_def intro!: pairings_ok_map_entry when_waiting_ok entry_closed(3))
  qed
qed (simp_all add: activate_record_def split: sum.split)

lemma activate_announce_fields [simp]:
  "svLocal (activate_announce r i c s) = svLocal s" "svRepository (activate_announce r i c s) = svRepository s"
  "svPairings (activate_announce r i c s) = svPairings s"
  by (simp_all add: activate_announce_def Let_def split: option.split)

lemma resumed_ok: "(\<And>c. k = Some c \<Longrightarrow> Registered i c \<in> set T) \<Longrightarrow> t \<in> set (resumed i k) \<Longrightarrow> task_ok U H loc T t"
  by (auto simp: resumed_def split: option.splits)

lemma same_pin_consented: "same_pin a b \<Longrightarrow> consented U H loc T b \<Longrightarrow> consented U H loc T a"
  by (simp add: consented_def same_pin_def)

lemma same_pin_before: "same_pin a b \<Longrightarrow> pinned_before U H d b \<Longrightarrow> pinned_before U H d a"
  by (fastforce simp: pinned_before_def same_pin_def)

lemma activated_consented:
  assumes "entry_ok U H loc T i e" "LocallyConfirmed i \<in> set T" "remotely_confirmed T i"
  shows "consented U H loc T (activated_peer now e)"
  using assms by (auto simp: consented_def entry_ok_def activated_peer_def Let_def)

lemma explained_pin:
  "same_pin a b \<Longrightarrow> pinned_before U H d b \<or> consented U H loc T b \<Longrightarrow> pinned_before U H d a \<or> consented U H loc T a"
  using same_pin_before same_pin_consented by blast

lemma activate_store_ok:
  assumes "pins_explained U H s0 T (svRepository s)" "activate_store U H now e s = (s', r)"
    and "task_ok U H (svLocal s0) T (Storing i e k)"
  shows "pins_explained U H s0 T (svRepository s')" "svLocal s' = svLocal s" "svPairings s' = svPairings s"
proof -
  obtain d where d: "Activate U H (activated_peer now e) (svRepository s) = (d, r)" "s' = s\<lparr>svRepository := d\<rparr>"
    using assms(2) by (auto simp: activate_store_def Let_def split: prod.splits)
  then show "svLocal s' = svLocal s" "svPairings s' = svPairings s" by simp_all
  have ok: "pins_ok U H (svRepository s)" using assms(1) by (simp add: pins_explained_def)
  have c: "consented U H (svLocal s0) T (activated_peer now e)"
    using assms(3) by (intro activated_consented [of U H _ T i]) (auto simp: entry_ok_def)
  show "pins_explained U H s0 T (svRepository s')"
    unfolding pins_explained_def
  proof (intro conjI allI impI)
    show "pins_ok U H (svRepository s')" using sqlite_trust.activate_ok [OF ok d(1)] d(2) by simp
    show "pinned_before U H (svRepository s0) q \<or> consented U H (svLocal s0) T q"
      if "Trust_Get U H (svRepository s') j = Inr q" "peState q = StateActive" for j q
      by (rule sqlite_trust.activate_pins [OF ok d(1) _ _ _ _ that(2)])
        (use c that d(2) assms(1) explained_pin in \<open>auto simp: pins_explained_def\<close>)
  qed
qed

lemma Unpair_ok:
  assumes "pins_explained U H s0 T (svRepository s)" "Unpair U H now selector s = (s', r)"
  shows "pins_explained U H s0 T (svRepository s')" "svLocal s' = svLocal s" "svPairings s' = svPairings s"
proof -
  have ok: "pins_ok U H (svRepository s)" using assms(1) by (simp add: pins_explained_def)
  have "s' = s \<or> (\<exists>i d x. Revoke U H i now (svRepository s) = (d, x) \<and> s' = s\<lparr>svRepository := d\<rparr>)"
    using assms(2) by (auto simp: Unpair_def Let_def split: sum.splits list.splits prod.splits)
  then show "pins_explained U H s0 T (svRepository s')" "svLocal s' = svLocal s" "svPairings s' = svPairings s"
    using assms(1) sqlite_trust.revoke_ok [OF ok] sqlite_trust.revoke_active [OF ok] unfolding pins_explained_def by fastforce+
qed

lemma update_all_hints_ok:
  "pins_explained U H s0 T d \<Longrightarrow> update_all_hints U H hs d = (d', r) \<Longrightarrow> pins_explained U H s0 T d'"
proof (induction hs arbitrary: d)
  case (Cons x hs)
  obtain i h where x: "x = (i, h)" by fastforce
  obtain d1 y where u: "UpdateHints U H i h d = (d1, y)" by fastforce
  have ok: "pins_ok U H d" using Cons.prems by (simp add: pins_explained_def)
  have "pins_explained U H s0 T d1"
    unfolding pins_explained_def
  proof (intro conjI allI impI)
    show "pins_ok U H d1" by (rule sqlite_trust.hints_ok [OF ok u])
    show "pinned_before U H (svRepository s0) q \<or> consented U H (svLocal s0) T q"
      if "Trust_Get U H d1 k = Inr q" "peState q = StateActive" for k q
      by (rule sqlite_trust.hints_pins [OF ok u _ _ that])
        (use Cons.prems(1) explained_pin in \<open>auto simp: pins_explained_def\<close>)
  qed
  then show ?case using Cons.IH Cons.prems(2) x u by (auto split: sum.splits)
qed simp

lemma RefreshTrustedHints_ok:
  assumes "pins_explained U H s0 T (svRepository s)" "RefreshTrustedHints U H devices s = (s', r)"
  shows "pins_explained U H s0 T (svRepository s')" "svLocal s' = svLocal s" "svPairings s' = svPairings s"
  using assms update_all_hints_ok [OF assms(1)]
  by (auto simp: RefreshTrustedHints_def split: sum.splits prod.splits)

subsection \<open>Runs\<close>

lemma world_okI:
  assumes "svLocal s = svLocal s0" "pairings_ok U H (svLocal s0) T (svPairings s)"
    "\<And>t. t \<in> set ts \<Longrightarrow> task_ok U H (svLocal s0) T t" "pins_explained U H s0 T (svRepository s)"
  shows "world_ok U H s0 \<lparr>wService = s, wTasks = ts, wTrace = T\<rparr>"
  using assms by (simp add: world_ok_def)

text \<open>A step of one task, for the part of the world it sees.\<close>

lemma run_task_ok:
  assumes l: "svLocal s = svLocal s0" and p: "pairings_ok U H (svLocal s0) T (svPairings s)"
    and t: "task_ok U H (svLocal s0) T t" and d: "pins_explained U H s0 T (svRepository s)"
    and Err: "\<And>e. TrimSpace (Err e) \<noteq> []" and run: "run_task U H Err m t s = (s', ts)"
  defines "T' \<equiv> T @ observed t m ts"
  shows "svLocal s' = svLocal s0 \<and> pairings_ok U H (svLocal s0) T' (svPairings s')
    \<and> (\<forall>t\<in>set ts. task_ok U H (svLocal s0) T' t) \<and> pins_explained U H s0 T' (svRepository s')"
proof -
  note d' = pins_explained_mono [OF d, of "observed t m ts", folded T'_def]
  show ?thesis
  proof (cases t)
    case (Registering c v secret)
    then obtain s1 r where r: "register_locked (mNow m) c v secret s = (s1, r)" by fastforce
    note ok = register_locked_ok [OF p r t [unfolded Registering]]
    show ?thesis
      using run ok l d' Registering r by (cases r) (auto simp: T'_def observed_def)
  next
    case (Monitoring c i)
    then obtain s1 b where r: "receive_decision Err (mReceived m) c i s = (s1, b)" by fastforce
    have g: "Registered i c \<in> set T" using t Monitoring by simp
    note ok = receive_decision_ok [where Err = Err, OF p r g Err]
    have T': "T' = T @ (case mReceived m of Decided d \<Rightarrow> [Heard c d] | ReceiveFailed _ \<Rightarrow> [])"
      using Monitoring by (simp add: T'_def observed_def)
    show ?thesis using run r ok l d' g Monitoring unfolding T' by (cases b) auto
  next
    case (Confirming e)
    then show ?thesis
      using run l p d fail_ok [where Err = Err, OF p Err]
      by (auto simp: T'_def observed_def sendDecision_def fail_def Let_def split: option.splits)
  next
    case (Claiming i k)
    then obtain s1 x where r: "activate_claim i s = (s1, x)" by fastforce
    note ok = activate_claim_ok [OF p r]
    have "T' = T" using Claiming by (simp add: T'_def observed_def)
    then show ?thesis using run r ok l d t Claiming resumed_ok [of k i T] by (cases x) auto
  next
    case (Storing i e k)
    then obtain s1 r where r: "activate_store U H (mNow m) e s = (s1, r)" by fastforce
    note ok = activate_store_ok [OF d r t [unfolded Storing]]
    have "T' = T" using Storing by (simp add: T'_def observed_def)
    then show ?thesis using run r ok l p t Storing by (auto simp: entry_ok_def)
  next
    case (Recording i c r k)
    note ok = activate_record_ok [where Err = Err, OF p t [unfolded Recording] Err]
    have "T' = T" using Recording by (simp add: T'_def observed_def)
    then show ?thesis using run ok l d t Recording resumed_ok [of k i T] by (cases r) auto
  next
    case (Announcing i c k)
    then show ?thesis
      using run l p d t resumed_ok [of k i T] by (auto simp: T'_def observed_def)
  qed (use run l p d t in \<open>auto simp: T'_def observed_def sendDecision_def split: if_splits\<close>)
qed

lemma pairing_run_ok:
  assumes "pairing_run U H fold_rune Err s0 w" "svPairings s0 = []" "pins_ok U H (svRepository s0)" "\<And>e. TrimSpace (Err e) \<noteq> []"
  shows "world_ok U H s0 w"
  using assms(1)
proof (induction rule: pairing_run.induct)
  case start
  show ?case
    by (rule world_okI) (use assms(2,3) in \<open>auto simp: pairings_ok_def pins_explained_def pinned_before_def intro: same_pin_refl\<close>)
next
  case (request w dir now c v secret)
  have "svLocal (wService w) = svLocal s0" using request by (simp add: world_ok_def)
  then show ?case using request register_value_ok [OF request(3,2)] by (auto simp: world_ok_def)
next
  case (request_fails w now c dir e)
  then show ?case by (simp add: world_ok_def)
next
  case (confirm w now selector s e)
  have p: "pairings_ok U H (svLocal s0) (wTrace w) (svPairings (wService w))" using confirm by (simp add: world_ok_def)
  note ok = updateLocalDecision_ok [OF p confirm(2)]
  show ?case
    using confirm ok by (intro world_okI) (auto simp: world_ok_def task_ok_mono pins_explained_mono)
next
  case (reject w now selector s e)
  then show ?case using updateLocalDecision_ok [OF _ reject(2)] by (auto simp: world_ok_def)
next
  case (decision_fails w now selector confirmed s e)
  then show ?case using updateLocalDecision_ok [OF _ decision_fails(2)] by (auto simp: world_ok_def)
next
  case (pairings w now s vs)
  then show ?case using prunePairingsLocked_ok by (auto simp: world_ok_def ListPairings_def Let_def)
next
  case (unpair w now selector s r)
  then show ?case using Unpair_ok [OF _ unpair(2)] by (auto simp: world_ok_def)
next
  case (refresh w devices s ps)
  then show ?case using RefreshTrustedHints_ok [OF _ refresh(2)] by (auto simp: world_ok_def)
next
  case (work w before t after m s ts)
  note step = run_task_ok [where Err = Err, OF _ _ _ _ assms(4) work(3)]
  have "svLocal s = svLocal s0 \<and> pairings_ok U H (svLocal s0) (wTrace w @ observed t m ts) (svPairings s)
    \<and> (\<forall>t'\<in>set ts. task_ok U H (svLocal s0) (wTrace w @ observed t m ts) t')
    \<and> pins_explained U H s0 (wTrace w @ observed t m ts) (svRepository s)"
    by (rule step) (use work in \<open>auto simp: world_ok_def\<close>)
  then show ?case
    using work by (intro world_okI) (auto simp: world_ok_def task_ok_mono)
qed

section \<open>Operations as runs\<close>

text \<open>The operations that hold the lock several times are runs in which no other task interferes.\<close>

lemma run_last:
  assumes "pairing_run U H fold_rune Err s0 \<lparr>wService = s, wTasks = ts @ [t], wTrace = T\<rparr>" "run_task U H Err m t s = (s', ts')"
  shows "pairing_run U H fold_rune Err s0 \<lparr>wService = s', wTasks = ts @ ts', wTrace = T @ observed t m ts'\<rparr>"
  using pairing_run.work [OF assms(1), of ts t "[]" m s' ts'] assms(2) by simp

lemma maybeActivate_run:
  assumes w: "pairing_run U H fold_rune Err s0 \<lparr>wService = s, wTasks = ts @ [Claiming i k], wTrace = T\<rparr>"
  shows "pairing_run U H fold_rune Err s0 \<lparr>wService = maybeActivate U H Err m i s, wTasks = ts @ resumed i k, wTrace = T\<rparr>"
proof -
  obtain s1 x where c: "activate_claim i s = (s1, x)" by fastforce
  show ?thesis
  proof (cases x)
    case None
    then show ?thesis using run_last [OF w, of m s1 "resumed i k"] c by (simp add: maybeActivate_def observed_def)
  next
    case (Some e)
    obtain s2 r where st: "activate_store U H (mNow m) e s1 = (s2, r)" by fastforce
    have "pairing_run U H fold_rune Err s0 \<lparr>wService = s1, wTasks = ts @ [Storing i e k], wTrace = T\<rparr>"
      using run_last [OF w, of m s1 "[Storing i e k]"] c Some by (simp add: observed_def)
    from run_last [OF this, of m s2 "[Recording i (pnChannel e) r k]"] st
    have rec: "pairing_run U H fold_rune Err s0 \<lparr>wService = s2, wTasks = ts @ [Recording i (pnChannel e) r k], wTrace = T\<rparr>"
      by (simp add: observed_def)
    let ?s3 = "activate_record Err i (pnChannel e) r s2"
    show ?thesis
    proof (cases r)
      case (Inl err)
      then show ?thesis
        using run_last [OF rec, of m ?s3 "resumed i k"] c Some st by (simp add: maybeActivate_def observed_def)
    next
      case (Inr u)
      then have "pairing_run U H fold_rune Err s0 \<lparr>wService = ?s3, wTasks = ts @ [Announcing i (pnChannel e) k], wTrace = T\<rparr>"
        using run_last [OF rec, of m ?s3 "[Announcing i (pnChannel e) k]"] by (simp add: observed_def)
      from run_last [OF this, of m "activate_announce (mSend m) i (pnChannel e) ?s3" "resumed i k"]
      show ?thesis using c Some st Inr by (simp add: maybeActivate_def observed_def)
    qed
  qed
qed

lemma Confirm_run:
  assumes "pairing_run U H fold_rune Err s0 \<lparr>wService = s, wTasks = ts, wTrace = T\<rparr>"
    "Confirm U H fold_rune Err m m2 selector s = (s', r)"
  obtains T' where "pairing_run U H fold_rune Err s0 \<lparr>wService = s', wTasks = ts, wTrace = T @ T'\<rparr>"
proof -
  obtain s1 x where u: "updateLocalDecision U fold_rune (mNow m) selector True s = (s1, x)" by fastforce
  show thesis
  proof (cases x)
    case (Inl e)
    then show thesis
      using that [of "[]"] pairing_run.decision_fails [OF assms(1), of "mNow m" selector True s1 e] u assms(2)
      by (simp add: Confirm_def)
  next
    case (Inr e)
    let ?i = "paID (pnValue e)"
    let ?d = "\<lparr>dePairingID = ?i, deConfirmed = True, deCommitted = False\<rparr>"
    let ?T = "T @ [LocallyConfirmed ?i]"
    have c: "pairing_run U H fold_rune Err s0 \<lparr>wService = s1, wTasks = ts @ [Confirming e], wTrace = ?T\<rparr>"
      using pairing_run.confirm [OF assms(1), of "mNow m" selector s1 e] u Inr by simp
    show thesis
    proof (cases "mSend m")
      case None
      let ?s2 = "SendDecision None (pnChannel e) ?d s1"
      have "pairing_run U H fold_rune Err s0 \<lparr>wService = ?s2, wTasks = ts @ [Claiming ?i None], wTrace = ?T\<rparr>"
        using run_last [OF c, of m ?s2 "[Claiming ?i None]"] None by (simp add: sendDecision_def Let_def observed_def)
      from maybeActivate_run [OF this, of m2] show thesis
        using that [of "[LocallyConfirmed ?i]"] assms(2) u Inr None
        by (simp add: Confirm_def sendDecision_def Let_def resumed_def)
    next
      case (Some err)
      let ?s2 = "fail Err ?i err (SendDecision (Some err) (pnChannel e) ?d s1)"
      have "pairing_run U H fold_rune Err s0 \<lparr>wService = ?s2, wTasks = ts @ [], wTrace = ?T\<rparr>"
        using run_last [OF c, of m ?s2 "[]"] Some by (simp add: sendDecision_def Let_def observed_def)
      then show thesis
        using that [of "[LocallyConfirmed ?i]"] assms(2) u Inr Some by (simp add: Confirm_def sendDecision_def Let_def)
    qed
  qed
qed

lemma monitor_run:
  assumes "pairing_run U H fold_rune Err s0 \<lparr>wService = s, wTasks = ts @ [Monitoring c i], wTrace = T\<rparr>"
  shows "\<exists>ts' T'. pairing_run U H fold_rune Err s0 \<lparr>wService = monitor U H Err c i ms s, wTasks = ts @ ts', wTrace = T @ T'\<rparr>
    \<and> (ts' = [] \<or> ts' = [Monitoring c i])"
  using assms
proof (induction ms arbitrary: s T)
  case Nil
  then show ?case by (intro exI [of _ "[Monitoring c i]"] exI [of _ "[]"]) simp
next
  case (Cons m ms)
  obtain s1 b where r: "receive_decision Err (mReceived m) c i s = (s1, b)" by fastforce
  show ?case
  proof (cases b)
    case False
    then show ?thesis
      using run_last [OF Cons.prems, of m s1 "[]"] r
      by (intro exI [of _ "[]"] exI [of _ "observed (Monitoring c i) m []"]) simp
  next
    case True
    let ?T = "T @ observed (Monitoring c i) m [Claiming i (Some c)]"
    let ?s2 = "maybeActivate U H Err m i s1"
    have "pairing_run U H fold_rune Err s0 \<lparr>wService = s1, wTasks = ts @ [Claiming i (Some c)], wTrace = ?T\<rparr>"
      using run_last [OF Cons.prems, of m s1 "[Claiming i (Some c)]"] r True by simp
    from maybeActivate_run [OF this, of m]
    have chk: "pairing_run U H fold_rune Err s0 \<lparr>wService = ?s2, wTasks = ts @ [Checking c i], wTrace = ?T\<rparr>"
      by (simp add: resumed_def)
    show ?thesis
    proof (cases "ceremony_over i ?s2")
      case over: True
      then have "pairing_run U H fold_rune Err s0 \<lparr>wService = Close_channel c ?s2, wTasks = ts @ [], wTrace = ?T\<rparr>"
        using run_last [OF chk, of m "Close_channel c ?s2" "[]"] by (simp add: observed_def)
      then show ?thesis
        using r True over
        by (intro exI [of _ "[]"] exI [of _ "observed (Monitoring c i) m [Claiming i (Some c)]"]) (simp add: Let_def)
    next
      case going: False
      then have "pairing_run U H fold_rune Err s0 \<lparr>wService = ?s2, wTasks = ts @ [Monitoring c i], wTrace = ?T\<rparr>"
        using run_last [OF chk, of m ?s2 "[Monitoring c i]"] by (simp add: observed_def)
      from Cons.IH [OF this] show ?thesis using r True going by (auto simp: Let_def)
    qed
  qed
qed

text \<open>A schedule that can be executed.\<close>

datatype move =
    Request direction time channel
  | Decide bool time string
  | Show time
  | Work nat moment

fun play_move ::
    "casing \<Rightarrow> digest_fun \<Rightarrow> (nat \<Rightarrow> nat \<Rightarrow> bool) \<Rightarrow> (goerror \<Rightarrow> string) \<Rightarrow> move \<Rightarrow> world \<Rightarrow> world" where
  "play_move U H fold_rune Err (Request dir now c) w =
    (if dir \<noteq> DirectionOutbound \<and> dir \<noteq> DirectionInbound then w
     else (case register_value U H now c dir (wService w) of
       Inl e \<Rightarrow> w\<lparr>wService := refuse dir c e (wService w)\<rparr>
     | Inr (v, secret) \<Rightarrow> w\<lparr>wTasks := wTasks w @ [Registering c v secret]\<rparr>))"
| "play_move U H fold_rune Err (Decide confirmed now selector) w =
    (case updateLocalDecision U fold_rune now selector confirmed (wService w) of
       (s, Inl e) \<Rightarrow> w\<lparr>wService := s\<rparr>
     | (s, Inr e) \<Rightarrow>
         if confirmed then \<lparr>wService = s, wTasks = wTasks w @ [Confirming e],
            wTrace = wTrace w @ [LocallyConfirmed (paID (pnValue e))]\<rparr>
         else w\<lparr>wService := s, wTasks := wTasks w @ [Rejecting e]\<rparr>)"
| "play_move U H fold_rune Err (Show now) w = w\<lparr>wService := fst (ListPairings now (wService w))\<rparr>"
| "play_move U H fold_rune Err (Work n m) w =
    (if n < length (wTasks w)
     then let t = wTasks w ! n; (s, ts) = run_task U H Err m t (wService w) in
       \<lparr>wService = s, wTasks = take n (wTasks w) @ ts @ drop (Suc n) (wTasks w), wTrace = wTrace w @ observed t m ts\<rparr>
     else w)"

lemma play_move_run:
  assumes "pairing_run U H fold_rune Err s0 w"
  shows "pairing_run U H fold_rune Err s0 (play_move U H fold_rune Err mv w)"
proof (cases mv)
  case (Request dir now c)
  then show ?thesis
    using assms pairing_run.request [OF assms, of dir now c] pairing_run.request_fails [OF assms, of now c dir]
    by (auto split: sum.splits)
next
  case (Decide confirmed now selector)
  then show ?thesis
    using pairing_run.confirm [OF assms, of now selector] pairing_run.reject [OF assms, of now selector]
      pairing_run.decision_fails [OF assms, of now selector confirmed]
    by (cases "updateLocalDecision U fold_rune now selector confirmed (wService w)") (auto split: sum.splits)
next
  case (Show now)
  then show ?thesis using pairing_run.pairings [OF assms, of now] by (cases "ListPairings now (wService w)") auto
next
  case (Work n m)
  then show ?thesis
    using assms pairing_run.work [OF assms id_take_nth_drop [of n "wTasks w"], of m]
    by (auto simp: Let_def split: prod.split)
qed

definition play ::
    "casing \<Rightarrow> digest_fun \<Rightarrow> (nat \<Rightarrow> nat \<Rightarrow> bool) \<Rightarrow> (goerror \<Rightarrow> string) \<Rightarrow> move list \<Rightarrow> pairing_service \<Rightarrow> world" where
  "play U H fold_rune Err moves s0 =
    fold (play_move U H fold_rune Err) moves \<lparr>wService = s0, wTasks = [], wTrace = []\<rparr>"

lemma play_run: "pairing_run U H fold_rune Err s0 (play U H fold_rune Err moves s0)"
proof -
  have "pairing_run U H fold_rune Err s0 w \<Longrightarrow> pairing_run U H fold_rune Err s0 (fold (play_move U H fold_rune Err) moves w)" for w
    by (induction moves arbitrary: w) (simp_all add: play_move_run)
  then show ?thesis unfolding play_def using pairing_run.start by blast
qed

section \<open>Properties\<close>

lemma check_roles_iff:
  assumes "r = RoleWorker \<or> r = RoleOrchestrator"
  shows "check_roles r ps = Inr () \<longleftrightarrow>
    (\<forall>p\<in>set ps. peState p = StateActive \<longrightarrow> peRole p = (if r = RoleWorker then RoleOrchestrator else RoleWorker))"
  using assms by (induction ps) auto

lemma ValidateLocalRole_iff:
  assumes "pins_ok U H d" "r = RoleWorker \<or> r = RoleOrchestrator"
  shows "ValidateLocalRole U H r d = Inr () \<longleftrightarrow>
    (\<forall>k q. Trust_Get U H d k = Inr q \<longrightarrow> peState q = StateActive \<longrightarrow>
       peRole q = (if r = RoleWorker then RoleOrchestrator else RoleWorker))"
proof -
  obtain ps where ps: "Trust_List U H d = Inr ps" using sqlite_trust.list_ok [OF assms(1)] by (auto simp: is_ok_iff)
  have "ValidateLocalRole U H r d = check_roles r ps" using ps assms(2) by (auto simp: ValidateLocalRole_def)
  moreover have "p \<in> set ps \<longleftrightarrow> (\<exists>k. Trust_Get U H d k = Inr p)" for p
    using sqlite_trust.list_get [OF assms(1) ps, of p] sqlite_trust.get_listed [OF assms(1) ps, of _ p] by blast
  ultimately show ?thesis by (simp only: check_roles_iff [OF assms(2)] Ball_def) blast
qed

lemma NewPairingService_Inr:
  assumes "NewPairingService U H loc lifetime d = Inr s"
  shows "svPairings s = []" "svLocal s = loc" "svRepository s = d" "ValidateLocalRole U H (ldRole loc) d = Inr ()"
    and "ldRole loc = RoleWorker \<or> ldRole loc = RoleOrchestrator" "60 * 10 ^ 9 \<le> svLifetime s"
    and "LocalDevice_Validate U H loc = Inr ()" "svSent s = []"
  using assms
  by (auto simp: NewPairingService_def Let_def result_simps LocalDevice_Validate_def is_ok_unit_iff split: if_splits)

lemma reachable_pins_ok: "trust_reachable U H d \<Longrightarrow> (\<And>x. length (H x) = 32) \<Longrightarrow> pins_ok U H d"
  using trust_reachable_ok [of U H d] by (simp add: pins_ok_def digest_ok_def)

text \<open>The local device of the examples, the peer at the other end and the events of a ceremony between them.\<close>

definition sample_local :: local_device where
  "sample_local = \<lparr>ldIdentity = \<lparr>id_id = encode_lower plain_casing (replicate 32 2), id_publicKey = replicate 32 2,
     id_privateKey = replicate 32 0 @ replicate 32 2\<rparr>, ldName = ''box'', ldRole = RoleWorker,
     ldPresenceID = replicate 26 CHR ''a''\<rparr>"

definition sample_channel :: channel where
  "sample_channel = \<lparr>chHandle = 1, chPeer = \<lparr>spID = encode_lower plain_casing (replicate 32 1), spPublicKey = replicate 32 1,
     spName = ''desk'', spRole = RoleOrchestrator, spPresenceID = replicate 26 CHR ''b''\<rparr>, chBinding = replicate 32 9\<rparr>"

definition sample_service :: pairing_service where
  "sample_service = \<lparr>svLocal = sample_local, svLifetime = 300000000000, svRepository = empty_trust, svPairings = [],
     svSent = [], svClosed = [], svReported = []\<rparr>"

lemma sample_service_new: "NewPairingService plain_casing sample_digest sample_local 0 empty_trust = Inr sample_service"
  by code_simp

definition sample_pair_id :: pair_id where
  "sample_pair_id = encode_lower plain_casing (bytes_of ''pair-id'' @ [0] @ bytes_of ''ComputeH'')"

definition hears :: "pairing_decision \<Rightarrow> moment" where
  "hears d = \<lparr>mNow = 200, mSend = None, mReceived = Decided d\<rparr>"

definition sample_error :: "goerror \<Rightarrow> string" where
  "sample_error e = ''pairing failed''"

lemma sample_error_text: "TrimSpace (sample_error e) \<noteq> []"
proof -
  have "TrimSpace ''pairing failed'' \<noteq> []" by code_simp
  then show ?thesis by (simp add: sample_error_def)
qed

text \<open>
  The worker registers a request, its user confirms, the confirmation of the peer arrives and the monitor claims the
  activation. Then the ceremony expires, and only after that the activation is stored and recorded.
\<close>

definition sample_moves :: "move list" where
  "sample_moves =
     (let m = hears \<lparr>dePairingID = sample_pair_id, deConfirmed = True, deCommitted = False\<rparr> in
      [Request DirectionInbound 100 sample_channel, Work 0 m, Decide True 150 sample_pair_id, Work 1 m, Work 0 m, Work 0 m,
       Show 300000000100, Work 0 m, Work 0 m])"

definition sample_world :: world where
  "sample_world = play plain_casing sample_digest (\<lambda>_ _. False) sample_error sample_moves sample_service"

lemma sample_world_run: "pairing_run plain_casing sample_digest (\<lambda>_ _. False) sample_error sample_service sample_world"
  unfolding sample_world_def by (rule play_run)

lemma sample_world_state:
  "(case Trust_Get plain_casing sample_digest (svRepository (wService sample_world)) (encode_lower plain_casing (replicate 32 1)) of
      Inl _ \<Rightarrow> False | Inr q \<Rightarrow> peState q = StateActive \<and> pePairID q = sample_pair_id \<and> peRole q = RoleOrchestrator)
   \<and> map (\<lambda>(i, e). (i, paState (pnValue e), pnLocalCommitted e, paPeerID (pnValue e))) (svPairings (wService sample_world))
      = [(sample_pair_id, PairingExpired, False, encode_lower plain_casing (replicate 32 1))]"
  by code_simp

lemma sample_world_pin:
  obtains q where "Trust_Get plain_casing sample_digest (svRepository (wService sample_world))
      (encode_lower plain_casing (replicate 32 1)) = Inr q" "peState q = StateActive" "pePairID q = sample_pair_id" "peRole q = RoleOrchestrator"
  using conjunct1 [OF sample_world_state]
  by (cases "Trust_Get plain_casing sample_digest (svRepository (wService sample_world)) (encode_lower plain_casing (replicate 32 1))") auto

text \<open>
  C6: Consent. Whatever the order in which calls, messages, timeouts and transactions interleave, a device that the
  database trusts was trusted when the service started, or else a ceremony for exactly this device, key, role and
  secret was registered, the user of this device confirmed it, and a confirmation of it arrived from the other end.
\<close>
theorem trust_needs_both_devices:
  assumes "NewPairingService U H loc lifetime d = Inr s0" "trust_reachable U H d" "\<And>x. length (H x) = 32"
    and "pairing_run U H fold_rune Err s0 w" "\<And>e. TrimSpace (Err e) \<noteq> []"
    and "Trust_Get U H (svRepository (wService w)) k = Inr q" "peState q = StateActive"
  shows "(\<exists>j p. Trust_Get U H d j = Inr p \<and> peState p = StateActive \<and> same_pin q p)
    \<or> ((\<exists>c v. Registered (pePairID q) c \<in> set (wTrace w) \<and> ceremony U H loc c v (peConnectivitySecret q)
          \<and> paID v = pePairID q \<and> paPeerID v = peDeviceID q \<and> paPeerPublicKey v = pePublicKey q \<and> paPeerRole v = peRole q)
       \<and> LocallyConfirmed (pePairID q) \<in> set (wTrace w)
       \<and> (\<exists>c d. Registered (pePairID q) c \<in> set (wTrace w) \<and> Heard c d \<in> set (wTrace w)
            \<and> dePairingID d = pePairID q \<and> deConfirmed d))"
proof -
  note s0 = NewPairingService_Inr [OF assms(1)]
  have d: "pins_ok U H (svRepository s0)" unfolding s0(3) by (rule reachable_pins_ok [OF assms(2,3)])
  have "world_ok U H s0 w" by (rule pairing_run_ok [where Err = Err, OF assms(4) s0(1) d assms(5)])
  then show ?thesis
    using assms(6,7) s0(2,3)
    unfolding world_ok_def pins_explained_def pinned_before_def consented_def remotely_confirmed_def by blast
qed

lemma empty_trust_Get: "Trust_Get U H empty_trust k \<noteq> Inr p"
  by (simp add: Trust_Get_def queryTrustedPeer_def empty_trust_def)

theorem trust_needs_both_devices_witness:
  "\<exists>q. Trust_Get plain_casing sample_digest (svRepository (wService sample_world)) (encode_lower plain_casing (replicate 32 1)) = Inr q
     \<and> pePairID q = sample_pair_id \<and> LocallyConfirmed sample_pair_id \<in> set (wTrace sample_world)
     \<and> (\<exists>c d. Heard c d \<in> set (wTrace sample_world) \<and> dePairingID d = sample_pair_id \<and> deConfirmed d)"
proof -
  obtain q where q: "Trust_Get plain_casing sample_digest (svRepository (wService sample_world))
      (encode_lower plain_casing (replicate 32 1)) = Inr q" "peState q = StateActive" "pePairID q = sample_pair_id"
    by (rule sample_world_pin)
  show ?thesis
    using trust_needs_both_devices [where H = sample_digest and Err = sample_error, OF sample_service_new
        trust_reachable.start sample_digest_length sample_world_run sample_error_text q(1,2)] q empty_trust_Get by fastforce
qed

text \<open>
  C14: The service. In every run at most sixteen ceremonies wait, no two have the same identifier, a ceremony that is
  paired was confirmed by both devices, and every active peer has the opposite role, so that the service starts
  again in its role on the database it leaves.
\<close>
theorem pairing_service_invariant:
  assumes "NewPairingService U H loc lifetime d = Inr s0" "trust_reachable U H d" "\<And>x. length (H x) = 32"
    and "pairing_run U H fold_rune Err s0 w" "\<And>e. TrimSpace (Err e) \<noteq> []"
  shows "length (filter (\<lambda>(i, e). waiting e) (svPairings (wService w))) \<le> 16
    \<and> distinct (map fst (svPairings (wService w)))
    \<and> (\<forall>i e. (i, e) \<in> set (svPairings (wService w)) \<longrightarrow> paID (pnValue e) = i \<and>
      (paState (pnValue e) = PairingPaired \<longrightarrow> LocallyConfirmed i \<in> set (wTrace w)
        \<and> (\<exists>c d. Heard c d \<in> set (wTrace w) \<and> dePairingID d = i \<and> deConfirmed d)))
    \<and> NewPairingService U H loc lifetime (svRepository (wService w)) = Inr (s0\<lparr>svRepository := svRepository (wService w)\<rparr>)"
proof -
  note s0 = NewPairingService_Inr [OF assms(1)]
  have d: "pins_ok U H (svRepository s0)" unfolding s0(3) by (rule reachable_pins_ok [OF assms(2,3)])
  have w: "world_ok U H s0 w" by (rule pairing_run_ok [where Err = Err, OF assms(4) s0(1) d assms(5)])
  then have p: "length (filter (\<lambda>(i, e). waiting e) (svPairings (wService w))) \<le> 16"
    "distinct (map fst (svPairings (wService w)))"
    by (simp_all add: world_ok_def pairings_ok_def maximumPendingPairings_def)
  have "entry_ok U H (svLocal s0) (wTrace w) i e" if "(i, e) \<in> set (svPairings (wService w))" for i e
    using w that by (auto simp: world_ok_def pairings_ok_def)
  then have e: "\<forall>i e. (i, e) \<in> set (svPairings (wService w)) \<longrightarrow> paID (pnValue e) = i \<and>
      (paState (pnValue e) = PairingPaired \<longrightarrow> LocallyConfirmed i \<in> set (wTrace w)
        \<and> (\<exists>c d. Heard c d \<in> set (wTrace w) \<and> dePairingID d = i \<and> deConfirmed d))"
    by (fastforce simp: entry_ok_def state_ok_def remotely_confirmed_def)
  let ?d = "svRepository (wService w)"
  have ok: "pins_ok U H ?d" using w by (simp add: world_ok_def pins_explained_def)
  have old: "peRole p = (if ldRole loc = RoleWorker then RoleOrchestrator else RoleWorker)"
    if "pinned_before U H d p" for p
    using s0(4) that unfolding ValidateLocalRole_iff [OF d [unfolded s0(3)] s0(5)] by (auto simp: pinned_before_def same_pin_def)
  have "peRole q = (if ldRole loc = RoleWorker then RoleOrchestrator else RoleWorker)"
    if "Trust_Get U H ?d k = Inr q" "peState q = StateActive" for k q
    using w that old s0(2,3) unfolding world_ok_def pins_explained_def consented_def ceremony_def by fastforce
  then have "ValidateLocalRole U H (ldRole loc) ?d = Inr ()" unfolding ValidateLocalRole_iff [OF ok s0(5)] by blast
  then have "NewPairingService U H loc lifetime ?d = Inr (s0\<lparr>svRepository := ?d\<rparr>)"
    using assms(1) by (auto simp: NewPairingService_def Let_def result_simps split: if_splits)
  then show ?thesis using p e by blast
qed

theorem pairing_service_invariant_witness:
  "length (filter (\<lambda>(i, e). waiting e) (svPairings (wService sample_world))) \<le> 16
   \<and> is_ok (NewPairingService plain_casing sample_digest sample_local 0 (svRepository (wService sample_world)))
   \<and> svRepository (wService sample_world) \<noteq> empty_trust"
proof -
  note inv = pairing_service_invariant [where H = sample_digest and Err = sample_error, OF sample_service_new
        trust_reachable.start sample_digest_length sample_world_run sample_error_text]
  obtain q where "Trust_Get plain_casing sample_digest (svRepository (wService sample_world))
      (encode_lower plain_casing (replicate 32 1)) = Inr q" by (rule sample_world_pin)
  then have "svRepository (wService sample_world) \<noteq> empty_trust" using empty_trust_Get by metis
  then show ?thesis using inv by simp
qed

text \<open>
  C25: An ended ceremony can still pair. \<open>updateLocalDecision\<close> leaves a ceremony alone while its activation is being
  stored, but expiry, a lost connection and a rejection by the peer do not: there is a run in which the list shows the
  ceremony as expired while its peer is trusted, and the activation that succeeded is not recorded.
\<close>
theorem expired_ceremony_is_trusted:
  "\<exists>w i e q. pairing_run plain_casing sample_digest (\<lambda>_ _. False) sample_error sample_service w
     \<and> (i, e) \<in> set (svPairings (wService w)) \<and> paState (pnValue e) = PairingExpired \<and> \<not> pnLocalCommitted e
     \<and> Trust_Get plain_casing sample_digest (svRepository (wService w)) (paPeerID (pnValue e)) = Inr q
     \<and> peState q = StateActive \<and> pePairID q = i"
proof -
  obtain e where e: "(sample_pair_id, e) \<in> set (svPairings (wService sample_world))" "paState (pnValue e) = PairingExpired"
      "\<not> pnLocalCommitted e" "paPeerID (pnValue e) = encode_lower plain_casing (replicate 32 1)"
    using conjunct2 [OF sample_world_state] by (auto simp: map_eq_Cons_conv)
  obtain q where "Trust_Get plain_casing sample_digest (svRepository (wService sample_world))
      (encode_lower plain_casing (replicate 32 1)) = Inr q" "peState q = StateActive" "pePairID q = sample_pair_id"
    by (rule sample_world_pin)
  then show ?thesis using sample_world_run e by metis
qed

end
