(* ===== verification/PairingCeremony.thy ===== *)
theory PairingCeremony
  imports PairingService
begin

text \<open>
  A whole ceremony between two services: an orchestrator and a worker, each with its own database, connected by one
  channel. Both ends show the same verification code, and once each user has confirmed it, each device stores the
  other with the same pair identifier and the same secret. What one end hears is what the other has sent.
\<close>

section \<open>Selecting a ceremony by its code\<close>

definition code_text :: "string \<Rightarrow> bool" where
  "code_text code \<longleftrightarrow> code \<noteq> [] \<and> set code \<subseteq> insert CHR ''-'' (set crockford_alphabet)"

lemma code_chars:
  "list_all (\<lambda>c. ascii_upper c = c \<and> byte_of c < (128 :: nat) \<and> \<not> IsSpace (byte_of c)) (CHR ''-'' # crockford_alphabet)"
  by code_simp

lemma code_selects:
  assumes "code_text code"
  shows "TrimSpace code = code" "ToUpper U code = code" "EqualFold fold_rune code code"
proof -
  have c: "ascii_upper x = x" "byte_of x < (128 :: nat)" "\<not> IsSpace (byte_of x)" if "x \<in> set code" for x
    using code_chars assms that by (auto simp: list_all_iff code_text_def)
  have a: "ascii code" using c(2) by (simp add: ascii_def list_all_iff)
  then show "ToUpper U code = code" using c(1) by (simp add: map_idI)
  show "EqualFold fold_rune code code" by (simp add: EqualFold_def rune_fold_def list.rel_refl)
  let ?sp = "\<lambda>(r, _). case r of None \<Rightarrow> False | Some v \<Rightarrow> IsSpace v"
  have none: "dropWhile ?sp xs = xs" if "set xs \<subseteq> set (runes code)" for xs
    using that c(3) by (cases xs) (auto simp: runes_ascii [OF a])
  show "TrimSpace code = code" unfolding TrimSpace_def Let_def by (simp add: none)
qed

section \<open>A pairing_service with one ceremony\<close>

lemma prune_one:
  assumes "svPairings s = [(i, e)]" "waiting e" "now < paExpiresAt (pnValue e)"
  shows "prunePairingsLocked now s = s"
  using assms by (simp add: prunePairingsLocked_def expire_def)

lemma resolve_one:
  assumes "svPairings s = [(i, e)]" "code_text (paVerification (pnValue e))"
  shows "resolvePairingLocked U fold_rune (paVerification (pnValue e)) s = Inr (i, e)"
  using assms(1) code_selects [OF assms(2)] assms(2) by (simp add: resolvePairingLocked_def code_text_def)

definition locally :: "pending_pairing \<Rightarrow> pending_pairing" where
  "locally e = e\<lparr>pnValue := (pnValue e)\<lparr>paLocalConfirmed := True\<rparr>\<rparr>"

definition remotely :: "pending_pairing \<Rightarrow> pending_pairing" where
  "remotely e = e\<lparr>pnValue := (pnValue e)\<lparr>paRemoteConfirmed := True\<rparr>\<rparr>"

definition activated_entry :: "pending_pairing \<Rightarrow> pending_pairing" where
  "activated_entry e = set_pairing_state PairingPaired (e\<lparr>pnActivating := False, pnLocalCommitted := True\<rparr>)"

definition confirms :: "pair_id \<Rightarrow> pairing_decision" where
  "confirms i = \<lparr>dePairingID = i, deConfirmed = True, deCommitted = False\<rparr>"

definition commits :: "pair_id \<Rightarrow> pairing_decision" where
  "commits i = \<lparr>dePairingID = i, deConfirmed = True, deCommitted = True\<rparr>"

lemmas ceremony_simps = locally_def remotely_def activated_entry_def confirms_def commits_def waiting_def set_pairing_state_def

lemma update_one:
  assumes "svPairings s = [(i, e)]" "waiting e" "\<not> pnActivating e" "now < paExpiresAt (pnValue e)"
    "code_text (paVerification (pnValue e))"
  shows "updateLocalDecision U fold_rune now (paVerification (pnValue e)) True s = (s\<lparr>svPairings := [(i, locally e)]\<rparr>, Inr (locally e))"
  using assms prune_one [OF assms(1,2,4)] resolve_one [OF assms(1,5)]
  by (simp add: updateLocalDecision_def on_entry_def locally_def Let_def)

text \<open>The first confirmation is sent and nothing is stored.\<close>

lemma Confirm_first:
  assumes "svPairings s = [(i, e)]" "waiting e" "\<not> pnActivating e" "mNow m < paExpiresAt (pnValue e)"
    "code_text (paVerification (pnValue e))" "\<not> paRemoteConfirmed (pnValue e)" "paID (pnValue e) = i" "mSend m = None"
  shows "Confirm U H fold_rune Err m m2 (paVerification (pnValue e)) s =
    (s\<lparr>svPairings := [(i, locally e)], svSent := svSent s @ [(chHandle (pnChannel e), confirms i)]\<rparr>, Inr (pnValue (locally e)))"
  using assms update_one [OF assms(1-5), where U = U and fold_rune = fold_rune]
  by (simp add: Confirm_def sendDecision_def SendDecision_def Let_def maybeActivate_def activate_claim_def getPairing_def
      ceremony_simps)

text \<open>The activation of a ceremony that both have confirmed.\<close>

lemma activation:
  assumes "svPairings s = [(i, e)]" "waiting e" "\<not> pnActivating e" "paLocalConfirmed (pnValue e)" "paRemoteConfirmed (pnValue e)"
    "\<not> pnRemoteCommitted e" "mSend m = None" "Activate U H (activated_peer (mNow m) e) (svRepository s) = (d, Inr ())"
  shows "maybeActivate U H Err m i s = s\<lparr>svRepository := d, svPairings := [(i, activated_entry e)],
    svSent := svSent s @ [(chHandle (pnChannel e), commits i)]\<rparr>"
proof -
  have "activated_peer (mNow m) (e\<lparr>pnActivating := True\<rparr>) = activated_peer (mNow m) e" by (simp add: activated_peer_def Let_def)
  then show ?thesis
    using assms
    by (simp add: maybeActivate_def activate_claim_def activate_store_def activate_record_def activate_announce_def
        SendDecision_def both_committed_def on_entry_def when_waiting_def Let_def ceremony_simps)
qed

lemma Confirm_second:
  assumes "svPairings s = [(i, e)]" "waiting e" "\<not> pnActivating e" "mNow m < paExpiresAt (pnValue e)"
    "code_text (paVerification (pnValue e))" "paRemoteConfirmed (pnValue e)" "paID (pnValue e) = i" "mSend m = None"
    "\<not> pnRemoteCommitted e" "Activate U H (activated_peer (mNow m) e) (svRepository s) = (d, Inr ())"
  shows "Confirm U H fold_rune Err m m (paVerification (pnValue e)) s =
    (s\<lparr>svRepository := d, svPairings := [(i, activated_entry (locally e))],
       svSent := svSent s @ [(chHandle (pnChannel e), confirms i), (chHandle (pnChannel e), commits i)]\<rparr>,
     Inr (pnValue (activated_entry (locally e))))"
proof -
  let ?s = "s\<lparr>svPairings := [(i, locally e)], svSent := svSent s @ [(chHandle (pnChannel e), confirms i)]\<rparr>"
  have "activated_peer (mNow m) (locally e) = activated_peer (mNow m) e" by (simp add: activated_peer_def locally_def Let_def)
  then have "maybeActivate U H Err m i ?s = ?s\<lparr>svRepository := d, svPairings := [(i, activated_entry (locally e))],
      svSent := svSent ?s @ [(chHandle (pnChannel (locally e)), commits i)]\<rparr>"
    by (intro activation) (use assms in \<open>simp_all add: locally_def waiting_def\<close>)
  then show ?thesis
    using assms(7,8) update_one [OF assms(1-5), where U = U and fold_rune = fold_rune]
    by (simp add: Confirm_def sendDecision_def SendDecision_def Let_def getPairing_def locally_def confirms_def)
qed

text \<open>What the monitor does with a confirmation before the local user has confirmed, after it, and with the commit.\<close>

lemma hear_early:
  assumes "svPairings s = [(i, e)]" "waiting e" "\<not> pnActivating e" "\<not> paLocalConfirmed (pnValue e)" "\<not> pnLocalCommitted e"
  shows "monitor U H Err c i [\<lparr>mNow = t, mSend = None, mReceived = Decided (confirms i)\<rparr>] s = s\<lparr>svPairings := [(i, remotely e)]\<rparr>"
  using assms
  by (simp add: receive_decision_def maybeActivate_def activate_claim_def ceremony_over_def on_entry_def ceremony_simps Let_def)

lemma hear_commit:
  assumes "svPairings s = [(i, e)]" "paState (pnValue e) = PairingPaired" "pnLocalCommitted e"
  shows "monitor U H Err c i (\<lparr>mNow = t, mSend = None, mReceived = Decided (commits i)\<rparr> # ms) s
    = Close_channel c (s\<lparr>svPairings := [(i, e\<lparr>pnRemoteCommitted := True\<rparr>)]\<rparr>)"
  using assms
  by (simp add: receive_decision_def maybeActivate_def activate_claim_def ceremony_over_def on_entry_def ceremony_simps Let_def)

lemma hear_late:
  assumes "svPairings s = [(i, e)]" "waiting e" "\<not> pnActivating e" "paLocalConfirmed (pnValue e)" "\<not> pnRemoteCommitted e"
    "Activate U H (activated_peer t e) (svRepository s) = (d, Inr ())"
  shows "monitor U H Err c i [\<lparr>mNow = t, mSend = None, mReceived = Decided (confirms i)\<rparr>,
      \<lparr>mNow = t, mSend = None, mReceived = Decided (commits i)\<rparr>] s =
    Close_channel c (s\<lparr>svRepository := d, svSent := svSent s @ [(chHandle (pnChannel e), commits i)],
      svPairings := [(i, (activated_entry (remotely e))\<lparr>pnRemoteCommitted := True\<rparr>)]\<rparr>)"
proof -
  let ?m = "\<lparr>mNow = t, mSend = None, mReceived = Decided (confirms i)\<rparr>"
  let ?s = "s\<lparr>svPairings := [(i, remotely e)]\<rparr>"
  let ?s' = "?s\<lparr>svRepository := d, svPairings := [(i, activated_entry (remotely e))],
      svSent := svSent ?s @ [(chHandle (pnChannel (remotely e)), commits i)]\<rparr>"
  have r: "receive_decision Err (Decided (confirms i)) c i s = (?s, True)"
    using assms by (simp add: receive_decision_def on_entry_def ceremony_simps Let_def)
  have "activated_peer t (remotely e) = activated_peer t e" by (simp add: activated_peer_def remotely_def Let_def)
  then have "maybeActivate U H Err ?m i ?s = ?s'"
    by (intro activation) (use assms in \<open>simp_all add: remotely_def waiting_def\<close>)
  moreover have "\<not> ceremony_over i ?s'" using assms(5) by (simp add: ceremony_over_def ceremony_simps)
  ultimately show ?thesis
    using r hear_commit [of ?s' i "activated_entry (remotely e)" U H Err c t "[]"]
    by (simp add: activated_entry_def set_pairing_state_def remotely_def del: monitor.simps add: monitor.simps(2) [where m = ?m])
qed

section \<open>Storing the first peer\<close>

lemma runes_le: "length (runes s) \<le> length s"
  using runes_length [of s] by simp

lemma runes_nonempty: "s \<noteq> [] \<Longrightarrow> runes s \<noteq> []"
  using runes_bytes [of s] by fastforce

lemma b32_lower_ascii: "set s \<subseteq> set b32_lower \<Longrightarrow> length (runes s) = length s"
proof -
  assume "set s \<subseteq> set b32_lower"
  moreover have "list_all (\<lambda>c. byte_of c < (128 :: nat)) b32_lower" by code_simp
  ultimately have "ascii s" by (auto simp: ascii_def list_all_iff)
  then show ?thesis by (simp add: runes_ascii)
qed

lemma Activate_first:
  assumes H: "\<And>x. length (H x) = 32" and p: "Peer_Validate U H p = Inr ()" "peState p = StateActive"
    and t: "pePairedAt p = peUpdatedAt p" "nano_ok (peUpdatedAt p)"
    and i: "set (pePairID p) \<subseteq> set b32_lower" "length (pePairID p) = 26"
  obtains d q where "Activate U H p empty_trust = (d, Inr ())" "Trust_Get U H d (peDeviceID p) = Inr q"
    "peState q = StateActive" "same_pin q p"
proof -
  have ok: "identity_ok U H p" using p(1) by (simp add: Peer_Validate_iff)
  have key: "length (pePublicKey p) = 32" "peDeviceID p = encode_lower U (H (pePublicKey p))"
    using ok by (auto simp: identity_ok_def IDFromPublicKey_def split: if_splits)
  have dev: "length (peDeviceID p) = 52" "set (peDeviceID p) \<subseteq> set b32_lower"
    using encode_lower_char [of "H (pePublicKey p)" 52 U] H key(2) by auto
  have name: "peName p \<noteq> []" "length (peName p) \<le> 80" using ok by (auto simp: identity_ok_def validateName_def)
  have "trust_row_check (paired_row p)"
    using key(1) b32_lower_ascii [OF dev(2)] dev(1) b32_lower_ascii [OF i(1)] i(2) runes_le [of "peName p"] name
      runes_nonempty [OF name(1)] t ok
    by (auto simp: trust_row_check_def paired_row_def role_string_def identity_ok_def nullableSecret_def Secret_Valid_def
        ConnectivitySecretBytes_def json_length_def Suc_le_eq split: if_splits)
  then have "upsert_peer p [] = Inr [paired_row p]" by (simp add: upsert_peer_def indexes_allow_def Let_def)
  then obtain d where tx: "Activate_tx U H p empty_trust = Inr (d, ())"
    using p by (simp add: Activate_tx_def queryTrustedPeer_def empty_trust_def Let_def errors_is_def)
  then have a: "Activate U H p empty_trust = (d, Inr ())" by (simp add: Activate_def)
  have e: "trust_ok U H empty_trust" using trust_reachable_ok [OF trust_reachable.start H] .
  have role: "peRole p = RoleWorker \<or> peRole p = RoleOrchestrator" using ok by (simp add: identity_ok_def)
  show thesis
    using tx
  proof (cases rule: Activate_tx_Inr [where H = H, OF H e, consumes 1, case_names same put])
    case (same r)
    then show thesis by (simp add: empty_trust_def)
  next
    case (put r ev)
    have "row_with t_device_id (peDeviceID p) (trusted_devices d) = Some r" using put(3,4) by (simp add: row_with_put)
    then have "Trust_Get U H d (peDeviceID p) = Inr (peer_of r)" by (simp add: Trust_Get_Inr [OF put(5)])
    moreover have "peState (peer_of r) = StateActive"
      using put(1) by (simp add: activated_def peer_of_def paired_row_def repaired_row_def TrustState_of_def split: option.splits)
    ultimately show thesis using that a activated_pin [OF put(1,4) role] by blast
  qed
qed

section \<open>The ceremony\<close>

text \<open>The end of a channel whose other end is the given device.\<close>

definition channel_to :: "nat \<Rightarrow> local_device \<Rightarrow> byte list \<Rightarrow> channel" where
  "channel_to h loc b = \<lparr>chHandle = h, chPeer = \<lparr>spID = id_id (ldIdentity loc), spPublicKey = id_publicKey (ldIdentity loc),
     spName = ldName loc, spRole = ldRole loc, spPresenceID = ldPresenceID loc\<rparr>, chBinding = b\<rparr>"

lemma local_device_facts:
  assumes "LocalDevice_Validate U H loc = Inr ()"
  shows "IDFromPublicKey U H (id_publicKey (ldIdentity loc)) = Inr (id_id (ldIdentity loc))"
    "DeviceID_Valid U (id_id (ldIdentity loc))" "validateName (ldName loc)" "PresenceID_Valid U (ldPresenceID loc)"
    "SessionPeer_Validate U H (chPeer (channel_to h loc b)) = Inr ()"
proof -
  have v: "Identity_Validate U H (ldIdentity loc) = Inr ()" "validateName (ldName loc)" "PresenceID_Valid U (ldPresenceID loc)"
    "ldRole loc = RoleWorker \<or> ldRole loc = RoleOrchestrator"
    using assms by (auto simp: LocalDevice_Validate_def is_ok_unit_iff split: if_splits)
  then show "IDFromPublicKey U H (id_publicKey (ldIdentity loc)) = Inr (id_id (ldIdentity loc))"
    "DeviceID_Valid U (id_id (ldIdentity loc))"
    by (auto simp: Identity_Validate_def NewIdentity_def result_simps Let_def split: if_splits)
  then show "SessionPeer_Validate U H (chPeer (channel_to h loc b)) = Inr ()"
    using v by (auto simp: SessionPeer_Validate_def channel_to_def)
  show "validateName (ldName loc)" "PresenceID_Valid U (ldPresenceID loc)" using v by simp_all
qed

lemma empty_trust_list: "Trust_List U H empty_trust = Inr []"
  by (simp add: Trust_List_def empty_trust_def)

text \<open>Registration by a service without ceremonies and without peers.\<close>

definition registered_entry ::
    "direction \<Rightarrow> time \<Rightarrow> int \<Rightarrow> local_device \<Rightarrow> pair_id \<Rightarrow> string \<Rightarrow> byte list \<Rightarrow> channel \<Rightarrow> pending_pairing" where
  "registered_entry dir now lifetime other i code secret c =
    \<lparr>pnValue = \<lparr>paID = i, paPeerID = id_id (ldIdentity other), paPeerPublicKey = id_publicKey (ldIdentity other),
      paPeerName = ldName other, paPeerRole = ldRole other, paVerification = code, paDirection = dir, paState = PairingWaiting,
      paLocalConfirmed = False, paRemoteConfirmed = False, paStartedAt = now, paExpiresAt = now + lifetime, paFailure = []\<rparr>,
     pnSecret = secret, pnChannel = c, pnActivating = False, pnLocalCommitted = False, pnRemoteCommitted = False\<rparr>"

lemma register_first:
  fixes h :: nat
  assumes s: "svPairings s = []" "svRepository s = empty_trust" "60 * 10 ^ 9 \<le> svLifetime s"
    and other: "LocalDevice_Validate U H other = Inr ()"
    and dir: "dir = DirectionOutbound \<and> ldRole (svLocal s) = RoleOrchestrator \<and> ldRole other = RoleWorker
      \<or> dir = DirectionInbound \<and> ldRole (svLocal s) = RoleWorker \<and> ldRole other = RoleOrchestrator"
    and ids: "ids = (if dir = DirectionInbound then (id_id (ldIdentity other), id_id (ldIdentity (svLocal s)))
      else (id_id (ldIdentity (svLocal s)), id_id (ldIdentity other)))"
    and m: "DerivePairing U H b (fst ids) (snd ids) = Inr (i, code)" "PairID_Valid U i" "validVerificationCode code"
      "DeriveConnectivitySecret U H b (fst ids) (snd ids) = Inr secret"
    and now: "\<not> IsZero now"
  defines "e \<equiv> registered_entry dir now (svLifetime s) other i code secret (channel_to h other b)"
  shows "register U H now (channel_to h other b) dir s = (s\<lparr>svPairings := [(i, e)]\<rparr>, Inr (pnValue e))"
proof -
  note o = local_device_facts [OF other]
  have get: "Trust_Get U H empty_trust (id_id (ldIdentity other)) = Inl [Trust_ErrNotFound]"
    using o(2) by (simp add: Trust_Get_def queryTrustedPeer_def empty_trust_def remap_def errors_is_def)
  have "Pairing_Validate U H (pnValue e) = Inr ()"
    using o(1,3) m(2,3) now dir s(3) by (auto simp: Pairing_Validate_iff pairing_identity_def e_def registered_entry_def)
  then have "register_value U H now (channel_to h other b) dir s = Inr (pnValue e, secret)"
    using o(5) dir get m(1,4) s(2) unfolding ids e_def registered_entry_def
    by (auto simp: register_value_def Let_def channel_to_def empty_trust_list errors_is_def)
  moreover have "prunePairingsLocked now s = s" using s(1) by (simp add: prunePairingsLocked_def)
  ultimately show ?thesis
    using s(1) by (simp add: register_def register_locked_def Let_def maximumPendingPairings_def e_def registered_entry_def)
qed

lemma stores_the_peer:
  assumes H: "\<And>x. length (H x) = 32" and other: "LocalDevice_Validate U H other = Inr ()"
    and e: "paID (pnValue e) = i" "paPeerID (pnValue e) = id_id (ldIdentity other)"
      "paPeerPublicKey (pnValue e) = id_publicKey (ldIdentity other)" "paPeerName (pnValue e) = ldName other"
      "paPeerRole (pnValue e) = ldRole other" "pnSecret e = secret"
    and role: "ldRole other = RoleWorker \<or> ldRole other = RoleOrchestrator"
    and i: "PairID_Valid U i" "set i \<subseteq> set b32_lower" "length i = 26" "Secret_Valid secret" and t: "nano_ok t"
  obtains d q where "Activate U H (activated_peer t e) empty_trust = (d, Inr ())"
    "Trust_Get U H d (id_id (ldIdentity other)) = Inr q" "peState q = StateActive" "pePairID q = i"
    "pePublicKey q = id_publicKey (ldIdentity other)" "peConnectivitySecret q = secret"
proof -
  let ?p = "activated_peer t e"
  note o = local_device_facts [OF other]
  have f: "peDeviceID ?p = id_id (ldIdentity other)" "pePublicKey ?p = id_publicKey (ldIdentity other)" "pePairID ?p = i"
    "peConnectivitySecret ?p = secret" "peState ?p = StateActive" "pePairedAt ?p = t" "peUpdatedAt ?p = t"
    using e by (simp_all add: activated_peer_def Let_def)
  have hint: "validateHint []" "validateToolIDs []" "validateSupportedExecutors []"
    by (simp_all add: validateHint_def validateToolIDs_def validateSupportedExecutors_def)
  have "Peer_Validate U H ?p = Inr ()"
    using o(1,3) e i role hint nano_ok_not_zero [OF t]
    by (simp add: Peer_Validate_iff identity_ok_def hints_ok_def life_ok_def activated_peer_def Let_def)
  then show thesis
    using Activate_first [where H = H, OF H, of U ?p thesis] that f i t by (simp add: same_pin_def)
qed

text \<open>What a channel delivers: the decisions that the other end sent.\<close>

definition hearing :: "time \<Rightarrow> (nat \<times> pairing_decision) list \<Rightarrow> moment list" where
  "hearing t sent = map (\<lambda>(h, d). \<lparr>mNow = t, mSend = None, mReceived = Decided d\<rparr>) sent"

text \<open>Both users confirm registered ceremonies: the orchestrator first, and the worker when it has heard of it.\<close>

lemma both_confirm:
  assumes A: "svPairings sA = [(i, eA)]" "svSent sA = []" "60 * 10 ^ 9 \<le> lifeA"
      "eA = registered_entry DirectionOutbound now lifeA locB i code secret (channel_to hA locB b)"
      "Activate U H (activated_peer t (locally eA)) (svRepository sA) = (dA, Inr ())"
    and B: "svPairings sB = [(i, eB)]" "svSent sB = []" "60 * 10 ^ 9 \<le> lifeB"
      "eB = registered_entry DirectionInbound now lifeB locA i code secret (channel_to hB locA b)"
      "Activate U H (activated_peer t (remotely eB)) (svRepository sB) = (dB, Inr ())"
    and t: "t < now + 60 * 10 ^ 9" "mNow m = t" "mSend m = None" and code: "code_text code"
  shows "\<exists>sA2 sB2 sB3 sA3 sB4 xA xB wA wB.
    Confirm U H fold_rune Err m m code sA = (sA2, Inr xA)
    \<and> sB2 = monitor U H Err (channel_to hB locA b) i (hearing t (svSent sA2)) sB
    \<and> Confirm U H fold_rune Err m m code sB2 = (sB3, Inr xB)
    \<and> sA3 = monitor U H Err (channel_to hA locB b) i (hearing t (svSent sB3)) sA2
    \<and> sB4 = monitor U H Err (channel_to hB locA b) i (hearing t (drop (length (svSent sA2)) (svSent sA3))) sB3
    \<and> getPairing i sA3 = Inr wA \<and> paState wA = PairingPaired \<and> getPairing i sB4 = Inr wB \<and> paState wB = PairingPaired
    \<and> svRepository sA3 = dA \<and> svRepository sB4 = dB"
proof -
  let ?sA2 = "sA\<lparr>svPairings := [(i, locally eA)], svSent := [(hA, confirms i)]\<rparr>"
  have first: "Confirm U H fold_rune Err m m code sA = (?sA2, Inr (pnValue (locally eA)))"
    using Confirm_first [of sA i eA m U H fold_rune Err m] A(1-3) t code
    by (simp add: A(4) registered_entry_def waiting_def channel_to_def)
  let ?sB2 = "sB\<lparr>svPairings := [(i, remotely eB)]\<rparr>"
  have early: "monitor U H Err (channel_to hB locA b) i (hearing t (svSent ?sA2)) sB = ?sB2"
    using hear_early [of sB i eB U H Err "channel_to hB locA b" t] B(1)
    by (simp add: hearing_def B(4) registered_entry_def waiting_def)
  let ?sB = "sB\<lparr>svPairings := [(i, activated_entry (locally (remotely eB)))], svRepository := dB,
      svSent := [(hB, confirms i), (hB, commits i)]\<rparr>"
  have second: "Confirm U H fold_rune Err m m code ?sB2 = (?sB, Inr (pnValue (activated_entry (locally (remotely eB)))))"
    using Confirm_second [of ?sB2 i "remotely eB" m U H dB fold_rune Err] t B(1-3,5) code
    by (simp add: B(4) registered_entry_def waiting_def channel_to_def remotely_def)
  let ?eA = "(activated_entry (remotely (locally eA)))\<lparr>pnRemoteCommitted := True\<rparr>"
  let ?sA = "Close_channel (channel_to hA locB b) (?sA2\<lparr>svRepository := dA, svSent := [(hA, confirms i), (hA, commits i)],
      svPairings := [(i, ?eA)]\<rparr>)"
  have late: "monitor U H Err (channel_to hA locB b) i (hearing t (svSent ?sB)) ?sA2 = ?sA"
    using hear_late [of ?sA2 i "locally eA" U H t dA Err "channel_to hA locB b"] A(5)
    by (simp add: hearing_def A(4) registered_entry_def waiting_def locally_def channel_to_def del: monitor.simps)
  let ?eB = "(activated_entry (locally (remotely eB)))\<lparr>pnRemoteCommitted := True\<rparr>"
  let ?sB4 = "Close_channel (channel_to hB locA b) (?sB\<lparr>svPairings := [(i, ?eB)]\<rparr>)"
  have commit: "monitor U H Err (channel_to hB locA b) i (hearing t (drop (length (svSent ?sA2)) (svSent ?sA))) ?sB = ?sB4"
    using hear_commit [of ?sB i "activated_entry (locally (remotely eB))" U H Err "channel_to hB locA b" t "[]"]
    by (simp add: hearing_def activated_entry_def set_pairing_state_def locally_def remotely_def Close_channel_def del: monitor.simps)
  have shown: "getPairing i ?sA = Inr (pnValue ?eA)" "paState (pnValue ?eA) = PairingPaired"
    "getPairing i ?sB4 = Inr (pnValue ?eB)" "paState (pnValue ?eB) = PairingPaired" "svRepository ?sA = dA" "svRepository ?sB4 = dB"
    by (simp_all add: getPairing_def activated_entry_def set_pairing_state_def)
  show ?thesis
    by (intro exI conjI) (rule first, rule early [symmetric], rule second, rule late [symmetric], rule commit [symmetric], (rule shown)+)
qed


definition sample_desk :: local_device where
  "sample_desk = \<lparr>ldIdentity = \<lparr>id_id = encode_lower plain_casing (replicate 32 1), id_publicKey = replicate 32 1,
     id_privateKey = replicate 32 0 @ replicate 32 1\<rparr>, ldName = ''desk'', ldRole = RoleOrchestrator,
     ldPresenceID = replicate 26 CHR ''b''\<rparr>"

definition sample_target :: observation where
  "sample_target = \<lparr>obKey = ''box'', obAnnouncement = \<lparr>anPresenceID = replicate 26 CHR ''a'', anName = ''box'', anRole = RoleWorker,
     anProtocolVersion = 1, anPort = 7447, anEndpointReady = True, anPlatform = [], anArchitecture = [],
     anLogicalCPUCount = 0, anTotalMemoryBytes = 0\<rparr>, obInstance = ''box'', obHostName = ''box'', obAddresses = [],
     obSeenAt = 1, obExpiresAt = 1000\<rparr>"

lemma sample_desk_new:
  "NewPairingService plain_casing sample_digest sample_desk 0 empty_trust = Inr (sample_service\<lparr>svLocal := sample_desk\<rparr>)"
  by code_simp


end
