(* ===== verification/Rendezvous.thy ===== *)
theory Rendezvous
  imports Base64 GoStrings "HOL-Library.AList"
begin

text \<open>
  \<open>internal/connectivity/rendezvous/service.go\<close>: the hosted service through which paired devices exchange opaque
  presences and signals. Its state is the map of routes; every request runs under one mutex, so a request is one
  step \<open>ServeHTTP\<close> from a state and an instant to a new state and a response.

  The map of routes is an association list (no operation depends on its order), the maps by role are functions of
  the role. Sequence numbers and generations are 64-bit words. The record \<open>env\<close> holds what the service calls
  outside the repository: SHA-256, \<open>mime.ParseMediaType\<close> and the decoding of the three Protobuf messages; all
  theorems hold for every choice of them.
\<close>

section \<open>Data\<close>

definition minute :: int where "minute = 60 * 1000000000"

definition ProtocolVersion :: "32 word" where "ProtocolVersion = 1"
definition ProtobufMediaType :: string where "ProtobufMediaType = ''application/x-protobuf''"
definition defaultPresenceLifetime :: int where "defaultPresenceLifetime = 90 * 1000000000"
definition defaultSignalLifetime :: int where "defaultSignalLifetime = 2 * minute"
definition defaultRouteLifetime :: int where "defaultRouteLifetime = 6 * minute"
definition defaultMaxRoutes :: int where "defaultMaxRoutes = 10000"
definition defaultMaxSignalsPerRoute :: int where "defaultMaxSignalsPerRoute = 64"
definition defaultMaxPayloadBytes :: int where "defaultMaxPayloadBytes = 32 * 2 ^ 10"
definition defaultMaxRequestsPerRoute :: int where "defaultMaxRequestsPerRoute = 240"
definition maximumPollLimit :: int where "maximumPollLimit = 64"
definition defaultPollLimit :: int where "defaultPollLimit = 32"

datatype endpointRole = roleOrchestrator | roleWorker

instantiation endpointRole :: enum
begin

definition "enum_endpointRole = [roleOrchestrator, roleWorker]"
definition "enum_all_endpointRole P \<longleftrightarrow> P roleOrchestrator \<and> P roleWorker"
definition "enum_ex_endpointRole P \<longleftrightarrow> P roleOrchestrator \<or> P roleWorker"

instance
proof
  have all: "(\<forall>r. P r) \<longleftrightarrow> P roleOrchestrator \<and> P roleWorker" for P by (metis endpointRole.exhaust)
  show "UNIV = set (enum_class.enum :: endpointRole list)"
    by (auto simp: enum_endpointRole_def) (metis endpointRole.exhaust)
  show "distinct (enum_class.enum :: endpointRole list)" by (simp add: enum_endpointRole_def)
  show "enum_class.enum_all P \<longleftrightarrow> Ball UNIV P" "enum_class.enum_ex P \<longleftrightarrow> Bex UNIV P" for P :: "endpointRole \<Rightarrow> bool"
    using all [of P] all [of "\<lambda>r. \<not> P r"] by (auto simp: enum_all_endpointRole_def enum_ex_endpointRole_def)
qed

end

record storedPresence =
  pRole :: endpointRole
  pGeneration :: "64 word"
  pPayload :: "byte list"
  pExpiresAt :: time

record storedSignal =
  sSequence :: "64 word"
  sSender :: endpointRole
  sPayload :: "byte list"
  sCreatedAt :: time
  sExpiresAt :: time

record route =
  authDigest :: "byte list"
  rExpiresAt :: time
  windowStart :: time
  requestCount :: int
  nextSequence :: "64 word"
  presences :: "endpointRole \<Rightarrow> storedPresence option"
  signals :: "endpointRole \<Rightarrow> storedSignal list"

record config =
  PresenceLifetime :: int
  SignalLifetime :: int
  RouteLifetime :: int
  MaxRoutes :: int
  MaxSignalsPerRoute :: int
  MaxPayloadBytes :: int
  MaxRequestsPerRoute :: int

record service =
  presenceLifetime :: int
  signalLifetime :: int
  routeLifetime :: int
  maxRoutes :: int
  maxSignalsPerRoute :: int
  maxPayloadBytes :: int
  maxRequestBytes :: int
  maxRequestsPerRoute :: int
  routes :: "(string \<times> route) list"

datatype error_code =
  CodeInvalidArgument | CodeUnauthenticated | CodeNotFound | CodeConflict | CodeResourceExhausted | CodeUnsupportedVersion

record serviceError =
  se_status :: int
  se_code :: error_code
  se_message :: string

text \<open>The messages of \<open>connectivity/v1\<close>; a role is the number of its enumeration value.\<close>

record presence_message =
  pmRole :: int
  pmGeneration :: "64 word"
  pmEncryptedPayload :: "byte list"
  pmExpiresAtUnixNano :: int

record signal_message =
  smSequence :: "64 word"
  smSender :: int
  smEncryptedPayload :: "byte list"
  smCreatedAtUnixNano :: int
  smExpiresAtUnixNano :: int

record publish_request =
  prProtocolVersion :: "32 word"
  prRole :: int
  prGeneration :: "64 word"
  prEncryptedPayload :: "byte list"

record send_request =
  srProtocolVersion :: "32 word"
  srSender :: int
  srRecipient :: int
  srEncryptedPayload :: "byte list"

record poll_request =
  qrProtocolVersion :: "32 word"
  qrRecipient :: int
  qrAfterSequence :: "64 word"
  qrLimit :: "32 word"

datatype response =
    ErrorResponse serviceError
  | PublishPresenceResponse int "presence_message option"
  | SendSignalResponse "64 word" int
  | PollSignalsResponse "signal_message list" "64 word" bool
  | HealthOK
  | HealthMethodNotAllowed

record http_request =
  hMethod :: string
  hPath :: string
  hAuthorization :: string
  hContentType :: string
  hBody :: "byte list option"

record env =
  Sum256 :: "byte list \<Rightarrow> byte list"
  ParseMediaType :: "string \<Rightarrow> string option"
  unmarshalPublish :: "byte list \<Rightarrow> publish_request option"
  unmarshalSend :: "byte list \<Rightarrow> send_request option"
  unmarshalPoll :: "byte list \<Rightarrow> poll_request option"

section \<open>Operations\<close>

definition or_default :: "int \<Rightarrow> int \<Rightarrow> int" where
  "or_default d x = (if x = 0 then d else x)"

definition NewService :: "config \<Rightarrow> service result" where
  "NewService config =
    (let pl = or_default defaultPresenceLifetime (PresenceLifetime config);
         sl = or_default defaultSignalLifetime (SignalLifetime config);
         rl = or_default defaultRouteLifetime (RouteLifetime config);
         mr = or_default defaultMaxRoutes (MaxRoutes config);
         ms = or_default defaultMaxSignalsPerRoute (MaxSignalsPerRoute config);
         mp = or_default defaultMaxPayloadBytes (MaxPayloadBytes config);
         mq = or_default defaultMaxRequestsPerRoute (MaxRequestsPerRoute config)
     in if pl \<le> 0 \<or> sl \<le> 0 \<or> rl < minute \<or> rl > 15 * minute \<or> pl > rl \<or> sl > rl
           \<or> mr < 1 \<or> mr > 1000000 \<or> ms < 1 \<or> ms > 1024 \<or> mp < 1 \<or> mp > 2 ^ 20 \<or> mq < 1 \<or> mq > 100000
        then Inl [''rendezvous.ErrInvalidConfiguration'']
        else Inr \<lparr>presenceLifetime = pl, signalLifetime = sl, routeLifetime = rl, maxRoutes = mr,
               maxSignalsPerRoute = ms, maxPayloadBytes = mp, maxRequestBytes = mp + 8 * 2 ^ 10,
               maxRequestsPerRoute = mq, routes = []\<rparr>)"

definition invalidArgument :: "string \<Rightarrow> serviceError" where
  "invalidArgument m = \<lparr>se_status = 400, se_code = CodeInvalidArgument, se_message = m\<rparr>"

definition unauthenticated :: serviceError where
  "unauthenticated = \<lparr>se_status = 401, se_code = CodeUnauthenticated, se_message = ''invalid rendezvous credentials''\<rparr>"

definition exhausted :: "string \<Rightarrow> serviceError" where
  "exhausted m = \<lparr>se_status = 429, se_code = CodeResourceExhausted, se_message = m\<rparr>"

definition conflict :: "string \<Rightarrow> serviceError" where
  "conflict m = \<lparr>se_status = 409, se_code = CodeConflict, se_message = m\<rparr>"

definition validateProtocol :: "32 word \<Rightarrow> serviceError option" where
  "validateProtocol v =
    (if v = ProtocolVersion then None
     else Some \<lparr>se_status = 426, se_code = CodeUnsupportedVersion,
                se_message = ''unsupported rendezvous protocol version''\<rparr>)"

definition roleFromProto :: "int \<Rightarrow> endpointRole option" where
  "roleFromProto r = (if r = 1 then Some roleOrchestrator else if r = 2 then Some roleWorker else None)"

definition roleToProto :: "endpointRole \<Rightarrow> int" where
  "roleToProto r = (case r of roleOrchestrator \<Rightarrow> 1 | roleWorker \<Rightarrow> 2)"

definition oppositeRole :: "endpointRole \<Rightarrow> endpointRole" where
  "oppositeRole r = (case r of roleOrchestrator \<Rightarrow> roleWorker | roleWorker \<Rightarrow> roleOrchestrator)"

definition presenceToProto :: "storedPresence \<Rightarrow> presence_message" where
  "presenceToProto p = \<lparr>pmRole = roleToProto (pRole p), pmGeneration = pGeneration p,
     pmEncryptedPayload = pPayload p, pmExpiresAtUnixNano = UnixNano (pExpiresAt p)\<rparr>"

definition signalToProto :: "storedSignal \<Rightarrow> signal_message" where
  "signalToProto s = \<lparr>smSequence = sSequence s, smSender = roleToProto (sSender s),
     smEncryptedPayload = sPayload s, smCreatedAtUnixNano = UnixNano (sCreatedAt s),
     smExpiresAtUnixNano = UnixNano (sExpiresAt s)\<rparr>"

definition minTime :: "time \<Rightarrow> time \<Rightarrow> time" where
  "minTime first second = (if first < second then first else second)"

definition validPayload :: "service \<Rightarrow> byte list \<Rightarrow> bool" where
  "validPayload svc payload \<longleftrightarrow> length payload > 0 \<and> int (length payload) \<le> maxPayloadBytes svc"

definition parsePath :: "string \<Rightarrow> (string \<times> string) option" where
  "parsePath path =
    (let pre = ''/v1/rendezvous/'' in
     if \<not> prefix pre path then None
     else (case Split CHR ''/'' (drop (length pre) path) of
         [a, b] \<Rightarrow> if a = [] \<or> b = [] then None else Some (a, b)
       | _ \<Rightarrow> None))"

definition bearerToken :: "string \<Rightarrow> byte list option" where
  "bearerToken header =
    (let pre = ''Bearer '' in
     if \<not> prefix pre header \<or> CHR '' '' \<in> set (drop (length pre) header) then None
     else (case DecodeString (drop (length pre) header) of
         None \<Rightarrow> None
       | Some token \<Rightarrow> if length token = 32 then Some token else None))"

definition prune_route :: "time \<Rightarrow> route \<Rightarrow> route" where
  "prune_route now r = r\<lparr>
     presences := (\<lambda>role. case presences r role of
         None \<Rightarrow> None | Some p \<Rightarrow> if pExpiresAt p > now then Some p else None),
     signals := (\<lambda>role. filter (\<lambda>s. sExpiresAt s > now) (signals r role))\<rparr>"

definition pruneLocked :: "time \<Rightarrow> service \<Rightarrow> service" where
  "pruneLocked now svc = svc\<lparr>routes :=
     map (\<lambda>(i, r). (i, prune_route now r)) (filter (\<lambda>(i, r). rExpiresAt r > now) (routes svc))\<rparr>"

definition put_route :: "string \<Rightarrow> route \<Rightarrow> service \<Rightarrow> service" where
  "put_route i r svc = svc\<lparr>routes := AList.update i r (routes svc)\<rparr>"

definition admit :: "string \<Rightarrow> time \<Rightarrow> route \<Rightarrow> service \<Rightarrow> service \<times> (serviceError + route)" where
  "admit i now v0 svc =
    (let v = (if \<not> now < windowStart v0 + minute then v0\<lparr>windowStart := now, requestCount := 0\<rparr> else v0) in
     if requestCount v \<ge> maxRequestsPerRoute svc
     then (put_route i v svc, Inl (exhausted ''rendezvous request rate exceeded''))
     else let v' = v\<lparr>requestCount := requestCount v + 1\<rparr> in (put_route i v' svc, Inr v'))"

definition new_route :: "byte list \<Rightarrow> time \<Rightarrow> service \<Rightarrow> route" where
  "new_route digest now svc = \<lparr>authDigest = digest, rExpiresAt = now + routeLifetime svc, windowStart = now,
     requestCount = 0, nextSequence = 0, presences = (\<lambda>_. None), signals = (\<lambda>_. [])\<rparr>"

definition routeLocked ::
    "string \<Rightarrow> byte list \<Rightarrow> time \<Rightarrow> bool \<Rightarrow> service \<Rightarrow> service \<times> (serviceError + route)" where
  "routeLocked i digest now create svc =
    (case map_of (routes svc) i of
       None \<Rightarrow>
         if \<not> create then (svc, Inl \<lparr>se_status = 404, se_code = CodeNotFound, se_message = ''rendezvous route not found''\<rparr>)
         else if int (length (routes svc)) \<ge> maxRoutes svc then (svc, Inl (exhausted ''rendezvous capacity is full''))
         else admit i now (new_route digest now svc) svc
     | Some v \<Rightarrow> if authDigest v \<noteq> digest then (svc, Inl unauthenticated) else admit i now v svc)"

definition current :: "storedPresence option \<Rightarrow> time \<Rightarrow> bool" where
  "current p now = (case p of None \<Rightarrow> False | Some q \<Rightarrow> pExpiresAt q > now)"

definition publishPresence ::
    "env \<Rightarrow> string \<Rightarrow> byte list \<Rightarrow> byte list \<Rightarrow> time \<Rightarrow> service \<Rightarrow> service \<times> response" where
  "publishPresence E i digest body now svc =
    (case unmarshalPublish E body of
       None \<Rightarrow> (svc, ErrorResponse (invalidArgument ''invalid presence request''))
     | Some q \<Rightarrow>
    (case validateProtocol (prProtocolVersion q) of
       Some e \<Rightarrow> (svc, ErrorResponse e)
     | None \<Rightarrow>
    (case roleFromProto (prRole q) of
       None \<Rightarrow> (svc, ErrorResponse (invalidArgument ''invalid presence fields''))
     | Some role \<Rightarrow>
    if prGeneration q = 0 \<or> \<not> validPayload svc (prEncryptedPayload q)
    then (svc, ErrorResponse (invalidArgument ''invalid presence fields''))
    else
    (case routeLocked i digest now True (pruneLocked now svc) of
       (svc1, Inl e) \<Rightarrow> (svc1, ErrorResponse e)
     | (svc1, Inr v) \<Rightarrow>
    if (case presences v role of None \<Rightarrow> False
        | Some p \<Rightarrow> prGeneration q < pGeneration p
            \<or> (prGeneration q = pGeneration p \<and> prEncryptedPayload q \<noteq> pPayload p))
    then (svc1, ErrorResponse (conflict ''presence generation is stale or reused with different payload''))
    else
    let expiresAt = minTime (now + presenceLifetime svc1) (rExpiresAt v);
        stored = \<lparr>pRole = role, pGeneration = prGeneration q, pPayload = prEncryptedPayload q, pExpiresAt = expiresAt\<rparr>;
        v' = v\<lparr>presences := (presences v)(role := Some stored)\<rparr>;
        peer = presences v' (oppositeRole role)
    in (put_route i v' svc1,
        PublishPresenceResponse (UnixNano expiresAt)
          (if current peer now then map_option presenceToProto peer else None))))))"

definition sendSignal ::
    "env \<Rightarrow> string \<Rightarrow> byte list \<Rightarrow> byte list \<Rightarrow> time \<Rightarrow> service \<Rightarrow> service \<times> response" where
  "sendSignal E i digest body now svc =
    (case unmarshalSend E body of
       None \<Rightarrow> (svc, ErrorResponse (invalidArgument ''invalid signal request''))
     | Some q \<Rightarrow>
    (case validateProtocol (srProtocolVersion q) of
       Some e \<Rightarrow> (svc, ErrorResponse e)
     | None \<Rightarrow>
    (case (roleFromProto (srSender q), roleFromProto (srRecipient q)) of
       (Some sender, Some recipient) \<Rightarrow>
    if recipient \<noteq> oppositeRole sender \<or> \<not> validPayload svc (srEncryptedPayload q)
    then (svc, ErrorResponse (invalidArgument ''invalid signal fields''))
    else
    (case routeLocked i digest now False (pruneLocked now svc) of
       (svc1, Inl e) \<Rightarrow> (svc1, ErrorResponse e)
     | (svc1, Inr v) \<Rightarrow>
    if \<not> current (presences v sender) now
    then (svc1, ErrorResponse (conflict ''sender must publish current presence before signaling''))
    else if int (length (signals v recipient)) \<ge> maxSignalsPerRoute svc1
    then (svc1, ErrorResponse (exhausted ''signal queue is full''))
    else
    let seqno = nextSequence v + 1;
        expiresAt = minTime (now + signalLifetime svc1) (rExpiresAt v);
        stored = \<lparr>sSequence = seqno, sSender = sender, sPayload = srEncryptedPayload q, sCreatedAt = now,
                  sExpiresAt = expiresAt\<rparr>;
        v' = v\<lparr>nextSequence := seqno, signals := (signals v)(recipient := signals v recipient @ [stored])\<rparr>
    in (put_route i v' svc1, SendSignalResponse seqno (UnixNano expiresAt)))
     | _ \<Rightarrow> (svc, ErrorResponse (invalidArgument ''invalid signal fields'')))))"

text \<open>The loop that fills the response: the messages, the next sequence number and whether more remain.\<close>

fun poll_loop ::
    "64 word \<Rightarrow> int \<Rightarrow> storedSignal list \<Rightarrow> signal_message list \<Rightarrow> 64 word \<Rightarrow> signal_message list \<times> 64 word \<times> bool" where
  "poll_loop after limit [] out next_seq = (out, next_seq, False)"
| "poll_loop after limit (s # ss) out next_seq =
    (if sSequence s \<le> after then poll_loop after limit ss out next_seq
     else if int (length out) = limit then (out, next_seq, True)
     else poll_loop after limit ss (out @ [signalToProto s]) (sSequence s))"

definition pollSignals ::
    "env \<Rightarrow> string \<Rightarrow> byte list \<Rightarrow> byte list \<Rightarrow> time \<Rightarrow> service \<Rightarrow> service \<times> response" where
  "pollSignals E i digest body now svc =
    (case unmarshalPoll E body of
       None \<Rightarrow> (svc, ErrorResponse (invalidArgument ''invalid poll request''))
     | Some q \<Rightarrow>
    (case validateProtocol (qrProtocolVersion q) of
       Some e \<Rightarrow> (svc, ErrorResponse e)
     | None \<Rightarrow>
    let limit = (if uint (qrLimit q) = 0 then defaultPollLimit else uint (qrLimit q)) in
    (case roleFromProto (qrRecipient q) of
       None \<Rightarrow> (svc, ErrorResponse (invalidArgument ''invalid poll fields''))
     | Some role \<Rightarrow>
    if limit > maximumPollLimit then (svc, ErrorResponse (invalidArgument ''invalid poll fields''))
    else
    (case routeLocked i digest now False (pruneLocked now svc) of
       (svc1, Inl e) \<Rightarrow> (svc1, ErrorResponse e)
     | (svc1, Inr v) \<Rightarrow>
    if \<not> current (presences v role) now
    then (svc1, ErrorResponse (conflict ''recipient must publish current presence before polling''))
    else
    let after = qrAfterSequence q;
        queue = (if after > 0 then filter (\<lambda>s. sSequence s > after) (signals v role) else signals v role);
        v' = v\<lparr>signals := (signals v)(role := queue)\<rparr>
    in (case poll_loop after limit queue [] after of (out, next_seq, has_more) \<Rightarrow>
        (put_route i v' svc1, PollSignalsResponse out next_seq has_more))))))"

definition ServeHTTP :: "env \<Rightarrow> time \<Rightarrow> http_request \<Rightarrow> service \<Rightarrow> service \<times> response" where
  "ServeHTTP E now rq svc =
    (if hPath rq = ''/healthz''
     then (svc, if hMethod rq \<noteq> ''GET'' then HealthMethodNotAllowed else HealthOK)
     else if hMethod rq \<noteq> ''POST''
     then (svc, ErrorResponse \<lparr>se_status = 405, se_code = CodeInvalidArgument,
                   se_message = ''rendezvous operations require POST''\<rparr>)
     else (case parsePath (hPath rq) of
         None \<Rightarrow> (svc, ErrorResponse (invalidArgument ''invalid rendezvous path''))
       | Some (i, operation) \<Rightarrow>
     if \<not> validOpaqueValue i then (svc, ErrorResponse (invalidArgument ''invalid rendezvous path''))
     else (case bearerToken (hAuthorization rq) of
         None \<Rightarrow> (svc, ErrorResponse unauthenticated)
       | Some token \<Rightarrow>
     if ParseMediaType E (hContentType rq) \<noteq> Some ProtobufMediaType
     then (svc, ErrorResponse (invalidArgument ''content type must be application/x-protobuf''))
     else (case hBody rq of
         None \<Rightarrow> (svc, ErrorResponse (invalidArgument ''request body is too large''))
       | Some body \<Rightarrow>
     if int (length body) > maxRequestBytes svc
     then (svc, ErrorResponse (invalidArgument ''request body is too large''))
     else let digest = Sum256 E token in
       if operation = ''presence'' then publishPresence E i digest body now svc
       else if operation = ''signals'' then sendSignal E i digest body now svc
       else if operation = ''poll'' then pollSignals E i digest body now svc
       else (svc, ErrorResponse (invalidArgument ''invalid rendezvous operation''))))))"

section \<open>Invariant\<close>

definition config_ok :: "service \<Rightarrow> bool" where
  "config_ok svc \<longleftrightarrow> 0 < presenceLifetime svc \<and> 0 < signalLifetime svc \<and> 0 < routeLifetime svc
     \<and> routeLifetime svc \<le> 15 * minute \<and> 1 \<le> maxRoutes svc \<and> 1 \<le> maxSignalsPerRoute svc
     \<and> 1 \<le> maxRequestsPerRoute svc \<and> maxRequestsPerRoute svc \<le> 100000"

text \<open>
  The requests a route can have served: a full budget for every minute between its creation and the start of its
  rate window, and those counted in the window.
\<close>

definition budget :: "service \<Rightarrow> route \<Rightarrow> int" where
  "budget svc r =
    maxRequestsPerRoute svc * ((windowStart r - (rExpiresAt r - routeLifetime svc)) div minute) + requestCount r"

definition window_ok :: "service \<Rightarrow> route \<Rightarrow> bool" where
  "window_ok svc r \<longleftrightarrow> 0 \<le> requestCount r \<and> requestCount r \<le> maxRequestsPerRoute svc
     \<and> rExpiresAt r - routeLifetime svc \<le> windowStart r \<and> windowStart r < rExpiresAt r
     \<and> uint (nextSequence r) \<le> budget svc r"

definition presence_ok :: "service \<Rightarrow> route \<Rightarrow> endpointRole \<Rightarrow> bool" where
  "presence_ok svc r role \<longleftrightarrow>
     (\<forall>p. presences r role = Some p \<longrightarrow>
        pRole p = role \<and> pGeneration p \<noteq> 0 \<and> validPayload svc (pPayload p) \<and> pExpiresAt p \<le> rExpiresAt r)"

definition queue_ok :: "service \<Rightarrow> route \<Rightarrow> endpointRole \<Rightarrow> bool" where
  "queue_ok svc r role \<longleftrightarrow>
     int (length (signals r role)) \<le> maxSignalsPerRoute svc \<and> sorted_wrt (<) (map sSequence (signals r role))
     \<and> (\<forall>s\<in>set (signals r role). 0 < sSequence s \<and> sSequence s \<le> nextSequence r \<and> sSender s = oppositeRole role
          \<and> validPayload svc (sPayload s) \<and> sExpiresAt s \<le> rExpiresAt r)"

definition route_ok :: "service \<Rightarrow> route \<Rightarrow> bool" where
  "route_ok svc r \<longleftrightarrow> window_ok svc r \<and> (\<forall>role. presence_ok svc r role \<and> queue_ok svc r role)"

definition service_ok :: "service \<Rightarrow> bool" where
  "service_ok svc \<longleftrightarrow> config_ok svc \<and> distinct (map fst (routes svc)) \<and> int (length (routes svc)) \<le> maxRoutes svc
     \<and> (\<forall>i r. map_of (routes svc) i = Some r \<longrightarrow> validOpaqueValue i \<and> route_ok svc r)"

lemma validPayload_routes [simp]: "validPayload (svc\<lparr>routes := x\<rparr>) bs = validPayload svc bs"
  by (simp add: validPayload_def)

lemma route_ok_routes [simp]: "route_ok (svc\<lparr>routes := x\<rparr>) r = route_ok svc r"
  by (simp add: route_ok_def window_ok_def budget_def presence_ok_def queue_ok_def)

lemma config_ok_routes [simp]: "config_ok (svc\<lparr>routes := x\<rparr>) = config_ok svc"
  by (simp add: config_ok_def)

lemma put_route_fields [simp]:
  "map_of (routes (put_route i r svc)) k = (if k = i then Some r else map_of (routes svc) k)"
  "route_ok (put_route i r svc) v = route_ok svc v"
  "maxSignalsPerRoute (put_route i r svc) = maxSignalsPerRoute svc"
  "maxRequestsPerRoute (put_route i r svc) = maxRequestsPerRoute svc"
  "presenceLifetime (put_route i r svc) = presenceLifetime svc"
  "signalLifetime (put_route i r svc) = signalLifetime svc"
  "validPayload (put_route i r svc) bs = validPayload svc bs"
  "config_ok (put_route i r svc) = config_ok svc"
  "put_route i v (put_route i r svc) = put_route i v svc"
  by (simp_all add: put_route_def update_conv')

lemma length_update:
  "length (AList.update k v al) = (if map_of al k = None then Suc (length al) else length al)"
  by (induction al) auto

lemma service_ok_put:
  assumes "service_ok svc" "validOpaqueValue i" "route_ok svc r"
    and "map_of (routes svc) i = None \<Longrightarrow> int (length (routes svc)) < maxRoutes svc"
  shows "service_ok (put_route i r svc)"
  using assms by (auto simp: service_ok_def put_route_def length_update distinct_update update_conv')

lemma map_of_pruned:
  "distinct (map fst xs) \<Longrightarrow>
   map_of (map (\<lambda>(i, r). (i, f r)) (filter (\<lambda>(i, r). p r) xs)) k =
     (case map_of xs k of None \<Rightarrow> None | Some r \<Rightarrow> if p r then Some (f r) else None)"
  by (induction xs) (auto split: option.split simp: map_of_eq_None_iff [symmetric] rev_image_eqI)

lemma filter_le_bound: "int (length xs) \<le> n \<Longrightarrow> int (length (filter p xs)) \<le> n"
  by (rule order_trans [OF of_nat_mono [OF length_filter_le]])

lemma pruned_route:
  assumes "service_ok svc"
  shows "map_of (routes (pruneLocked now svc)) k =
    (case map_of (routes svc) k of None \<Rightarrow> None
     | Some r \<Rightarrow> if rExpiresAt r > now then Some (prune_route now r) else None)"
  using assms by (simp add: pruneLocked_def service_ok_def map_of_pruned)

lemma prune_route_ok: assumes "route_ok svc r" shows "route_ok svc (prune_route now r)"
proof -
  have q: "queue_ok svc (prune_route now r) role" if "queue_ok svc r role" for role
    using that by (auto simp: queue_ok_def prune_route_def sorted_wrt_filter sorted_wrt_map filter_le_bound)
  show ?thesis
    using assms q
    by (auto simp: route_ok_def window_ok_def budget_def presence_ok_def prune_route_def split: option.splits if_splits)
qed

lemma pruneLocked_ok: assumes "service_ok svc" shows "service_ok (pruneLocked now svc)"
proof -
  have "distinct (map fst (routes (pruneLocked now svc)))"
    using assms by (auto simp: pruneLocked_def service_ok_def comp_def case_prod_unfold distinct_map_filter)
  moreover have "int (length (routes (pruneLocked now svc))) \<le> maxRoutes svc"
    using assms by (simp add: pruneLocked_def service_ok_def filter_le_bound)
  moreover have "validOpaqueValue i \<and> route_ok svc r" if "map_of (routes (pruneLocked now svc)) i = Some r" for i r
    using that assms by (auto simp: pruned_route service_ok_def prune_route_ok split: option.splits if_splits)
  ultimately show ?thesis using assms unfolding service_ok_def by (simp add: pruneLocked_def)
qed

lemma new_route_ok:
  assumes "config_ok svc"
  shows "route_ok svc (new_route digest now svc)"
  using assms
  by (simp add: route_ok_def window_ok_def budget_def presence_ok_def queue_ok_def new_route_def config_ok_def minute_def)

text \<open>A request that is admitted has budget left for one more sequence number.\<close>

definition slack :: "service \<Rightarrow> route \<Rightarrow> bool" where
  "slack svc r \<longleftrightarrow> uint (nextSequence r) + 1 \<le> budget svc r"

lemma minute_pos [simp]: "0 < minute"
  by (simp add: minute_def)

lemma rate_window:
  assumes c: "config_ok svc" and r: "route_ok svc v0" and live: "rExpiresAt v0 > now"
    and v: "v = (if \<not> now < windowStart v0 + minute then v0\<lparr>windowStart := now, requestCount := 0\<rparr> else v0)"
  shows "route_ok svc v"
    and "requestCount v < maxRequestsPerRoute svc \<Longrightarrow>
      route_ok svc (v\<lparr>requestCount := requestCount v + 1\<rparr>) \<and> slack svc (v\<lparr>requestCount := requestCount v + 1\<rparr>)"
proof -
  let ?w = "windowStart v0 - (rExpiresAt v0 - routeLifetime svc)" and ?m = "maxRequestsPerRoute svc"
  have w: "window_ok svc v0" using r by (simp add: route_ok_def)
  have wv: "window_ok svc v"
  proof (cases "now < windowStart v0 + minute")
    case True
    then show ?thesis using w v by simp
  next
    case False
    let ?w' = "now - (rExpiresAt v0 - routeLifetime svc)"
    have "(?w + minute) div minute \<le> ?w' div minute" using False by (intro zdiv_mono1) auto
    moreover have "(?w + minute) div minute = ?w div minute + 1" by (rule div_add_self2) (simp add: minute_def)
    ultimately have "?m * (?w div minute + 1) \<le> ?m * (?w' div minute)"
      using c by (intro mult_left_mono) (auto simp: config_ok_def)
    then have "budget svc v0 \<le> ?m * (?w' div minute)"
      using w by (simp add: budget_def window_ok_def algebra_simps)
    then show ?thesis using False v w live c by (auto simp: window_ok_def budget_def config_ok_def minute_def)
  qed
  have same: "presences v = presences v0" "signals v = signals v0" "nextSequence v = nextSequence v0"
    "rExpiresAt v = rExpiresAt v0" by (simp_all add: v)
  have pq: "\<forall>role. presence_ok svc v role \<and> queue_ok svc v role"
    using r by (simp add: route_ok_def presence_ok_def queue_ok_def same)
  show "route_ok svc v" using wv pq by (simp add: route_ok_def)
  show "route_ok svc (v\<lparr>requestCount := requestCount v + 1\<rparr>) \<and> slack svc (v\<lparr>requestCount := requestCount v + 1\<rparr>)"
    if "requestCount v < ?m"
    using wv pq that by (auto simp: route_ok_def window_ok_def slack_def budget_def presence_ok_def queue_ok_def)
qed

lemma less_minutes: "w < 15 * minute \<Longrightarrow> w div minute < 15"
  by (simp add: minute_def)

lemma window_budget:
  assumes "config_ok svc" "window_ok svc r"
  shows "budget svc r \<le> 15 * maxRequestsPerRoute svc"
proof -
  let ?w = "windowStart r - (rExpiresAt r - routeLifetime svc)" and ?m = "maxRequestsPerRoute svc"
  have "?w < 15 * minute" using assms by (auto simp: config_ok_def window_ok_def)
  then have "?w div minute < 15" by (rule less_minutes)
  then have "?m * (?w div minute) \<le> ?m * 14" using assms by (intro mult_left_mono) (auto simp: config_ok_def)
  then show ?thesis using assms(2) by (simp add: budget_def window_ok_def)
qed

lemma slack_put [simp]: "slack (put_route i r svc) v = slack svc v"
  by (simp add: slack_def budget_def put_route_def)

lemma admit_ok:
  assumes s: "service_ok svc" and i: "validOpaqueValue i" and v: "route_ok svc v" "rExpiresAt v > now"
    and n: "map_of (routes svc) i = None \<Longrightarrow> int (length (routes svc)) < maxRoutes svc"
    and a: "admit i now v svc = (svc1, res)"
  shows "service_ok svc1 \<and> (\<exists>u. svc1 = put_route i u svc) \<and>
    (\<forall>u. res = Inr u \<longrightarrow> map_of (routes svc1) i = Some u \<and> route_ok svc1 u \<and> slack svc1 u
       \<and> rExpiresAt u = rExpiresAt v \<and> authDigest u = authDigest v \<and> nextSequence u = nextSequence v
       \<and> presences u = presences v \<and> signals u = signals v)"
proof -
  define w where "w = (if \<not> now < windowStart v + minute then v\<lparr>windowStart := now, requestCount := 0\<rparr> else v)"
  have c: "config_ok svc" using s by (simp add: service_ok_def)
  note rate = rate_window [OF c v w_def]
  have same: "rExpiresAt w = rExpiresAt v" "authDigest w = authDigest v" "nextSequence w = nextSequence v"
    "presences w = presences v" "signals w = signals v" by (simp_all add: w_def)
  show ?thesis
  proof (cases "requestCount w \<ge> maxRequestsPerRoute svc")
    case True
    then have "admit i now v svc = (put_route i w svc, Inl (exhausted ''rendezvous request rate exceeded''))"
      by (simp add: admit_def Let_def w_def)
    then show ?thesis using a service_ok_put [OF s i rate(1) n] by auto
  next
    case False
    let ?u = "w\<lparr>requestCount := requestCount w + 1\<rparr>"
    have "admit i now v svc = (put_route i ?u svc, Inr ?u)"
      using False by (simp add: admit_def Let_def w_def [symmetric])
    then show ?thesis
      using a rate(2) False service_ok_put [OF s i _ n, of ?u] same by auto
  qed
qed

lemma routeLocked_ok:
  assumes s: "service_ok svc" and i: "validOpaqueValue i"
    and live: "\<And>r. map_of (routes svc) i = Some r \<Longrightarrow> rExpiresAt r > now"
    and a: "routeLocked i digest now create svc = (svc1, res)"
  shows "service_ok svc1 \<and> (svc1 = svc \<or> (\<exists>u. svc1 = put_route i u svc)) \<and>
    (\<forall>u. res = Inr u \<longrightarrow> map_of (routes svc1) i = Some u \<and> route_ok svc1 u \<and> slack svc1 u \<and> rExpiresAt u > now
       \<and> authDigest u = digest)"
proof (cases "map_of (routes svc) i")
  case None
  have c: "config_ok svc" using s by (simp add: service_ok_def)
  have "rExpiresAt (new_route digest now svc) > now" using c by (simp add: new_route_def config_ok_def)
  note ok = admit_ok [OF s i new_route_ok [OF c, of digest now] this]
  show ?thesis
  proof (cases "create \<and> int (length (routes svc)) < maxRoutes svc")
    case True
    then have "admit i now (new_route digest now svc) svc = (svc1, res)" using None a by (simp add: routeLocked_def)
    from ok [OF _ this] True \<open>rExpiresAt (new_route digest now svc) > now\<close>
    show ?thesis by (simp add: new_route_def)
  next
    case False
    then have "svc1 = svc \<and> (\<exists>e. res = Inl e)" using None a by (auto simp: routeLocked_def split: if_splits)
    then show ?thesis using s by auto
  qed
next
  case (Some v)
  have v: "route_ok svc v" using s Some by (simp add: service_ok_def)
  show ?thesis
  proof (cases "authDigest v = digest")
    case True
    then have "admit i now v svc = (svc1, res)" using Some a by (simp add: routeLocked_def)
    note ok = admit_ok [OF s i v live [OF Some] _ this]
    show ?thesis using ok Some True live [OF Some] by (cases res) simp_all
  next
    case False
    then show ?thesis using Some a s by (auto simp: routeLocked_def)
  qed
qed

lemma prune_live:
  assumes "service_ok svc" "map_of (routes (pruneLocked now svc)) i = Some r"
  shows "rExpiresAt r > now"
  using assms by (auto simp: pruned_route prune_route_def split: option.splits if_splits)

lemma routeLocked_pruned:
  assumes "service_ok svc" "validOpaqueValue i" "routeLocked i digest now create (pruneLocked now svc) = (svc1, res)"
  shows "service_ok svc1 \<and> (svc1 = pruneLocked now svc \<or> (\<exists>u. svc1 = put_route i u (pruneLocked now svc))) \<and>
    (\<forall>u. res = Inr u \<longrightarrow> map_of (routes svc1) i = Some u \<and> route_ok svc1 u \<and> slack svc1 u \<and> rExpiresAt u > now
       \<and> authDigest u = digest)"
  by (rule routeLocked_ok [OF pruneLocked_ok [OF assms(1)] assms(2) prune_live [OF assms(1)] assms(3)])

lemma pruned_config [simp]:
  "validPayload (pruneLocked now svc) bs = validPayload svc bs"
  "maxSignalsPerRoute (pruneLocked now svc) = maxSignalsPerRoute svc"
  "maxRequestsPerRoute (pruneLocked now svc) = maxRequestsPerRoute svc"
  by (simp_all add: pruneLocked_def validPayload_def)

lemma routeLocked_valid:
  assumes "service_ok svc" "validOpaqueValue i" "routeLocked i digest now create (pruneLocked now svc) = (svc1, res)"
  shows "validPayload svc1 bs = validPayload svc bs"
  using routeLocked_pruned [OF assms] by auto

lemma oppositeRole_neq [simp]: "oppositeRole r \<noteq> r" "r \<noteq> oppositeRole r" "oppositeRole (oppositeRole r) = r"
  by (cases r; simp add: oppositeRole_def)+

lemma minTime_le [simp]: "minTime a b \<le> b"
  by (simp add: minTime_def)

text \<open>The three updates of a route.\<close>

lemma put_presence_ok:
  assumes "route_ok svc v" "p = \<lparr>pRole = role, pGeneration = g, pPayload = bs, pExpiresAt = t\<rparr>" "g \<noteq> 0"
    "validPayload svc bs" "t \<le> rExpiresAt v"
  shows "route_ok svc (v\<lparr>presences := (presences v)(role := Some p)\<rparr>)"
  using assms by (auto simp: route_ok_def window_ok_def budget_def presence_ok_def queue_ok_def)

lemma put_signal_ok:
  assumes c: "config_ok svc" and v: "route_ok svc v" "slack svc v"
    and s: "s = \<lparr>sSequence = nextSequence v + 1, sSender = oppositeRole role, sPayload = bs, sCreatedAt = now, sExpiresAt = t\<rparr>"
    and "validPayload svc bs" "t \<le> rExpiresAt v" "int (length (signals v role)) < maxSignalsPerRoute svc"
  shows "uint (nextSequence v + 1) = uint (nextSequence v) + 1"
    and "route_ok svc (v\<lparr>nextSequence := nextSequence v + 1, signals := (signals v)(role := signals v role @ [s])\<rparr>)"
proof -
  have w: "window_ok svc v" using v by (simp add: route_ok_def)
  have "uint (nextSequence v) + 1 < 2 ^ 64"
    using window_budget [OF c w] v(2) c by (simp add: slack_def config_ok_def)
  then show n: "uint (nextSequence v + 1) = uint (nextSequence v) + 1"
    by (simp add: uint_word_ariths take_bit_int_eq_self)
  then have lt: "nextSequence v < nextSequence v + 1" by (simp add: word_less_def)
  let ?v = "v\<lparr>nextSequence := nextSequence v + 1, signals := (signals v)(role := signals v role @ [s])\<rparr>"
  have "queue_ok svc ?v k" for k
  proof (cases "k = role")
    case True
    then show ?thesis
      using v(1) assms(5-) lt
      by (auto simp: route_ok_def queue_ok_def s sorted_wrt_append dest!: spec [of _ role] intro: less_imp_le order_trans
          le_less_trans)
  next
    case False
    then show ?thesis
      using v(1) lt by (auto simp: route_ok_def queue_ok_def dest!: spec [of _ k] intro: less_imp_le order_trans)
  qed
  moreover have "window_ok svc ?v" using w v(2) n by (auto simp: window_ok_def slack_def budget_def)
  moreover have "presence_ok svc ?v k" for k using v(1) by (auto simp: route_ok_def presence_ok_def)
  ultimately show "route_ok svc ?v" by (simp add: route_ok_def)
qed

lemma put_queue_ok:
  assumes "route_ok svc v"
  shows "route_ok svc (v\<lparr>signals := (signals v)(role := filter p (signals v role))\<rparr>)"
  using assms
  by (auto simp: route_ok_def window_ok_def budget_def presence_ok_def queue_ok_def sorted_wrt_map sorted_wrt_filter
      filter_le_bound)

text \<open>What a request on route \<open>i\<close> may do to the state, and what it may do without the credential of the route.\<close>

definition touched :: "time \<Rightarrow> string \<Rightarrow> service \<Rightarrow> service \<Rightarrow> bool" where
  "touched now i svc svc' \<longleftrightarrow>
     svc' = svc \<or> svc' = pruneLocked now svc \<or> (\<exists>u. svc' = put_route i u (pruneLocked now svc))"

definition foreign :: "time \<Rightarrow> string \<Rightarrow> byte list \<Rightarrow> service \<Rightarrow> bool" where
  "foreign now i digest svc \<longleftrightarrow>
     (\<exists>r. map_of (routes (pruneLocked now svc)) i = Some r \<and> authDigest r \<noteq> digest)"

definition request_ok :: "time \<Rightarrow> string \<Rightarrow> byte list \<Rightarrow> service \<Rightarrow> service \<times> response \<Rightarrow> bool" where
  "request_ok now i digest svc out \<longleftrightarrow> service_ok (fst out) \<and> touched now i svc (fst out)
     \<and> (foreign now i digest svc \<longrightarrow> fst out \<in> {svc, pruneLocked now svc} \<and> (\<exists>e. snd out = ErrorResponse e))"

lemma routeLocked_foreign:
  "foreign now i digest svc \<Longrightarrow>
   routeLocked i digest now create (pruneLocked now svc) = (pruneLocked now svc, Inl unauthenticated)"
  by (auto simp: foreign_def routeLocked_def)

lemma request_unchanged: "service_ok svc \<Longrightarrow> request_ok now i digest svc (svc, ErrorResponse e)"
  by (simp add: request_ok_def touched_def)

lemma request_refused:
  assumes "service_ok svc" "validOpaqueValue i" "routeLocked i digest now create (pruneLocked now svc) = (svc1, res)"
  shows "request_ok now i digest svc (svc1, ErrorResponse e)"
  using routeLocked_pruned [OF assms] routeLocked_foreign [of now i digest svc create] assms(3)
  by (auto simp: request_ok_def touched_def)

lemma request_granted:
  assumes "service_ok svc" "validOpaqueValue i" "routeLocked i digest now create (pruneLocked now svc) = (svc1, Inr v)"
    and "route_ok svc1 v'"
  shows "request_ok now i digest svc (put_route i v' svc1, resp)"
proof -
  note ok = routeLocked_pruned [OF assms(1-3)]
  have "service_ok (put_route i v' svc1)" by (rule service_ok_put) (use ok assms in auto)
  moreover have "touched now i svc (put_route i v' svc1)" using ok by (auto simp: touched_def)
  moreover have "\<not> foreign now i digest svc" using routeLocked_foreign [of now i digest svc create] assms(3) by auto
  ultimately show ?thesis by (simp add: request_ok_def)
qed

lemma publishPresence_ok:
  assumes s: "service_ok svc" and i: "validOpaqueValue i"
  shows "request_ok now i digest svc (publishPresence E i digest body now svc)"
proof -
  note un = request_unchanged [OF s]
  obtain svc1 res where rl: "routeLocked i digest now True (pruneLocked now svc) = (svc1, res)" by fastforce
  note ref = request_refused [OF s i rl]
  have "request_ok now i digest svc (put_route i (v\<lparr>presences := (presences v)(role := Some
      \<lparr>pRole = role, pGeneration = prGeneration q, pPayload = prEncryptedPayload q,
       pExpiresAt = minTime (now + presenceLifetime svc1) (rExpiresAt v)\<rparr>)\<rparr>) svc1, resp)"
    if "res = Inr v" "prGeneration q \<noteq> 0" "validPayload svc (prEncryptedPayload q)" for v role q resp
    by (rule request_granted [OF s i rl [unfolded that(1)]], rule put_presence_ok)
      (use routeLocked_pruned [OF s i rl] routeLocked_valid [OF s i rl] that in auto)
  note g = this
  show ?thesis
    unfolding publishPresence_def Let_def rl by (auto simp: un ref intro!: g split: option.split sum.split)
qed

lemma sendSignal_ok:
  assumes s: "service_ok svc" and i: "validOpaqueValue i"
  shows "request_ok now i digest svc (sendSignal E i digest body now svc)"
proof -
  note un = request_unchanged [OF s]
  obtain svc1 res where rl: "routeLocked i digest now False (pruneLocked now svc) = (svc1, res)" by fastforce
  note ref = request_refused [OF s i rl]
  have "request_ok now i digest svc (put_route i (v\<lparr>nextSequence := nextSequence v + 1,
      signals := (signals v)(recipient := signals v recipient @ [\<lparr>sSequence = nextSequence v + 1, sSender = sender,
        sPayload = srEncryptedPayload q, sCreatedAt = now, sExpiresAt = minTime (now + signalLifetime svc1) (rExpiresAt v)\<rparr>])\<rparr>)
      svc1, resp)"
    if "res = Inr v" "validPayload svc (srEncryptedPayload q)" "recipient = oppositeRole sender"
      "\<not> maxSignalsPerRoute svc1 \<le> int (length (signals v recipient))" for v sender recipient q resp
    by (rule request_granted [OF s i rl [unfolded that(1)]], rule put_signal_ok(2))
      (use routeLocked_pruned [OF s i rl] routeLocked_valid [OF s i rl] that in \<open>auto simp: service_ok_def\<close>)
  note g = this
  show ?thesis
    unfolding sendSignal_def Let_def rl by (auto simp: un ref intro!: g split: option.split sum.split)
qed

lemma pollSignals_ok:
  assumes s: "service_ok svc" and i: "validOpaqueValue i"
  shows "request_ok now i digest svc (pollSignals E i digest body now svc)"
proof -
  note un = request_unchanged [OF s]
  obtain svc1 res where rl: "routeLocked i digest now False (pruneLocked now svc) = (svc1, res)" by fastforce
  note ref = request_refused [OF s i rl]
  have "request_ok now i digest svc (put_route i (v\<lparr>signals := (signals v)(role := filter p (signals v role))\<rparr>) svc1, resp)"
    if "res = Inr v" for v role p resp
    by (rule request_granted [OF s i rl [unfolded that(1)]], rule put_queue_ok)
      (use routeLocked_pruned [OF s i rl] that in auto)
  note g = this
  have h: "request_ok now i digest svc (put_route i v svc1, resp)" if "res = Inr v" for v resp
    using g [OF that, where p = "\<lambda>_. True"] by simp
  show ?thesis
    unfolding pollSignals_def Let_def rl
    by (auto simp: un ref intro: g h split: option.split sum.split prod.split)
qed

lemma healthz_path: "parsePath ''/healthz'' = None"
  by code_simp

lemma ServeHTTP_shape:
  "fst (ServeHTTP E now rq svc) = svc
     \<and> (parsePath (hPath rq) = None \<or> (\<exists>e. snd (ServeHTTP E now rq svc) = ErrorResponse e))
   \<or> (\<exists>i operation token body. parsePath (hPath rq) = Some (i, operation) \<and> validOpaqueValue i
        \<and> bearerToken (hAuthorization rq) = Some token
        \<and> ServeHTTP E now rq svc \<in> {publishPresence E i (Sum256 E token) body now svc,
            sendSignal E i (Sum256 E token) body now svc, pollSignals E i (Sum256 E token) body now svc})"
  (is "?A \<or> ?B")
proof (cases "parsePath (hPath rq)")
  case None
  then show ?thesis by (simp add: ServeHTTP_def)
next
  case (Some p)
  obtain i operation where p: "p = (i, operation)" by (cases p)
  have h: "hPath rq \<noteq> ''/healthz''" using Some healthz_path by auto
  consider (early) "hMethod rq \<noteq> ''POST'' \<or> \<not> validOpaqueValue i \<or> bearerToken (hAuthorization rq) = None
      \<or> ParseMediaType E (hContentType rq) \<noteq> Some ProtobufMediaType \<or> hBody rq = None
      \<or> (\<exists>b. hBody rq = Some b \<and> int (length b) > maxRequestBytes svc)"
    | (go) token body where "hMethod rq = ''POST''" "validOpaqueValue i" "bearerToken (hAuthorization rq) = Some token"
      "ParseMediaType E (hContentType rq) = Some ProtobufMediaType" "hBody rq = Some body"
      "\<not> int (length body) > maxRequestBytes svc"
    by (cases "bearerToken (hAuthorization rq)"; cases "hBody rq") auto
  then show ?thesis
  proof cases
    case early
    then have ?A unfolding ServeHTTP_def using h Some p by (simp split: option.split) (intro impI allI, simp)
    then show ?thesis ..
  next
    case go
    then have "ServeHTTP E now rq svc =
        (if operation = ''presence'' then publishPresence E i (Sum256 E token) body now svc
         else if operation = ''signals'' then sendSignal E i (Sum256 E token) body now svc
         else if operation = ''poll'' then pollSignals E i (Sum256 E token) body now svc
         else (svc, ErrorResponse (invalidArgument ''invalid rendezvous operation'')))"
      using h Some p by (simp add: ServeHTTP_def)
    then show ?thesis using go Some p by (simp split: if_split) blast
  qed
qed

lemma ServeHTTP_request_ok:
  assumes "service_ok svc"
  shows "fst (ServeHTTP E now rq svc) = svc
     \<and> (parsePath (hPath rq) = None \<or> (\<exists>e. snd (ServeHTTP E now rq svc) = ErrorResponse e))
   \<or> (\<exists>i operation token. parsePath (hPath rq) = Some (i, operation) \<and> bearerToken (hAuthorization rq) = Some token
        \<and> request_ok now i (Sum256 E token) svc (ServeHTTP E now rq svc))"
proof (rule disjE [OF ServeHTTP_shape [of E now rq svc]], goal_cases)
  case 2
  then obtain i operation token body where h: "parsePath (hPath rq) = Some (i, operation)" "validOpaqueValue i"
      "bearerToken (hAuthorization rq) = Some token"
      "ServeHTTP E now rq svc \<in> {publishPresence E i (Sum256 E token) body now svc,
         sendSignal E i (Sum256 E token) body now svc, pollSignals E i (Sum256 E token) body now svc}" by blast
  then have "request_ok now i (Sum256 E token) svc (ServeHTTP E now rq svc)"
    by (elim insertE emptyE) (simp_all only: publishPresence_ok [OF assms h(2)] sendSignal_ok [OF assms h(2)]
        pollSignals_ok [OF assms h(2)])
  then show ?case using h(1,3) by blast
qed (rule disjI1)

section \<open>Reachable states\<close>

inductive served :: "env \<Rightarrow> service \<Rightarrow> bool" for E where
  start: "NewService config = Inr svc \<Longrightarrow> served E svc"
| request: "served E svc \<Longrightarrow> ServeHTTP E now rq svc = (svc', resp) \<Longrightarrow> served E svc'"

lemma NewService_ok: "NewService config = Inr svc \<Longrightarrow> service_ok svc"
  using minute_pos by (auto simp: NewService_def Let_def service_ok_def config_ok_def split: if_split_asm)

lemma served_ok: "served E svc \<Longrightarrow> service_ok svc"
proof (induction rule: served.induct)
  case (start config svc)
  then show ?case by (rule NewService_ok)
next
  case (request svc now rq svc' resp)
  then show ?case using ServeHTTP_request_ok [OF request(3), of E now rq] by (auto simp: request_ok_def)
qed

section \<open>Properties\<close>

text \<open>
  C8: The service is bounded. In every state it can reach, whatever requests at whatever instants led there, it holds
  at most \<open>maxRoutes\<close> routes; a route holds at most one presence and \<open>maxSignalsPerRoute\<close> signals per role, each with a
  payload of at most \<open>maxPayloadBytes\<close> bytes and none outliving the route; the sequence numbers of a queue are
  strictly increasing; and a route gives out at most fifteen times its requests per minute, so they never wrap.
\<close>
theorem rendezvous_is_bounded:
  assumes "served E svc"
  shows "int (length (routes svc)) \<le> maxRoutes svc \<and> distinct (map fst (routes svc)) \<and>
    (\<forall>i r role. map_of (routes svc) i = Some r \<longrightarrow>
      validOpaqueValue i \<and> requestCount r \<le> maxRequestsPerRoute svc
      \<and> uint (nextSequence r) \<le> 15 * maxRequestsPerRoute svc \<and> 15 * maxRequestsPerRoute svc \<le> 1500000
      \<and> int (length (signals r role)) \<le> maxSignalsPerRoute svc
      \<and> sorted_wrt (<) (map sSequence (signals r role))
      \<and> (\<forall>s\<in>set (signals r role). sSender s = oppositeRole role \<and> sSequence s \<le> nextSequence r
          \<and> int (length (sPayload s)) \<le> maxPayloadBytes svc \<and> sExpiresAt s \<le> rExpiresAt r)
      \<and> (\<forall>p. presences r role = Some p \<longrightarrow> pRole p = role
          \<and> int (length (pPayload p)) \<le> maxPayloadBytes svc \<and> pExpiresAt p \<le> rExpiresAt r))"
proof -
  have s: "service_ok svc" using assms by (rule served_ok)
  then have c: "config_ok svc" by (simp add: service_ok_def)
  have "15 * maxRequestsPerRoute svc \<le> 1500000" using c by (simp add: config_ok_def)
  moreover have "uint (nextSequence r) \<le> 15 * maxRequestsPerRoute svc" if "map_of (routes svc) i = Some r" for i r
  proof -
    have "window_ok svc r" using s that by (simp add: service_ok_def route_ok_def)
    then show ?thesis using window_budget [OF c] by (auto simp: window_ok_def intro: order_trans)
  qed
  moreover have "requestCount r \<le> maxRequestsPerRoute svc \<and> queue_ok svc r role \<and> presence_ok svc r role \<and> validOpaqueValue i"
    if "map_of (routes svc) i = Some r" for i r role
    using s that by (simp add: service_ok_def route_ok_def window_ok_def)
  ultimately show ?thesis
    using s by (simp add: service_ok_def queue_ok_def presence_ok_def validPayload_def)
qed

text \<open>A service with the default configuration on which an orchestrator and a worker announce themselves and signal.\<close>

definition sample_env :: env where
  "sample_env = \<lparr>Sum256 = (\<lambda>token. token), ParseMediaType = Some,
     unmarshalPublish = (\<lambda>b. if b = [1] then Some \<lparr>prProtocolVersion = 1, prRole = 1, prGeneration = 1, prEncryptedPayload = [7]\<rparr>
       else if b = [2] then Some \<lparr>prProtocolVersion = 1, prRole = 2, prGeneration = 1, prEncryptedPayload = [8]\<rparr> else None),
     unmarshalSend = (\<lambda>b. if b = [] then None else Some \<lparr>srProtocolVersion = 1, srSender = 1, srRecipient = 2, srEncryptedPayload = b\<rparr>),
     unmarshalPoll = (\<lambda>b. Some \<lparr>qrProtocolVersion = 1, qrRecipient = 2, qrAfterSequence = 0, qrLimit = 1\<rparr>)\<rparr>"

definition sample_route :: string where
  "sample_route = EncodeToString (replicate 32 0)"

definition sample_request :: "byte list \<Rightarrow> string \<Rightarrow> byte list \<Rightarrow> http_request" where
  "sample_request token operation body = \<lparr>hMethod = ''POST'', hPath = ''/v1/rendezvous/'' @ sample_route @ ''/'' @ operation,
     hAuthorization = ''Bearer '' @ EncodeToString token, hContentType = ProtobufMediaType, hBody = Some body\<rparr>"

definition sample_token :: "byte list" where "sample_token = replicate 32 3"

definition sample_start :: service where
  "sample_start = \<lparr>presenceLifetime = defaultPresenceLifetime, signalLifetime = defaultSignalLifetime,
     routeLifetime = defaultRouteLifetime, maxRoutes = 10000, maxSignalsPerRoute = 64, maxPayloadBytes = 32768,
     maxRequestBytes = 40960, maxRequestsPerRoute = 240, routes = []\<rparr>"

definition sample_queue :: "storedSignal list" where
  "sample_queue = [
     \<lparr>sSequence = 1, sSender = roleOrchestrator, sPayload = [9], sCreatedAt = 7, sExpiresAt = 120000000007\<rparr>,
     \<lparr>sSequence = 2, sSender = roleOrchestrator, sPayload = [9, 9], sCreatedAt = 8, sExpiresAt = 120000000008\<rparr>]"

definition sample_state :: "int \<Rightarrow> endpointRole list \<Rightarrow> storedSignal list \<Rightarrow> service" where
  "sample_state count announced queue = sample_start\<lparr>routes := [(sample_route,
     \<lparr>authDigest = sample_token, rExpiresAt = 360000000005, windowStart = 5, requestCount = count,
      nextSequence = of_nat (length queue),
      presences = (\<lambda>role. if role \<notin> set announced then None
        else if role = roleOrchestrator
        then Some \<lparr>pRole = role, pGeneration = 1, pPayload = [7], pExpiresAt = 90000000005\<rparr>
        else Some \<lparr>pRole = role, pGeneration = 1, pPayload = [8], pExpiresAt = 90000000006\<rparr>),
      signals = (\<lambda>role. if role = roleWorker then queue else [])\<rparr>)]\<rparr>"

definition sample_paired :: service where
  "sample_paired = sample_state 2 [roleOrchestrator, roleWorker] []"

definition sample_once :: service where
  "sample_once = sample_state 3 [roleOrchestrator, roleWorker] (take 1 sample_queue)"

definition sample_sent :: service where
  "sample_sent = sample_state 4 [roleOrchestrator, roleWorker] sample_queue"

lemma b64_no_sep: "CHR ''/'' \<notin> set (EncodeToString bs) \<and> CHR '' '' \<notin> set (EncodeToString bs)"
proof -
  have "CHR ''/'' \<notin> set b64_alphabet \<and> CHR '' '' \<notin> set b64_alphabet" by code_simp
  then show ?thesis using EncodeToString_alphabet [of bs] by blast
qed

lemma bearerToken_header: "length token = 32 \<Longrightarrow> bearerToken (''Bearer '' @ EncodeToString token) = Some token"
  using b64_no_sep [of token] by (simp add: bearerToken_def)

lemma parsePath_request:
  assumes "length bs = 32" "op \<noteq> []" "CHR ''/'' \<notin> set op"
  shows "parsePath (''/v1/rendezvous/'' @ EncodeToString bs @ ''/'' @ op) = Some (EncodeToString bs, op)"
proof -
  have "EncodeToString bs \<noteq> []" using assms(1) length_EncodeToString [of bs] by (auto simp del: length_EncodeToString)
  then show ?thesis
    using assms b64_no_sep [of bs] by (simp add: parsePath_def Split_append_sep Split_single)
qed

lemma sample_env_fields: "Sum256 sample_env token = token" "ParseMediaType sample_env m = Some m"
  by (simp_all add: sample_env_def)

lemma sample_serve:
  assumes "length token = 32" "int (length body) \<le> maxRequestBytes svc" "operation \<noteq> []" "CHR ''/'' \<notin> set operation"
  shows "ServeHTTP sample_env now (sample_request token operation body) svc =
    (if operation = ''presence'' then publishPresence sample_env sample_route token body now svc
     else if operation = ''signals'' then sendSignal sample_env sample_route token body now svc
     else if operation = ''poll'' then pollSignals sample_env sample_route token body now svc
     else (svc, ErrorResponse (invalidArgument ''invalid rendezvous operation'')))"
proof -
  let ?rq = "sample_request token operation body"
  have v: "validOpaqueValue sample_route" by (auto simp: validOpaqueValue_iff sample_route_def)
  have path: "parsePath (hPath ?rq) = Some (sample_route, operation)"
    using parsePath_request [of "replicate 32 0", OF _ assms(3,4)] by (simp only: sample_request_def sample_route_def length_replicate http_request.select_convs)
  then have "hPath ?rq \<noteq> ''/healthz''" using healthz_path by auto
  moreover have "bearerToken (hAuthorization ?rq) = Some token"
    using bearerToken_header [OF assms(1)] by (simp only: sample_request_def http_request.select_convs)
  moreover have "hMethod ?rq = ''POST''" "hContentType ?rq = ProtobufMediaType" "hBody ?rq = Some body"
    by (simp_all add: sample_request_def)
  ultimately show ?thesis using v path assms(2) by (simp add: ServeHTTP_def sample_env_fields)
qed

lemma sample_steps:
  "fst (publishPresence sample_env sample_route sample_token [1] 5 sample_start) = sample_state 1 [roleOrchestrator] []"
  "fst (publishPresence sample_env sample_route sample_token [2] 6 (sample_state 1 [roleOrchestrator] [])) = sample_paired"
  "fst (sendSignal sample_env sample_route sample_token [9] 7 sample_paired) = sample_once"
  "fst (sendSignal sample_env sample_route sample_token [9, 9] 8 sample_once) = sample_sent"
  by code_simp+

lemma sample_fields:
  "length sample_token = 32" "maxRequestBytes sample_start = 40960" "maxRequestBytes (sample_state c a q) = 40960"
  "maxRequestBytes sample_paired = 40960" "maxRequestBytes sample_once = 40960" "maxRequestBytes sample_sent = 40960"
  by (simp_all add: sample_token_def sample_start_def sample_state_def sample_paired_def sample_once_def sample_sent_def)

lemma served_fst: "served E svc \<Longrightarrow> fst (ServeHTTP E now rq svc) = svc' \<Longrightarrow> served E svc'"
  by (erule served.request [where resp = "snd (ServeHTTP E now rq svc)"]) auto

lemma sample_paired_served: "served sample_env sample_paired"
proof -
  have "NewService \<lparr>PresenceLifetime = 0, SignalLifetime = 0, RouteLifetime = 0, MaxRoutes = 0, MaxSignalsPerRoute = 0,
      MaxPayloadBytes = 0, MaxRequestsPerRoute = 0\<rparr> = Inr sample_start" by code_simp
  then have "served sample_env sample_start" by (rule served.start)
  then have "served sample_env (sample_state 1 [roleOrchestrator] [])"
    by (rule served_fst [where rq = "sample_request sample_token ''presence'' [1]" and now = 5])
      (simp add: sample_serve sample_steps sample_fields)
  then show ?thesis
    by (rule served_fst [where rq = "sample_request sample_token ''presence'' [2]" and now = 6])
      (simp add: sample_serve sample_steps sample_fields)
qed

lemma sample_sent_served: "served sample_env sample_sent"
proof -
  have "served sample_env sample_once"
    by (rule served_fst [OF sample_paired_served, where rq = "sample_request sample_token ''signals'' [9]" and now = 7])
      (simp add: sample_serve sample_steps sample_fields)
  then show ?thesis
    by (rule served_fst [where rq = "sample_request sample_token ''signals'' [9, 9]" and now = 8])
      (simp add: sample_serve sample_steps sample_fields)
qed

theorem rendezvous_is_bounded_witness:
  "served sample_env sample_sent
   \<and> map_option (\<lambda>r. map sSequence (signals r roleWorker)) (map_of (routes sample_sent) sample_route) = Some [1, 2]
   \<and> (\<exists>r. map_of (routes sample_sent) sample_route = Some r
        \<and> uint (nextSequence r) \<le> 15 * maxRequestsPerRoute sample_sent)"
proof -
  have e: "map_option (\<lambda>r. map sSequence (signals r roleWorker)) (map_of (routes sample_sent) sample_route) = Some [1, 2]"
    by code_simp
  then obtain r where "map_of (routes sample_sent) sample_route = Some r" by auto
  then show ?thesis using rendezvous_is_bounded [OF sample_sent_served] sample_sent_served e by blast
qed

text \<open>
  C9: A route belongs to those who hold its token. A request that does not come on the path of a live route with a
  token whose digest is the route's leaves the route as it was, up to the removal of what has expired; on the path of
  the route it is answered with an error.
\<close>
theorem rendezvous_isolates_routes:
  assumes "served E svc" "map_of (routes (pruneLocked now svc)) k = Some r"
    and "\<And>token op. bearerToken (hAuthorization rq) = Some token \<Longrightarrow> parsePath (hPath rq) = Some (k, op) \<Longrightarrow>
      Sum256 E token \<noteq> authDigest r"
    and "ServeHTTP E now rq svc = (svc', resp)"
  shows "map_of (routes svc') k \<in> {map_of (routes svc) k, Some r}
    \<and> (\<forall>op. parsePath (hPath rq) = Some (k, op) \<longrightarrow> (\<exists>e. resp = ErrorResponse e))"
proof (rule disjE [OF ServeHTTP_request_ok [OF served_ok [OF assms(1)], of E now rq]], goal_cases)
  case 1
  then show ?case using assms(4) by auto
next
  case 2
  then obtain i operation token where i: "parsePath (hPath rq) = Some (i, operation)"
    "bearerToken (hAuthorization rq) = Some token" "request_ok now i (Sum256 E token) svc (svc', resp)"
    using assms(4) by auto
  show ?case
  proof (cases "i = k")
    case True
    then have "foreign now i (Sum256 E token) svc"
      using assms(2) assms(3) [OF i(2), of operation] i(1) by (auto simp: foreign_def)
    then show ?thesis using i(3) assms(2) by (auto simp: request_ok_def)
  next
    case False
    then show ?thesis using i(1,3) assms(2) by (auto simp: request_ok_def touched_def)
  qed
qed

theorem rendezvous_isolates_routes_witness:
  "served sample_env sample_sent
   \<and> (\<exists>r svc' resp. ServeHTTP sample_env 9 (sample_request (replicate 32 4) ''poll'' []) sample_sent = (svc', resp)
       \<and> map_of (routes (pruneLocked 9 sample_sent)) sample_route = Some r
       \<and> map_of (routes svc') sample_route \<in> {map_of (routes sample_sent) sample_route, Some r})"
proof -
  let ?rq = "sample_request (replicate 32 4) ''poll'' []"
  obtain svc' resp where run: "ServeHTTP sample_env 9 ?rq sample_sent = (svc', resp)" by fastforce
  have d: "map_option authDigest (map_of (routes (pruneLocked 9 sample_sent)) sample_route) = Some sample_token" by code_simp
  obtain r where r: "map_of (routes (pruneLocked 9 sample_sent)) sample_route = Some r" "authDigest r = sample_token"
    using d by (cases "map_of (routes (pruneLocked 9 sample_sent)) sample_route") auto
  have t: "bearerToken (hAuthorization ?rq) = Some (replicate 32 4)" by code_simp
  have "(replicate 32 4 :: byte list) \<noteq> sample_token" by code_simp
  then have "map_of (routes svc') sample_route \<in> {map_of (routes sample_sent) sample_route, Some r}"
    using rendezvous_isolates_routes [OF sample_sent_served r(1) _ run] t r(2) by (simp add: sample_env_def)
  then show ?thesis using run r sample_sent_served by blast
qed

text \<open>The signals that wait for a role of a route, oldest first.\<close>

definition pending :: "time \<Rightarrow> string \<Rightarrow> endpointRole \<Rightarrow> service \<Rightarrow> storedSignal list" where
  "pending now i role svc =
    (case map_of (routes svc) i of
       None \<Rightarrow> []
     | Some r \<Rightarrow> if rExpiresAt r > now then filter (\<lambda>s. sExpiresAt s > now) (signals r role) else [])"

lemma poll_loop_take:
  assumes "\<forall>s\<in>set q. after < sSequence s" "int (length out) \<le> limit"
  shows "poll_loop after limit q out nxt =
    (let n = nat limit - length out in
     (out @ map signalToProto (take n q), (if take n q = [] then nxt else sSequence (last (take n q))), n < length q))"
  using assms
proof (induction q arbitrary: out nxt)
  case Nil
  then show ?case by simp
next
  case (Cons s q)
  have s: "\<not> sSequence s \<le> after" using Cons.prems(1) by (simp add: not_le)
  show ?case
  proof (cases "int (length out) = limit")
    case True
    then show ?thesis using s by (simp add: Let_def)
  next
    case False
    then have n: "nat limit - length out = Suc (nat limit - length (out @ [signalToProto s]))"
      using Cons.prems(2) by simp
    have "poll_loop after limit (s # q) out nxt = poll_loop after limit q (out @ [signalToProto s]) (sSequence s)"
      using s False by simp
    also have "\<dots> = (let n = nat limit - length (out @ [signalToProto s]) in
       ((out @ [signalToProto s]) @ map signalToProto (take n q),
        (if take n q = [] then sSequence s else sSequence (last (take n q))), n < length q))"
      by (rule Cons.IH) (use Cons.prems False in auto)
    finally show ?thesis by (simp add: Let_def n)
  qed
qed

lemma sorted_after_take:
  fixes f :: "'a \<Rightarrow> 'b :: linorder"
  assumes "sorted_wrt (<) (map f P)" "take n P \<noteq> []"
  shows "filter (\<lambda>s. f (last (take n P)) < f s) P = drop n P"
proof -
  have P: "P = butlast (take n P) @ [last (take n P)] @ drop n P"
    using assms(2) by (metis append_assoc append_butlast_last_id append_take_drop_id)
  define a l d where "a = butlast (take n P)" and "l = last (take n P)" and "d = drop n P"
  have eq: "P = a @ [l] @ d" unfolding a_def l_def d_def by (rule P)
  have srt: "sorted_wrt (<) (map f (a @ [l] @ d))" using assms(1) eq by simp
  have "\<forall>x\<in>set a. \<not> f l < f x" "\<forall>x\<in>set d. f l < f x"
    using srt by (auto simp: sorted_wrt_append dest: less_not_sym)
  then have "filter (\<lambda>s. f l < f s) (a @ [l] @ d) = d" by (simp add: filter_empty_conv)
  then show ?thesis using eq unfolding l_def [symmetric] d_def [symmetric] by simp
qed

lemma routeLocked_keeps:
  assumes "routeLocked i digest now False svc = (svc1, Inr v)"
  shows "\<exists>r. map_of (routes svc) i = Some r \<and> signals v = signals r \<and> rExpiresAt v = rExpiresAt r
    \<and> nextSequence v = nextSequence r"
  using assms by (auto simp: routeLocked_def admit_def Let_def split: option.splits if_splits)

lemma pending_pruned:
  assumes "service_ok svc" "map_of (routes (pruneLocked now svc)) i = Some r"
  shows "pending now i role svc = signals r role" "\<forall>s\<in>set (signals r role). sExpiresAt s > now"
  using assms by (auto simp: pruned_route pending_def prune_route_def split: option.splits if_splits)

lemma sendSignal_success:
  assumes "sendSignal E i digest body now svc = (svc', SendSignalResponse n t)"
    and q: "unmarshalSend E body = Some q" "roleFromProto (srRecipient q) = Some role"
  obtains sender svc1 v where "role = oppositeRole sender" "validPayload svc (srEncryptedPayload q)"
    "routeLocked i digest now False (pruneLocked now svc) = (svc1, Inr v)"
    "\<not> maxSignalsPerRoute svc1 \<le> int (length (signals v role))" "n = nextSequence v + 1"
    "svc' = put_route i (v\<lparr>nextSequence := n, signals := (signals v)(role := signals v role @
       [\<lparr>sSequence = n, sSender = sender, sPayload = srEncryptedPayload q, sCreatedAt = now,
         sExpiresAt = minTime (now + signalLifetime svc1) (rExpiresAt v)\<rparr>])\<rparr>) svc1"
proof -
  obtain svc1 res where rl: "routeLocked i digest now False (pruneLocked now svc) = (svc1, res)" by fastforce
  show thesis
    using assms that rl unfolding sendSignal_def Let_def rl
    by (auto split: option.splits sum.splits if_splits)
qed

lemma pollSignals_success:
  assumes "pollSignals E i digest body now svc = (svc', PollSignalsResponse out nxt has_more)"
    and q: "unmarshalPoll E body = Some q" and role: "roleFromProto (qrRecipient q) = Some role"
  obtains limit svc1 v queue where
    "limit = (if uint (qrLimit q) = 0 then defaultPollLimit else uint (qrLimit q))"
    "routeLocked i digest now False (pruneLocked now svc) = (svc1, Inr v)"
    "queue = (if qrAfterSequence q > 0 then filter (\<lambda>s. sSequence s > qrAfterSequence q) (signals v role) else signals v role)"
    "poll_loop (qrAfterSequence q) limit queue [] (qrAfterSequence q) = (out, nxt, has_more)"
    "svc' = put_route i (v\<lparr>signals := (signals v)(role := queue)\<rparr>) svc1"
proof -
  obtain svc1 res where rl: "routeLocked i digest now False (pruneLocked now svc) = (svc1, res)" by fastforce
  define limit where "limit = (if uint (qrLimit q) = 0 then defaultPollLimit else uint (qrLimit q))"
  obtain v where v: "res = Inr v"
    using assms q role rl by (auto simp: pollSignals_def Let_def split: option.splits sum.splits if_splits)
  define queue where "queue = (if qrAfterSequence q > 0
     then filter (\<lambda>s. sSequence s > qrAfterSequence q) (signals v role) else signals v role)"
  have "(case poll_loop (qrAfterSequence q) limit queue [] (qrAfterSequence q) of (out, next_seq, has_more) \<Rightarrow>
        (put_route i (v\<lparr>signals := (signals v)(role := queue)\<rparr>) svc1, PollSignalsResponse out next_seq has_more))
      = (svc', PollSignalsResponse out nxt has_more)"
    using assms q role rl v unfolding pollSignals_def Let_def limit_def [symmetric] queue_def
    by (simp add: limit_def [symmetric] split: option.splits if_split_asm)
  then show thesis
    using that [OF limit_def _ queue_def] rl v by (auto split: prod.splits)
qed

lemma sendSignal_appends:
  assumes s: "service_ok svc" and i: "validOpaqueValue i" and run: "sendSignal E i digest body now svc = (svc', SendSignalResponse n t)"
    and q: "unmarshalSend E body = Some q" "roleFromProto (srRecipient q) = Some role"
  shows "\<exists>s. pending now i role svc' = pending now i role svc @ [s] \<and> sSequence s = n
      \<and> sPayload s = srEncryptedPayload q \<and> (\<forall>x\<in>set (pending now i role svc). sSequence x < n)"
proof -
  obtain sender svc1 v where v: "role = oppositeRole sender" "validPayload svc (srEncryptedPayload q)"
      "routeLocked i digest now False (pruneLocked now svc) = (svc1, Inr v)"
      "\<not> maxSignalsPerRoute svc1 \<le> int (length (signals v role))" "n = nextSequence v + 1"
      "svc' = put_route i (v\<lparr>nextSequence := n, signals := (signals v)(role := signals v role @
         [\<lparr>sSequence = n, sSender = sender, sPayload = srEncryptedPayload q, sCreatedAt = now,
           sExpiresAt = minTime (now + signalLifetime svc1) (rExpiresAt v)\<rparr>])\<rparr>) svc1"
    by (rule sendSignal_success [OF run q])
  obtain r where r: "map_of (routes (pruneLocked now svc)) i = Some r" "signals v = signals r"
    "rExpiresAt v = rExpiresAt r" using routeLocked_keeps [OF v(3)] by blast
  have ok: "service_ok svc1" "route_ok svc1 v" "slack svc1 v" "rExpiresAt v > now"
    using routeLocked_pruned [OF s i v(3)] by auto
  have c: "config_ok svc1" using ok(1) by (simp add: service_ok_def)
  have "uint n = uint (nextSequence v) + 1"
    unfolding v(5) by (rule put_signal_ok(1) [OF c ok(2,3), of _ role "srEncryptedPayload q" now "rExpiresAt v"])
      (use v routeLocked_valid [OF s i v(3)] in auto)
  then have less: "sSequence x < n" if "x \<in> set (signals r role)" for x
    using ok(2) that r(2) by (auto simp: route_ok_def queue_ok_def word_less_def word_le_def dest!: spec [of _ role])
  have "0 < signalLifetime svc1" using c by (simp add: config_ok_def)
  then show "\<exists>s. pending now i role svc' = pending now i role svc @ [s] \<and> sSequence s = n
       \<and> sPayload s = srEncryptedPayload q \<and> (\<forall>x\<in>set (pending now i role svc). sSequence x < n)"
    using pending_pruned [OF s r(1), of role] ok(4) less r(2,3)
    by (auto simp: v(6) pending_def minTime_def)
qed

lemma pollSignals_pages:
  assumes s: "service_ok svc" and i: "validOpaqueValue i"
    and run: "pollSignals E i digest body now svc = (svc', PollSignalsResponse out nxt has_more)"
    and q: "unmarshalPoll E body = Some q" "roleFromProto (qrRecipient q) = Some role"
  shows "\<exists>n>0. let waiting = filter (\<lambda>s. sSequence s > qrAfterSequence q) (pending now i role svc) in
       out = map signalToProto (take n waiting) \<and> (has_more \<longleftrightarrow> n < length waiting)
       \<and> filter (\<lambda>s. sSequence s > nxt) (pending now i role svc') = drop n waiting"
proof -
  let ?a = "qrAfterSequence q"
  obtain limit svc1 v queue where v: "limit = (if uint (qrLimit q) = 0 then defaultPollLimit else uint (qrLimit q))"
    "routeLocked i digest now False (pruneLocked now svc) = (svc1, Inr v)"
    "queue = (if ?a > 0 then filter (\<lambda>s. sSequence s > ?a) (signals v role) else signals v role)"
    "poll_loop ?a limit queue [] ?a = (out, nxt, has_more)"
    "svc' = put_route i (v\<lparr>signals := (signals v)(role := queue)\<rparr>) svc1"
    by (rule pollSignals_success [OF run q])
  obtain r where r: "map_of (routes (pruneLocked now svc)) i = Some r" "signals v = signals r"
    "rExpiresAt v = rExpiresAt r" using routeLocked_keeps [OF v(2)] by blast
  have ok: "route_ok svc1 v" "rExpiresAt v > now" using routeLocked_pruned [OF s i v(2)] by auto
  note pend = pending_pruned [OF s r(1), of role]
  have wait: "filter (\<lambda>s. sSequence s > ?a) (pending now i role svc) = queue"
    using ok(1) r(2) pend(1) v(3)
    by (auto simp: route_ok_def queue_ok_def intro!: filter_True dest!: spec [of _ role] simp: not_less word_le_0_iff)
  have after: "\<forall>s\<in>set queue. ?a < sSequence s" using wait [symmetric] by simp
  have srt: "sorted_wrt (<) (map sSequence queue)"
    using ok(1) v(3) by (auto simp: route_ok_def queue_ok_def sorted_wrt_map sorted_wrt_filter dest!: spec [of _ role])
  have lim: "0 < limit" using v(1) by (auto simp: defaultPollLimit_def order_less_le)
  have out: "out = map signalToProto (take (nat limit) queue)" "has_more \<longleftrightarrow> nat limit < length queue"
    "nxt = (if take (nat limit) queue = [] then ?a else sSequence (last (take (nat limit) queue)))"
    using poll_loop_take [OF after, of "[]" limit ?a] lim v(4) by (simp_all add: Let_def)
  have "pending now i role svc' = queue"
    using ok(2) pend(2) r(2) v(3) by (auto simp: v(5) pending_def intro!: filter_True)
  moreover have "filter (\<lambda>s. sSequence s > nxt) queue = drop (nat limit) queue"
  proof (cases "queue = []")
    case False
    then show ?thesis using sorted_after_take [OF srt, of "nat limit"] lim out(3) by simp
  qed simp
  ultimately show "\<exists>n>0. let waiting = filter (\<lambda>s. sSequence s > ?a) (pending now i role svc) in
       out = map signalToProto (take n waiting) \<and> (has_more \<longleftrightarrow> n < length waiting)
       \<and> filter (\<lambda>s. sSequence s > nxt) (pending now i role svc') = drop n waiting"
    using out(1,2) lim unfolding wait Let_def by (intro exI [of _ "nat limit"]) simp
qed

text \<open>
  C37: A route is a queue for each role. A successful \<open>sendSignal\<close> appends one signal with the sent payload and a sequence
  number above all that wait. A successful \<open>pollSignals\<close> returns, in order, the first signals after the sequence
  number it is given, at least one when there are any; \<open>HasMore\<close> says whether signals remain; and the signals after the
  returned \<open>NextSequence\<close> are exactly the rest, so a client that polls on from there sees each signal once.
\<close>
theorem rendezvous_queues:
  assumes "served E svc" "validOpaqueValue i"
  shows "(\<forall>svc' n t q role. sendSignal E i digest body now svc = (svc', SendSignalResponse n t)
        \<and> unmarshalSend E body = Some q \<and> roleFromProto (srRecipient q) = Some role \<longrightarrow>
      (\<exists>s. pending now i role svc' = pending now i role svc @ [s] \<and> sSequence s = n
         \<and> sPayload s = srEncryptedPayload q \<and> (\<forall>x\<in>set (pending now i role svc). sSequence x < n)))
    \<and> (\<forall>svc' out nxt has_more q role. pollSignals E i digest body now svc = (svc', PollSignalsResponse out nxt has_more)
        \<and> unmarshalPoll E body = Some q \<and> roleFromProto (qrRecipient q) = Some role \<longrightarrow>
      (\<exists>n>0. let waiting = filter (\<lambda>s. sSequence s > qrAfterSequence q) (pending now i role svc) in
         out = map signalToProto (take n waiting) \<and> (has_more \<longleftrightarrow> n < length waiting)
         \<and> filter (\<lambda>s. sSequence s > nxt) (pending now i role svc') = drop n waiting))"
  by (intro conjI allI impI; elim conjE; rule sendSignal_appends pollSignals_pages; (rule served_ok assms)?; (rule assms)?; assumption?)

theorem rendezvous_queues_witness:
  "served sample_env sample_sent \<and> validOpaqueValue sample_route
   \<and> (\<exists>svc' out. pollSignals sample_env sample_route sample_token [] 9 sample_sent = (svc', PollSignalsResponse out 1 True)
       \<and> out = map signalToProto (take 1 sample_queue)
       \<and> (\<exists>n>0. filter (\<lambda>s. sSequence s > 1) (pending 9 sample_route roleWorker svc')
            = drop n (pending 9 sample_route roleWorker sample_sent)))"
proof -
  have v: "validOpaqueValue sample_route" by (auto simp: validOpaqueValue_iff sample_route_def)
  have r: "snd (pollSignals sample_env sample_route sample_token [] 9 sample_sent)
      = PollSignalsResponse (map signalToProto (take 1 sample_queue)) 1 True" by code_simp
  obtain svc' where run: "pollSignals sample_env sample_route sample_token [] 9 sample_sent
      = (svc', PollSignalsResponse (map signalToProto (take 1 sample_queue)) 1 True)"
    by (rule that [of "fst (pollSignals sample_env sample_route sample_token [] 9 sample_sent)"]) (simp only: r [symmetric] prod.collapse)
  have q: "unmarshalPoll sample_env [] = Some \<lparr>qrProtocolVersion = 1, qrRecipient = 2, qrAfterSequence = 0, qrLimit = 1\<rparr>"
    by (simp add: sample_env_def)
  have all: "filter (\<lambda>s. sSequence s > 0) (pending 9 sample_route roleWorker sample_sent)
      = pending 9 sample_route roleWorker sample_sent" by code_simp
  have role: "roleFromProto 2 = Some roleWorker" by (simp add: roleFromProto_def)
  have "\<exists>n>0. filter (\<lambda>s. sSequence s > 1) (pending 9 sample_route roleWorker svc')
      = drop n (pending 9 sample_route roleWorker sample_sent)"
    using rendezvous_queues [OF sample_sent_served v, THEN conjunct2, rule_format, OF conjI [OF run conjI [OF q]], of roleWorker] role all
    by (auto simp: Let_def)
  then show ?thesis using sample_sent_served v run by blast
qed

end
