(* ===== verification/Connectivity.thy ===== *)
theory Connectivity
  imports Trust Rendezvous
begin

text \<open>
  \<open>internal/connectivity/credential.go\<close> and \<open>internal/connectivity/payload.go\<close>: the rotating access values a pair presents
  to the rendezvous service and the sealing of what it exchanges there.

  HMAC-SHA-256 and AES-GCM are the record \<open>crypto\<close>; \<open>crypto_ok\<close> is what the code relies on: digests of 32 bytes, a seal
  that adds the overhead of 16 bytes, and opening as the inverse of sealing under the same key, nonce and
  associated data. The randomness of the nonce is an argument.
\<close>

section \<open>Definitions\<close>

abbreviation Conn_ErrInvalidCredentialMaterial :: sentinel where
  "Conn_ErrInvalidCredentialMaterial \<equiv> ''connectivity.ErrInvalidCredentialMaterial''"
abbreviation Conn_ErrInvalidEncryptedPayload :: sentinel where
  "Conn_ErrInvalidEncryptedPayload \<equiv> ''connectivity.ErrInvalidEncryptedPayload''"

record crypto =
  Hmac :: "byte list \<Rightarrow> byte list \<Rightarrow> byte list"
  Seal :: "byte list \<Rightarrow> byte list \<Rightarrow> byte list \<Rightarrow> byte list \<Rightarrow> byte list"
  Open :: "byte list \<Rightarrow> byte list \<Rightarrow> byte list \<Rightarrow> byte list \<Rightarrow> byte list option"

definition NonceSize :: nat where "NonceSize = 12"
definition Overhead :: nat where "Overhead = 16"

definition crypto_ok :: "crypto \<Rightarrow> bool" where
  "crypto_ok X \<longleftrightarrow> (\<forall>key msg. length (Hmac X key msg) = 32)
     \<and> (\<forall>key nonce plain ad. length (Seal X key nonce plain ad) = length plain + Overhead
          \<and> Open X key nonce (Seal X key nonce plain ad) ad = Some plain)"

definition CredentialLifetime :: int where "CredentialLifetime = 5 * 60 * 1000000000"
definition EncryptedPayloadVersion :: byte where "EncryptedPayloadVersion = 1"
definition MaximumPlaintextBytes :: nat where "MaximumPlaintextBytes = 24 * 2 ^ 10"
definition MaximumCiphertextBytes :: nat where "MaximumCiphertextBytes = 32 * 2 ^ 10"

record access =
  acRouteID :: string
  acToken :: string
  acExpiresAt :: time

definition Unix :: "time \<Rightarrow> int" where
  "Unix t = t div 1000000000"

definition derive :: "crypto \<Rightarrow> byte list \<Rightarrow> byte list \<Rightarrow> byte list \<Rightarrow> byte list" where
  "derive X secret label contents = Hmac X secret (label @ contents)"

definition DeriveAccess :: "crypto \<Rightarrow> byte list \<Rightarrow> time \<Rightarrow> access result" where
  "DeriveAccess X secret at =
    (if \<not> Secret_Valid secret \<or> IsZero at \<or> Unix at < 0 then Inl [Conn_ErrInvalidCredentialMaterial]
     else
     let epoch = Unix at div (CredentialLifetime div 1000000000);
         route = derive X secret (bytes_of ''ComputeHop rendezvous route v1'' @ [0]) (PutUint64 (word_of_int epoch));
         token = derive X secret (bytes_of ''ComputeHop rendezvous auth v1'' @ [0]) route
     in Inr \<lparr>acRouteID = EncodeToString route, acToken = EncodeToString token,
             acExpiresAt = (epoch + 1) * (CredentialLifetime div 1000000000) * 1000000000\<rparr>)"

datatype payload_kind = PayloadPresence | PayloadSignal | PayloadOther "8 word"

definition kind_byte :: "payload_kind \<Rightarrow> byte" where
  "kind_byte k = (case k of PayloadPresence \<Rightarrow> 1 | PayloadSignal \<Rightarrow> 2 | PayloadOther b \<Rightarrow> b)"

record payload_context =
  pcKind :: payload_kind
  pcRouteID :: string
  pcSender :: role
  pcRecipient :: role
  pcGeneration :: "64 word"

definition validatePayloadContext :: "payload_context \<Rightarrow> bool" where
  "validatePayloadContext c \<longleftrightarrow>
     \<not> (case DecodeString (pcRouteID c) of
          None \<Rightarrow> True | Some decoded \<Rightarrow> length decoded \<noteq> 32 \<or> EncodeToString decoded \<noteq> pcRouteID c)
     \<and> \<not> (pcSender c \<noteq> RoleOrchestrator \<and> pcSender c \<noteq> RoleWorker)
     \<and> \<not> (pcRecipient c \<noteq> RoleOrchestrator \<and> pcRecipient c \<noteq> RoleWorker)
     \<and> pcSender c \<noteq> pcRecipient c
     \<and> (case pcKind c of
          PayloadPresence \<Rightarrow> pcGeneration c \<noteq> 0
        | PayloadSignal \<Rightarrow> pcGeneration c = 0
        | PayloadOther _ \<Rightarrow> False)"

definition roleByte :: "role \<Rightarrow> byte" where
  "roleByte r = (case r of RoleOrchestrator \<Rightarrow> 1 | RoleWorker \<Rightarrow> 2 | RoleUnknown _ \<Rightarrow> 0)"

definition payloadAssociatedData :: "payload_context \<Rightarrow> byte list" where
  "payloadAssociatedData c =
    bytes_of ''ComputeHop rendezvous payload context v1'' @ [0] @ bytes_of (pcRouteID c)
    @ [kind_byte (pcKind c), roleByte (pcSender c), roleByte (pcRecipient c)] @ PutUint64 (pcGeneration c)"

definition payloadKey :: "crypto \<Rightarrow> byte list \<Rightarrow> byte list" where
  "payloadKey X secret = Hmac X secret (bytes_of ''ComputeHop rendezvous payload key v1'')"

definition sealPayload :: "crypto \<Rightarrow> byte list \<Rightarrow> payload_context \<Rightarrow> byte list \<Rightarrow> byte list \<Rightarrow> byte list result" where
  "sealPayload X secret c plaintext random =
    (if \<not> Secret_Valid secret \<or> \<not> validatePayloadContext c \<or> length plaintext = 0
        \<or> length plaintext > MaximumPlaintextBytes
     then Inl [Conn_ErrInvalidEncryptedPayload]
     else if length random < NonceSize then Inl [Conn_ErrInvalidEncryptedPayload]
     else
     let nonce = take NonceSize random;
         res = EncryptedPayloadVersion # nonce @ Seal X (payloadKey X secret) nonce plaintext (payloadAssociatedData c)
     in if length res > MaximumCiphertextBytes then Inl [Conn_ErrInvalidEncryptedPayload] else Inr res)"

definition OpenPayload :: "crypto \<Rightarrow> byte list \<Rightarrow> payload_context \<Rightarrow> byte list \<Rightarrow> byte list result" where
  "OpenPayload X secret c ciphertext =
    (if \<not> Secret_Valid secret \<or> \<not> validatePayloadContext c \<or> length ciphertext = 0
        \<or> length ciphertext > MaximumCiphertextBytes \<or> hd ciphertext \<noteq> EncryptedPayloadVersion
     then Inl [Conn_ErrInvalidEncryptedPayload]
     else
     let nonceEnd = 1 + NonceSize in
     if length ciphertext < nonceEnd + Overhead + 1 then Inl [Conn_ErrInvalidEncryptedPayload]
     else (case Open X (payloadKey X secret) (drop 1 (take nonceEnd ciphertext)) (drop nonceEnd ciphertext)
             (payloadAssociatedData c) of
         None \<Rightarrow> Inl [Conn_ErrInvalidEncryptedPayload]
       | Some plaintext \<Rightarrow>
           if length plaintext = 0 \<or> length plaintext > MaximumPlaintextBytes
           then Inl [Conn_ErrInvalidEncryptedPayload] else Inr plaintext))"

definition oppositeDeviceRole :: "role \<Rightarrow> role" where
  "oppositeDeviceRole r =
    (case r of RoleOrchestrator \<Rightarrow> RoleWorker | RoleWorker \<Rightarrow> RoleOrchestrator | RoleUnknown _ \<Rightarrow> RoleUnknown [])"

definition presence_context :: "string \<Rightarrow> role \<Rightarrow> 64 word \<Rightarrow> payload_context" where
  "presence_context routeID sender generation =
    \<lparr>pcKind = PayloadPresence, pcRouteID = routeID, pcSender = sender, pcRecipient = oppositeDeviceRole sender,
     pcGeneration = generation\<rparr>"

definition SealPresence ::
    "crypto \<Rightarrow> byte list \<Rightarrow> string \<Rightarrow> role \<Rightarrow> 64 word \<Rightarrow> byte list \<Rightarrow> byte list \<Rightarrow> byte list result" where
  "SealPresence X secret routeID sender generation plaintext random =
    sealPayload X secret (presence_context routeID sender generation) plaintext random"

definition OpenPresence ::
    "crypto \<Rightarrow> byte list \<Rightarrow> string \<Rightarrow> role \<Rightarrow> 64 word \<Rightarrow> byte list \<Rightarrow> byte list result" where
  "OpenPresence X secret routeID sender generation ciphertext =
    OpenPayload X secret (presence_context routeID sender generation) ciphertext"

section \<open>Facts\<close>

lemma context_route: "validatePayloadContext c \<Longrightarrow> length (pcRouteID c) = 43"
proof -
  assume "validatePayloadContext c"
  then have "validOpaqueValue (pcRouteID c)"
    by (auto simp: validatePayloadContext_def validOpaqueValue_def split: option.splits)
  then show ?thesis by (auto simp: validOpaqueValue_iff)
qed

lemma associated_data_inject:
  assumes "validatePayloadContext a" "validatePayloadContext b" "payloadAssociatedData a = payloadAssociatedData b"
  shows "a = b"
proof -
  have e: "bytes_of (pcRouteID a) = bytes_of (pcRouteID b)" "kind_byte (pcKind a) = kind_byte (pcKind b)"
    "roleByte (pcSender a) = roleByte (pcSender b)" "roleByte (pcRecipient a) = roleByte (pcRecipient b)"
    "PutUint64 (pcGeneration a) = PutUint64 (pcGeneration b)"
    using assms(3) context_route [OF assms(1)] context_route [OF assms(2)]
    by (simp_all add: payloadAssociatedData_def append_eq_append_conv)
  have "pcKind a = pcKind b"
    using e(2) assms(1,2) by (auto simp: kind_byte_def validatePayloadContext_def split: payload_kind.splits)
  moreover have "pcSender a = pcSender b" "pcRecipient a = pcRecipient b"
    using e(3,4) assms(1,2) by (auto simp: roleByte_def validatePayloadContext_def split: role.splits)
  ultimately show ?thesis using bytes_of_inject [OF e(1)] PutUint64_inject [OF e(5)] by simp
qed

text \<open>
  C38: Sealed payloads. For a valid secret and context and a plaintext of 1 to 24576 bytes, sealing succeeds with at most
  29 bytes more than the plaintext, opening under the same secret and context returns the plaintext, and the service
  accepts the size of the result under its default limit. What is authenticated identifies the context: two valid
  contexts with the same associated data are equal.
\<close>
theorem payloads_open_in_their_context:
  assumes "crypto_ok X" "Secret_Valid secret" "validatePayloadContext c"
    and "0 < length plain" "length plain \<le> MaximumPlaintextBytes" "NonceSize \<le> length random"
  shows "\<exists>ct. sealPayload X secret c plain random = Inr ct \<and> length ct = length plain + 29
      \<and> int (length ct) \<le> defaultMaxPayloadBytes \<and> OpenPayload X secret c ct = Inr plain
      \<and> (\<forall>c'. validatePayloadContext c' \<and> payloadAssociatedData c' = payloadAssociatedData c \<longrightarrow> c' = c)"
proof -
  define nonce where "nonce = take NonceSize random"
  define s where "s = Seal X (payloadKey X secret) nonce plain (payloadAssociatedData c)"
  define ct where "ct = EncryptedPayloadVersion # nonce @ s"
  have len: "length nonce = 12" "length s = length plain + 16"
    using assms(1,6) by (simp_all add: nonce_def s_def crypto_ok_def Overhead_def NonceSize_def)
  have op: "Open X (payloadKey X secret) nonce s (payloadAssociatedData c) = Some plain"
    using assms(1) by (simp add: s_def crypto_ok_def)
  have small: "length ct \<le> MaximumCiphertextBytes" "length ct = length plain + 29"
    using len assms(5) by (simp_all add: ct_def MaximumCiphertextBytes_def MaximumPlaintextBytes_def)
  have "sealPayload X secret c plain random = Inr ct"
    using assms small(1) unfolding sealPayload_def Let_def nonce_def [symmetric] s_def [symmetric] ct_def [symmetric] by simp
  moreover have "OpenPayload X secret c ct = Inr plain"
    using assms(2-5) small op len
    by (simp add: OpenPayload_def ct_def Let_def NonceSize_def Overhead_def)
  moreover have "int (length ct) \<le> defaultMaxPayloadBytes"
    using small(1) by (simp add: MaximumCiphertextBytes_def defaultMaxPayloadBytes_def)
  ultimately show ?thesis using small(2) associated_data_inject assms(3) by blast
qed

definition sample_crypto :: crypto where
  "sample_crypto = \<lparr>Hmac = (\<lambda>key msg. take 32 (msg @ key @ replicate 32 0)),
     Seal = (\<lambda>key nonce plain ad. plain @ replicate 16 5),
     Open = (\<lambda>key nonce ct ad. Some (take (length ct - 16) ct))\<rparr>"

lemma sample_crypto_ok: "crypto_ok sample_crypto"
  by (auto simp: crypto_ok_def sample_crypto_def Overhead_def min_def)

definition sample_context :: payload_context where
  "sample_context = presence_context sample_route RoleWorker 42"

theorem payloads_open_in_their_context_witness:
  "crypto_ok sample_crypto \<and> validatePayloadContext sample_context
   \<and> (\<exists>ct. sealPayload sample_crypto (replicate 32 9) sample_context [1, 2, 3] (replicate 12 0) = Inr ct
        \<and> OpenPayload sample_crypto (replicate 32 9) sample_context ct = Inr [1, 2, 3])"
proof -
  note x = sample_crypto_ok
  have v: "validatePayloadContext sample_context"
    by (simp add: validatePayloadContext_def sample_context_def presence_context_def sample_route_def oppositeDeviceRole_def)
  have "Secret_Valid (replicate 32 9)" by (simp add: Secret_Valid_def ConnectivitySecretBytes_def)
  then show ?thesis
    using payloads_open_in_their_context [OF x _ v, of "replicate 32 9" "[1, 2, 3]" "replicate 12 0"] x v
    by (auto simp: MaximumPlaintextBytes_def NonceSize_def)
qed

text \<open>
  Access values. Access derived at an instant is the same at every instant of its five minute window, expires at the
  end of the window and at most five minutes later; the rendezvous service accepts its route as a path and its token
  as a bearer token.
\<close>
theorem access_is_accepted:
  assumes "crypto_ok X" "DeriveAccess X secret at = Inr a"
  shows "at < acExpiresAt a \<and> acExpiresAt a \<le> at + CredentialLifetime
    \<and> (\<forall>t. acExpiresAt a - CredentialLifetime \<le> t \<and> t < acExpiresAt a \<longrightarrow> DeriveAccess X secret t = Inr a)
    \<and> validOpaqueValue (acRouteID a)
    \<and> parsePath (''/v1/rendezvous/'' @ acRouteID a @ ''/'' @ ''presence'') = Some (acRouteID a, ''presence'')
    \<and> (\<exists>token. bearerToken (''Bearer '' @ acToken a) = Some token)"
proof -
  let ?e = "Unix at div 300"
  have v: "Secret_Valid secret" "0 \<le> Unix at" using assms(2) by (auto simp: DeriveAccess_def split: if_splits)
  define route where "route = derive X secret (bytes_of ''ComputeHop rendezvous route v1'' @ [0]) (PutUint64 (word_of_int ?e))"
  define token where "token = derive X secret (bytes_of ''ComputeHop rendezvous auth v1'' @ [0]) route"
  have a: "a = \<lparr>acRouteID = EncodeToString route, acToken = EncodeToString token, acExpiresAt = (?e + 1) * 300 * 1000000000\<rparr>"
    using assms(2) by (auto simp: DeriveAccess_def Let_def CredentialLifetime_def route_def token_def split: if_splits)
  have len: "length route = 32" "length token = 32"
    using assms(1) by (simp_all add: route_def token_def derive_def crypto_ok_def)
  have w: "?e * 300000000000 \<le> at" "at < (?e + 1) * 300000000000" by (simp_all add: Unix_def)
  have "DeriveAccess X secret t = Inr a" if t: "acExpiresAt a - CredentialLifetime \<le> t" "t < acExpiresAt a" for t
  proof -
    have e: "Unix t div 300 = ?e" using t a by (simp add: CredentialLifetime_def Unix_def)
    have "0 \<le> ?e" using v(2) by simp
    then have "0 \<le> t" using t(1) a by (simp add: CredentialLifetime_def)
    then have "\<not> IsZero t" "0 \<le> Unix t" by (auto simp: IsZero_def zero_time_def Unix_def)
    then show ?thesis
      using v(1) e by (simp add: a DeriveAccess_def Let_def CredentialLifetime_def route_def token_def)
  qed
  moreover have "validOpaqueValue (acRouteID a)" using len(1) by (auto simp: a validOpaqueValue_iff)
  moreover have "parsePath (''/v1/rendezvous/'' @ acRouteID a @ ''/'' @ ''presence'') = Some (acRouteID a, ''presence'')"
    using parsePath_request [OF len(1), of "''presence''"] by (simp add: a)
  moreover have "bearerToken (''Bearer '' @ acToken a) = Some token" using bearerToken_header [OF len(2)] by (simp add: a)
  ultimately show ?thesis using w by (auto simp: a CredentialLifetime_def)
qed

theorem access_is_accepted_witness:
  "crypto_ok sample_crypto \<and> (\<exists>a. DeriveAccess sample_crypto (replicate 32 9) 1000000000000 = Inr a
     \<and> acExpiresAt a = 1200000000000 \<and> DeriveAccess sample_crypto (replicate 32 9) 1199999999999 = Inr a
     \<and> validOpaqueValue (acRouteID a))"
proof -
  note x = sample_crypto_ok
  obtain a where a: "DeriveAccess sample_crypto (replicate 32 9) 1000000000000 = Inr a" "acExpiresAt a = 1200000000000"
    by (auto simp: DeriveAccess_def Let_def Secret_Valid_def ConnectivitySecretBytes_def IsZero_def zero_time_def Unix_def
        CredentialLifetime_def)
  show ?thesis using access_is_accepted [OF x a(1)] a x by (auto simp: CredentialLifetime_def)
qed

end
