(* ===== verification/Snapshot.thy ===== *)
theory Snapshot
  imports PortablePath Wire
begin

text \<open>
  \<open>internal/snapshot/model.go\<close>: content digests and snapshot manifests, their validation, canonical encoding,
  identity and set of chunks. SHA-256 is the argument \<open>H\<close> and the Unicode case tables are \<open>U\<close>. \<open>Clone\<close> copies storage
  and is the identity on values.

  The sums of \<open>Validate\<close> stay far below \<open>2\<^sup>6\<^sup>3\<close> (\<open>check_chunks_bound\<close>): a file has at most \<open>MaximumChunks\<close> chunks of at
  most \<open>MaximumChunkBytes\<close> bytes, so they are integers here. The loop over the parent directories of a path ends for
  every path \<open>Validate\<close> has accepted; \<open>parent_dirs\<close> also stops at a directory that is its own parent, which only a
  rooted path has (\<open>parent_dirs_Join\<close> lists the parents of an accepted path in full).
\<close>

section \<open>Digests\<close>

type_synonym digest = string

definition DigestBytes :: nat where "DigestBytes = 32"
definition DigestHexLength :: nat where "DigestHexLength = DigestBytes * 2"

definition Sum :: "(byte list \<Rightarrow> byte list) \<Rightarrow> byte list \<Rightarrow> digest" where
  "Sum H contents = hex_encode (H contents)"

definition ParseDigest :: "casing \<Rightarrow> string \<Rightarrow> digest result" where
  "ParseDigest U v =
    (if length v \<noteq> DigestHexLength \<or> ToLower U v \<noteq> v then Inl [Snapshot_ErrInvalidDigest]
     else (case hex_decode v of
         None \<Rightarrow> Inl [Snapshot_ErrInvalidDigest]
       | Some decoded \<Rightarrow>
           if length decoded \<noteq> DigestBytes then Inl [Snapshot_ErrInvalidDigest] else Inr v))"

definition Digest_Valid :: "casing \<Rightarrow> digest \<Rightarrow> bool" where
  "Digest_Valid U d \<longleftrightarrow> is_ok (ParseDigest U d)"

section \<open>Manifests\<close>

definition ManifestVersion :: "32 word" where "ManifestVersion = 1"
definition MaximumChunkBytes :: int where "MaximumChunkBytes = 524288"
definition MaximumFiles :: nat where "MaximumFiles = 25000"
definition MaximumChunks :: int where "MaximumChunks = 250000"
definition MaximumSnapshotBytes :: int where "MaximumSnapshotBytes = 107374182400"
definition MaximumManifestBytes :: nat where "MaximumManifestBytes = 819200"

record chunk =
  cDigest :: digest
  cSize :: "32 word"

record snapshot_file =
  fPath :: string
  fMode :: "32 word"
  fSize :: int
  fChunks :: "chunk list"

record manifest =
  mVersion :: "32 word"
  mFiles :: "snapshot_file list"
  mTotalBytes :: int

definition ValidatePath :: "casing \<Rightarrow> string \<Rightarrow> unit result" where
  "ValidatePath U v = (if is_ok (Validate_path U v) then Inr () else Inl [Snapshot_ErrUnsafePath])"

function parent_dirs :: "string \<Rightarrow> string list" where
  "parent_dirs p =
    (let d = path_Dir p in if d = ''.'' \<or> length p \<le> length d then [] else d # parent_dirs d)"
  by pat_completeness auto
termination by (relation "measure length") (auto simp: Let_def)

declare parent_dirs.simps [simp del]

fun check_chunks :: "casing \<Rightarrow> int \<Rightarrow> int \<Rightarrow> chunk list \<Rightarrow> (int \<times> int) result" where
  "check_chunks U chunkCount fileBytes [] = Inr (chunkCount, fileBytes)"
| "check_chunks U chunkCount fileBytes (c # cs) =
    (if chunkCount + 1 > MaximumChunks \<or> \<not> Digest_Valid U (cDigest c) \<or> cSize c = 0
        \<or> uint (cSize c) > MaximumChunkBytes
     then Inl [Snapshot_ErrInvalidManifest]
     else check_chunks U (chunkCount + 1) (fileBytes + uint (cSize c)) cs)"

fun validate_files ::
    "casing \<Rightarrow> string \<Rightarrow> string list \<Rightarrow> int \<Rightarrow> int \<Rightarrow> snapshot_file list \<Rightarrow> int result" where
  "validate_files U previous portablePaths chunkCount sofar [] = Inr sofar"
| "validate_files U previous portablePaths chunkCount sofar (f # fs) =
    (if \<not> is_ok (ValidatePath U (fPath f)) then Inl [Snapshot_ErrInvalidManifest, Snapshot_ErrUnsafePath]
     else if previous \<noteq> '''' \<and> fPath f \<le> previous then Inl [Snapshot_ErrInvalidManifest]
     else let portable = Key U (fPath f) in
       if portable \<in> set portablePaths then Inl [Snapshot_ErrInvalidManifest]
       else if list_ex (\<lambda>parent. parent \<in> set portablePaths) (parent_dirs portable)
       then Inl [Snapshot_ErrInvalidManifest]
       else if fMode f \<noteq> 0x1A4 \<and> fMode f \<noteq> 0x1ED \<or> fSize f < 0 then Inl [Snapshot_ErrInvalidManifest]
       else ebind (check_chunks U chunkCount 0 (fChunks f)) (\<lambda>(chunkCount', fileBytes).
         if fileBytes \<noteq> fSize f \<or> (fSize f = 0 \<and> length (fChunks f) \<noteq> 0) then Inl [Snapshot_ErrInvalidManifest]
         else if sofar + fSize f > MaximumSnapshotBytes then Inl [Snapshot_ErrInvalidManifest]
         else validate_files U (fPath f) (portable # portablePaths) chunkCount' (sofar + fSize f) fs))"

definition Manifest_Validate :: "casing \<Rightarrow> manifest \<Rightarrow> unit result" where
  "Manifest_Validate U m =
    (if mVersion m \<noteq> ManifestVersion \<or> length (mFiles m) > MaximumFiles \<or> mTotalBytes m < 0
        \<or> mTotalBytes m > MaximumSnapshotBytes
     then Inl [Snapshot_ErrInvalidManifest]
     else ebind (validate_files U '''' [] 0 0 (mFiles m)) (\<lambda>sofar.
       if sofar \<noteq> mTotalBytes m then Inl [Snapshot_ErrInvalidManifest] else Inr ()))"

section \<open>Canonical encoding\<close>

text \<open>\<open>hex.DecodeString\<close> returns the bytes before the first error.\<close>

fun hex_decoded :: "string \<Rightarrow> byte list" where
  "hex_decoded (c # d # s) =
    (case (hex_value c, hex_value d) of
       (Some h, Some l) \<Rightarrow> of_nat (16 * h + l) # hex_decoded s
     | _ \<Rightarrow> [])"
| "hex_decoded _ = []"

definition write_chunk :: "chunk \<Rightarrow> byte list" where
  "write_chunk c = hex_decoded (cDigest c) @ PutUint32 (cSize c)"

definition write_file :: "snapshot_file \<Rightarrow> byte list" where
  "write_file f =
     PutUint32 (of_nat (length (fPath f))) @ bytes_of (fPath f) @ PutUint32 (fMode f)
     @ PutUint64 (of_int (fSize f)) @ PutUint32 (of_nat (length (fChunks f)))
     @ concat (map write_chunk (fChunks f))"

definition writeCanonical :: "manifest \<Rightarrow> byte list" where
  "writeCanonical m =
     PutUint32 (mVersion m) @ PutUint32 (of_nat (length (mFiles m)))
     @ concat (map write_file (mFiles m)) @ PutUint64 (of_int (mTotalBytes m))"

definition CanonicalBytes :: "casing \<Rightarrow> manifest \<Rightarrow> byte list result" where
  "CanonicalBytes U m =
    ebind (Manifest_Validate U m) (\<lambda>_.
      if length (writeCanonical m) > MaximumManifestBytes then Inl [Snapshot_ErrInvalidManifest]
      else Inr (writeCanonical m))"

definition Manifest_ID :: "casing \<Rightarrow> (byte list \<Rightarrow> byte list) \<Rightarrow> manifest \<Rightarrow> digest result" where
  "Manifest_ID U H m = ebind (CanonicalBytes U m) (\<lambda>canonical. Inr (Sum H canonical))"

definition Digests :: "manifest \<Rightarrow> digest list" where
  "Digests m = sort (remdups (concat (map (\<lambda>f. map cDigest (fChunks f)) (mFiles m))))"

section \<open>Facts on digests\<close>

lemma hex_digit_lower: "n < 16 \<Longrightarrow> ascii [hex_digit n] \<and> ascii_lower (hex_digit n) = hex_digit n"
  by (simp add: ascii_def ascii_lower_def hex_digit_def lower_byte_def)

lemma hex_encode_lower: "ascii (hex_encode bs) \<and> map ascii_lower (hex_encode bs) = hex_encode bs"
proof (induction bs)
  case (Cons b bs)
  have "unat b < 256" using unsigned_less [of b, where 'a = nat] by simp
  then have "unat b div 16 < 16" "unat b mod 16 < 16" by auto
  then show ?case using Cons hex_digit_lower by (auto simp: hex_encode_def hex_byte_def ascii_def)
qed (simp add: hex_encode_def ascii_def)

lemma hex_encode_valid: "length bs = 32 \<Longrightarrow> Digest_Valid U (hex_encode bs)"
  using hex_encode_lower [of bs]
  by (simp add: Digest_Valid_def ParseDigest_def DigestHexLength_def DigestBytes_def)

lemma Sum_valid: "(\<And>x. length (H x) = 32) \<Longrightarrow> Digest_Valid U (Sum H contents)"
  by (simp add: Sum_def hex_encode_valid)

lemma ParseDigest_Inr_iff: "ParseDigest U v = Inr d \<longleftrightarrow> Digest_Valid U v \<and> d = v"
  by (auto simp: Digest_Valid_def ParseDigest_def split: option.splits)

lemma hex_value_less: "hex_value c = Some h \<Longrightarrow> h < 16"
  by (auto simp: hex_value_def Let_def split: if_splits)

lemma hex_value_inject:
  assumes "hex_value c = Some h" "hex_value d = Some h" "ascii_lower c = c" "ascii_lower d = d"
  shows "c = d"
proof -
  have "byte_of c \<notin> {65..90 :: nat}" if l: "ascii_lower c = c" for c
  proof
    assume "byte_of c \<in> {65..90 :: nat}"
    then have "byte_of (ascii_lower c) = (byte_of c + 32 :: nat)" by (simp add: ascii_lower_def lower_byte_def)
    then show False using l by simp
  qed
  then have n: "byte_of c \<notin> {65..90 :: nat}" "byte_of d \<notin> {65..90 :: nat}" using assms(3,4) by blast+
  define a b :: nat where "a = byte_of c" and "b = byte_of d"
  have "a = b"
    using assms(1,2) n unfolding hex_value_def Let_def a_def [symmetric] b_def [symmetric] by (auto split: if_splits)
  then show ?thesis by (simp add: a_def b_def)
qed

lemma hex_decode_inject:
  "hex_decode a = Some bs \<Longrightarrow> hex_decode b = Some bs \<Longrightarrow> map ascii_lower a = a \<Longrightarrow> map ascii_lower b = b \<Longrightarrow> a = b"
proof (induction a arbitrary: b bs rule: hex_decode.induct)
  case 1
  then show ?case using hex_decode_length [of b] by simp
next
  case (3 c d s)
  obtain h l r where a: "hex_value c = Some h" "hex_value d = Some l" "hex_decode s = Some r" "bs = of_nat (16 * h + l) # r"
    using 3(2) by (auto split: option.splits)
  obtain c' d' s' where b: "b = c' # d' # s'" using 3(3) a(4) by (cases b rule: hex_decode.cases) auto
  obtain h' l' where b': "hex_value c' = Some h'" "hex_value d' = Some l'" "hex_decode s' = Some r"
      "(of_nat (16 * h' + l') :: byte) = of_nat (16 * h + l)"
    using 3(3) a(4) b by (auto split: option.splits)
  have "h < 16" "l < 16" "h' < 16" "l' < 16" using a(1,2) b'(1,2) hex_value_less by blast+
  moreover have "unat (of_nat (16 * h' + l') :: byte) = unat (of_nat (16 * h + l) :: byte)"
    by (simp only: b'(4))
  ultimately have "16 * h' + l' = 16 * h + l"
    by (simp add: unsigned_of_nat take_bit_nat_eq_self del: of_nat_add of_nat_mult)
  moreover have "(16 * h + l) div 16 = h" "(16 * h + l) mod 16 = l" "(16 * h' + l') div 16 = h'" "(16 * h' + l') mod 16 = l'"
    using \<open>l < 16\<close> \<open>l' < 16\<close> by simp_all
  ultimately have "h' = h" "l' = l" by metis+
  moreover have "ascii_lower c = c" "ascii_lower d = d" "ascii_lower c' = c'" "ascii_lower d' = d'"
    using 3(4,5) b by auto
  ultimately have "c = c'" "d = d'" using hex_value_inject a(1,2) b'(1,2) by blast+
  moreover have "s = s'" by (rule 3(1) [OF a(3) b'(3)]) (use 3(4,5) b in auto)
  ultimately show ?case by (simp add: b)
qed simp

lemma Digest_Valid_lower: "Digest_Valid U d \<Longrightarrow> \<exists>bs. hex_decode d = Some bs \<and> length bs = 32 \<and> map ascii_lower d = d"
proof -
  assume v: "Digest_Valid U d"
  then obtain bs where bs: "hex_decode d = Some bs" "length bs = 32" "ToLower U d = d"
    by (auto simp: Digest_Valid_def ParseDigest_def DigestBytes_def split: option.splits if_splits)
  have "ascii d" using bs(1)
  proof (induction d arbitrary: bs rule: hex_decode.induct)
    case (3 c d s)
    then show ?case by (auto simp: ascii_def hex_value_def Let_def split: option.splits if_splits)
  qed (auto simp: ascii_def)
  then show ?thesis using bs by simp
qed

lemma hex_decoded_eq: "hex_decode d = Some bs \<Longrightarrow> hex_decoded d = bs"
  by (induction d arbitrary: bs rule: hex_decode.induct) (auto split: option.splits)

section \<open>Parent directories\<close>

definition segs_ok :: "string list \<Rightarrow> bool" where
  "segs_ok ss \<longleftrightarrow> list_all (\<lambda>s. plain_seg s \<and> CHR ''/'' \<notin> set s) ss"

lemma segs_ok_butlast: "segs_ok ss \<Longrightarrow> segs_ok (butlast ss)"
  by (auto simp: segs_ok_def list_all_iff dest: in_set_butlastD)

lemma Split_segs: "segs_ok ss \<Longrightarrow> ss \<noteq> [] \<Longrightarrow> Split CHR ''/'' (Join CHR ''/'' ss) = ss"
  by (rule Split_Join) (auto simp: segs_ok_def list_all_iff)

lemma concat_slashes: "ss \<noteq> [] \<Longrightarrow> concat (map (\<lambda>s. s @ ''/'') ss) = Join CHR ''/'' (ss @ [[]])"
  by (induction ss rule: list_nonempty_induct) (auto simp: Join_Cons)

lemma path_Dir_Join:
  assumes "segs_ok ss" "ss \<noteq> []"
  shows "path_Dir (Join CHR ''/'' ss) = (if butlast ss = [] then ''.'' else Join CHR ''/'' (butlast ss))"
proof (cases "butlast ss = []")
  case True
  then show ?thesis by (simp add: path_Dir_def Split_segs assms path_Clean_def)
next
  case False
  let ?b = "butlast ss"
  have b: "segs_ok ?b" by (rule segs_ok_butlast [OF assms(1)])
  have sp: "Split CHR ''/'' (Join CHR ''/'' (?b @ [[]])) = ?b @ [[]]"
    by (rule Split_Join) (use b in \<open>auto simp: segs_ok_def list_all_iff\<close>)
  have hd: "hd ?b \<noteq> []" "CHR ''/'' \<notin> set (hd ?b)"
    using b False by (auto simp: segs_ok_def list_all_iff plain_seg_def)
  obtain x xs where x: "?b = x # xs" using False by (cases ?b) auto
  have "\<not> prefix ''/'' (Join CHR ''/'' (?b @ [[]]))"
    using hd x by (cases x) (auto simp: Join_Cons)
  moreover have "clean_segs False (?b @ [[]]) [] = ?b"
  proof -
    have "clean_segs False (ys @ [[]]) out = rev out @ ys" if "list_all plain_seg ys" for ys out
      using that by (induction ys arbitrary: out) (auto simp: plain_seg_def)
    then show ?thesis using b by (simp add: segs_ok_def list_all_iff)
  qed
  ultimately show ?thesis
    using False by (simp add: path_Dir_def Split_segs assms concat_slashes path_Clean_def sp)
qed

lemma Join_snoc: "ss \<noteq> [] \<Longrightarrow> Join CHR ''/'' (ss @ [s]) = Join CHR ''/'' ss @ CHR ''/'' # s"
  by (induction ss rule: list_nonempty_induct) (auto simp: Join_Cons)

lemma Join_dot: "segs_ok ss \<Longrightarrow> ss \<noteq> [] \<Longrightarrow> Join CHR ''/'' ss \<noteq> ''.''"
  using Split_segs [of ss] by (auto simp: segs_ok_def plain_seg_def)

lemma parent_dirs_Join:
  assumes "segs_ok ss" "ss \<noteq> []"
  shows "set (parent_dirs (Join CHR ''/'' ss)) = {Join CHR ''/'' qs |qs. qs \<noteq> [] \<and> strict_prefix qs ss}"
  using assms
proof (induction ss rule: rev_induct)
  case (snoc s ss)
  have d: "path_Dir (Join CHR ''/'' (ss @ [s])) = (if ss = [] then ''.'' else Join CHR ''/'' ss)"
    using path_Dir_Join [OF snoc.prems] by simp
  show ?case
  proof (cases "ss = []")
    case True
    then show ?thesis using d
      by (subst parent_dirs.simps) (auto simp: strict_prefix_def prefix_Cons)
  next
    case False
    have ok: "segs_ok ss" using snoc.prems by (simp add: segs_ok_def)
    have "parent_dirs (Join CHR ''/'' (ss @ [s])) = Join CHR ''/'' ss # parent_dirs (Join CHR ''/'' ss)"
      using d False Join_dot [OF ok False] by (subst parent_dirs.simps) (simp add: Let_def Join_snoc)
    moreover have "strict_prefix qs (ss @ [s]) \<longleftrightarrow> qs = ss \<or> strict_prefix qs ss" for qs
      by (auto simp: strict_prefix_def)
    ultimately show ?thesis using snoc.IH [OF ok False] False by auto
  qed
qed simp

text \<open>The segments of a collision key are the keys of the segments.\<close>

lemma ToLower_Join: "ss \<noteq> [] \<Longrightarrow> ToLower U (Join CHR ''/'' ss) = Join CHR ''/'' (map (ToLower U) ss)"
  by (induction ss rule: list_nonempty_induct) (auto simp: Join_Cons)

lemma Key_segments:
  assumes "keeps_segments U" "is_ok (Validate_path U v)"
  shows "Key U v = Join CHR ''/'' (map (ToLower U) (Split CHR ''/'' v)) \<and> segs_ok (map (ToLower U) (Split CHR ''/'' v))"
proof
  show "Key U v = Join CHR ''/'' (map (ToLower U) (Split CHR ''/'' v))"
    using ToLower_Join [of "Split CHR ''/'' v" U] by (simp add: Key_def)
  have "plain_seg (ToLower U s) \<and> CHR ''/'' \<notin> set (ToLower U s)" if s: "s \<in> set (Split CHR ''/'' v)" for s
  proof -
    have u: "\<not> unsafe_segment U s" using assms(2) s by (simp add: Validate_path_iff portable_ref_def list_all_iff)
    then have e: "s \<noteq> []" "\<not> suffix ''.'' s" by (auto simp: unsafe_segment_def)
    have "\<not> set s \<subseteq> {CHR ''.''}"
      using e by (cases s rule: rev_cases) auto
    then have "\<not> set (ToLower U s) \<subseteq> {CHR ''.''}" using ToLower_dots [OF assms(1)] by blast
    then have "plain_seg (ToLower U s)" using e(1) by (auto simp: plain_seg_def)
    then show ?thesis using ToLower_slash_free [OF assms(1)] Split_no_sep [OF s] by blast
  qed
  then show "segs_ok (map (ToLower U) (Split CHR ''/'' v))" by (simp add: segs_ok_def list_all_iff)
qed

section \<open>What validation accepts\<close>

definition chunk_sized :: "byte list \<Rightarrow> bool" where
  "chunk_sized contents \<longleftrightarrow> 0 < length contents \<and> int (length contents) \<le> MaximumChunkBytes"

definition chunk_ok :: "casing \<Rightarrow> chunk \<Rightarrow> bool" where
  "chunk_ok U c \<longleftrightarrow> Digest_Valid U (cDigest c) \<and> 0 < uint (cSize c) \<and> uint (cSize c) \<le> MaximumChunkBytes"

definition file_ok :: "casing \<Rightarrow> snapshot_file \<Rightarrow> bool" where
  "file_ok U f \<longleftrightarrow> is_ok (Validate_path U (fPath f)) \<and> fMode f \<in> {0x1A4, 0x1ED} \<and> list_all (chunk_ok U) (fChunks f)
     \<and> fSize f = sum_list (map (uint \<circ> cSize) (fChunks f))"

text \<open>A key collides with a later one when it is that key or one of its parent directories.\<close>

definition clear_of :: "string \<Rightarrow> string \<Rightarrow> bool" where
  "clear_of earlier later \<longleftrightarrow> earlier \<noteq> later \<and> earlier \<notin> set (parent_dirs later)"

definition chunk_total :: "snapshot_file list \<Rightarrow> int" where
  "chunk_total fs = sum_list (map (int \<circ> length \<circ> fChunks) fs)"

definition manifest_ok :: "casing \<Rightarrow> manifest \<Rightarrow> bool" where
  "manifest_ok U m \<longleftrightarrow> mVersion m = ManifestVersion \<and> length (mFiles m) \<le> MaximumFiles
     \<and> list_all (file_ok U) (mFiles m)
     \<and> sorted_wrt (<) (map fPath (mFiles m)) \<and> sorted_wrt clear_of (map (Key U \<circ> fPath) (mFiles m))
     \<and> chunk_total (mFiles m) \<le> MaximumChunks
     \<and> mTotalBytes m = sum_list (map fSize (mFiles m)) \<and> mTotalBytes m \<le> MaximumSnapshotBytes"

lemma uint_size_pos: "0 < uint (cSize c) \<longleftrightarrow> cSize c \<noteq> 0"
  by (simp add: order_less_le uint_0_iff)

lemma check_chunks_Inr_iff:
  "n \<le> MaximumChunks \<Longrightarrow> check_chunks U n b cs = Inr (n', b') \<longleftrightarrow>
     list_all (chunk_ok U) cs \<and> n' = n + int (length cs) \<and> n' \<le> MaximumChunks \<and> b' = b + sum_list (map (uint \<circ> cSize) cs)"
  by (induction cs arbitrary: n b) (auto simp: chunk_ok_def uint_size_pos)

lemma check_chunks_bound:
  assumes "0 \<le> n" "n \<le> MaximumChunks" "check_chunks U n 0 cs = Inr (n', b)"
  shows "0 \<le> b" "b \<le> MaximumChunks * MaximumChunkBytes" "MaximumChunks * MaximumChunkBytes < 2 ^ 63"
proof -
  have c: "list_all (chunk_ok U) cs" "b = sum_list (map (uint \<circ> cSize) cs)" "int (length cs) \<le> MaximumChunks"
    using assms by (auto simp: check_chunks_Inr_iff)
  have "sum_list (map (uint \<circ> cSize) cs) \<le> int (length cs) * MaximumChunkBytes"
    using c(1) by (induction cs) (auto simp: chunk_ok_def distrib_right)
  moreover have "int (length cs) * MaximumChunkBytes \<le> MaximumChunks * MaximumChunkBytes"
    using c(3) by (simp add: MaximumChunkBytes_def)
  ultimately show "b \<le> MaximumChunks * MaximumChunkBytes" using c(2) by simp
  show "0 \<le> b" unfolding c(2) by (rule sum_list_nonneg) auto
  show "MaximumChunks * MaximumChunkBytes < 2 ^ 63" by (simp add: MaximumChunks_def MaximumChunkBytes_def)
qed

lemma file_size_nonneg: "file_ok U f \<Longrightarrow> 0 \<le> fSize f"
  by (auto simp: file_ok_def intro: sum_list_nonneg)

lemma file_size_zero: "file_ok U f \<Longrightarrow> fSize f = 0 \<Longrightarrow> fChunks f = []"
proof (cases "fChunks f")
  case (Cons c cs)
  assume f: "file_ok U f" "fSize f = 0"
  have "0 \<le> sum_list (map (uint \<circ> cSize) cs)" by (rule sum_list_nonneg) auto
  then show ?thesis using f Cons by (auto simp: file_ok_def chunk_ok_def)
qed simp

lemma validate_files_Cons:
  assumes "n \<le> MaximumChunks"
  shows "validate_files U prev seen n t (f # fs) = Inr s \<longleftrightarrow>
    file_ok U f \<and> prev < fPath f \<and> (\<forall>k\<in>set seen. clear_of k (Key U (fPath f)))
    \<and> n + int (length (fChunks f)) \<le> MaximumChunks \<and> t + fSize f \<le> MaximumSnapshotBytes
    \<and> validate_files U (fPath f) (Key U (fPath f) # seen) (n + int (length (fChunks f))) (t + fSize f) fs = Inr s"
    (is "?l \<longleftrightarrow> ?r")
proof
  assume ?l
  then have p: "is_ok (Validate_path U (fPath f))" by (simp add: ValidatePath_def split: if_splits)
  then have "fPath f \<noteq> ''''" by (auto simp: Validate_path_def)
  then have "'''' < fPath f" by (cases "fPath f") simp_all
  then have "prev < fPath f"
    using \<open>?l\<close> p by (cases "prev = ''''") (auto simp: ValidatePath_def not_le split: if_splits)
  then show ?r using \<open>?l\<close> p assms
    by (auto simp: result_simps check_chunks_Inr_iff file_ok_def clear_of_def list_ex_iff Let_def split: if_splits)
next
  assume r: ?r
  then have c: "check_chunks U n 0 (fChunks f) = Inr (n + int (length (fChunks f)), fSize f)"
    using assms by (simp add: check_chunks_Inr_iff file_ok_def)
  have p: "is_ok (ValidatePath U (fPath f))" using r by (simp add: ValidatePath_def file_ok_def)
  have k: "Key U (fPath f) \<notin> set seen" "\<not> list_ex (\<lambda>p. p \<in> set seen) (parent_dirs (Key U (fPath f)))"
    using r by (auto simp: clear_of_def list_ex_iff)
  have f: "file_ok U f" "prev < fPath f" "t + fSize f \<le> MaximumSnapshotBytes" using r by blast+
  have m: "\<not> (fMode f \<noteq> 0x1A4 \<and> fMode f \<noteq> 0x1ED \<or> fSize f < 0)" "\<not> (prev \<noteq> '''' \<and> fPath f \<le> prev)"
      "\<not> (fSize f \<noteq> fSize f \<or> fSize f = 0 \<and> length (fChunks f) \<noteq> 0)" "\<not> t + fSize f > MaximumSnapshotBytes"
    using f file_size_nonneg [OF f(1)] file_size_zero [OF f(1)] by (simp_all add: file_ok_def not_le not_less)
  show ?l using r by (simp only: validate_files.simps Let_def p k m c ebind_simps prod.case if_False not_True_eq_False if_True)
qed

lemma sum_sizes_nonneg: "list_all (file_ok U) fs \<Longrightarrow> 0 \<le> sum_list (map fSize fs)"
  by (rule sum_list_nonneg) (auto simp: list_all_iff file_size_nonneg)

lemma chunk_total_nonneg: "0 \<le> chunk_total fs"
  unfolding chunk_total_def by (rule sum_list_nonneg) auto

lemma chunk_total_Cons: "chunk_total (f # fs) = int (length (fChunks f)) + chunk_total fs"
  by (simp add: chunk_total_def)

lemma sorted_wrt_less_hd:
  "sorted_wrt (<) xs \<Longrightarrow> (xs \<noteq> [] \<Longrightarrow> x < hd xs) \<Longrightarrow> sorted_wrt (<) (x # xs)" for x :: "'a::order"
  by (cases xs) (auto dest: less_trans)

lemma validate_files_Inr_iff:
  assumes "n \<le> MaximumChunks" "t \<le> MaximumSnapshotBytes"
  shows "validate_files U prev seen n t fs = Inr s \<longleftrightarrow>
    list_all (file_ok U) fs \<and> sorted_wrt (<) (prev # map fPath fs)
    \<and> sorted_wrt clear_of (map (Key U \<circ> fPath) fs) \<and> (\<forall>k\<in>set seen. \<forall>f\<in>set fs. clear_of k (Key U (fPath f)))
    \<and> n + chunk_total fs \<le> MaximumChunks \<and> s = t + sum_list (map fSize fs) \<and> s \<le> MaximumSnapshotBytes"
  using assms
proof (induction fs arbitrary: prev seen n t)
  case (Cons f fs)
  show ?case (is "?l \<longleftrightarrow> ?r")
  proof
    assume ?l
    then show ?r
      using Cons.IH Cons.prems unfolding validate_files_Cons [OF Cons.prems(1)]
      by (auto simp: chunk_total_Cons intro: less_trans)
  next
    assume r: ?r
    have "0 \<le> sum_list (map fSize fs)" "0 \<le> chunk_total fs"
      using r sum_sizes_nonneg chunk_total_nonneg by auto
    then have "n + int (length (fChunks f)) \<le> MaximumChunks" "t + fSize f \<le> MaximumSnapshotBytes"
      using r by (auto simp: chunk_total_Cons)
    then show ?l using r Cons.IH unfolding validate_files_Cons [OF Cons.prems(1)]
      by (auto simp: chunk_total_Cons)
  qed
qed (auto simp: chunk_total_def)

lemma Manifest_Validate_iff: "is_ok (Manifest_Validate U m) \<longleftrightarrow> manifest_ok U m"
proof -
  have "sorted_wrt (<) ('''' # map fPath fs) \<longleftrightarrow> sorted_wrt (<) (map fPath fs)" if "list_all (file_ok U) fs" for fs
  proof -
    have "'''' < fPath f" if "f \<in> set fs" for f
    proof -
      have "is_ok (Validate_path U (fPath f))" using \<open>list_all (file_ok U) fs\<close> that by (auto simp: list_all_iff file_ok_def)
      then show ?thesis by (cases "fPath f") (auto simp: Validate_path_def)
    qed
    then show ?thesis by auto
  qed
  then show ?thesis
    using validate_files_Inr_iff [of 0 0 U "''''" "[]" "mFiles m"] sum_sizes_nonneg [of U "mFiles m"]
    by (auto simp: Manifest_Validate_def manifest_ok_def is_ok_unit_iff result_simps not_less
        MaximumChunks_def MaximumSnapshotBytes_def)
qed

section \<open>Manifests as trees\<close>

lemma Split_slash: "Split CHR ''/'' (a @ CHR ''/'' # b) = Split CHR ''/'' a @ Split CHR ''/'' b"
  by (induction a) (auto split: list.splits)

lemma extension_greater: "a < a @ c # b" for a :: string
  by (simp add: list_less_def lexord_append_rightI)

lemma parent_key:
  assumes U: "keeps_segments U" and ok: "is_ok (Validate_path U (a @ CHR ''/'' # b))" "is_ok (Validate_path U a)"
  shows "Key U a \<in> set (parent_dirs (Key U (a @ CHR ''/'' # b)))"
proof -
  let ?a = "map (ToLower U) (Split CHR ''/'' a)" and ?b = "map (ToLower U) (Split CHR ''/'' b)"
  have "segs_ok (?a @ ?b)" and k: "Key U (a @ CHR ''/'' # b) = Join CHR ''/'' (?a @ ?b)" "Key U a = Join CHR ''/'' ?a"
    using Key_segments [OF U ok(1)] Key_segments [OF U ok(2)] by (simp_all add: Split_slash)
  moreover have "?a \<noteq> []" "strict_prefix ?a (?a @ ?b)" by (simp_all add: strict_prefix_def)
  ultimately show ?thesis by (auto simp: parent_dirs_Join)
qed

lemma accepted_no_parent:
  assumes U: "keeps_segments U" and m: "manifest_ok U m" and f: "f \<in> set (mFiles m)" and g: "g \<in> set (mFiles m)"
  shows "\<not> prefix (fPath f @ ''/'') (fPath g)"
proof
  assume "prefix (fPath f @ ''/'') (fPath g)"
  then obtain b where b: "fPath g = fPath f @ CHR ''/'' # b" by (auto simp: prefix_def)
  obtain i j where i: "i < length (mFiles m)" "mFiles m ! i = f" and j: "j < length (mFiles m)" "mFiles m ! j = g"
    using f g by (auto simp: in_set_conv_nth)
  have lt: "fPath f < fPath g" using extension_greater b by simp
  have srt: "sorted_wrt (<) (map fPath (mFiles m))" "sorted_wrt clear_of (map (Key U \<circ> fPath) (mFiles m))"
    using m by (simp_all add: manifest_ok_def)
  have "i < j"
  proof (rule ccontr)
    assume "\<not> i < j"
    then have "j < i \<or> i = j" by auto
    then show False using sorted_wrt_nth_less [OF srt(1), of j i] i j lt by auto
  qed
  then have "clear_of (Key U (fPath f)) (Key U (fPath g))"
    using sorted_wrt_nth_less [OF srt(2), of i j] i j by simp
  moreover have "is_ok (Validate_path U (fPath f))" "is_ok (Validate_path U (fPath g))"
    using m f g by (auto simp: manifest_ok_def list_all_iff file_ok_def)
  ultimately show False using parent_key [OF U] b by (auto simp: clear_of_def)
qed

lemma accepted_keys_distinct: "manifest_ok U m \<Longrightarrow> distinct (map (Key U \<circ> fPath) (mFiles m))"
proof -
  assume "manifest_ok U m"
  then have "sorted_wrt clear_of (map (Key U \<circ> fPath) (mFiles m))" by (simp add: manifest_ok_def)
  then have "sorted_wrt (\<noteq>) (map (Key U \<circ> fPath) (mFiles m))"
    by (rule sorted_wrt_mono_rel [rotated]) (simp add: clear_of_def)
  then show ?thesis by (simp add: distinct_conv_nth sorted_wrt_iff_nth_less) (metis nat_neq_iff)
qed

lemma total_of_chunks:
  "list_all (file_ok U) fs \<Longrightarrow> sum_list (map fSize fs) = sum_list (map (uint \<circ> cSize) (concat (map fChunks fs)))"
  by (induction fs) (auto simp: file_ok_def)

lemma member_le_total: "x \<in> set xs \<Longrightarrow> (\<And>y. y \<in> set xs \<Longrightarrow> 0 \<le> f y) \<Longrightarrow> f x \<le> sum_list (map f xs)" for f :: "'a \<Rightarrow> int"
  by (induction xs) (auto simp: add_increasing intro!: sum_list_nonneg)

section \<open>The encoding determines the manifest\<close>

lemma write_chunk_code: "prefix_code (chunk_ok U) write_chunk"
proof (rule fixed_width_code [where n = 36])
  show "length (write_chunk c) = 36" if c: "chunk_ok U c" for c
    using Digest_Valid_lower [of U "cDigest c"] c by (auto simp: chunk_ok_def write_chunk_def hex_decoded_eq)
  fix a b
  assume a: "chunk_ok U a" and b: "chunk_ok U b" and e: "write_chunk a = write_chunk b"
  obtain x y where x: "hex_decode (cDigest a) = Some x" "length x = 32" "map ascii_lower (cDigest a) = cDigest a"
    and y: "hex_decode (cDigest b) = Some y" "length y = 32" "map ascii_lower (cDigest b) = cDigest b"
    using a b Digest_Valid_lower by (meson chunk_ok_def)
  have "x = y \<and> PutUint32 (cSize a) = PutUint32 (cSize b)"
    using e x(1,2) y(1,2) by (auto simp: write_chunk_def hex_decoded_eq)
  then show "a = b" using hex_decode_inject x y PutUint32_inject by (metis chunk.equality unit.exhaust)
qed

lemma byte_code: "prefix_code (\<lambda>_. True) (\<lambda>c. bytes_of [c])"
  by (rule fixed_width_code [where n = 1]) (auto dest: bytes_of_inject)

lemma string_code: "prefix_code (\<lambda>s. length s < 2 ^ 32) (\<lambda>s. PutUint32 (of_nat (length s)) @ bytes_of s)"
proof -
  have "concat (map (\<lambda>c. bytes_of [c]) s) = bytes_of s" for s by (simp add: bytes_of_def concat_map_singleton)
  then show ?thesis using counted_code [OF byte_code] by (simp add: list_all_iff)
qed

definition encodable :: "casing \<Rightarrow> snapshot_file \<Rightarrow> bool" where
  "encodable U f \<longleftrightarrow> file_ok U f \<and> length (fChunks f) < 2 ^ 32"

lemma write_file_code: "prefix_code (encodable U) write_file"
proof (rule prefix_codeI)
  fix f g r s
  assume f: "encodable U f" and g: "encodable U g" and e: "write_file f @ r = write_file g @ s"
  have len: "length (fPath h) < 2 ^ 32" if "encodable U h" for h
  proof -
    have "length (fPath h) \<le> MaximumBytes"
      using that by (simp add: encodable_def file_ok_def Validate_path_iff portable_ref_def)
    then show ?thesis by (simp add: MaximumBytes_def)
  qed
  let ?rest = "\<lambda>h r. PutUint32 (fMode h) @ PutUint64 (of_int (fSize h)) @ PutUint32 (of_nat (length (fChunks h)))
     @ concat (map write_chunk (fChunks h)) @ r"
  have p: "fPath f = fPath g \<and> ?rest f r = ?rest g s"
    by (rule prefix_codeD [OF string_code len [OF f] len [OF g]]) (use e in \<open>simp add: write_file_def\<close>)
  have m: "fMode f = fMode g \<and> drop 4 (?rest f r) = drop 4 (?rest g s)"
    by (rule prefix_codeD [OF PutUint32_code]) (use p in simp_all)
  have z: "(of_int (fSize f) :: 64 word) = of_int (fSize g) \<and> drop 12 (?rest f r) = drop 12 (?rest g s)"
    by (rule prefix_codeD [OF PutUint64_code]) (use m in simp_all)
  have c: "fChunks f = fChunks g \<and> r = s"
    by (rule prefix_codeD [OF counted_code [OF write_chunk_code [of U]]])
      (use z f g in \<open>simp_all add: encodable_def file_ok_def\<close>)
  have "fSize f = fSize g"
    using c f g by (simp add: encodable_def file_ok_def)
  then show "f = g \<and> r = s" using p m c by simp
qed

lemma writeCanonical_inject:
  assumes a: "manifest_ok U a" and b: "manifest_ok U b" and e: "writeCanonical a = writeCanonical b"
  shows "a = b"
proof -
  have enc: "list_all (encodable U) (mFiles m) \<and> length (mFiles m) < 2 ^ 32" if m: "manifest_ok U m" for m
  proof -
    have "int (length (fChunks f)) \<le> chunk_total (mFiles m)" if "f \<in> set (mFiles m)" for f
      using member_le_total [OF that, of "int \<circ> length \<circ> fChunks"] by (simp add: chunk_total_def)
    then show ?thesis
      using m by (force simp: encodable_def manifest_ok_def list_all_iff MaximumChunks_def MaximumFiles_def)
  qed
  let ?rest = "\<lambda>m. PutUint32 (of_nat (length (mFiles m))) @ concat (map write_file (mFiles m)) @ PutUint64 (of_int (mTotalBytes m))"
  have v: "mVersion a = mVersion b \<and> ?rest a = ?rest b"
    by (rule prefix_codeD [OF PutUint32_code]) (use e in \<open>simp_all add: writeCanonical_def\<close>)
  have fs: "mFiles a = mFiles b \<and> PutUint64 (of_int (mTotalBytes a)) = PutUint64 (of_int (mTotalBytes b))"
    by (rule prefix_codeD [OF counted_code [OF write_file_code [of U]]]) (use v enc [OF a] enc [OF b] in simp_all)
  then have "mTotalBytes a = mTotalBytes b" using a b by (simp add: manifest_ok_def)
  then show ?thesis using v fs by simp
qed

section \<open>Properties\<close>

text \<open>
  C11: What a manifest that \<open>Validate\<close> accepts describes. It accepts exactly the manifests that satisfy the declarative
  \<open>manifest_ok\<close>; then no two paths have the same collision key, no file lies at a directory that holds another one, so
  the files form a tree, and the total is the sum over all chunks, each between one byte and the maximum, within
  the bounds on files, chunks and bytes.
\<close>
theorem accepted_manifests_are_trees:
  assumes "keeps_segments U"
  shows "(is_ok (Manifest_Validate U m) \<longleftrightarrow> manifest_ok U m) \<and>
    (is_ok (Manifest_Validate U m) \<longrightarrow>
      distinct (map (Key U \<circ> fPath) (mFiles m))
      \<and> (\<forall>f\<in>set (mFiles m). \<forall>g\<in>set (mFiles m). \<not> prefix (fPath f @ ''/'') (fPath g))
      \<and> mTotalBytes m = sum_list (map (uint \<circ> cSize) (concat (map fChunks (mFiles m))))
      \<and> (\<forall>c\<in>set (concat (map fChunks (mFiles m))). 0 < uint (cSize c) \<and> uint (cSize c) \<le> MaximumChunkBytes)
      \<and> mTotalBytes m \<le> MaximumSnapshotBytes)"
proof -
  have c: "0 < uint (cSize c) \<and> uint (cSize c) \<le> MaximumChunkBytes"
    if "manifest_ok U m" "c \<in> set (concat (map fChunks (mFiles m)))" for c
    using that by (auto simp: manifest_ok_def list_all_iff file_ok_def chunk_ok_def)
  have s: "mTotalBytes m = sum_list (map (uint \<circ> cSize) (concat (map fChunks (mFiles m))))
      \<and> mTotalBytes m \<le> MaximumSnapshotBytes" if "manifest_ok U m"
    using that total_of_chunks [of U "mFiles m"] by (simp add: manifest_ok_def)
  show ?thesis
    unfolding Manifest_Validate_iff using accepted_keys_distinct accepted_no_parent [OF assms] c s by blast
qed

definition sample_digest :: digest where
  "sample_digest = replicate 64 CHR ''0''"

definition sample_manifest :: manifest where
  "sample_manifest = \<lparr>mVersion = 1, mFiles =
     [\<lparr>fPath = ''README.md'', fMode = 0x1A4, fSize = 5, fChunks = [\<lparr>cDigest = sample_digest, cSize = 5\<rparr>]\<rparr>,
      \<lparr>fPath = ''src/main.go'', fMode = 0x1ED, fSize = 0, fChunks = []\<rparr>], mTotalBytes = 5\<rparr>"

lemma ascii_casing_segments: "keeps_segments ascii_casing"
  by (simp add: keeps_segments_def ascii_casing_def)

lemma sample_manifest_ok: "is_ok (Manifest_Validate ascii_casing sample_manifest)"
  by code_simp

theorem accepted_manifests_are_trees_witness:
  "keeps_segments ascii_casing \<and> is_ok (Manifest_Validate ascii_casing sample_manifest)
   \<and> mTotalBytes sample_manifest = 5 \<and> distinct (map (Key ascii_casing \<circ> fPath) (mFiles sample_manifest))"
  using accepted_manifests_are_trees [OF ascii_casing_segments, of sample_manifest] ascii_casing_segments
    sample_manifest_ok by (simp add: sample_manifest_def)

text \<open>
  C29: The identity of a manifest is the manifest, up to collisions of SHA-256. Two manifests with the same \<open>ID\<close> are equal,
  or their canonical encodings are two different inputs with the same hash: the encoding loses nothing.
\<close>
theorem manifest_identity:
  assumes "Manifest_ID U H a = Inr d" "Manifest_ID U H b = Inr d"
  shows "a = b \<or> writeCanonical a \<noteq> writeCanonical b \<and> hex_encode (H (writeCanonical a)) = hex_encode (H (writeCanonical b))"
proof -
  have c: "manifest_ok U m \<and> d = hex_encode (H (writeCanonical m))" if "Manifest_ID U H m = Inr d" for m
    using that Manifest_Validate_iff [of U m]
    by (auto simp: Manifest_ID_def CanonicalBytes_def Sum_def result_simps split: if_splits)
  show ?thesis using c [OF assms(1)] c [OF assms(2)] writeCanonical_inject [of U a b] by auto
qed

definition empty_manifest :: manifest where
  "empty_manifest = \<lparr>mVersion = 1, mFiles = [], mTotalBytes = 0\<rparr>"

theorem manifest_identity_witness:
  "Manifest_ID ascii_casing (\<lambda>_. replicate 32 0) sample_manifest = Inr sample_digest
   \<and> Manifest_ID ascii_casing (\<lambda>_. replicate 32 0) empty_manifest = Inr sample_digest
   \<and> writeCanonical sample_manifest \<noteq> writeCanonical empty_manifest"
proof -
  have d: "Manifest_ID ascii_casing (\<lambda>_. replicate 32 0) sample_manifest = Inr sample_digest"
    "Manifest_ID ascii_casing (\<lambda>_. replicate 32 0) empty_manifest = Inr sample_digest" by code_simp+
  have "sample_manifest \<noteq> empty_manifest" by (simp add: sample_manifest_def empty_manifest_def)
  then show ?thesis using manifest_identity [OF d] d by blast
qed

text \<open>
  The check for files that are also directories depends on the order of the paths. \<open>A/b\<close> sorts before \<open>a\<close>, so when
  \<open>a\<close> is checked nothing is a parent of it, and the manifest with both is accepted although, on the file systems whose
  case folding the collision keys stand for, \<open>a\<close> would be a file and a directory; the same two paths in lower case are
  refused.
\<close>
theorem Validate_misses_folded_parent:
  "is_ok (Manifest_Validate ascii_casing \<lparr>mVersion = 1, mFiles =
      [\<lparr>fPath = ''A/b'', fMode = 0x1A4, fSize = 0, fChunks = []\<rparr>, \<lparr>fPath = ''a'', fMode = 0x1A4, fSize = 0, fChunks = []\<rparr>],
      mTotalBytes = 0\<rparr>)
   \<and> Key ascii_casing ''a'' \<in> set (parent_dirs (Key ascii_casing ''A/b''))
   \<and> Manifest_Validate ascii_casing \<lparr>mVersion = 1, mFiles =
      [\<lparr>fPath = ''a'', fMode = 0x1A4, fSize = 0, fChunks = []\<rparr>, \<lparr>fPath = ''a/b'', fMode = 0x1A4, fSize = 0, fChunks = []\<rparr>],
      mTotalBytes = 0\<rparr> = Inl [Snapshot_ErrInvalidManifest]"
  by (intro conjI; code_simp)

end
