(* ===== verification/IgnoreRules.thy ===== *)
theory IgnoreRules
  imports Snapshot
begin

text \<open>
  \<open>internal/snapshot/ignore.go\<close>: the rules of \<open>.gitignore\<close> and \<open>.computehopignore\<close> files and the files they exclude from a
  snapshot, with \<open>path.Match\<close> of the Go standard library. The lemmas give \<open>matchGlob\<close> and \<open>ignored\<close> a declarative
  reading: the last rule that matches decides, and reserved directories are excluded whatever the rules say.
\<close>

section \<open>Shell patterns\<close>

text \<open>\<open>utf8.DecodeRuneInString\<close> on a non-empty string: the rune, whether the encoding is valid, and the rest of the string.\<close>

definition next_rune :: "string \<Rightarrow> nat \<times> bool \<times> string" where
  "next_rune s =
    (case runes s of [] \<Rightarrow> (0xFFFD, False, []) | (r, bytes) # _ \<Rightarrow> (rune_value r, r \<noteq> None, drop (length bytes) s))"

text \<open>The functions of \<open>path/match.go\<close>; \<open>None\<close> is \<open>ErrBadPattern\<close>.\<close>

definition getEsc :: "string \<Rightarrow> (nat \<times> string) option" where
  "getEsc chunk =
    (case chunk of
       [] \<Rightarrow> None
     | c # cs \<Rightarrow>
         if c = CHR ''-'' \<or> c = CHR '']'' then None
         else if c = CHR 0x5C \<and> cs = [] then None
         else (case next_rune (if c = CHR 0x5C then cs else chunk) of
             (r, valid, rest) \<Rightarrow> if \<not> valid \<or> rest = [] then None else Some (r, rest)))"

lemma next_rune_shorter: "s \<noteq> [] \<Longrightarrow> next_rune s = (r, v, rest) \<Longrightarrow> length rest < length s"
  by (cases s) (auto simp: next_rune_def split: option.splits prod.splits)

lemma getEsc_shorter: "getEsc chunk = Some (r, rest) \<Longrightarrow> length rest < length chunk"
  using next_rune_shorter [of chunk] next_rune_shorter [of "tl chunk"]
  by (cases chunk) (fastforce simp: getEsc_def split: if_splits prod.splits)+

function class_ranges :: "nat \<Rightarrow> bool \<Rightarrow> nat \<Rightarrow> string \<Rightarrow> (bool \<times> string) option" where
  "class_ranges r matched nrange chunk =
    (if chunk \<noteq> [] \<and> hd chunk = CHR '']'' \<and> nrange > 0 then Some (matched, tl chunk)
     else (case getEsc chunk of
         None \<Rightarrow> None
       | Some (lo, chunk1) \<Rightarrow>
           if hd chunk1 = CHR ''-'' then
             (case getEsc (tl chunk1) of
                None \<Rightarrow> None
              | Some (hi, chunk2) \<Rightarrow> class_ranges r (matched \<or> lo \<le> r \<and> r \<le> hi) (nrange + 1) chunk2)
           else class_ranges r (matched \<or> lo = r) (nrange + 1) chunk1))"
  by pat_completeness auto
termination
  by (relation "measure (\<lambda>(_, _, _, chunk). length chunk)") (auto dest!: getEsc_shorter)

declare class_ranges.simps [simp del]

lemma class_ranges_shorter: "class_ranges r m n chunk = Some (m', rest) \<Longrightarrow> length rest < length chunk"
proof (induction r m n chunk rule: class_ranges.induct)
  case (1 r m n chunk)
  then show ?case
    using class_ranges.simps [of r m n chunk]
    by (cases chunk) (fastforce dest: getEsc_shorter split: if_splits option.splits prod.splits)+
qed

text \<open>The rest of the name when the chunk matches, \<open>None\<close> when the match has failed; the pattern is checked to its end.\<close>

function matchChunk :: "string \<Rightarrow> string option \<Rightarrow> string option option" where
  "matchChunk [] s = Some s"
| "matchChunk (c # chunk) s =
    (let s = (if s = Some [] then None else s) in
     if c = CHR ''['' then
       let (r, s1) = (case s of None \<Rightarrow> (0, None) | Some n \<Rightarrow> (fst (next_rune n), Some (snd (snd (next_rune n)))));
           negated = (chunk \<noteq> [] \<and> hd chunk = CHR ''^'') in
       (case class_ranges r False 0 (if negated then tl chunk else chunk) of
          None \<Rightarrow> None
        | Some (matched, rest) \<Rightarrow> matchChunk rest (if matched = negated then None else s1))
     else if c = CHR ''?'' then
       matchChunk chunk (case s of None \<Rightarrow> None | Some n \<Rightarrow> if hd n = CHR ''/'' then None else Some (snd (snd (next_rune n))))
     else if c = CHR 0x5C then
       (case chunk of
          [] \<Rightarrow> None
        | d # rest \<Rightarrow> matchChunk rest (case s of None \<Rightarrow> None | Some n \<Rightarrow> if hd n \<noteq> d then None else Some (tl n)))
     else matchChunk chunk (case s of None \<Rightarrow> None | Some n \<Rightarrow> if hd n \<noteq> c then None else Some (tl n)))"
  by pat_completeness auto
termination
  by (relation "measure (\<lambda>(chunk, _). length chunk)") (auto dest!: class_ranges_shorter split: if_splits)

declare matchChunk.simps(2) [simp del]

fun scan_plain :: "bool \<Rightarrow> string \<Rightarrow> string \<times> string" where
  "scan_plain inrange [] = ([], [])"
| "scan_plain inrange (c # cs) =
    (if c = CHR ''*'' \<and> \<not> inrange then ([], c # cs)
     else if c = CHR 0x5C \<and> cs \<noteq> [] then
       (case cs of d # ds \<Rightarrow> (case scan_plain inrange ds of (chunk, rest) \<Rightarrow> (c # d # chunk, rest)) | [] \<Rightarrow> ([c], []))
     else (case scan_plain (if c = CHR ''['' then True else if c = CHR '']'' then False else inrange) cs of
         (chunk, rest) \<Rightarrow> (c # chunk, rest)))"

definition scanChunk :: "string \<Rightarrow> bool \<times> string \<times> string" where
  "scanChunk pattern =
    (pattern \<noteq> [] \<and> hd pattern = CHR ''*'', scan_plain False (dropWhile (\<lambda>c. c = CHR ''*'') pattern))"

text \<open>The loop behind a star: the first position from which the chunk matches, to the end of the name if it is the last.\<close>

fun star_loop :: "string \<Rightarrow> bool \<Rightarrow> string \<Rightarrow> string option option" where
  "star_loop chunk final [] = Some None"
| "star_loop chunk final (c # name) =
    (if c = CHR ''/'' then Some None
     else (case matchChunk chunk (Some name) of
         None \<Rightarrow> None
       | Some (Some t) \<Rightarrow> if final \<and> t \<noteq> [] then star_loop chunk final name else Some (Some t)
       | Some None \<Rightarrow> star_loop chunk final name))"

lemma scan_plain_append: "fst (scan_plain b p) @ snd (scan_plain b p) = p"
proof (induction b p rule: scan_plain.induct)
  case (2 inrange c cs)
  show ?case
  proof (cases "c = CHR 0x5C \<and> cs \<noteq> []")
    case True
    then obtain d ds where "cs = d # ds" by (cases cs) auto
    then show ?thesis using True 2(1) by (simp add: split_beta)
  next
    case False
    then show ?thesis using 2(2) by (auto simp: split_beta)
  qed
qed simp

lemma scanChunk_shorter:
  assumes "pattern \<noteq> []" "scanChunk pattern = (star, chunk, rest)"
  shows "length rest < length pattern"
proof -
  let ?p = "dropWhile (\<lambda>c. c = CHR ''*'') pattern"
  have p: "chunk @ rest = ?p" using scan_plain_append [of False ?p] assms(2) by (simp add: scanChunk_def)
  have "chunk \<noteq> []" if "hd pattern \<noteq> CHR ''*''"
    using assms that by (cases pattern) (auto simp: scanChunk_def split: if_splits prod.splits list.splits)
  then show ?thesis
    using assms(1) arg_cong [OF p, of length] length_dropWhile_le [of "\<lambda>c. c = CHR ''*''" "tl pattern"]
    by (cases pattern; cases chunk) (auto split: if_splits)
qed

function valid_rest :: "string \<Rightarrow> bool" where
  "valid_rest pattern =
    (if pattern = [] then True
     else (case scanChunk pattern of (_, chunk, rest) \<Rightarrow> matchChunk chunk (Some []) \<noteq> None \<and> valid_rest rest))"
  by pat_completeness auto
termination by (relation "measure length") (auto dest!: scanChunk_shorter [OF _ sym])

declare valid_rest.simps [simp del]

function Match :: "string \<Rightarrow> string \<Rightarrow> bool option" where
  "Match pattern name =
    (if pattern = [] then Some (name = [])
     else (case scanChunk pattern of (star, chunk, rest) \<Rightarrow>
       if star \<and> chunk = [] then Some (CHR ''/'' \<notin> set name)
       else (case matchChunk chunk (Some name) of
           None \<Rightarrow> None
         | Some here \<Rightarrow>
             if here \<noteq> None \<and> (here = Some [] \<or> rest \<noteq> []) then Match rest (the here)
             else (case (if star then star_loop chunk (rest = []) name else Some None) of
                 None \<Rightarrow> None
               | Some (Some t) \<Rightarrow> Match rest t
               | Some None \<Rightarrow> if valid_rest rest then Some False else None))))"
  by pat_completeness auto
termination by (relation "measure (length \<circ> fst)") (auto dest!: scanChunk_shorter [OF _ sym])

declare Match.simps [simp del]

definition matchSegment :: "string \<Rightarrow> string \<Rightarrow> bool" where
  "matchSegment pattern v \<longleftrightarrow> Match pattern v = Some True"

section \<open>Rules\<close>

record ignoreRule =
  irBase :: string
  irPattern :: string
  irNegative :: bool
  irDirectory :: bool
  irHasSlash :: bool

definition default_rule :: "string \<Rightarrow> bool \<Rightarrow> ignoreRule" where
  "default_rule p d = \<lparr>irBase = [], irPattern = p, irNegative = False, irDirectory = d, irHasSlash = False\<rparr>"

definition defaultIgnoreRules :: "ignoreRule list" where
  "defaultIgnoreRules =
    map (\<lambda>p. default_rule p True)
      [''.git'', ''.computehop-results'', ''.computehop-conflicts'',
       ''node_modules'', ''.next'', ''.turbo'', ''.cache'', ''target'', ''.venv'', ''venv'', ''__pycache__'',
       ''.pytest_cache'', ''.mypy_cache'', ''.ruff_cache'']
    @ map (\<lambda>p. default_rule p False) [''.env'', ''.env.*'', ''.npmrc'', ''.pypirc'', ''.netrc'']
    @ map (\<lambda>p. default_rule p True) [''.ssh'', ''.aws'', ''.azure'', ''.gcloud'', ''.gnupg'', ''.kube'']
    @ map (\<lambda>p. default_rule p False) [''*.pem'', ''*.key'', ''*.p12'', ''*.pfx'']"

definition maximumIgnoreBytes :: nat where "maximumIgnoreBytes = 1048576"
definition maximumIgnoreFiles :: nat where "maximumIgnoreFiles = 256"
definition maximumIgnoreRules :: nat where "maximumIgnoreRules = 8192"

definition TrimPrefix :: "string \<Rightarrow> string \<Rightarrow> string" where
  "TrimPrefix s p = (if prefix p s then drop (length p) s else s)"

definition TrimSuffix :: "string \<Rightarrow> string \<Rightarrow> string" where
  "TrimSuffix s p = (if suffix p s then take (length s - length p) s else s)"

text \<open>\<open>strings.ReplaceAll(s, `\ `, " ")\<close>.\<close>

fun unescape_spaces :: "string \<Rightarrow> string" where
  "unescape_spaces (c # d # s) =
    (if c = CHR 0x5C \<and> d = CHR '' '' then CHR '' '' # unescape_spaces s else c # unescape_spaces (d # s))"
| "unescape_spaces s = s"

function trim_loop :: "string \<Rightarrow> string" where
  "trim_loop v = (if suffix '' '' v \<and> \<not> suffix [CHR 0x5C, CHR '' ''] v then trim_loop (TrimSuffix v '' '') else v)"
  by pat_completeness auto
termination by (relation "measure length") (auto simp: TrimSuffix_def suffix_def)

declare trim_loop.simps [simp del]

definition trimUnescapedTrailingSpaces :: "string \<Rightarrow> string" where
  "trimUnescapedTrailingSpaces v = unescape_spaces (trim_loop v)"

text \<open>The lines of \<open>bufio.Scanner\<close>: split at line feeds, one carriage return dropped, no empty line at the end.\<close>

definition scan_lines :: "string \<Rightarrow> string list" where
  "scan_lines s =
    (let ls = Split CHR 0x0A s; ls = (if last ls = [] then butlast ls else ls) in map (\<lambda>l. TrimSuffix l [CHR 0x0D]) ls)"

definition parse_rule :: "string \<Rightarrow> string \<Rightarrow> ignoreRule option" where
  "parse_rule base scanned =
    (let line = trimUnescapedTrailingSpaces (TrimSuffix scanned [CHR 0x0D]) in
     if line = [] \<or> prefix ''#'' line then None
     else
       let escapedLeadingMarker = (prefix [CHR 0x5C, CHR ''#''] line \<or> prefix [CHR 0x5C, CHR ''!''] line);
           line = (if escapedLeadingMarker then drop 1 line else line);
           negative = (\<not> escapedLeadingMarker \<and> prefix ''!'' line);
           line = (if negative then TrimPrefix line ''!'' else line);
           directory = suffix ''/'' line;
           line = TrimPrefix (TrimSuffix line ''/'') ''/''
       in if line = [] then None
          else Some \<lparr>irBase = base, irPattern = line, irNegative = negative, irDirectory = directory,
                     irHasSlash = (CHR ''/'' \<in> set line)\<rparr>)"

definition parseIgnoreRules :: "string result \<Rightarrow> string \<Rightarrow> ignoreRule list result" where
  "parseIgnoreRules contents base =
    ebind contents (\<lambda>c.
      if length c > maximumIgnoreBytes then Inl [''ignore file exceeds size limit'']
      else Inr (List.map_filter (parse_rule base) (scan_lines c)))"

section \<open>Matching\<close>

definition relativeToBase :: "string \<Rightarrow> string \<Rightarrow> string option" where
  "relativeToBase v base =
    (if base = [] then Some v
     else if v = base then Some []
     else if prefix (base @ ''/'') v then Some (TrimPrefix v (base @ ''/''))
     else None)"

fun glob_match :: "string list \<Rightarrow> string list \<Rightarrow> bool" where
  "glob_match [] vs \<longleftrightarrow> vs = []"
| "glob_match (p # ps) vs \<longleftrightarrow>
    (if p = ''**'' then list_ex (\<lambda>k. glob_match ps (drop k vs)) [0..<length vs + 1]
     else vs \<noteq> [] \<and> matchSegment p (hd vs) \<and> glob_match ps (tl vs))"

definition matchGlob :: "string \<Rightarrow> string \<Rightarrow> bool" where
  "matchGlob pattern v = glob_match (Split CHR ''/'' pattern) (Split CHR ''/'' v)"

definition reserved_segment :: "string \<Rightarrow> bool" where
  "reserved_segment s \<longleftrightarrow> s = ''.git'' \<or> s = ''.computehop-results'' \<or> s = ''.computehop-conflicts''"

definition rule_matches :: "ignoreRule \<Rightarrow> string \<Rightarrow> bool \<Rightarrow> bool" where
  "rule_matches r relative directory =
    (case relativeToBase relative (irBase r) of
       None \<Rightarrow> False
     | Some candidate \<Rightarrow>
         if irDirectory r \<and> \<not> directory then False
         else if irHasSlash r then matchGlob (irPattern r) candidate
         else list_ex (matchSegment (irPattern r)) (Split CHR ''/'' candidate))"

definition ignored :: "ignoreRule list \<Rightarrow> string \<Rightarrow> bool \<Rightarrow> bool" where
  "ignored rules relative directory =
    (if list_ex reserved_segment (Split CHR ''/'' relative) then True
     else fold (\<lambda>r ign. if rule_matches r relative directory then \<not> irNegative r else ign) rules False)"

section \<open>Facts\<close>

text \<open>The segments a pattern covers: any number for \<open>**\<close>, else one that matches.\<close>

definition covers :: "string \<Rightarrow> string list \<Rightarrow> bool" where
  "covers p w \<longleftrightarrow> p = ''**'' \<or> (\<exists>s. w = [s] \<and> matchSegment p s)"

lemma glob_match_iff: "glob_match ps vs \<longleftrightarrow> (\<exists>ws. vs = concat ws \<and> list_all2 covers ps ws)"
proof (induction ps arbitrary: vs)
  case (Cons p ps)
  show ?case
  proof (cases "p = ''**''")
    case True
    have "glob_match (p # ps) vs \<longleftrightarrow> (\<exists>k\<le>length vs. glob_match ps (drop k vs))"
      using True unfolding glob_match.simps list_ex_iff set_upt by (simp only: if_True Suc_eq_plus1 [symmetric] atLeastLessThanSuc_atLeastAtMost) auto
    also have "\<dots> \<longleftrightarrow> (\<exists>w u. vs = w @ u \<and> glob_match ps u)"
      by (metis append_eq_conv_conj append_take_drop_id length_append le_add1)
    also have "\<dots> \<longleftrightarrow> (\<exists>ws. vs = concat ws \<and> list_all2 covers (p # ps) ws)"
      unfolding Cons.IH
    proof
      assume "\<exists>w u. vs = w @ u \<and> (\<exists>ws. u = concat ws \<and> list_all2 covers ps ws)"
      then obtain w ws where "vs = w @ concat ws" "list_all2 covers ps ws" by blast
      then show "\<exists>ws. vs = concat ws \<and> list_all2 covers (p # ps) ws"
        using True by (intro exI [of _ "w # ws"]) (simp add: covers_def)
    qed (fastforce simp: list_all2_Cons1)
    finally show ?thesis .
  next
    case False
    then have "glob_match (p # ps) vs \<longleftrightarrow> (\<exists>s ws. vs = s # concat ws \<and> matchSegment p s \<and> list_all2 covers ps ws)"
      using Cons.IH by (cases vs) auto
    also have "\<dots> \<longleftrightarrow> (\<exists>ws. vs = concat ws \<and> list_all2 covers (p # ps) ws)"
    proof
      assume "\<exists>s ws. vs = s # concat ws \<and> matchSegment p s \<and> list_all2 covers ps ws"
      then obtain s ws where "vs = s # concat ws" "matchSegment p s" "list_all2 covers ps ws" by blast
      then show "\<exists>ws. vs = concat ws \<and> list_all2 covers (p # ps) ws"
        by (intro exI [of _ "[s] # ws"]) (simp add: covers_def)
    qed (use False in \<open>fastforce simp: list_all2_Cons1 covers_def\<close>)
    finally show ?thesis .
  qed
qed auto

lemma fold_last:
  "fold (\<lambda>r acc. if M r then P r else acc) rs b = (case find M (rev rs) of None \<Rightarrow> b | Some r \<Rightarrow> P r)"
  by (induction rs rule: rev_induct) auto

lemma ignored_last_rule:
  "ignored rules relative directory \<longleftrightarrow>
    list_ex reserved_segment (Split CHR ''/'' relative)
    \<or> (\<exists>r. find (\<lambda>r. rule_matches r relative directory) (rev rules) = Some r \<and> \<not> irNegative r)"
  by (auto simp: ignored_def fold_last split: option.splits)

definition literal :: "string \<Rightarrow> bool" where
  "literal p \<longleftrightarrow> list_all (\<lambda>c. c \<notin> {CHR ''*'', CHR ''?'', CHR ''['', CHR 0x5C}) p"

lemma literal_Cons: "literal (c # p) \<longleftrightarrow> c \<notin> {CHR ''*'', CHR ''?'', CHR ''['', CHR 0x5C} \<and> literal p"
  by (simp add: literal_def)

lemma matchChunk_failed: "literal p \<Longrightarrow> matchChunk p None = Some None"
  by (induction p) (auto simp: literal_Cons matchChunk.simps(2) Let_def)

lemma matchChunk_literal: "literal p \<Longrightarrow> matchChunk p (Some s) = Some (if prefix p s then Some (drop (length p) s) else None)"
proof (induction p arbitrary: s)
  case (Cons c p)
  then show ?case by (cases s) (auto simp: literal_Cons matchChunk.simps(2) Let_def matchChunk_failed)
qed simp

lemma scan_plain_literal: "literal p \<Longrightarrow> scan_plain False p = (p, [])"
  by (induction p) (auto simp: literal_Cons)

lemma matchSegment_literal: "literal p \<Longrightarrow> matchSegment p v \<longleftrightarrow> v = p"
proof (cases p)
  case Nil
  then show ?thesis by (simp add: matchSegment_def Match.simps)
next
  case (Cons c cs)
  assume l: "literal p"
  then have "scanChunk p = (False, p, [])"
    using Cons scan_plain_literal [OF l] by (auto simp: scanChunk_def literal_Cons)
  then show ?thesis
    using l Cons matchChunk_literal [OF l, of v] Match.simps [of p v]
    by (auto simp: matchSegment_def Match.simps [of "[]"] valid_rest.simps [of "[]"] prefix_def)
qed

lemma star_loop_literal:
  assumes "literal p" "CHR ''/'' \<notin> set v"
  shows "star_loop p True v = Some (if strict_suffix p v then Some [] else None)"
  using assms(2)
proof (induction v)
  case (Cons c v)
  have "matchChunk p (Some v) = Some (if prefix p v then Some (drop (length p) v) else None)" by (rule matchChunk_literal [OF assms(1)])
  then show ?case using Cons by (auto simp: strict_suffix_def suffix_Cons prefix_def dest: suffix_length_le)
qed (simp add: strict_suffix_def)

lemma matchSegment_star:
  assumes "literal p" "p \<noteq> []" "CHR ''/'' \<notin> set v"
  shows "matchSegment (CHR ''*'' # p) v \<longleftrightarrow> suffix p v"
proof -
  obtain c cs where c: "p = c # cs" "c \<noteq> CHR ''*''" using assms(1,2) by (cases p) (auto simp: literal_Cons)
  have "scanChunk (CHR ''*'' # p) = (True, p, [])"
    using c scan_plain_literal [OF assms(1)] by (simp add: scanChunk_def)
  then show ?thesis
    using assms(2) matchChunk_literal [OF assms(1), of v] star_loop_literal [OF assms(1,3)]
    by (auto simp: matchSegment_def Match.simps [of "CHR ''*'' # p"] Match.simps [of "[]"] valid_rest.simps [of "[]"] prefix_def
        strict_suffix_def)
qed

lemma find_rev_Some: "find P (rev xs) = Some x \<longleftrightarrow> (\<exists>pre post. xs = pre @ x # post \<and> P x \<and> (\<forall>y\<in>set post. \<not> P y))"
proof (induction xs rule: rev_induct)
  case (snoc z xs)
  show ?case
  proof (cases "P z")
    case True
    then show ?thesis by (auto simp: append_eq_append_conv2 Cons_eq_append_conv append_eq_Cons_conv) (metis append_Nil2 empty_iff empty_set)
  next
    case False
    have "(\<exists>pre post. xs @ [z] = pre @ x # post \<and> P x \<and> (\<forall>y\<in>set post. \<not> P y))
        \<longleftrightarrow> (\<exists>pre post. xs = pre @ x # post \<and> P x \<and> (\<forall>y\<in>set post. \<not> P y))"
    proof
      assume "\<exists>pre post. xs @ [z] = pre @ x # post \<and> P x \<and> (\<forall>y\<in>set post. \<not> P y)"
      then obtain pre post where e: "xs @ [z] = pre @ x # post" "P x" "\<forall>y\<in>set post. \<not> P y" by blast
      then show "\<exists>pre post. xs = pre @ x # post \<and> P x \<and> (\<forall>y\<in>set post. \<not> P y)"
        using False by (cases post rule: rev_cases) auto
    next
      assume "\<exists>pre post. xs = pre @ x # post \<and> P x \<and> (\<forall>y\<in>set post. \<not> P y)"
      then obtain pre post where "xs = pre @ x # post" "P x" "\<forall>y\<in>set post. \<not> P y" by blast
      then show "\<exists>pre post. xs @ [z] = pre @ x # post \<and> P x \<and> (\<forall>y\<in>set post. \<not> P y)"
        using False by (intro exI [of _ pre] exI [of _ "post @ [z]"]) auto
    qed
    then show ?thesis using False snoc by simp
  qed
qed simp

section \<open>Properties\<close>

text \<open>What it means for a rule to apply to a path, without an algorithm.\<close>

definition applies :: "ignoreRule \<Rightarrow> string \<Rightarrow> bool \<Rightarrow> bool" where
  "applies r relative directory \<longleftrightarrow>
    (irDirectory r \<longrightarrow> directory)
    \<and> (\<exists>candidate. (irBase r = [] \<and> candidate = relative \<or> irBase r \<noteq> [] \<and> relative = irBase r \<and> candidate = []
            \<or> irBase r \<noteq> [] \<and> relative = irBase r @ ''/'' @ candidate)
        \<and> (if irHasSlash r
           then \<exists>ws. Split CHR ''/'' candidate = concat ws \<and> list_all2 covers (Split CHR ''/'' (irPattern r)) ws
           else \<exists>s\<in>set (Split CHR ''/'' candidate). matchSegment (irPattern r) s))"

lemma rule_matches_applies: "rule_matches r relative directory \<longleftrightarrow> applies r relative directory"
  by (auto simp: rule_matches_def applies_def relativeToBase_def TrimPrefix_def matchGlob_def glob_match_iff list_ex_iff prefix_def
      split: option.splits)



text \<open>The default rules for files without a directory, on names without special characters and suffixes of names.\<close>

lemma default_secret:
  assumes "s \<in> set (Split CHR ''/'' relative)" "r \<in> set defaultIgnoreRules" "\<not> irDirectory r" "matchSegment (irPattern r) s"
  shows "applies r relative directory"
  using assms by (auto simp: applies_def defaultIgnoreRules_def default_rule_def)

lemma default_not_negative: "r \<in> set defaultIgnoreRules \<Longrightarrow> \<not> irNegative r"
  by (auto simp: defaultIgnoreRules_def default_rule_def)

text \<open>Segments that look like a private key or credentials.\<close>

definition secret_segment :: "string \<Rightarrow> bool" where
  "secret_segment s \<longleftrightarrow> s \<in> {''.env'', ''.npmrc'', ''.pypirc'', ''.netrc''}
     \<or> suffix ''.pem'' s \<or> suffix ''.key'' s \<or> suffix ''.p12'' s \<or> suffix ''.pfx'' s"

lemma secret_rule:
  assumes "secret_segment s" "CHR ''/'' \<notin> set s"
  shows "\<exists>r\<in>set defaultIgnoreRules. \<not> irDirectory r \<and> matchSegment (irPattern r) s"
proof -
  have lit: "matchSegment p s" if "p = s" "literal p" for p using that matchSegment_literal by blast
  have star: "matchSegment (CHR ''*'' # p) s" if "suffix p s" "literal p" "p \<noteq> []" for p
    using that matchSegment_star assms(2) by blast
  have L: "literal ''.env''" "literal ''.npmrc''" "literal ''.pypirc''" "literal ''.netrc''"
      "literal ''.pem''" "literal ''.key''" "literal ''.p12''" "literal ''.pfx''"
    by (simp_all add: literal_def)
  have "\<exists>p\<in>{''.env'', ''.npmrc'', ''.pypirc'', ''.netrc'', ''*.pem'', ''*.key'', ''*.p12'', ''*.pfx''}. matchSegment p s"
    using assms(1) lit [OF _ L(1)] lit [OF _ L(2)] lit [OF _ L(3)] lit [OF _ L(4)]
      star [OF _ L(5)] star [OF _ L(6)] star [OF _ L(7)] star [OF _ L(8)] by (auto simp: secret_segment_def)
  then obtain p where p: "p \<in> {''.env'', ''.npmrc'', ''.pypirc'', ''.netrc'', ''*.pem'', ''*.key'', ''*.p12'', ''*.pfx''}" "matchSegment p s" by blast
  then have "default_rule p False \<in> set defaultIgnoreRules" by (auto simp: defaultIgnoreRules_def)
  then show ?thesis using p(2) by (intro bexI [of _ "default_rule p False"]) (simp_all add: default_rule_def)
qed

lemma secrets_are_ignored:
  assumes "s \<in> set (Split CHR ''/'' relative)" "secret_segment s" "\<And>r. r \<in> set rules \<Longrightarrow> irNegative r \<Longrightarrow> \<not> applies r relative directory"
  shows "ignored (defaultIgnoreRules @ rules) relative directory"
proof -
  obtain r where r: "r \<in> set defaultIgnoreRules" "applies r relative directory"
    using secret_rule [OF assms(2) Split_no_sep [OF assms(1)]] default_secret [OF assms(1)] by blast
  let ?M = "\<lambda>r. rule_matches r relative directory"
  obtain r' where r': "find ?M (rev (defaultIgnoreRules @ rules)) = Some r'"
    using r by (cases "find ?M (rev (defaultIgnoreRules @ rules))") (auto simp: find_None_iff rule_matches_applies)
  then have "r' \<in> set (defaultIgnoreRules @ rules)" "applies r' relative directory"
    unfolding find_rev_Some rule_matches_applies by (metis in_set_conv_decomp, blast)
  then have "\<not> irNegative r'" using assms(3) default_not_negative by auto
  then show ?thesis using r' by (auto simp: ignored_last_rule)
qed

text \<open>
  The rules differ from those of Git: a pattern that starts with a slash is anchored to its directory there, but here the
  slash is dropped before the rule is classified, so \<open>/config.json\<close> also hides \<open>src/config.json\<close> from the snapshot.
\<close>
theorem anchored_rule_matches_below:
  "\<exists>r. parseIgnoreRules (Inr ''/config.json'') [] = Inr [r] \<and> ignored [r] ''src/config.json'' False"
proof -
  have p: "parseIgnoreRules (Inr ''/config.json'') [] = Inr [default_rule ''config.json'' False]" by code_simp
  have "ignored [default_rule ''config.json'' False] ''src/config.json'' False" by code_simp
  with p show ?thesis by blast
qed

end
