(* ===== verification/Chunker.thy ===== *)
theory Chunker
  imports Snapshot
begin

text \<open>
  \<open>internal/snapshot/chunker.go\<close>: splitting a stream on content-defined boundaries. A reader is the list of what its
  \<open>Read\<close> calls return, with end of file behind it; a cancelled context shows up as the event \<open>Cancelled\<close>. The callback
  is a state transformer that may fail. The lemmas reduce \<open>ChunkReader\<close> to a function of the bytes alone
  (\<open>chunks_of\<close>), whatever the sizes of the reads.
\<close>

unbundle bit_operations_syntax

section \<open>Rolling hash\<close>

definition MinimumChunkBytes :: nat where "MinimumChunkBytes = 65536"
definition AverageChunkBytes :: nat where "AverageChunkBytes = 262144"

fun gear_loop :: "nat \<Rightarrow> 64 word \<Rightarrow> 64 word list" where
  "gear_loop 0 v = []"
| "gear_loop (Suc n) v =
    (let v1 = v + 0x9e3779b97f4a7c15;
         mixed1 = (v1 XOR drop_bit 30 v1) * 0xbf58476d1ce4e5b9;
         mixed2 = (mixed1 XOR drop_bit 27 mixed1) * 0x94d049bb133111eb
     in (mixed2 XOR drop_bit 31 mixed2) # gear_loop n v1)"

definition gearTable :: "64 word list" where
  "gearTable = gear_loop 256 0x9e3779b97f4a7c15"

definition roll :: "64 word \<Rightarrow> byte \<Rightarrow> 64 word" where
  "roll rolling v = push_bit 1 rolling + gearTable ! unat v"

definition boundary :: "byte list \<Rightarrow> 64 word \<Rightarrow> bool" where
  "boundary chunk rolling \<longleftrightarrow>
    \<not> (length chunk < MinimumChunkBytes
       \<or> rolling AND of_nat (AverageChunkBytes - 1) \<noteq> 0 \<and> int (length chunk) < MaximumChunkBytes)"

section \<open>ChunkReader\<close>

datatype read_error = EOF | ReadError goerror
datatype read_event = Read "byte list" "read_error option" | Cancelled goerror

type_synonym 's consumer = "byte list \<Rightarrow> 's \<Rightarrow> 's \<times> unit result"

fun feed :: "'s consumer \<Rightarrow> byte list \<Rightarrow> byte list \<Rightarrow> 64 word \<Rightarrow> 's \<Rightarrow> 's \<times> (byte list \<times> 64 word) result" where
  "feed consume [] chunk rolling s = (s, Inr (chunk, rolling))"
| "feed consume (v # vs) chunk rolling s =
    (let chunk' = chunk @ [v]; rolling' = roll rolling v in
     if \<not> boundary chunk' rolling' then feed consume vs chunk' rolling' s
     else (case consume chunk' s of
         (s', Inl e) \<Rightarrow> (s', Inl e)
       | (s', Inr _) \<Rightarrow> feed consume vs [] 0 s'))"

fun chunk_loop ::
    "'s consumer \<Rightarrow> read_event list \<Rightarrow> nat \<Rightarrow> byte list \<Rightarrow> 64 word \<Rightarrow> 's \<Rightarrow> 's \<times> unit result" where
  "chunk_loop consume [] emptyReads chunk rolling s =
    (if length chunk > 0 then consume chunk s else (s, Inr ()))"
| "chunk_loop consume (Cancelled e # es) emptyReads chunk rolling s = (s, Inl e)"
| "chunk_loop consume (Read bs readErr # es) emptyReads chunk rolling s =
    (if bs = [] \<and> readErr = None then
       if emptyReads + 1 \<ge> 100 then (s, Inl [''io.ErrNoProgress''])
       else chunk_loop consume es (emptyReads + 1) chunk rolling s
     else (case feed consume bs chunk rolling s of
         (s', Inl e) \<Rightarrow> (s', Inl e)
       | (s', Inr (chunk', rolling')) \<Rightarrow>
          (case readErr of
             None \<Rightarrow> chunk_loop consume es 0 chunk' rolling' s'
           | Some (ReadError e) \<Rightarrow> (s', Inl e)
           | Some EOF \<Rightarrow> if length chunk' > 0 then consume chunk' s' else (s', Inr ()))))"

definition ChunkReader :: "read_event list \<Rightarrow> 's consumer \<Rightarrow> 's \<Rightarrow> 's \<times> unit result" where
  "ChunkReader reader consume s = chunk_loop consume reader 0 [] 0 s"

section \<open>The chunks of a content\<close>

fun complete :: "byte list \<Rightarrow> byte list \<Rightarrow> 64 word \<Rightarrow> byte list list \<times> byte list \<times> 64 word" where
  "complete [] chunk rolling = ([], chunk, rolling)"
| "complete (v # vs) chunk rolling =
    (let chunk' = chunk @ [v]; rolling' = roll rolling v in
     if \<not> boundary chunk' rolling' then complete vs chunk' rolling'
     else let (cs, rest) = complete vs [] 0 in (chunk' # cs, rest))"

definition complete_chunks :: "byte list \<Rightarrow> byte list list" where
  "complete_chunks bs = fst (complete bs [] 0)"

definition chunks_of :: "byte list \<Rightarrow> byte list list" where
  "chunks_of bs = (case complete bs [] 0 of (cs, rest, _) \<Rightarrow> if rest = [] then cs else cs @ [rest])"

text \<open>Handing over chunks until the consumer fails, and what a reader delivers before it ends or fails.\<close>

fun consume_all :: "'s consumer \<Rightarrow> byte list list \<Rightarrow> 's \<Rightarrow> 's \<times> unit result" where
  "consume_all consume [] s = (s, Inr ())"
| "consume_all consume (c # cs) s =
    (case consume c s of (s', Inl e) \<Rightarrow> (s', Inl e) | (s', Inr _) \<Rightarrow> consume_all consume cs s')"

fun delivered :: "nat \<Rightarrow> read_event list \<Rightarrow> byte list \<times> unit result" where
  "delivered k [] = ([], Inr ())"
| "delivered k (Cancelled e # es) = ([], Inl e)"
| "delivered k (Read bs None # es) =
    (if bs = [] then if k + 1 \<ge> 100 then ([], Inl [''io.ErrNoProgress'']) else delivered (k + 1) es
     else let (rest, r) = delivered 0 es in (bs @ rest, r))"
| "delivered k (Read bs (Some EOF) # es) = (bs, Inr ())"
| "delivered k (Read bs (Some (ReadError e)) # es) = (bs, Inl e)"

section \<open>Facts\<close>

lemma complete_append:
  "complete (as @ bs) chunk rolling =
    (let (cs, chunk', rolling') = complete as chunk rolling; (ds, rest) = complete bs chunk' rolling' in (cs @ ds, rest))"
  by (induction as chunk rolling rule: complete.induct) (auto simp: Let_def split: prod.splits)

lemma feed_complete:
  "feed consume bs chunk rolling s =
    (let (cs, rest) = complete bs chunk rolling in
     case consume_all consume cs s of (s', Inl e) \<Rightarrow> (s', Inl e) | (s', Inr _) \<Rightarrow> (s', Inr rest))"
  by (induction consume bs chunk rolling s rule: feed.induct)
    (auto simp: Let_def split: prod.splits sum.splits)

lemma consume_all_append:
  "consume_all consume (cs @ ds) s =
    (case consume_all consume cs s of (s', Inl e) \<Rightarrow> (s', Inl e) | (s', Inr _) \<Rightarrow> consume_all consume ds s')"
  by (induction cs arbitrary: s) (auto split: prod.splits sum.splits)

definition finish :: "'s consumer \<Rightarrow> byte list list \<times> byte list \<times> 64 word \<Rightarrow> unit result \<Rightarrow> 's \<Rightarrow> 's \<times> unit result" where
  "finish consume p r s =
    (case p of (cs, rest, _) \<Rightarrow>
     case consume_all consume (cs @ (if rest = [] \<or> r \<noteq> Inr () then [] else [rest])) s of
       (s', Inl e) \<Rightarrow> (s', Inl e)
     | (s', Inr _) \<Rightarrow> (s', r))"

lemma chunk_loop_finish:
  "chunk_loop consume es k chunk rolling s =
    finish consume (complete (fst (delivered k es)) chunk rolling) (snd (delivered k es)) s"
proof (induction es arbitrary: k chunk rolling s)
  case Nil
  then show ?case by (auto simp: finish_def split: prod.splits sum.splits)
next
  case (Cons ev es)
  show ?case
  proof (cases ev)
    case (Cancelled e)
    then show ?thesis by (simp add: finish_def)
  next
    case (Read bs err)
    show ?thesis
    proof (cases err)
      case None
      then show ?thesis
        using Read Cons.IH
        by (auto simp: feed_complete complete_append finish_def consume_all_append Let_def split: prod.splits sum.splits)
    next
      case (Some r)
      then show ?thesis
        using Read by (cases r)
          (auto simp: feed_complete finish_def consume_all_append Let_def split: prod.splits sum.splits)
    qed
  qed
qed

lemma complete_concat: "complete bs chunk rolling = (cs, rest, r) \<Longrightarrow> concat cs @ rest = chunk @ bs"
  by (induction bs chunk rolling arbitrary: cs rest r rule: complete.induct) (auto simp: Let_def split: if_splits prod.splits)

lemma complete_sizes:
  "complete bs chunk rolling = (cs, rest, r) \<Longrightarrow> int (length chunk) < MaximumChunkBytes \<Longrightarrow>
    (\<forall>c\<in>set cs. MinimumChunkBytes \<le> length c \<and> int (length c) \<le> MaximumChunkBytes)
    \<and> int (length rest) < MaximumChunkBytes"
proof (induction bs chunk rolling arbitrary: cs rest r rule: complete.induct)
  case (2 v vs chunk rolling)
  show ?case
  proof (cases "boundary (chunk @ [v]) (roll rolling v)")
    case True
    then obtain cs' where c: "complete vs [] 0 = (cs', rest, r)" "cs = (chunk @ [v]) # cs'"
      using 2(3) by (auto simp: Let_def split: prod.splits)
    then show ?thesis
      using 2(2) [OF refl refl _ c(1)] True 2(4) by (auto simp: boundary_def MaximumChunkBytes_def not_less)
  next
    case False
    then have "int (length (chunk @ [v])) < MaximumChunkBytes"
      using 2(4) by (auto simp: boundary_def MaximumChunkBytes_def MinimumChunkBytes_def)
    then show ?thesis using 2(1) [OF refl refl False] 2(3) False by simp
  qed
qed simp

lemma complete_first: "complete bs chunk rolling = (c # cs, rest, r) \<Longrightarrow> \<exists>ys. c = chunk @ ys \<and> ys \<noteq> []"
proof (induction bs chunk rolling arbitrary: c cs rest r rule: complete.induct)
  case (2 v vs chunk rolling)
  show ?case
  proof (cases "boundary (chunk @ [v]) (roll rolling v)")
    case False
    then have "complete vs (chunk @ [v]) (roll rolling v) = (c # cs, rest, r)" using 2(3) by simp
    then show ?thesis using 2(1) [OF refl refl False] by fastforce
  qed (use 2(3) in \<open>auto simp: Let_def split: prod.splits\<close>)
qed simp

text \<open>Cutting the input at a boundary leaves the chunks before it and an empty state.\<close>

lemma complete_take:
  "complete bs chunk rolling = (cs, rest, r) \<Longrightarrow> 0 < k \<Longrightarrow> k \<le> length cs \<Longrightarrow>
    complete (drop (length chunk) (concat (take k cs))) chunk rolling = (take k cs, [], 0)"
proof (induction bs chunk rolling arbitrary: cs rest r k rule: complete.induct)
  case (2 v vs chunk rolling)
  show ?case
  proof (cases "boundary (chunk @ [v]) (roll rolling v)")
    case True
    then obtain cs' where c: "complete vs [] 0 = (cs', rest, r)" "cs = (chunk @ [v]) # cs'"
      using 2(3) by (auto simp: Let_def split: prod.splits)
    obtain j where j: "k = Suc j" using 2(4) by (cases k) auto
    have "complete (concat (take j cs')) [] 0 = (take j cs', [], 0)"
      using 2(2) [OF refl refl _ c(1), of j] True 2(5) c(2) j by (cases j) auto
    then show ?thesis using True c(2) j by simp
  next
    case False
    then have c: "complete vs (chunk @ [v]) (roll rolling v) = (cs, rest, r)" using 2(3) by simp
    obtain d ds where d: "cs = d # ds" using 2(4,5) by (cases cs) auto
    obtain ys where ys: "d = (chunk @ [v]) @ ys" using complete_first [OF c [unfolded d]] by blast
    obtain j where j: "k = Suc j" using 2(4) by (cases k) auto
    have "drop (length chunk) (concat (take k cs)) = v # drop (length (chunk @ [v])) (concat (take k cs))"
      using d ys j by simp
    then show ?thesis using 2(1) [OF refl refl False c 2(4,5)] False by simp
  qed
qed simp

lemma chunks_of_take:
  assumes "k \<le> length (complete_chunks bs)"
  shows "chunks_of (concat (take k (chunks_of bs)) @ t) = take k (chunks_of bs) @ chunks_of t"
proof (cases "k = 0")
  case False
  obtain cs rest r where c: "complete bs [] 0 = (cs, rest, r)" by (metis prod.exhaust)
  have k: "k \<le> length cs" "take k (chunks_of bs) = take k cs"
    using assms c by (auto simp: complete_chunks_def chunks_of_def)
  have e: "complete (concat (take k cs)) [] 0 = (take k cs, [], 0)"
    using complete_take [OF c, of k] False k(1) by simp
  obtain ds rest' r' where d: "complete t [] 0 = (ds, rest', r')" by (metis prod.exhaust)
  have "complete (concat (take k cs) @ t) [] 0 = (take k cs @ ds, rest', r')" by (simp add: complete_append e d)
  then show ?thesis unfolding k(2) by (simp add: chunks_of_def d)
qed simp

lemma chunks_of_bounds:
  "concat (chunks_of bs) = bs"
  "c \<in> set (chunks_of bs) \<Longrightarrow> c \<noteq> [] \<and> int (length c) \<le> MaximumChunkBytes"
  "c \<in> set (butlast (chunks_of bs)) \<Longrightarrow> MinimumChunkBytes \<le> length c"
proof -
  obtain cs rest r where c: "complete bs [] 0 = (cs, rest, r)" by (metis prod.exhaust)
  note s = complete_sizes [OF c] and m = complete_concat [OF c]
  have "int (length ([] :: byte list)) < MaximumChunkBytes" "0 < MinimumChunkBytes"
    by (simp_all add: MaximumChunkBytes_def MinimumChunkBytes_def)
  then show "concat (chunks_of bs) = bs"
    "c \<in> set (chunks_of bs) \<Longrightarrow> c \<noteq> [] \<and> int (length c) \<le> MaximumChunkBytes"
    "c \<in> set (butlast (chunks_of bs)) \<Longrightarrow> MinimumChunkBytes \<le> length c"
    using s m c by (auto simp: chunks_of_def butlast_append dest: in_set_butlastD split: if_splits)
qed

section \<open>Properties\<close>

text \<open>
  C28: Chunking depends on the content alone. Whatever sizes the reads have, a reader that delivers the bytes \<open>bs\<close> and ends
  makes \<open>ChunkReader\<close> hand exactly \<open>chunks_of bs\<close> to the callback, in order, until the callback fails; a reader
  that fails, makes no progress or is cancelled after \<open>bs\<close> makes it hand over the complete chunks of \<open>bs\<close> only and
  return the error, so that a truncated stream never ends in a chunk.
\<close>
theorem ChunkReader_by_content:
  "ChunkReader reader consume s =
    (case delivered 0 reader of
       (bs, Inr _) \<Rightarrow> consume_all consume (chunks_of bs) s
     | (bs, Inl e) \<Rightarrow>
        (case consume_all consume (complete_chunks bs) s of
           (s', Inl e') \<Rightarrow> (s', Inl e')
         | (s', Inr _) \<Rightarrow> (s', Inl e)))"
  unfolding ChunkReader_def chunk_loop_finish
  by (auto simp: finish_def chunks_of_def complete_chunks_def split: prod.splits sum.splits)

text \<open>
  C12: The chunks are a bounded partition that later changes do not disturb. They concatenate to the content, none is
  empty or above the maximum, all but the last have at least the minimum, and whatever follows a chunk boundary, the
  chunks before it stay the same and the rest is cut as if it stood alone: files that share a part share its chunks.
\<close>
theorem chunks_partition:
  "concat (chunks_of bs) = bs
   \<and> (\<forall>c\<in>set (chunks_of bs). c \<noteq> [] \<and> int (length c) \<le> MaximumChunkBytes)
   \<and> (\<forall>c\<in>set (butlast (chunks_of bs)). MinimumChunkBytes \<le> length c)
   \<and> (\<forall>k t. k \<le> length (complete_chunks bs) \<longrightarrow>
        chunks_of (concat (take k (chunks_of bs)) @ t) = take k (chunks_of bs) @ chunks_of t)"
  using chunks_of_bounds chunks_of_take by blast

theorem chunks_partition_witness:
  "\<exists>c. take 1 (chunks_of (replicate 524288 0)) = [c] \<and> chunks_of (c @ [1, 2]) = c # chunks_of [1, 2]"
proof -
  let ?bs = "replicate 524288 0 :: byte list"
  obtain cs rest r where c: "complete ?bs [] 0 = (cs, rest, r)" by (metis prod.exhaust)
  have "cs \<noteq> []"
    using complete_sizes [OF c] complete_concat [OF c] by (auto simp: MaximumChunkBytes_def)
  then obtain d ds where d: "cs = d # ds" by (cases cs) auto
  have k: "1 \<le> length (complete_chunks ?bs)" and t: "take 1 (chunks_of ?bs) = [d]"
    using c d by (simp_all add: complete_chunks_def chunks_of_def)
  have "chunks_of (concat (take 1 (chunks_of ?bs)) @ [1, 2]) = take 1 (chunks_of ?bs) @ chunks_of [1, 2]"
    using chunks_partition [of ?bs] k by blast
  then show ?thesis using t by auto
qed

end
