(* ===== verification/ChunkTransfer.thy ===== *)
theory ChunkTransfer
  imports Snapshot
begin

text \<open>
  \<open>internal/transfer/chunk.go\<close>: the encodings in which a chunk crosses the network. The Zstandard codec is the
  argument \<open>Z\<close>: the error of its construction, its encoder and its decoder, which fails on a malformed or oversized
  frame. What the code relies on is that the decoder inverts the encoder on chunks (\<open>codec_inverts\<close>).
\<close>

type_synonym chunk_encoding = "8 word"

definition EncodingIdentity :: chunk_encoding where "EncodingIdentity = 1"
definition EncodingZstd :: chunk_encoding where "EncodingZstd = 2"
definition MaximumEncodedChunkBytes :: int where "MaximumEncodedChunkBytes = MaximumChunkBytes + 65536"
definition minimumCompressionSavings :: nat where "minimumCompressionSavings = 64"

record transfer_chunk =
  tEncoding :: chunk_encoding
  tData :: "byte list"
  tUncompressedSize :: "32 word"

record zstd =
  codecErr :: "goerror option"
  EncodeAll :: "byte list \<Rightarrow> byte list"
  DecodeAll :: "byte list \<Rightarrow> byte list option"

definition SupportedChunkEncodings :: "chunk_encoding list" where
  "SupportedChunkEncodings = [EncodingZstd, EncodingIdentity]"

fun accepted_loop :: "bool \<Rightarrow> bool \<Rightarrow> chunk_encoding list \<Rightarrow> (bool \<times> bool) result" where
  "accepted_loop identity zstandard [] = Inr (identity, zstandard)"
| "accepted_loop identity zstandard (v # vs) =
    (if v = EncodingIdentity then
       if identity then Inl [Transfer_ErrUnsupportedEncoding] else accepted_loop True zstandard vs
     else if v = EncodingZstd then
       if zstandard then Inl [Transfer_ErrUnsupportedEncoding] else accepted_loop identity True vs
     else Inl [Transfer_ErrUnsupportedEncoding])"

definition acceptedEncodings :: "chunk_encoding list \<Rightarrow> (bool \<times> bool) result" where
  "acceptedEncodings vs =
    (if length vs = 0 \<or> length vs > 2 then Inl [Transfer_ErrUnsupportedEncoding] else accepted_loop False False vs)"

definition identity_chunk :: "bool \<Rightarrow> byte list \<Rightarrow> transfer_chunk result" where
  "identity_chunk identity contents =
    (if identity then Inr \<lparr>tEncoding = EncodingIdentity, tData = contents, tUncompressedSize = of_nat (length contents)\<rparr>
     else Inl [Transfer_ErrUnsupportedEncoding])"

definition EncodeChunk :: "zstd \<Rightarrow> byte list \<Rightarrow> chunk_encoding list \<Rightarrow> transfer_chunk result" where
  "EncodeChunk Z contents accepted =
    (if length contents = 0 \<or> int (length contents) > MaximumChunkBytes then Inl [Transfer_ErrInvalidChunk]
     else ebind (acceptedEncodings accepted) (\<lambda>(identity, zstandard).
       if zstandard then
         (case codecErr Z of
            Some e \<Rightarrow> Inl e
          | None \<Rightarrow>
             let compressed = EncodeAll Z contents in
             if length compressed > 0 \<and> int (length compressed) \<le> MaximumEncodedChunkBytes
                \<and> (\<not> identity \<or> length compressed + minimumCompressionSavings \<le> length contents)
             then Inr \<lparr>tEncoding = EncodingZstd, tData = compressed, tUncompressedSize = of_nat (length contents)\<rparr>
             else identity_chunk identity contents)
       else identity_chunk identity contents))"

definition DecodeChunk :: "zstd \<Rightarrow> transfer_chunk \<Rightarrow> byte list result" where
  "DecodeChunk Z c =
    (if tUncompressedSize c = 0 \<or> uint (tUncompressedSize c) > MaximumChunkBytes
        \<or> length (tData c) = 0 \<or> int (length (tData c)) > MaximumEncodedChunkBytes
     then Inl [Transfer_ErrInvalidChunk]
     else if tEncoding c = EncodingIdentity then
       if int (length (tData c)) \<noteq> uint (tUncompressedSize c) then Inl [Transfer_ErrInvalidChunk] else Inr (tData c)
     else if tEncoding c = EncodingZstd then
       (case codecErr Z of
          Some e \<Rightarrow> Inl e
        | None \<Rightarrow>
          (case DecodeAll Z (tData c) of
             None \<Rightarrow> Inl [Transfer_ErrInvalidChunk]
           | Some decoded \<Rightarrow>
               if int (length decoded) \<noteq> uint (tUncompressedSize c) then Inl [Transfer_ErrInvalidChunk] else Inr decoded))
     else Inl [Transfer_ErrUnsupportedEncoding])"

section \<open>Facts\<close>

definition codec_inverts :: "zstd \<Rightarrow> bool" where
  "codec_inverts Z \<longleftrightarrow> (\<forall>x. chunk_sized x \<longrightarrow> DecodeAll Z (EncodeAll Z x) = Some x)"

lemma accepted_loop_Inr:
  "accepted_loop i z vs = Inr (i', z') \<Longrightarrow> (i' \<longleftrightarrow> i \<or> EncodingIdentity \<in> set vs) \<and> (z' \<longleftrightarrow> z \<or> EncodingZstd \<in> set vs)"
  by (induction vs arbitrary: i z) (auto simp: EncodingIdentity_def EncodingZstd_def split: if_splits)

lemma acceptedEncodings_Inr:
  "acceptedEncodings vs = Inr (i, z) \<Longrightarrow> (i \<longleftrightarrow> EncodingIdentity \<in> set vs) \<and> (z \<longleftrightarrow> EncodingZstd \<in> set vs)"
  by (auto simp: acceptedEncodings_def dest: accepted_loop_Inr split: if_splits)

lemma size_word: "chunk_sized x \<Longrightarrow> uint (of_nat (length x) :: 32 word) = int (length x)"
  by (simp add: chunk_sized_def MaximumChunkBytes_def unsigned_of_nat take_bit_nat_eq_self uint_nat)

lemma size_word_nonzero: "chunk_sized x \<Longrightarrow> (of_nat (length x) :: 32 word) \<noteq> 0"
  using size_word [of x] by (auto simp: chunk_sized_def)

lemma DecodeChunk_size: "DecodeChunk Z c = Inr x \<Longrightarrow> int (length x) = uint (tUncompressedSize c) \<and> chunk_sized x"
  by (auto simp: DecodeChunk_def chunk_sized_def order_less_le uint_0_iff split: if_splits option.splits)

lemma EncodeChunk_cases:
  assumes "EncodeChunk Z x accepted = Inr c"
  obtains (identity) "chunk_sized x" "EncodingIdentity \<in> set accepted"
      "c = \<lparr>tEncoding = EncodingIdentity, tData = x, tUncompressedSize = of_nat (length x)\<rparr>"
  | (zstd) "chunk_sized x" "EncodingZstd \<in> set accepted" "codecErr Z = None" "0 < length (EncodeAll Z x)"
      "int (length (EncodeAll Z x)) \<le> MaximumEncodedChunkBytes"
      "EncodingIdentity \<in> set accepted \<Longrightarrow> length (EncodeAll Z x) + minimumCompressionSavings \<le> length x"
      "c = \<lparr>tEncoding = EncodingZstd, tData = EncodeAll Z x, tUncompressedSize = of_nat (length x)\<rparr>"
proof -
  have s: "chunk_sized x" using assms by (auto simp: EncodeChunk_def chunk_sized_def split: if_splits)
  obtain i z where a: "acceptedEncodings accepted = Inr (i, z)"
    using assms by (auto simp: EncodeChunk_def result_simps split: if_splits)
  show thesis
    using assms a acceptedEncodings_Inr [OF a] identity [OF s] zstd [OF s] s
    by (auto simp: EncodeChunk_def identity_chunk_def Let_def chunk_sized_def split: if_splits option.splits)
qed

lemma EncodeChunk_total:
  assumes "chunk_sized x" "set accepted \<subseteq> {EncodingIdentity, EncodingZstd}" "distinct accepted"
    and "EncodingIdentity \<in> set accepted" and "EncodingZstd \<in> set accepted \<Longrightarrow> codecErr Z = None"
  shows "\<exists>c. EncodeChunk Z x accepted = Inr c"
proof -
  have "length accepted \<le> 2"
    using card_mono [OF _ assms(2)] distinct_card [OF assms(3)] by (simp add: card_insert_if split: if_splits)
  moreover have "is_ok (accepted_loop i z vs)"
    if "set vs \<subseteq> {EncodingIdentity, EncodingZstd}" "distinct vs" "i \<Longrightarrow> EncodingIdentity \<notin> set vs"
      "z \<Longrightarrow> EncodingZstd \<notin> set vs" for i z vs
    using that by (induction vs arbitrary: i z) auto
  ultimately have "is_ok (acceptedEncodings accepted)"
    using assms(2-4) by (auto simp: acceptedEncodings_def)
  then obtain i z where a: "acceptedEncodings accepted = Inr (i, z)" by (auto simp: is_ok_iff)
  then show ?thesis
    using assms acceptedEncodings_Inr [OF a]
    by (auto simp: EncodeChunk_def identity_chunk_def chunk_sized_def Let_def split: option.splits)
qed

section \<open>Properties\<close>

text \<open>
  C30: A chunk survives its transfer. What \<open>EncodeChunk\<close> produces for a peer is in an encoding the peer accepts, within
  the wire limit, never larger than the content when the peer accepts identity, and decodes to the content. Encoding
  succeeds for every chunk when the peer accepts identity. Whatever arrives, \<open>DecodeChunk\<close> returns only contents of the
  declared size, of one byte up to the maximum.
\<close>
theorem chunk_transfer:
  assumes "codec_inverts Z"
  shows "(\<forall>c. EncodeChunk Z x accepted = Inr c \<longrightarrow>
      DecodeChunk Z c = Inr x \<and> tEncoding c \<in> set accepted \<and> int (length (tData c)) \<le> MaximumEncodedChunkBytes
      \<and> (EncodingIdentity \<in> set accepted \<longrightarrow> length (tData c) \<le> length x))
    \<and> (chunk_sized x \<and> accepted \<in> {[EncodingIdentity], SupportedChunkEncodings} \<and> codecErr Z = None \<longrightarrow>
        (\<exists>c. EncodeChunk Z x accepted = Inr c))
    \<and> (\<forall>d y. DecodeChunk Z d = Inr y \<longrightarrow> int (length y) = uint (tUncompressedSize d) \<and> chunk_sized y)"
proof (intro conjI allI impI)
  fix c
  assume e: "EncodeChunk Z x accepted = Inr c"
  then show "DecodeChunk Z c = Inr x"
  proof (cases rule: EncodeChunk_cases)
    case identity
    then show ?thesis using size_word [OF identity(1)] size_word_nonzero [OF identity(1)]
      by (simp add: DecodeChunk_def chunk_sized_def MaximumEncodedChunkBytes_def)
  next
    case zstd
    then show ?thesis using size_word [OF zstd(1)] size_word_nonzero [OF zstd(1)] assms
      by (simp add: DecodeChunk_def codec_inverts_def EncodingIdentity_def EncodingZstd_def chunk_sized_def)
  qed
  show "tEncoding c \<in> set accepted" "int (length (tData c)) \<le> MaximumEncodedChunkBytes"
    using e by (cases rule: EncodeChunk_cases; simp add: chunk_sized_def MaximumEncodedChunkBytes_def)+
  show "EncodingIdentity \<in> set accepted \<Longrightarrow> length (tData c) \<le> length x"
    using e by (cases rule: EncodeChunk_cases) auto
next
  assume "chunk_sized x \<and> accepted \<in> {[EncodingIdentity], SupportedChunkEncodings} \<and> codecErr Z = None"
  then show "\<exists>c. EncodeChunk Z x accepted = Inr c"
    by (intro EncodeChunk_total) (auto simp: SupportedChunkEncodings_def EncodingIdentity_def EncodingZstd_def)
qed (use DecodeChunk_size in blast)+

text \<open>A codec that stores a run of one byte as that byte and its length, and anything else behind a marker.\<close>

definition run_codec :: zstd where
  "run_codec = \<lparr>codecErr = None,
     EncodeAll = (\<lambda>x. if x = replicate (length x) (hd x) \<and> length x < 256 then [0, hd x, of_nat (length x)] else 1 # x),
     DecodeAll = (\<lambda>y. case y of [] \<Rightarrow> None
        | t # z \<Rightarrow> if t = 0 then (case z of [b, n] \<Rightarrow> Some (replicate (unat n) b) | _ \<Rightarrow> None) else Some z)\<rparr>"

theorem chunk_transfer_witness:
  "codec_inverts run_codec
   \<and> EncodeChunk run_codec (replicate 100 7) SupportedChunkEncodings
       = Inr \<lparr>tEncoding = EncodingZstd, tData = [0, 7, 100], tUncompressedSize = 100\<rparr>
   \<and> DecodeChunk run_codec \<lparr>tEncoding = EncodingZstd, tData = [0, 7, 100], tUncompressedSize = 100\<rparr> = Inr (replicate 100 7)"
proof -
  have c: "codec_inverts run_codec"
  proof -
    have "replicate (unat (of_nat (length x) :: byte)) (hd x) = x"
      if "x = replicate (length x) (hd x)" "length x < 256" for x :: "byte list"
      using that by (simp add: unsigned_of_nat take_bit_nat_eq_self)
    then show ?thesis by (simp add: codec_inverts_def run_codec_def)
  qed
  have e: "EncodeChunk run_codec (replicate 100 7) SupportedChunkEncodings
       = Inr \<lparr>tEncoding = EncodingZstd, tData = [0, 7, 100], tUncompressedSize = 100\<rparr>"
    by code_simp
  show ?thesis using chunk_transfer [OF c, of "replicate 100 7" SupportedChunkEncodings] c e by simp
qed

end
