(* ===== verification/FileSystem.thy ===== *)
theory FileSystem
  imports GoStrings
begin

text \<open>
  The file system as the packages under \<open>internal/infra/cas\<close> use it: the calls of Go's \<open>os\<close> and \<open>path/filepath\<close> on a Unix
  system. A path is the list of its segments below the root. A file system maps paths to what is there; a symbolic link
  is the absolute path it denotes. Every call follows the links in the directories on its way, at most forty of
  them, and only \<open>Stat\<close> and \<open>ReadFile\<close> follow a link at the end. A call can fail for reasons outside the model: the error
  \<open>X op p\<close> is returned, if there is one, before the call changes anything. \<open>OpContext\<close> is not a call: its error is what
  \<open>ctx.Err()\<close> returns where a loop asks for it.
\<close>

section \<open>Nodes and paths\<close>

type_synonym fpath = "string list"

datatype node = Directory | Regular "byte list" "32 word" | Symlink fpath

type_synonym fs = "fpath \<Rightarrow> node option"

abbreviation Os_ErrNotExist :: sentinel where "Os_ErrNotExist \<equiv> ''os.ErrNotExist''"
abbreviation Os_ErrExist :: sentinel where "Os_ErrExist \<equiv> ''os.ErrExist''"
abbreviation Os_ErrNotDir :: sentinel where "Os_ErrNotDir \<equiv> ''syscall.ENOTDIR''"
abbreviation Os_ErrIsDir :: sentinel where "Os_ErrIsDir \<equiv> ''syscall.EISDIR''"
abbreviation Os_ErrLoop :: sentinel where "Os_ErrLoop \<equiv> ''syscall.ELOOP''"
abbreviation Os_ErrNotEmpty :: sentinel where "Os_ErrNotEmpty \<equiv> ''syscall.ENOTEMPTY''"
abbreviation Os_ErrInvalid :: sentinel where "Os_ErrInvalid \<equiv> ''syscall.EINVAL''"

datatype fs_op = OpLstat | OpMkdir | OpCreate | OpWrite | OpClose | OpChmod | OpStat | OpRename | OpRemove | OpRead | OpContext

type_synonym fs_errors = "fs_op \<Rightarrow> fpath \<Rightarrow> goerror option"

definition no_fs_errors :: fs_errors where
  "no_fs_errors = (\<lambda>_ _. None)"

definition guard :: "fs_errors \<Rightarrow> fs_op \<Rightarrow> fpath \<Rightarrow> 'a result \<Rightarrow> 'a result" where
  "guard X op p r = (case X op p of Some e \<Rightarrow> Inl e | None \<Rightarrow> r)"

text \<open>\<open>filepath.Join(base, filepath.FromSlash(relative))\<close> for an absolute, clean base.\<close>

definition filepath_Join :: "fpath \<Rightarrow> string \<Rightarrow> fpath" where
  "filepath_Join base relative = clean_segs True (base @ Split CHR ''/'' relative) []"

section \<open>Resolution\<close>

definition maximumLinks :: nat where "maximumLinks = 40"

function resolve :: "nat \<Rightarrow> fs \<Rightarrow> fpath \<Rightarrow> fpath \<Rightarrow> fpath result" where
  "resolve n fs at [] = Inr at"
| "resolve n fs at (s # rest) =
    (case fs (at @ [s]) of
       None \<Rightarrow> Inl [Os_ErrNotExist]
     | Some Directory \<Rightarrow> resolve n fs (at @ [s]) rest
     | Some (Regular _ _) \<Rightarrow> Inl [Os_ErrNotDir]
     | Some (Symlink t) \<Rightarrow> if n = 0 then Inl [Os_ErrLoop] else resolve (n - 1) fs [] (t @ rest))"
  by pat_completeness auto
termination
  by (relation "measures [\<lambda>(n, fs, at, rest). n, \<lambda>(n, fs, at, rest). length rest]") auto

text \<open>The place a path names when a link at its end is not followed.\<close>

definition locate :: "fs \<Rightarrow> fpath \<Rightarrow> fpath result" where
  "locate fs p =
    (if p = [] then Inr [] else ebind (resolve maximumLinks fs [] (butlast p)) (\<lambda>d. Inr (d @ [last p])))"

fun follow :: "nat \<Rightarrow> fs \<Rightarrow> fpath \<Rightarrow> fpath result" where
  "follow 0 fs p = ebind (locate fs p) (\<lambda>q. case fs q of Some (Symlink t) \<Rightarrow> Inl [Os_ErrLoop] | _ \<Rightarrow> Inr q)"
| "follow (Suc n) fs p = ebind (locate fs p) (\<lambda>q. case fs q of Some (Symlink t) \<Rightarrow> follow n fs t | _ \<Rightarrow> Inr q)"

section \<open>Calls\<close>

definition Lstat :: "fs_errors \<Rightarrow> fs \<Rightarrow> fpath \<Rightarrow> node result" where
  "Lstat X fs p = guard X OpLstat p (ebind (locate fs p) (\<lambda>q.
     case fs q of None \<Rightarrow> Inl [Os_ErrNotExist] | Some n \<Rightarrow> Inr n))"

definition Stat :: "fs_errors \<Rightarrow> fs \<Rightarrow> fpath \<Rightarrow> node result" where
  "Stat X fs p = guard X OpStat p (ebind (follow maximumLinks fs p) (\<lambda>q.
     case fs q of None \<Rightarrow> Inl [Os_ErrNotExist] | Some n \<Rightarrow> Inr n))"

definition Mkdir :: "fs_errors \<Rightarrow> fs \<Rightarrow> fpath \<Rightarrow> fs result" where
  "Mkdir X fs p = guard X OpMkdir p (ebind (locate fs p) (\<lambda>q.
     if fs q \<noteq> None then Inl [Os_ErrExist] else Inr (fs(q \<mapsto> Directory))))"

text \<open>\<open>os.MkdirAll\<close>, from the root down.\<close>

fun mkdir_all :: "fs_errors \<Rightarrow> fs \<Rightarrow> fpath \<Rightarrow> fpath \<Rightarrow> fs result" where
  "mkdir_all X fs at [] = Inr fs"
| "mkdir_all X fs at (s # rest) =
    (case Stat X fs (at @ [s]) of
       Inr Directory \<Rightarrow> mkdir_all X fs (at @ [s]) rest
     | Inr _ \<Rightarrow> Inl [Os_ErrNotDir]
     | Inl e \<Rightarrow>
         if errors_is e Os_ErrNotExist then ebind (Mkdir X fs (at @ [s])) (\<lambda>fs'. mkdir_all X fs' (at @ [s]) rest)
         else Inl e)"

definition MkdirAll :: "fs_errors \<Rightarrow> fs \<Rightarrow> fpath \<Rightarrow> fs result" where
  "MkdirAll X fs p = mkdir_all X fs [] p"

text \<open>\<open>os.MkdirTemp\<close> with the name it settles on.\<close>

definition MkdirTemp :: "fs_errors \<Rightarrow> fs \<Rightarrow> fpath \<Rightarrow> string \<Rightarrow> fs result" where
  "MkdirTemp X fs parent name = Mkdir X fs (parent @ [name])"

text \<open>\<open>os.OpenFile\<close> with \<open>O_CREATE|O_EXCL\<close>; the handle is the place of the file.\<close>

definition CreateExclusive :: "fs_errors \<Rightarrow> fs \<Rightarrow> fpath \<Rightarrow> 32 word \<Rightarrow> (fs \<times> fpath) result" where
  "CreateExclusive X fs p mode = guard X OpCreate p (ebind (locate fs p) (\<lambda>q.
     if fs q \<noteq> None then Inl [Os_ErrExist] else Inr (fs(q \<mapsto> Regular [] mode), q)))"

definition Append :: "fs_errors \<Rightarrow> fs \<Rightarrow> fpath \<Rightarrow> byte list \<Rightarrow> fs result" where
  "Append X fs q bs = guard X OpWrite q (case fs q of
       Some (Regular old mode) \<Rightarrow> Inr (fs(q \<mapsto> Regular (old @ bs) mode))
     | _ \<Rightarrow> Inl [Os_ErrInvalid])"

definition Chmod :: "fs_errors \<Rightarrow> fs \<Rightarrow> fpath \<Rightarrow> 32 word \<Rightarrow> fs result" where
  "Chmod X fs p mode = guard X OpChmod p (ebind (follow maximumLinks fs p) (\<lambda>q. case fs q of
       None \<Rightarrow> Inl [Os_ErrNotExist]
     | Some (Regular bs _) \<Rightarrow> Inr (fs(q \<mapsto> Regular bs mode))
     | Some _ \<Rightarrow> Inr fs))"

definition ReadFile :: "fs_errors \<Rightarrow> fs \<Rightarrow> fpath \<Rightarrow> byte list result" where
  "ReadFile X fs p = guard X OpRead p (ebind (follow maximumLinks fs p) (\<lambda>q. case fs q of
       None \<Rightarrow> Inl [Os_ErrNotExist]
     | Some (Regular bs _) \<Rightarrow> Inr bs
     | Some _ \<Rightarrow> Inl [Os_ErrIsDir]))"

definition moved :: "fs \<Rightarrow> fpath \<Rightarrow> fpath \<Rightarrow> fs" where
  "moved fs a b = (\<lambda>q. if prefix b q then fs (a @ drop (length b) q) else if prefix a q then None else fs q)"

text \<open>\<open>os.Rename\<close>: a file replaces a file or a link; Go refuses a new name that is a directory.\<close>

definition Rename :: "fs_errors \<Rightarrow> fs \<Rightarrow> fpath \<Rightarrow> fpath \<Rightarrow> fs result" where
  "Rename X fs a b = guard X OpRename b (ebind (locate fs a) (\<lambda>p. ebind (locate fs b) (\<lambda>q.
     case fs p of
       None \<Rightarrow> Inl [Os_ErrNotExist]
     | Some n \<Rightarrow>
         if n = Directory \<and> prefix p q then Inl [Os_ErrInvalid]
         else (case fs q of
             None \<Rightarrow> Inr (moved fs p q)
           | Some Directory \<Rightarrow> Inl [Os_ErrExist]
           | Some _ \<Rightarrow> if n = Directory then Inl [Os_ErrNotDir] else Inr (moved fs p q)))))"

text \<open>\<open>os.RemoveAll\<close>: nothing there is no error. \<open>os.Remove\<close> of a file.\<close>

definition Removed :: "fs \<Rightarrow> fpath \<Rightarrow> fs" where
  "Removed fs p = (\<lambda>q. if prefix p q then None else fs q)"

definition OsRemoveAll :: "fs_errors \<Rightarrow> fs \<Rightarrow> fpath \<Rightarrow> fs result" where
  "OsRemoveAll X fs p = guard X OpRemove p (case locate fs p of
       Inl e \<Rightarrow> if errors_is e Os_ErrNotExist \<or> errors_is e Os_ErrNotDir then Inr fs else Inl e
     | Inr q \<Rightarrow> Inr (Removed fs q))"

definition RemoveFile :: "fs_errors \<Rightarrow> fs \<Rightarrow> fpath \<Rightarrow> fs result" where
  "RemoveFile X fs p = guard X OpRemove p (ebind (locate fs p) (\<lambda>q. case fs q of
       None \<Rightarrow> Inl [Os_ErrNotExist]
     | Some Directory \<Rightarrow> Inl [Os_ErrNotEmpty]
     | Some _ \<Rightarrow> Inr (fs(q := None))))"

section \<open>Paths without links\<close>

text \<open>Every directory above an entry is there.\<close>

definition wf_fs :: "fs \<Rightarrow> bool" where
  "wf_fs fs \<longleftrightarrow> fs [] = Some Directory \<and> (\<forall>p s. fs (p @ [s]) \<noteq> None \<longrightarrow> fs p = Some Directory)"

text \<open>On the way to a path there are directories as far as there is anything.\<close>

definition clear :: "fs \<Rightarrow> fpath \<Rightarrow> bool" where
  "clear fs p \<longleftrightarrow> (\<forall>q. prefix q p \<longrightarrow> fs q = None \<or> fs q = Some Directory)"

lemma guard_Inr_iff: "guard X op p r = Inr x \<longleftrightarrow> X op p = None \<and> r = Inr x"
  by (simp add: guard_def split: option.split)

lemma guard_no_error [simp]: "guard no_fs_errors op p r = r"
  by (simp add: guard_def no_fs_errors_def)

lemma wf_fs_above:
  assumes "wf_fs fs" "fs p \<noteq> None" "strict_prefix q p"
  shows "fs q = Some Directory"
  using assms(2,3)
proof (induction p rule: rev_induct)
  case (snoc s p)
  have p: "fs p = Some Directory" using assms(1) snoc.prems(1) by (auto simp: wf_fs_def)
  then show ?case using snoc by (cases "q = p") (auto simp: strict_prefix_def prefix_snoc)
qed simp

lemma resolve_directories:
  "(\<And>q. prefix q rest \<Longrightarrow> q \<noteq> [] \<Longrightarrow> fs (at @ q) = Some Directory) \<Longrightarrow> resolve n fs at rest = Inr (at @ rest)"
proof (induction rest arbitrary: at)
  case (Cons s rest)
  have s: "fs (at @ [s]) = Some Directory" using Cons.prems [of "[s]"] by simp
  have "resolve n fs (at @ [s]) rest = Inr ((at @ [s]) @ rest)"
    by (rule Cons.IH) (use Cons.prems [of "s # _"] in simp)
  then show ?case using s by simp
qed simp

lemma locate_below:
  assumes "\<And>q. strict_prefix q p \<Longrightarrow> fs q = Some Directory"
  shows "locate fs p = Inr p"
proof (cases "p = []")
  case False
  have "resolve maximumLinks fs [] (butlast p) = Inr ([] @ butlast p)"
  proof (rule resolve_directories)
    fix q assume "prefix q (butlast p)" "q \<noteq> []"
    then have "strict_prefix q p" using False by (metis prefix_order.le_less_trans append_butlast_last_id strict_prefix_def prefixI not_Cons_self2 append_self_conv)
    then show "fs ([] @ q) = Some Directory" using assms by simp
  qed
  then show ?thesis using False by (simp add: locate_def)
qed (simp add: locate_def)

lemma follow_below:
  assumes "\<And>q. strict_prefix q p \<Longrightarrow> fs q = Some Directory" "\<And>t. fs p \<noteq> Some (Symlink t)"
  shows "follow n fs p = Inr p"
  using locate_below [OF assms(1)] assms(2) by (cases n) (auto split: option.splits node.splits)

lemma clear_prefix: "clear fs p \<Longrightarrow> prefix q p \<Longrightarrow> clear fs q"
  by (auto simp: clear_def)

definition with_dirs :: "fpath \<Rightarrow> fs \<Rightarrow> fs" where
  "with_dirs p fs = (\<lambda>q. if prefix q p then Some Directory else fs q)"

definition linkless :: "fs \<Rightarrow> fpath \<Rightarrow> bool" where
  "linkless fs p \<longleftrightarrow> (\<forall>q t. prefix q p \<longrightarrow> fs q \<noteq> Some (Symlink t))"

lemma clear_linkless: "clear fs p \<Longrightarrow> linkless fs p"
  unfolding clear_def linkless_def by fastforce

lemma linkless_next:
  assumes "linkless fs (at @ [s])" "\<And>q. prefix q at \<Longrightarrow> fs q = Some Directory"
  shows "Stat X fs (at @ [s]) = guard X OpStat (at @ [s]) (case fs (at @ [s]) of None \<Rightarrow> Inl [Os_ErrNotExist] | Some n \<Rightarrow> Inr n)"
    and "Mkdir X fs (at @ [s]) = guard X OpMkdir (at @ [s])
      (if fs (at @ [s]) \<noteq> None then Inl [Os_ErrExist] else Inr (fs(at @ [s] \<mapsto> Directory)))"
proof -
  have above: "fs q = Some Directory" if "strict_prefix q (at @ [s])" for q
    using that assms(2) by (metis prefix_snoc strict_prefix_def)
  have "fs (at @ [s]) \<noteq> Some (Symlink t)" for t using assms(1) by (auto simp: linkless_def)
  then show "Stat X fs (at @ [s]) = guard X OpStat (at @ [s]) (case fs (at @ [s]) of None \<Rightarrow> Inl [Os_ErrNotExist] | Some n \<Rightarrow> Inr n)"
    using follow_below [OF above] by (simp add: Stat_def)
  show "Mkdir X fs (at @ [s]) = guard X OpMkdir (at @ [s])
      (if fs (at @ [s]) \<noteq> None then Inl [Os_ErrExist] else Inr (fs(at @ [s] \<mapsto> Directory)))"
    using locate_below [OF above] by (simp add: Mkdir_def)
qed

text \<open>When no link is on the way, \<open>MkdirAll\<close> succeeds only where no file is on the way, and adds the directories.\<close>

lemma mkdir_all_Inr:
  assumes "linkless fs (at @ rest)" "\<And>q. prefix q at \<Longrightarrow> fs q = Some Directory" "mkdir_all X fs at rest = Inr fs'"
  shows "clear fs (at @ rest) \<and> fs' = with_dirs (at @ rest) fs"
  using assms
proof (induction rest arbitrary: fs at)
  case Nil
  then show ?case by (auto simp: with_dirs_def clear_def fun_eq_iff)
next
  case (Cons s rest)
  let ?p = "at @ [s]" and ?fs = "fs(at @ [s] \<mapsto> Directory)"
  have l: "linkless fs ?p" using Cons.prems(1) by (auto simp: linkless_def)
  note calls = linkless_next [OF l Cons.prems(2)]
  have node: "(fs ?p = None \<or> fs ?p = Some Directory) \<and> mkdir_all X ?fs ?p rest = Inr fs'"
  proof (cases "fs ?p")
    case None
    then show ?thesis using Cons.prems(3) calls by (auto simp: guard_def result_simps split: option.splits if_splits)
  next
    case (Some n)
    then have "n = Directory"
      using Cons.prems(3) calls by (cases n) (auto simp: guard_def result_simps split: option.splits if_splits)
    moreover from this have "?fs = fs" using Some by auto
    ultimately show ?thesis
      using Cons.prems(3) calls Some by (auto simp: guard_def result_simps split: option.splits if_splits)
  qed
  have "linkless ?fs (?p @ rest)" using Cons.prems(1) by (simp add: linkless_def)
  moreover have "?fs q = Some Directory" if "prefix q ?p" for q using that Cons.prems(2) by (auto simp: prefix_snoc)
  ultimately have ih: "clear ?fs (?p @ rest) \<and> fs' = with_dirs (?p @ rest) ?fs" using Cons.IH node by blast
  have "fs q = None \<or> fs q = Some Directory" if "prefix q (at @ s # rest)" for q
    using ih node that by (cases "q = ?p") (auto simp: clear_def)
  then show ?case using ih by (auto simp: with_dirs_def clear_def fun_eq_iff)
qed

lemma MkdirAll_Inr:
  assumes "fs [] = Some Directory" "linkless fs p" "MkdirAll X fs p = Inr fs'"
  shows "clear fs p" "fs' = with_dirs p fs"
  using mkdir_all_Inr [of fs "[]" p X fs'] assms by (simp_all add: MkdirAll_def)

lemma mkdir_all_succeeds:
  assumes "clear fs (at @ rest)" "\<And>q. prefix q at \<Longrightarrow> fs q = Some Directory"
  shows "is_ok (mkdir_all no_fs_errors fs at rest)"
  using assms
proof (induction rest arbitrary: fs at)
  case (Cons s rest)
  let ?p = "at @ [s]"
  have c: "clear fs ?p" using clear_prefix [OF Cons.prems(1)] by simp
  note calls = linkless_next [OF clear_linkless [OF c] Cons.prems(2)]
  have node: "fs ?p = None \<or> fs ?p = Some Directory" using c by (auto simp: clear_def)
  have ih: "is_ok (mkdir_all no_fs_errors (fs(?p \<mapsto> Directory)) ?p rest)"
    by (rule Cons.IH) (use Cons.prems in \<open>auto simp: clear_def prefix_snoc\<close>)
  show ?case
  proof (cases "fs ?p = Some Directory")
    case True
    then have "fs(?p \<mapsto> Directory) = fs" by auto
    then show ?thesis using ih calls(1) True by simp
  next
    case False
    then show ?thesis using ih calls node by (simp add: errors_is_def)
  qed
qed simp

lemma wf_with_dirs: "wf_fs fs \<Longrightarrow> clear fs p \<Longrightarrow> wf_fs (with_dirs p fs)"
  by (auto simp: wf_fs_def with_dirs_def clear_def prefix_snoc dest: prefix_order.trans [OF prefixI [OF refl]] split: if_splits)

end
