(* ===== verification/ArtifactRepository.thy ===== *)
theory ArtifactRepository
  imports JobRepository Snapshot
begin

text \<open>
  \<open>internal/artifact/artifact.go\<close> and \<open>internal/infra/sqlite/artifact_repository.go\<close>: bundles of collected outputs and
  their table, with the references that protect their chunks (\<open>migrations/006_job_outputs_artifacts.sql\<close> and
  \<open>007_content_cache.sql\<close>). \<open>content_db\<close> is the database as these tables see it. The JSON column of a manifest holds the
  manifest: its strings are UTF-8 by \<open>Validate\<close> and its numbers are exact; the number of bytes of its text is the
  argument \<open>J\<close>. \<open>Clone\<close> is the identity on values.
\<close>

abbreviation Artifact_ErrInvalidBundle :: sentinel where "Artifact_ErrInvalidBundle \<equiv> ''artifact.ErrInvalidBundle''"
abbreviation Artifact_ErrNotFound :: sentinel where "Artifact_ErrNotFound \<equiv> ''artifact.ErrNotFound''"
abbreviation Artifact_ErrConflict :: sentinel where "Artifact_ErrConflict \<equiv> ''artifact.ErrConflict''"
abbreviation Artifact_ErrInvalidDestination :: sentinel where
  "Artifact_ErrInvalidDestination \<equiv> ''artifact.ErrInvalidDestination''"

section \<open>Bundles\<close>

definition MaximumStoredManifestBytes :: nat where "MaximumStoredManifestBytes = 2097152"

record artifact_bundle =
  bJobID :: job_id
  bManifest :: manifest
  bCollectedAt :: time

definition Bundle_Validate :: "casing \<Rightarrow> artifact_bundle \<Rightarrow> unit result" where
  "Bundle_Validate U b =
    (if \<not> ID_Valid (bJobID b) \<or> IsZero (bCollectedAt b) then Inl [Artifact_ErrInvalidBundle]
     else if \<not> is_ok (CanonicalBytes U (bManifest b)) then Inl [Artifact_ErrInvalidBundle]
     else Inr ())"

record restore_result =
  rDestination :: string
  rRestored :: "string list"
  rConflicts :: "string list"

fun sorted_paths :: "casing \<Rightarrow> string \<Rightarrow> string list \<Rightarrow> bool" where
  "sorted_paths U previous [] \<longleftrightarrow> True"
| "sorted_paths U previous (v # vs) \<longleftrightarrow>
    \<not> (\<not> is_ok (ValidatePath U v) \<or> previous \<noteq> '''' \<and> v \<le> previous) \<and> sorted_paths U v vs"

definition Restore_Validate :: "casing \<Rightarrow> restore_result \<Rightarrow> unit result" where
  "Restore_Validate U r =
    (if \<not> prefix ''/'' (rDestination r) then Inl [Artifact_ErrInvalidDestination]
     else if \<not> sorted_paths U '''' (rRestored r) \<or> \<not> sorted_paths U '''' (rConflicts r) then Inl [Artifact_ErrInvalidBundle]
     else Inr ())"

definition NormalizeResult :: "restore_result \<Rightarrow> restore_result" where
  "NormalizeResult r = r\<lparr>rRestored := sort (rRestored r), rConflicts := sort (rConflicts r)\<rparr>"

section \<open>Tables\<close>

record artifact_row =
  a_job_id :: string
  a_manifest_id :: string
  a_manifest :: manifest
  a_total_bytes :: int
  a_collected_at_ns :: int
  a_retrieved_at_ns :: "int option"

record cache_row =
  c_digest :: string
  c_size_bytes :: int
  c_last_accessed_ns :: int

record content_db =
  job_tables :: db
  job_artifacts :: "artifact_row list"
  artifact_refs :: "(string \<times> string) list"
  cache_entries :: "cache_row list"

definition artifact_row_check :: "artifact_row \<Rightarrow> bool" where
  "artifact_row_check r \<longleftrightarrow> length (a_manifest_id r) = 64 \<and> 0 \<le> a_total_bytes r \<and> 0 < a_collected_at_ns r
     \<and> (case a_retrieved_at_ns r of None \<Rightarrow> True | Some t \<Rightarrow> a_collected_at_ns r \<le> t)"

section \<open>The repository\<close>

definition scan_artifact ::
    "casing \<Rightarrow> (byte list \<Rightarrow> byte list) \<Rightarrow> (manifest \<Rightarrow> nat) \<Rightarrow> job_id \<Rightarrow> artifact_row \<Rightarrow> artifact_bundle result" where
  "scan_artifact U H J i r =
    (if J (a_manifest r) > MaximumStoredManifestBytes then Inl [Artifact_ErrInvalidBundle]
     else if \<not> is_ok (ParseDigest U (a_manifest_id r)) then Inl [Artifact_ErrInvalidBundle]
     else if Manifest_ID U H (a_manifest r) \<noteq> Inr (a_manifest_id r) \<or> mTotalBytes (a_manifest r) \<noteq> a_total_bytes r
     then Inl [Artifact_ErrInvalidBundle]
     else let b = \<lparr>bJobID = i, bManifest = a_manifest r, bCollectedAt = a_collected_at_ns r\<rparr>
       in ebind (Bundle_Validate U b) (\<lambda>_. Inr b))"

definition Artifact_Get ::
    "casing \<Rightarrow> (byte list \<Rightarrow> byte list) \<Rightarrow> (manifest \<Rightarrow> nat) \<Rightarrow> content_db \<Rightarrow> job_id \<Rightarrow> artifact_bundle result" where
  "Artifact_Get U H J d i =
    (if \<not> ID_Valid i then Inl [Job_ErrInvalidID]
     else (case row_with a_job_id i (job_artifacts d) of
         None \<Rightarrow> Inl [Artifact_ErrNotFound]
       | Some r \<Rightarrow> scan_artifact U H J i r))"

fun insert_refs :: "job_id \<Rightarrow> digest list \<Rightarrow> (string \<times> string) list \<Rightarrow> (string \<times> string) list result" where
  "insert_refs i [] refs = Inr refs"
| "insert_refs i (g # gs) refs =
    (if length g \<noteq> 64 \<or> (i, g) \<in> set refs then Inl [Sqlite_ErrConstraint]
     else insert_refs i gs (refs @ [(i, g)]))"

definition artifact_row_of :: "artifact_bundle \<Rightarrow> digest \<Rightarrow> artifact_row" where
  "artifact_row_of b g = \<lparr>a_job_id = bJobID b, a_manifest_id = g, a_manifest = bManifest b,
     a_total_bytes = mTotalBytes (bManifest b), a_collected_at_ns = UnixNano (bCollectedAt b), a_retrieved_at_ns = None\<rparr>"

definition insert_artifact :: "artifact_row \<Rightarrow> content_db \<Rightarrow> artifact_row list result" where
  "insert_artifact r d =
    (if row_with r_id (a_job_id r) (jobs (job_tables d)) = None then Inl [Sqlite_ErrConstraint]
     else sql_insert artifact_row_check a_job_id r (job_artifacts d))"

definition Save ::
    "casing \<Rightarrow> (byte list \<Rightarrow> byte list) \<Rightarrow> (manifest \<Rightarrow> nat) \<Rightarrow> artifact_bundle \<Rightarrow> content_db \<Rightarrow> content_db \<times> unit result" where
  "Save U H J b d =
    (case ebind (Bundle_Validate U b) (\<lambda>_. Manifest_ID U H (bManifest b)) of
       Inl e \<Rightarrow> (d, Inl e)
     | Inr g \<Rightarrow>
        if J (bManifest b) > MaximumStoredManifestBytes then (d, Inl [Artifact_ErrInvalidBundle])
        else (case insert_artifact (artifact_row_of b g) d of
            Inl _ \<Rightarrow>
              (d, case Artifact_Get U H J d (bJobID b) of
                  Inl e \<Rightarrow> Inl (Artifact_ErrConflict # e)
                | Inr existing \<Rightarrow>
                    if Manifest_ID U H (bManifest existing) = Inr g then Inr () else Inl [Artifact_ErrConflict])
          | Inr rows \<Rightarrow>
              transact d (ebind (insert_refs (bJobID b) (Digests (bManifest b)) (artifact_refs d)) (\<lambda>refs.
                Inr (d\<lparr>job_artifacts := rows, artifact_refs := refs\<rparr>, ())))))"

definition MarkRetrieved :: "job_id \<Rightarrow> time \<Rightarrow> content_db \<Rightarrow> content_db \<times> unit result" where
  "MarkRetrieved i at d =
    (if \<not> ID_Valid i \<or> IsZero at then (d, Inl [Artifact_ErrInvalidBundle])
     else transact d (ebind (sql_update artifact_row_check
         (\<lambda>r. a_job_id r = i \<and> a_collected_at_ns r \<le> UnixNano at)
         (\<lambda>r. r\<lparr>a_retrieved_at_ns := (case a_retrieved_at_ns r of None \<Rightarrow> Some (UnixNano at) | Some t \<Rightarrow> Some t)\<rparr>)
         (job_artifacts d)) (\<lambda>(rows, _). Inr (d\<lparr>job_artifacts := rows\<rparr>, ()))))"

section \<open>Protected content\<close>

text \<open>
  The chunks that \<open>content_cache_repository.go\<close> keeps: all while a job is starting, running or collecting, and those
  of a collected bundle until it has been retrieved.
\<close>

definition active_job :: "content_db \<Rightarrow> bool" where
  "active_job d \<longleftrightarrow> list_ex (\<lambda>r. r_state r \<in> set [''starting'', ''running'', ''collecting'']) (jobs (job_tables d))"

definition referenced :: "content_db \<Rightarrow> digest \<Rightarrow> bool" where
  "referenced d g \<longleftrightarrow> list_ex (\<lambda>(i, g'). g' = g \<and>
     list_ex (\<lambda>r. a_job_id r = i \<and> a_retrieved_at_ns r = None) (job_artifacts d)) (artifact_refs d)"

definition protected_digest :: "content_db \<Rightarrow> digest \<Rightarrow> bool" where
  "protected_digest d g \<longleftrightarrow> active_job d \<or> referenced d g"

section \<open>Facts\<close>

lemma Digest_Valid_length: "Digest_Valid U g \<Longrightarrow> length g = 64"
  by (simp add: Digest_Valid_def ParseDigest_def DigestHexLength_def DigestBytes_def split: if_splits)

lemma Digests_distinct: "distinct (Digests m) \<and> sorted (Digests m)"
  by (simp add: Digests_def)

lemma set_Digests: "set (Digests m) = cDigest ` set (concat (map fChunks (mFiles m)))"
  by (auto simp: Digests_def)

lemma insert_refs_Inr:
  assumes "distinct gs" "\<forall>g\<in>set gs. length g = 64" "\<forall>g\<in>set gs. (i, g) \<notin> set refs"
  shows "insert_refs i gs refs = Inr (refs @ map (Pair i) gs)"
  using assms
proof (induction gs arbitrary: refs)
  case (Cons g gs)
  then have "insert_refs i gs (refs @ [(i, g)]) = Inr ((refs @ [(i, g)]) @ map (Pair i) gs)" by (intro Cons.IH) auto
  then show ?case using Cons.prems by simp
qed simp

text \<open>
  The invariant of the tables: keyed bundles that pass their own validation and checks, each belonging to a job,
  whose references are exactly the digests of their manifests.
\<close>

definition artifacts_ok :: "casing \<Rightarrow> (byte list \<Rightarrow> byte list) \<Rightarrow> (manifest \<Rightarrow> nat) \<Rightarrow> content_db \<Rightarrow> bool" where
  "artifacts_ok U H J d \<longleftrightarrow> keyed a_job_id (job_artifacts d)
     \<and> list_all (\<lambda>r. artifact_row_check r \<and> ID_Valid (a_job_id r) \<and> J (a_manifest r) \<le> MaximumStoredManifestBytes
         \<and> Manifest_ID U H (a_manifest r) = Inr (a_manifest_id r) \<and> a_total_bytes r = mTotalBytes (a_manifest r)
         \<and> nano_ok (a_collected_at_ns r)
         \<and> (\<forall>g. (a_job_id r, g) \<in> set (artifact_refs d) \<longleftrightarrow> g \<in> set (Digests (a_manifest r)))) (job_artifacts d)
     \<and> (\<forall>(i, g) \<in> set (artifact_refs d). row_with a_job_id i (job_artifacts d) \<noteq> None)"

lemma Manifest_ID_InrD:
  assumes "\<And>x. length (H x) = 32" "Manifest_ID U H m = Inr g"
  shows "is_ok (CanonicalBytes U m)" "Digest_Valid U g" "manifest_ok U m"
proof -
  obtain c where c: "CanonicalBytes U m = Inr c" "g = Sum H c"
    using assms(2) by (auto simp: Manifest_ID_def result_simps)
  then show "is_ok (CanonicalBytes U m)" "Digest_Valid U g" by (simp_all add: Sum_valid assms(1))
  show "manifest_ok U m"
    using c(1) Manifest_Validate_iff [of U m] by (auto simp: CanonicalBytes_def result_simps)
qed

lemma manifest_digests_valid: "manifest_ok U m \<Longrightarrow> g \<in> set (Digests m) \<Longrightarrow> Digest_Valid U g"
  by (auto simp: set_Digests manifest_ok_def list_all_iff file_ok_def chunk_ok_def)

lemma scan_artifact_ok:
  assumes "\<And>x. length (H x) = 32" "artifacts_ok U H J d" "r \<in> set (job_artifacts d)"
  shows "scan_artifact U H J (a_job_id r) r
    = Inr \<lparr>bJobID = a_job_id r, bManifest = a_manifest r, bCollectedAt = a_collected_at_ns r\<rparr>"
proof -
  have r: "ID_Valid (a_job_id r)" "J (a_manifest r) \<le> MaximumStoredManifestBytes" "nano_ok (a_collected_at_ns r)"
    "Manifest_ID U H (a_manifest r) = Inr (a_manifest_id r)" "a_total_bytes r = mTotalBytes (a_manifest r)"
    using assms(2,3) by (auto simp: artifacts_ok_def list_all_iff)
  show ?thesis
    using r Manifest_ID_InrD [OF assms(1) r(4)]
    by (simp add: scan_artifact_def Bundle_Validate_def Digest_Valid_def)
qed

lemma Artifact_Get_row:
  assumes "\<And>x. length (H x) = 32" "artifacts_ok U H J d" "row_with a_job_id i (job_artifacts d) = Some r"
  shows "Artifact_Get U H J d i = Inr \<lparr>bJobID = i, bManifest = a_manifest r, bCollectedAt = a_collected_at_ns r\<rparr>"
proof -
  have r: "r \<in> set (job_artifacts d)" "a_job_id r = i" using row_with_SomeD [OF assms(3)] by auto
  then have "ID_Valid i" using assms(2) by (auto simp: artifacts_ok_def list_all_iff)
  then show ?thesis using scan_artifact_ok [where H = H, OF assms(1,2) r(1)] r(2) assms(3) by (simp add: Artifact_Get_def)
qed

text \<open>Saving: the new row, an idempotent repetition, or an error without effect.\<close>

lemma Save_cases:
  assumes H: "\<And>x. length (H x) = 32" and ok: "artifacts_ok U H J d" and run: "Save U H J b d = (d', r)"
  obtains (failed) e where "d' = d" "r = Inl e"
  | (repeated) old g where "d' = d" "r = Inr ()" "row_with a_job_id (bJobID b) (job_artifacts d) = Some old"
      "Manifest_ID U H (bManifest b) = Inr g" "Manifest_ID U H (a_manifest old) = Inr g"
  | (saved) g where "r = Inr ()" "ID_Valid (bJobID b)" "Manifest_ID U H (bManifest b) = Inr g"
      "row_with a_job_id (bJobID b) (job_artifacts d) = None" "artifact_row_check (artifact_row_of b g)"
      "J (bManifest b) \<le> MaximumStoredManifestBytes"
      "d' = d\<lparr>job_artifacts := job_artifacts d @ [artifact_row_of b g],
              artifact_refs := artifact_refs d @ map (Pair (bJobID b)) (Digests (bManifest b))\<rparr>"
proof (cases "ebind (Bundle_Validate U b) (\<lambda>_. Manifest_ID U H (bManifest b))")
  case (Inl e)
  then show thesis using run failed by (auto simp: Save_def)
next
  case (Inr g)
  then have id: "ID_Valid (bJobID b)" "Manifest_ID U H (bManifest b) = Inr g"
    by (auto simp: result_simps Bundle_Validate_def split: if_splits)
  show thesis
  proof (cases "J (bManifest b) > MaximumStoredManifestBytes \<or> \<not> is_ok (insert_artifact (artifact_row_of b g) d)")
    case True
    then have e: "d' = d" "\<not> J (bManifest b) > MaximumStoredManifestBytes \<Longrightarrow> r = (case Artifact_Get U H J d (bJobID b) of
          Inl e \<Rightarrow> Inl (Artifact_ErrConflict # e)
        | Inr existing \<Rightarrow> if Manifest_ID U H (bManifest existing) = Inr g then Inr () else Inl [Artifact_ErrConflict])"
      "J (bManifest b) > MaximumStoredManifestBytes \<Longrightarrow> r = Inl [Artifact_ErrInvalidBundle]"
      using run Inr by (auto simp: Save_def not_is_ok_iff split: if_splits)
    show thesis
    proof (cases "row_with a_job_id (bJobID b) (job_artifacts d)")
      case None
      then have "Artifact_Get U H J d (bJobID b) = Inl [Artifact_ErrNotFound]" using id(1) by (simp add: Artifact_Get_def)
      then show thesis using e failed [OF e(1)] by (cases "J (bManifest b) > MaximumStoredManifestBytes") auto
    next
      case (Some old)
      then show thesis
        using e failed [OF e(1)] repeated [OF e(1) _ Some id(2)] Artifact_Get_row [where H = H, OF H ok Some]
        by (cases "J (bManifest b) > MaximumStoredManifestBytes") (auto split: if_splits)
    qed
  next
    case False
    then obtain rows where rows: "insert_artifact (artifact_row_of b g) d = Inr rows" by (auto simp: is_ok_iff)
    then have new: "rows = job_artifacts d @ [artifact_row_of b g]" "row_with a_job_id (bJobID b) (job_artifacts d) = None"
      "artifact_row_check (artifact_row_of b g)"
      by (auto simp: insert_artifact_def sql_insert_Inr_iff artifact_row_of_def split: if_splits)
    have "(bJobID b, x) \<notin> set (artifact_refs d)" for x using ok new(2) by (auto simp: artifacts_ok_def)
    then have "insert_refs (bJobID b) (Digests (bManifest b)) (artifact_refs d)
        = Inr (artifact_refs d @ map (Pair (bJobID b)) (Digests (bManifest b)))"
      using Digests_distinct manifest_digests_valid [OF Manifest_ID_InrD(3) [where H = H, OF H id(2)]]
      by (intro insert_refs_Inr) (auto intro: Digest_Valid_length)
    then show thesis using run Inr rows new False saved [OF _ id(1) id(2) new(2,3)] by (simp add: Save_def)
  qed
qed

lemma artifacts_ok_saved:
  assumes ok: "artifacts_ok U H J d" and b: "ID_Valid (bJobID b)" "Manifest_ID U H (bManifest b) = Inr g"
      "row_with a_job_id (bJobID b) (job_artifacts d) = None" "artifact_row_check (artifact_row_of b g)"
      "J (bManifest b) \<le> MaximumStoredManifestBytes"
  shows "artifacts_ok U H J (d\<lparr>job_artifacts := job_artifacts d @ [artifact_row_of b g],
     artifact_refs := artifact_refs d @ map (Pair (bJobID b)) (Digests (bManifest b))\<rparr>)"
proof -
  have n: "(bJobID b, x) \<notin> set (artifact_refs d)" for x using ok b(3) by (auto simp: artifacts_ok_def)
  have o: "a_job_id r \<noteq> bJobID b" if "r \<in> set (job_artifacts d)" for r using that b(3) by (force simp: row_with_None_iff)
  have "keyed a_job_id (job_artifacts d @ [artifact_row_of b g])"
    using ok b(3) by (simp add: keyed_snoc artifacts_ok_def artifact_row_of_def)
  moreover have "row_with a_job_id i (job_artifacts d @ [artifact_row_of b g]) \<noteq> None"
    if "row_with a_job_id i (job_artifacts d) \<noteq> None" for i using that by (auto simp: row_with_append)
  moreover have "row_with a_job_id (bJobID b) (job_artifacts d @ [artifact_row_of b g]) \<noteq> None"
    by (simp add: row_with_append b(3) artifact_row_of_def)
  moreover have "artifact_row_check (artifact_row_of b g) \<and> nano_ok (UnixNano (bCollectedAt b))" using b(4) by simp
  ultimately show ?thesis
    using ok b(1,2,5) n o by (fastforce simp: artifacts_ok_def list_all_iff artifact_row_of_def image_iff)
qed

lemma referenced_append:
  "referenced d g \<Longrightarrow> referenced (d\<lparr>job_artifacts := job_artifacts d @ as, artifact_refs := artifact_refs d @ rs\<rparr>) g"
  by (auto simp: referenced_def list_ex_iff)

lemma MarkRetrieved_InrD:
  assumes "artifacts_ok U H J d" "MarkRetrieved i at d = (d', Inr ())"
  shows "\<exists>f. (\<forall>r. f r = r \<or> a_job_id r = i \<and> f r = r\<lparr>a_retrieved_at_ns := Some (UnixNano at)\<rparr>)
    \<and> d' = d\<lparr>job_artifacts := map f (job_artifacts d)\<rparr>"
proof (intro exI conjI allI)
  let ?f = "\<lambda>r. if a_job_id r = i \<and> a_collected_at_ns r \<le> UnixNano at
    then r\<lparr>a_retrieved_at_ns := (case a_retrieved_at_ns r of None \<Rightarrow> Some (UnixNano at) | Some t \<Rightarrow> Some t)\<rparr> else r"
  show "?f r = r \<or> a_job_id r = i \<and> ?f r = r\<lparr>a_retrieved_at_ns := Some (UnixNano at)\<rparr>" for r
    by (cases "a_retrieved_at_ns r") auto
  show "d' = d\<lparr>job_artifacts := map ?f (job_artifacts d)\<rparr>"
    using assms(2) by (auto simp: MarkRetrieved_def transact_Inr_iff result_simps sql_update_Inr_iff update_where_def
        split: if_splits)
qed

section \<open>Properties\<close>

text \<open>
  C31: Collected outputs are immutable and protected. A successful \<open>Save\<close> of a bundle stores it under its job if the job had
  none, with a reference to each of its chunks, so that none of them is a candidate for eviction; if the job had one,
  it had the same identity, and nothing changes. A failing \<open>Save\<close> changes nothing, no \<open>Save\<close> changes the bundle of
  another job or takes protection from a chunk, and the invariant of the tables holds throughout.
\<close>
theorem saved_artifacts_are_kept:
  assumes "\<And>x. length (H x) = 32" "artifacts_ok U H J d" "Save U H J b d = (d', r)"
  shows "artifacts_ok U H J d'
    \<and> (\<forall>i. i \<noteq> bJobID b \<longrightarrow> Artifact_Get U H J d' i = Artifact_Get U H J d i)
    \<and> (\<forall>g. protected_digest d g \<longrightarrow> protected_digest d' g)
    \<and> (is_ok r \<longrightarrow> (\<exists>stored. Artifact_Get U H J d' (bJobID b) = Inr stored
          \<and> Manifest_ID U H (bManifest stored) = Manifest_ID U H (bManifest b)
          \<and> (d' = d \<and> Artifact_Get U H J d (bJobID b) = Inr stored
             \<or> Artifact_Get U H J d (bJobID b) = Inl [Artifact_ErrNotFound] \<and> bManifest stored = bManifest b
               \<and> (\<forall>g\<in>set (Digests (bManifest b)). protected_digest d' g))))
    \<and> (\<not> is_ok r \<longrightarrow> d' = d)"
proof (cases rule: Save_cases [where H = H, OF assms, consumes 0, case_names failed repeated saved])
  case (failed e)
  then show ?thesis using assms(2) by simp
next
  case (repeated old g)
  then show ?thesis using assms(2) Artifact_Get_row [where H = H, OF assms(1,2) repeated(3)] by auto
next
  case (saved g)
  let ?n = "artifact_row_of b g"
  have ok: "artifacts_ok U H J d'"
    unfolding saved(7) by (rule artifacts_ok_saved [OF assms(2) saved(2-6)])
  have row: "row_with a_job_id (bJobID b) (job_artifacts d') = Some ?n"
    by (simp add: saved(7) row_with_append saved(4)) (simp add: artifact_row_of_def)
  have get: "Artifact_Get U H J d' (bJobID b) = Inr \<lparr>bJobID = bJobID b, bManifest = bManifest b,
      bCollectedAt = UnixNano (bCollectedAt b)\<rparr>"
    using Artifact_Get_row [where H = H, OF assms(1) ok row] by (simp add: artifact_row_of_def)
  have prot: "referenced d' x" if "x \<in> set (Digests (bManifest b))" for x
    using that by (auto simp: saved(7) referenced_def list_ex_iff artifact_row_of_def)
  have keep: "protected_digest d' x" if "protected_digest d x" for x
    using that referenced_append [of d x] by (auto simp: protected_digest_def active_job_def saved(7))
  have other: "Artifact_Get U H J d' i = Artifact_Get U H J d i" if "i \<noteq> bJobID b" for i
    using that by (simp add: Artifact_Get_def saved(7) row_with_append artifact_row_of_def split: option.splits)
  have "Artifact_Get U H J d (bJobID b) = Inl [Artifact_ErrNotFound]" by (simp add: Artifact_Get_def saved(2,4))
  then show ?thesis using ok keep get prot other saved(1,3) by (auto simp: protected_digest_def)
qed

definition sample_bundle :: artifact_bundle where
  "sample_bundle = \<lparr>bJobID = sample_id, bManifest = sample_manifest, bCollectedAt = 9\<rparr>"

definition sample_content :: content_db where
  "sample_content = \<lparr>job_tables = empty_db\<lparr>jobs := [encode_job plain_job]\<rparr>, job_artifacts = [], artifact_refs = [],
     cache_entries = []\<rparr>"

theorem saved_artifacts_are_kept_witness:
  "\<exists>d'. Save ascii_casing (\<lambda>_. replicate 32 0) (\<lambda>_. 300) sample_bundle sample_content = (d', Inr ())
    \<and> protected_digest d' sample_digest \<and> \<not> protected_digest sample_content sample_digest
    \<and> artifacts_ok ascii_casing (\<lambda>_. replicate 32 0) (\<lambda>_. 300) d'"
proof -
  let ?H = "(\<lambda>_. replicate 32 0) :: byte list \<Rightarrow> byte list" and ?J = "(\<lambda>_. 300) :: manifest \<Rightarrow> nat"
  have "is_ok (snd (Save ascii_casing ?H ?J sample_bundle sample_content))" by code_simp
  then obtain d' where run: "Save ascii_casing ?H ?J sample_bundle sample_content = (d', Inr ())"
    by (metis is_ok_iff old.unit.exhaust prod.collapse)
  have ok: "artifacts_ok ascii_casing ?H ?J sample_content" by (simp add: artifacts_ok_def sample_content_def)
  have "fst (Save ascii_casing ?H ?J sample_bundle sample_content) \<noteq> sample_content" by code_simp
  then have "d' \<noteq> sample_content" using run by simp
  moreover have "sample_digest \<in> set (Digests (bManifest sample_bundle))" "\<not> protected_digest sample_content sample_digest"
    by code_simp+
  ultimately show ?thesis
    using saved_artifacts_are_kept [where H = ?H, OF _ ok run] run by auto
qed

end
