(* ===== verification/ContentCache.thy ===== *)
theory ContentCache
  imports ArtifactRepository
begin

text \<open>
  \<open>internal/contentcache/cache.go\<close> and \<open>internal/infra/sqlite/content_cache_repository.go\<close>: the index of the content
  cache. \<open>cache_index\<close> is the interface \<open>contentcache.Repository\<close> as the record of its methods on an abstract store, the
  locale \<open>cache_repository\<close> is the contract its client relies on, and the interpretation \<open>sqlite_cache\<close> shows that the
  SQLite repository keeps it. Sums over the table are integers: each entry has at most \<open>2\<^sup>1\<^sup>9\<close> bytes.
\<close>

section \<open>Entries, usage and quotas\<close>

definition DefaultMaximumBytes :: int where "DefaultMaximumBytes = 20 * 2 ^ 30"
definition MinimumMaximumBytes :: int where "MinimumMaximumBytes = 2 ^ 20"
definition MaximumMaximumBytes :: int where "MaximumMaximumBytes = 100 * 2 ^ 40"

record cache_entry =
  enDigest :: digest
  enSize :: int
  enLastAccessed :: time

definition Entry_Validate :: "casing \<Rightarrow> cache_entry \<Rightarrow> unit result" where
  "Entry_Validate U e =
    (if \<not> Digest_Valid U (enDigest e) \<or> enSize e \<le> 0 \<or> enSize e > MaximumChunkBytes \<or> IsZero (enLastAccessed e)
     then Inl [Cache_ErrInvalidEntry] else Inr ())"

record cache_stats =
  stEntries :: int
  stBytes :: int
  stProtectedEntries :: int
  stProtectedBytes :: int

definition Stats_Validate :: "cache_stats \<Rightarrow> unit result" where
  "Stats_Validate s =
    (if stEntries s < 0 \<or> stBytes s < 0 \<or> stProtectedEntries s < 0 \<or> stProtectedBytes s < 0
        \<or> stProtectedEntries s > stEntries s \<or> stProtectedBytes s > stBytes s
     then Inl [Cache_ErrInvalidEntry] else Inr ())"

record quota_error =
  qMaximumBytes :: int
  qCurrentBytes :: int
  qPinnedBytes :: int

definition ValidateMaximumBytes :: "int \<Rightarrow> unit result" where
  "ValidateMaximumBytes v =
    (if v < MinimumMaximumBytes \<or> v > MaximumMaximumBytes then Inl [Cache_ErrInvalidQuota] else Inr ())"

record 's cache_index =
  ix_Record :: "cache_entry \<Rightarrow> 's \<Rightarrow> 's \<times> unit result"
  ix_Delete :: "digest \<Rightarrow> 's \<Rightarrow> 's \<times> unit result"
  ix_Reconcile :: "cache_entry list \<Rightarrow> 's \<Rightarrow> 's \<times> unit result"
  ix_Stats :: "'s \<Rightarrow> cache_stats result"
  ix_EvictionCandidates :: "'s \<Rightarrow> cache_entry list result"

section \<open>The SQLite repository\<close>

definition cache_row_check :: "cache_row \<Rightarrow> bool" where
  "cache_row_check r \<longleftrightarrow> length (c_digest r) = 64 \<and> 1 \<le> c_size_bytes r \<and> c_size_bytes r \<le> 524288
     \<and> 0 < c_last_accessed_ns r"

definition cache_row_of :: "cache_entry \<Rightarrow> cache_row" where
  "cache_row_of e = \<lparr>c_digest = enDigest e, c_size_bytes = enSize e, c_last_accessed_ns = UnixNano (enLastAccessed e)\<rparr>"

definition entry_of :: "cache_row \<Rightarrow> cache_entry" where
  "entry_of r = \<lparr>enDigest = c_digest r, enSize = c_size_bytes r, enLastAccessed = c_last_accessed_ns r\<rparr>"

definition Record :: "casing \<Rightarrow> cache_entry \<Rightarrow> content_db \<Rightarrow> content_db \<times> unit result" where
  "Record U e d =
    transact d (ebind (Entry_Validate U e) (\<lambda>_.
      ebind (sql_upsert cache_row_check c_digest (cache_row_of e) (cache_entries d)) (\<lambda>rows.
        Inr (d\<lparr>cache_entries := rows\<rparr>, ()))))"

definition Delete :: "casing \<Rightarrow> digest \<Rightarrow> content_db \<Rightarrow> content_db \<times> unit result" where
  "Delete U g d =
    (if \<not> Digest_Valid U g then (d, Inl [Snapshot_ErrInvalidDigest])
     else (d\<lparr>cache_entries := filter (\<lambda>r. c_digest r \<noteq> g) (cache_entries d)\<rparr>, Inr ()))"

fun observe :: "casing \<Rightarrow> digest list \<Rightarrow> cache_entry list \<Rightarrow> unit result" where
  "observe U seen [] = Inr ()"
| "observe U seen (e # es) =
    ebind (Entry_Validate U e) (\<lambda>_.
      if enDigest e \<in> set seen then Inl [Cache_ErrInvalidEntry] else observe U (enDigest e # seen) es)"

fun adopt :: "cache_entry list \<Rightarrow> cache_row list \<Rightarrow> cache_row list result" where
  "adopt [] rows = Inr rows"
| "adopt (e # es) rows =
    (if \<not> cache_row_check (cache_row_of e) then Inl [Sqlite_ErrConstraint]
     else if row_with c_digest (enDigest e) rows = None then adopt es (rows @ [cache_row_of e])
     else adopt es (update_where (\<lambda>r. c_digest r = enDigest e) (\<lambda>r. r\<lparr>c_size_bytes := enSize e\<rparr>) rows))"

definition Reconcile :: "casing \<Rightarrow> cache_entry list \<Rightarrow> content_db \<Rightarrow> content_db \<times> unit result" where
  "Reconcile U observed d =
    transact d (ebind (observe U [] observed) (\<lambda>_.
      if list_ex (\<lambda>r. \<not> is_ok (ParseDigest U (c_digest r))) (cache_entries d) then Inl [Cache_ErrInvalidEntry]
      else ebind (adopt observed (filter (\<lambda>r. c_digest r \<in> enDigest ` set observed) (cache_entries d))) (\<lambda>rows.
        Inr (d\<lparr>cache_entries := rows\<rparr>, ()))))"

definition Stats :: "content_db \<Rightarrow> cache_stats result" where
  "Stats d =
    (let guarded = filter (\<lambda>r. protected_digest d (c_digest r)) (cache_entries d);
         s = \<lparr>stEntries = int (length (cache_entries d)), stBytes = sum_list (map c_size_bytes (cache_entries d)),
              stProtectedEntries = int (length guarded), stProtectedBytes = sum_list (map c_size_bytes guarded)\<rparr>
     in ebind (Stats_Validate s) (\<lambda>_. Inr s))"

definition scan_candidate :: "casing \<Rightarrow> cache_row \<Rightarrow> cache_entry result" where
  "scan_candidate U r =
    (if \<not> is_ok (ParseDigest U (c_digest r)) then Inl [Cache_ErrInvalidEntry]
     else ebind (Entry_Validate U (entry_of r)) (\<lambda>_. Inr (entry_of r)))"

definition lru_key :: "cache_entry \<Rightarrow> time \<times> digest" where
  "lru_key e = (enLastAccessed e, enDigest e)"

definition EvictionCandidates :: "casing \<Rightarrow> content_db \<Rightarrow> cache_entry list result" where
  "EvictionCandidates U d =
    ebind (collect (scan_candidate U) (sort_key (lru_key \<circ> entry_of)
        (filter (\<lambda>r. \<not> protected_digest d (c_digest r)) (cache_entries d)))) (\<lambda>es.
      if \<not> sorted (map lru_key es) then Inl [Cache_ErrInvalidEntry] else Inr es)"

definition sqlite_index :: "casing \<Rightarrow> content_db cache_index" where
  "sqlite_index U = \<lparr>ix_Record = Record U, ix_Delete = Delete U, ix_Reconcile = Reconcile U, ix_Stats = Stats,
     ix_EvictionCandidates = EvictionCandidates U\<rparr>"

section \<open>The contract\<close>

text \<open>An index is seen as a finite map from digests to entries; its usage is the sum of their sizes.\<close>

type_synonym cache_view = "digest \<Rightarrow> cache_entry option"

definition usage :: "cache_view \<Rightarrow> int" where
  "usage v = (\<Sum>g\<in>dom v. enSize (the (v g)))"

definition recordable :: "casing \<Rightarrow> cache_entry \<Rightarrow> bool" where
  "recordable U e \<longleftrightarrow> Entry_Validate U e = Inr () \<and> 0 < enLastAccessed e \<and> nano_ok (enLastAccessed e)"

definition entry_sizes :: "cache_view \<Rightarrow> digest \<Rightarrow> int option" where
  "entry_sizes v g = map_option enSize (v g)"

locale cache_repository =
  fixes U :: casing
    and R :: "'s cache_index"
    and inv :: "'s \<Rightarrow> bool"
    and view :: "'s \<Rightarrow> cache_view"
    and guarded :: "'s \<Rightarrow> digest \<Rightarrow> bool"
  assumes view_finite: "inv s \<Longrightarrow> finite (dom (view s))"
    and view_valid: "inv s \<Longrightarrow> view s g = Some e \<Longrightarrow> enDigest e = g \<and> Entry_Validate U e = Inr ()"
    and record_ok: "inv s \<Longrightarrow> recordable U e \<Longrightarrow>
      \<exists>s'. ix_Record R e s = (s', Inr ()) \<and> inv s' \<and> view s' = (view s)(enDigest e \<mapsto> e) \<and> guarded s' = guarded s"
    and record_failed: "ix_Record R e s = (s', Inl x) \<Longrightarrow> s' = s"
    and delete_ok: "inv s \<Longrightarrow> Digest_Valid U g \<Longrightarrow>
      \<exists>s'. ix_Delete R g s = (s', Inr ()) \<and> inv s' \<and> view s' = (view s)(g := None) \<and> guarded s' = guarded s"
    and reconcile_ok: "inv s \<Longrightarrow> list_all (recordable U) es \<Longrightarrow> distinct (map enDigest es) \<Longrightarrow>
      \<exists>s'. ix_Reconcile R es s = (s', Inr ()) \<and> inv s' \<and> guarded s' = guarded s
        \<and> entry_sizes (view s') = map_of (map (\<lambda>e. (enDigest e, enSize e)) es)
        \<and> (\<forall>g e e'. view s g = Some e \<longrightarrow> view s' g = Some e' \<longrightarrow> enLastAccessed e' = enLastAccessed e)"
    and stats_ok: "inv s \<Longrightarrow> \<exists>st. ix_Stats R s = Inr st \<and> stBytes st = usage (view s)
        \<and> stProtectedBytes st = usage (\<lambda>g. if guarded s g then view s g else None)"
    and candidates_ok: "inv s \<Longrightarrow> \<exists>es. ix_EvictionCandidates R s = Inr es \<and> distinct (map enDigest es)
        \<and> sorted (map lru_key es) \<and> set es = {e. \<exists>g. view s g = Some e \<and> \<not> guarded s g}"

section \<open>Usage\<close>

lemma usage_delete: "finite (dom v) \<Longrightarrow> v g = Some e \<Longrightarrow> usage (v(g := None)) = usage v - enSize e"
proof -
  assume "finite (dom v)" "v g = Some e"
  then have "usage v = enSize (the (v g)) + (\<Sum>x\<in>dom v - {g}. enSize (the (v x)))"
    unfolding usage_def by (subst sum.remove [of _ g]) auto
  moreover have "(\<Sum>x\<in>dom v - {g}. enSize (the (v x))) = usage (v(g := None))"
    unfolding usage_def by (rule sum.cong) auto
  ultimately show ?thesis using \<open>v g = Some e\<close> by simp
qed

lemma usage_sizes: "entry_sizes v = entry_sizes w \<Longrightarrow> usage v = usage w"
proof -
  assume e: "entry_sizes v = entry_sizes w"
  have "dom (entry_sizes u) = dom u" for u by (auto simp: entry_sizes_def)
  then have "dom v = dom w" using e by metis
  moreover have "enSize (the (v g)) = enSize (the (w g))" if "g \<in> dom w" for g
    using fun_cong [OF e, of g] that by (cases "v g"; cases "w g") (auto simp: entry_sizes_def)
  ultimately show ?thesis unfolding usage_def by (intro sum.cong) auto
qed

section \<open>The SQLite repository keeps the contract\<close>

definition cache_ok :: "casing \<Rightarrow> content_db \<Rightarrow> bool" where
  "cache_ok U d \<longleftrightarrow> keyed c_digest (cache_entries d)
     \<and> list_all (\<lambda>r. cache_row_check r \<and> Digest_Valid U (c_digest r) \<and> nano_ok (c_last_accessed_ns r)) (cache_entries d)"

definition sqlite_view :: "content_db \<Rightarrow> cache_view" where
  "sqlite_view d g = map_option entry_of (row_with c_digest g (cache_entries d))"

lemma entry_of_row [simp]:
  "enDigest (entry_of r) = c_digest r" "enSize (entry_of r) = c_size_bytes r" "enLastAccessed (entry_of r) = c_last_accessed_ns r"
  by (simp_all add: entry_of_def)

lemma cache_row_of_entry [simp]:
  "c_digest (cache_row_of e) = enDigest e" "c_size_bytes (cache_row_of e) = enSize e"
  "c_last_accessed_ns (cache_row_of e) = UnixNano (enLastAccessed e)"
  by (simp_all add: cache_row_of_def)

lemma recordable_row:
  assumes "recordable U e"
  shows "cache_row_check (cache_row_of e)" "Digest_Valid U (enDigest e)" "entry_of (cache_row_of e) = e"
  using assms Digest_Valid_length [of U "enDigest e"]
  by (auto simp: recordable_def Entry_Validate_def cache_row_check_def MaximumChunkBytes_def entry_of_def split: if_splits)

lemma row_entry_valid: "cache_ok U d \<Longrightarrow> r \<in> set (cache_entries d) \<Longrightarrow> Entry_Validate U (entry_of r) = Inr ()"
  by (auto simp: cache_ok_def list_all_iff Entry_Validate_def cache_row_check_def MaximumChunkBytes_def)

lemma protected_cache [simp]: "protected_digest (d\<lparr>cache_entries := rows\<rparr>) = protected_digest d"
  by (rule ext) (simp add: protected_digest_def active_job_def referenced_def)

lemma sqlite_view_dom: "dom (sqlite_view d) = c_digest ` set (cache_entries d)"
  using row_with_None_iff [of c_digest _ "cache_entries d"] by (auto simp: sqlite_view_def dom_def)

lemma usage_rows:
  assumes "keyed c_digest rows" "v = (\<lambda>g. map_option entry_of (row_with c_digest g rows))"
  shows "usage v = sum_list (map c_size_bytes rows)"
  using assms
proof (induction rows arbitrary: v)
  case (Cons r rows)
  let ?w = "\<lambda>g. map_option entry_of (row_with c_digest g rows)"
  have k: "keyed c_digest rows" "row_with c_digest (c_digest r) rows = None"
    using Cons.prems(1) by (auto simp: keyed_def row_with_None_iff)
  have "finite (dom v)"
    by (rule finite_subset [of _ "c_digest ` set (r # rows)"])
      (auto simp: Cons.prems(2) row_with_None_iff dom_def split: if_splits dest: row_with_SomeD)
  moreover have "v (c_digest r) = Some (entry_of r)" by (simp add: Cons.prems(2))
  moreover have "v(c_digest r := None) = ?w" using k(2) by (auto simp: Cons.prems(2))
  ultimately have "usage ?w = usage v - c_size_bytes r" using usage_delete [of v "c_digest r"] by simp
  then show ?case using Cons.IH [OF k(1) refl] by simp
qed (simp add: usage_def)

lemma row_with_filter:
  "row_with k x (filter p rows) = (if keyed k rows then (case row_with k x rows of Some r \<Rightarrow> if p r then Some r else None | None \<Rightarrow> None)
    else row_with k x (filter p rows))"
proof (induction rows)
  case (Cons r rows)
  show ?case
  proof (cases "keyed k (r # rows)")
    case True
    then have "keyed k rows" "row_with k (k r) rows = None" by (auto simp: keyed_def row_with_None_iff)
    then show ?thesis using Cons True by (auto split: option.splits)
  qed simp
qed simp

lemma keyed_filter: "keyed k rows \<Longrightarrow> keyed k (filter p rows)"
  by (simp add: keyed_def distinct_map_filter)

lemma Delete_sqlite:
  assumes "cache_ok U d" "Digest_Valid U g"
  shows "\<exists>d'. Delete U g d = (d', Inr ()) \<and> cache_ok U d' \<and> sqlite_view d' = (sqlite_view d)(g := None)
    \<and> protected_digest d' = protected_digest d"
proof -
  let ?rows = "filter (\<lambda>r. c_digest r \<noteq> g) (cache_entries d)"
  have k: "keyed c_digest (cache_entries d)" using assms(1) by (simp add: cache_ok_def)
  have "row_with c_digest x ?rows = (if x = g then None else row_with c_digest x (cache_entries d))" for x
    using k by (subst row_with_filter) (auto split: option.splits dest: row_with_SomeD)
  then have "sqlite_view (d\<lparr>cache_entries := ?rows\<rparr>) = (sqlite_view d)(g := None)" by (auto simp: sqlite_view_def)
  moreover have "cache_ok U (d\<lparr>cache_entries := ?rows\<rparr>)"
    using assms(1) by (auto simp: cache_ok_def keyed_filter list_all_iff)
  ultimately show ?thesis using assms(2) by (auto simp: Delete_def)
qed

lemma Record_sqlite:
  assumes "cache_ok U d" "recordable U e"
  shows "\<exists>d'. Record U e d = (d', Inr ()) \<and> cache_ok U d' \<and> sqlite_view d' = (sqlite_view d)(enDigest e \<mapsto> e)
    \<and> protected_digest d' = protected_digest d"
proof -
  note r = recordable_row [OF assms(2)]
  have k: "keyed c_digest (cache_entries d)" using assms(1) by (simp add: cache_ok_def)
  obtain rows where up: "sql_upsert cache_row_check c_digest (cache_row_of e) (cache_entries d) = Inr rows"
    using r(1) by (cases "row_with c_digest (enDigest e) (cache_entries d) = None") (auto simp: sql_upsert_def)
  note u = sql_upsert_keyed [OF k up]
  have "set rows \<subseteq> insert (cache_row_of e) (set (cache_entries d))"
    using up by (auto simp: sql_upsert_def set_update_where split: if_splits)
  then have "cache_ok U (d\<lparr>cache_entries := rows\<rparr>)"
    using assms(1) r u by (auto simp: cache_ok_def list_all_iff)
  moreover have "sqlite_view (d\<lparr>cache_entries := rows\<rparr>) = (sqlite_view d)(enDigest e \<mapsto> e)"
    using u r(3) by (auto simp: sqlite_view_def)
  moreover have "Record U e d = (d\<lparr>cache_entries := rows\<rparr>, Inr ())"
    using assms(2) up by (simp add: Record_def recordable_def)
  ultimately show ?thesis by simp
qed

text \<open>Adopting observed entries keeps the access times the table already has.\<close>

definition adopted :: "cache_row option \<Rightarrow> cache_entry \<Rightarrow> cache_row" where
  "adopted old e = (case old of None \<Rightarrow> cache_row_of e | Some r \<Rightarrow> r\<lparr>c_size_bytes := enSize e\<rparr>)"

definition rows_valid :: "casing \<Rightarrow> cache_row list \<Rightarrow> bool" where
  "rows_valid U rows \<longleftrightarrow> keyed c_digest rows
     \<and> list_all (\<lambda>r. cache_row_check r \<and> Digest_Valid U (c_digest r) \<and> nano_ok (c_last_accessed_ns r)) rows"

lemma adopt_step:
  assumes "rows_valid U rows" "recordable U e"
  shows "\<exists>rows'. adopt (e # es) rows = adopt es rows' \<and> rows_valid U rows'
    \<and> (\<forall>g. row_with c_digest g rows' = (if g = enDigest e then Some (adopted (row_with c_digest g rows) e) else row_with c_digest g rows))"
proof (cases "row_with c_digest (enDigest e) rows")
  case None
  have "rows_valid U (rows @ [cache_row_of e])"
    using assms None recordable_row [OF assms(2)] by (auto simp: rows_valid_def keyed_snoc)
  then show ?thesis
    using None recordable_row(1) [OF assms(2)]
    by (intro exI [of _ "rows @ [cache_row_of e]"]) (auto simp: adopted_def row_with_append split: option.splits)
next
  case (Some r)
  let ?rows = "update_where (\<lambda>r. c_digest r = enDigest e) (\<lambda>r. r\<lparr>c_size_bytes := enSize e\<rparr>) rows"
  have c: "1 \<le> enSize e" "enSize e \<le> 524288"
    using recordable_row(1) [OF assms(2)] by (auto simp: cache_row_check_def)
  have "rows_valid U ?rows"
    using assms(1) c by (auto simp: rows_valid_def keyed_update_where list_all_iff set_update_where cache_row_check_def)
  moreover have "row_with c_digest g ?rows
      = (if g = enDigest e then Some (adopted (row_with c_digest g rows) e) else row_with c_digest g rows)" for g
    by (cases "row_with c_digest g rows")
      (use Some in \<open>auto simp: row_with_update_where adopted_def dest: row_with_SomeD\<close>)
  ultimately show ?thesis using Some recordable_row(1) [OF assms(2)] by (intro exI [of _ ?rows]) auto
qed

lemma adopt_rows:
  "rows_valid U rows \<Longrightarrow> list_all (recordable U) es \<Longrightarrow> distinct (map enDigest es) \<Longrightarrow>
   \<exists>rows'. adopt es rows = Inr rows' \<and> rows_valid U rows'
    \<and> (\<forall>g. row_with c_digest g rows' = (case map_of (map (\<lambda>e. (enDigest e, e)) es) g of
        None \<Rightarrow> row_with c_digest g rows | Some e \<Rightarrow> Some (adopted (row_with c_digest g rows) e)))"
proof (induction es arbitrary: rows)
  case (Cons e es)
  obtain mid where m: "adopt (e # es) rows = adopt es mid" "rows_valid U mid"
    "\<And>g. row_with c_digest g mid = (if g = enDigest e then Some (adopted (row_with c_digest g rows) e) else row_with c_digest g rows)"
    using adopt_step [OF Cons.prems(1)] Cons.prems(2) by fastforce
  obtain rows' where r: "adopt es mid = Inr rows'" "rows_valid U rows'"
    "\<And>g. row_with c_digest g rows' = (case map_of (map (\<lambda>e. (enDigest e, e)) es) g of
        None \<Rightarrow> row_with c_digest g mid | Some e \<Rightarrow> Some (adopted (row_with c_digest g mid) e))"
    using Cons.IH [OF m(2)] Cons.prems(2,3) by auto
  have "map_of (map (\<lambda>e. (enDigest e, e)) es) (enDigest e) = None"
    using Cons.prems(3) by (auto simp: map_of_eq_None_iff)
  then show ?case using m(1) r m(3) by (intro exI [of _ rows']) (auto split: option.splits)
qed simp

lemma observe_ok:
  "list_all (recordable U) es \<Longrightarrow> distinct (map enDigest es) \<Longrightarrow> set seen \<inter> enDigest ` set es = {} \<Longrightarrow> observe U seen es = Inr ()"
  by (induction es arbitrary: seen) (auto simp: recordable_def)

lemma Reconcile_sqlite:
  assumes "cache_ok U d" "list_all (recordable U) es" "distinct (map enDigest es)"
  shows "\<exists>d'. Reconcile U es d = (d', Inr ()) \<and> cache_ok U d' \<and> protected_digest d' = protected_digest d
    \<and> entry_sizes (sqlite_view d') = map_of (map (\<lambda>e. (enDigest e, enSize e)) es)
    \<and> (\<forall>g e e'. sqlite_view d g = Some e \<longrightarrow> sqlite_view d' g = Some e' \<longrightarrow> enLastAccessed e' = enLastAccessed e)"
proof -
  let ?old = "filter (\<lambda>r. c_digest r \<in> enDigest ` set es) (cache_entries d)"
  have k: "keyed c_digest (cache_entries d)" using assms(1) by (simp add: cache_ok_def)
  have v: "rows_valid U ?old" using assms(1) by (auto simp: rows_valid_def cache_ok_def keyed_filter list_all_iff)
  have old: "row_with c_digest g ?old = (if g \<in> enDigest ` set es then row_with c_digest g (cache_entries d) else None)" for g
    using k by (subst row_with_filter) (auto split: option.splits dest: row_with_SomeD)
  obtain rows where r: "adopt es ?old = Inr rows" "rows_valid U rows"
    and w: "\<And>g. row_with c_digest g rows = (case map_of (map (\<lambda>e. (enDigest e, e)) es) g of
        None \<Rightarrow> row_with c_digest g ?old | Some e \<Rightarrow> Some (adopted (row_with c_digest g ?old) e))"
    using adopt_rows [OF v assms(2,3)] by blast
  let ?d = "d\<lparr>cache_entries := rows\<rparr>"
  have none: "map_of (map (\<lambda>e. (enDigest e, e)) es) g = None \<longleftrightarrow> g \<notin> enDigest ` set es" for g
    by (force simp: map_of_eq_None_iff)
  have sizes: "entry_sizes (sqlite_view ?d) g = map_of (map (\<lambda>e. (enDigest e, enSize e)) es) g" for g
  proof -
    have "map_of (map (\<lambda>e. (enDigest e, enSize e)) es) g = map_option enSize (map_of (map (\<lambda>e. (enDigest e, e)) es) g)"
      by (induction es) auto
    moreover have "enSize (entry_of (adopted o' e)) = enSize e" for o' e by (cases o') (auto simp: adopted_def)
    ultimately show ?thesis
      using none [of g] by (auto simp: entry_sizes_def sqlite_view_def w old split: option.splits)
  qed
  have "enLastAccessed e' = enLastAccessed e" if "sqlite_view d g = Some e" "sqlite_view ?d g = Some e'" for g e e'
    using that none [of g] by (auto simp: sqlite_view_def w old adopted_def split: option.splits if_splits)
  moreover have "Reconcile U es d = (?d, Inr ())"
    using assms r(1) observe_ok [OF assms(2,3), of "[]"]
    by (auto simp: Reconcile_def cache_ok_def list_ex_iff list_all_iff Digest_Valid_def)
  moreover have "cache_ok U ?d" using r(2) by (simp add: cache_ok_def rows_valid_def)
  ultimately show ?thesis using sizes by (intro exI [of _ ?d]) (auto simp: fun_eq_iff)
qed

lemma row_sizes_nonneg: "cache_ok U d \<Longrightarrow> r \<in> set (cache_entries d) \<Longrightarrow> 0 \<le> c_size_bytes r"
  by (auto simp: cache_ok_def list_all_iff cache_row_check_def)

lemma sum_filter_le: "(\<And>x. x \<in> set xs \<Longrightarrow> 0 \<le> f x) \<Longrightarrow> sum_list (map f (filter p xs)) \<le> sum_list (map f xs)" for f :: "'a \<Rightarrow> int"
  by (induction xs) (auto simp: add_increasing)

lemma Stats_sqlite:
  assumes "cache_ok U d"
  shows "\<exists>st. Stats d = Inr st \<and> stBytes st = usage (sqlite_view d)
    \<and> stProtectedBytes st = usage (\<lambda>g. if protected_digest d g then sqlite_view d g else None)"
proof -
  let ?rows = "cache_entries d" and ?g = "filter (\<lambda>r. protected_digest d (c_digest r)) (cache_entries d)"
  have k: "keyed c_digest ?rows" using assms by (simp add: cache_ok_def)
  have n: "0 \<le> sum_list (map c_size_bytes ?g)" "sum_list (map c_size_bytes ?g) \<le> sum_list (map c_size_bytes ?rows)"
    using row_sizes_nonneg [OF assms] by (auto intro!: sum_list_nonneg sum_filter_le)
  have "usage (sqlite_view d) = sum_list (map c_size_bytes ?rows)"
    by (rule usage_rows [OF k]) (simp add: sqlite_view_def fun_eq_iff)
  moreover have "usage (\<lambda>g. if protected_digest d g then sqlite_view d g else None) = sum_list (map c_size_bytes ?g)"
  proof (rule usage_rows [OF keyed_filter [OF k]], rule ext)
    fix g
    show "(if protected_digest d g then sqlite_view d g else None) = map_option entry_of (row_with c_digest g ?g)"
      using k by (subst row_with_filter) (auto simp: sqlite_view_def split: option.splits dest: row_with_SomeD)
  qed
  ultimately show ?thesis using n by (simp add: Stats_def Stats_Validate_def Let_def not_less)
qed

lemma EvictionCandidates_sqlite:
  assumes "cache_ok U d"
  shows "\<exists>es. EvictionCandidates U d = Inr es \<and> distinct (map enDigest es) \<and> sorted (map lru_key es)
    \<and> set es = {e. \<exists>g. sqlite_view d g = Some e \<and> \<not> protected_digest d g}"
proof -
  let ?f = "filter (\<lambda>r. \<not> protected_digest d (c_digest r)) (cache_entries d)"
  let ?s = "sort_key (lru_key \<circ> entry_of) ?f"
  have k: "keyed c_digest (cache_entries d)" using assms by (simp add: cache_ok_def)
  have "scan_candidate U r = Inr (entry_of r)" if "r \<in> set (cache_entries d)" for r
    using row_entry_valid [OF assms that] assms that
    by (auto simp: scan_candidate_def cache_ok_def list_all_iff Digest_Valid_def)
  then have c: "collect (scan_candidate U) ?s = Inr (map entry_of ?s)" by (intro collect_total) auto
  have srt: "sorted (map lru_key (map entry_of ?s))" using sorted_sort_key [of "lru_key \<circ> entry_of" ?f] by simp
  have "distinct (map c_digest ?f)" using keyed_filter [OF k] by (simp add: keyed_def)
  then have "distinct (map c_digest ?s)" by (simp add: distinct_map)
  then have "distinct (map enDigest (map entry_of ?s))" by (simp add: comp_def)
  moreover have "set (map entry_of ?s) = {e. \<exists>g. sqlite_view d g = Some e \<and> \<not> protected_digest d g}"
    using row_with_Some_iff [OF k] by (auto simp: sqlite_view_def)
  ultimately show ?thesis using c srt by (intro exI [of _ "map entry_of ?s"]) (simp add: EvictionCandidates_def)
qed

lemma Record_failed: "Record U e d = (d', Inl x) \<Longrightarrow> d' = d"
  by (simp add: Record_def transact_Inl_iff)

interpretation sqlite_cache: cache_repository U "sqlite_index U" "cache_ok U" sqlite_view protected_digest for U
proof unfold_locales
  show "finite (dom (sqlite_view s))" for s by (simp add: sqlite_view_dom)
  show "enDigest e = g \<and> Entry_Validate U e = Inr ()" if "cache_ok U s" "sqlite_view s g = Some e" for s g e
    using that row_entry_valid [OF that(1)] by (auto simp: sqlite_view_def dest: row_with_SomeD)
qed (unfold sqlite_index_def cache_index.select_convs, (erule Record_failed | rule Record_sqlite Delete_sqlite
  Reconcile_sqlite Stats_sqlite EvictionCandidates_sqlite; assumption)+)

end
