(* ===== verification/ContentStore.thy ===== *)
theory ContentStore
  imports ContentCache "HOL-Library.AList"
begin

text \<open>
  \<open>internal/infra/cas/store.go\<close> and \<open>internal/infra/cas/managed.go\<close>: the verified, quota-managed store of chunks. Its
  files are an association list from paths to files below the root's \<open>chunks\<close> directory; its index is a value of the
  interface \<open>contentcache.Repository\<close> (\<open>R\<close>). The daemon always opens the store with an index (\<open>NewManaged\<close>), so the
  store without one is not modelled, nor are a nil receiver and a cancelled context. A failing file operation is the
  error \<open>X\<close> gives for it and the path. Each reading of the clock is its own instant: \<open>clock i\<close> is the one of the \<open>i\<close>-th
  reading of the operation. Operations are atomic here except where the text says otherwise; the locks of the
  store order concurrent callers.
\<close>

section \<open>State\<close>

definition defaultReservationLifetime :: int where "defaultReservationLifetime = 600000000000"
definition maximumReservations :: nat where "maximumReservations = 64"

record disk_file =
  dRegular :: bool
  dData :: "byte list"
  dModTime :: time

type_synonym disk = "(string \<times> disk_file) list"

record io_errors =
  xOpen :: "string \<Rightarrow> goerror option"
  xStat :: "string \<Rightarrow> goerror option"
  xRead :: "string \<Rightarrow> goerror option"
  xRemove :: "string \<Rightarrow> goerror option"
  xMkdir :: "string \<Rightarrow> goerror option"
  xTemp :: "string \<Rightarrow> goerror option"
  xWrite :: "string \<Rightarrow> goerror option"
  xRename :: "string \<Rightarrow> goerror option"

definition no_errors :: io_errors where
  "no_errors = \<lparr>xOpen = (\<lambda>_. None), xStat = (\<lambda>_. None), xRead = (\<lambda>_. None), xRemove = (\<lambda>_. None),
     xMkdir = (\<lambda>_. None), xTemp = (\<lambda>_. None), xWrite = (\<lambda>_. None), xRename = (\<lambda>_. None)\<rparr>"

record reservation =
  rvDigests :: "digest list"
  rvExpiresAt :: time

record 's store =
  sRoot :: string
  sIndex :: 's
  sMaximumBytes :: int
  sDisk :: disk
  sActiveUses :: int
  sOperationPins :: "digest set"
  sTransientPins :: "digest \<Rightarrow> int"
  sReservations :: "(digest \<times> reservation) list"

type_synonym clock = "nat \<Rightarrow> time"

definition advance :: "nat \<Rightarrow> clock \<Rightarrow> clock" where
  "advance n clock = (\<lambda>i. clock (i + n))"

definition chunkPath :: "casing \<Rightarrow> string \<Rightarrow> digest \<Rightarrow> string result" where
  "chunkPath U root g =
    (if root = '''' \<or> \<not> Digest_Valid U g then Inl [Cas_ErrInvalidStore]
     else Inr ((if root = ''/'' then '''' else root) @ ''/chunks/'' @ take 2 g @ ''/'' @ g))"

section \<open>Pins\<close>

definition expireReservationsLocked :: "time \<Rightarrow> 's store \<Rightarrow> 's store" where
  "expireReservationsLocked now st = st\<lparr>sReservations := filter (\<lambda>(_, r). rvExpiresAt r > now) (sReservations st)\<rparr>"

definition pinnedLocked :: "'s store \<Rightarrow> digest \<Rightarrow> bool" where
  "pinnedLocked st g \<longleftrightarrow> sTransientPins st g > 0 \<or> g \<in> sOperationPins st
     \<or> list_ex (\<lambda>(_, r). g \<in> set (rvDigests r)) (sReservations st)"

definition pinAccess :: "time \<Rightarrow> digest \<Rightarrow> 's store \<Rightarrow> 's store" where
  "pinAccess now g st =
    (let st1 = expireReservationsLocked now st in
     st1\<lparr>sTransientPins := (sTransientPins st1)(g := sTransientPins st1 g + 1),
         sOperationPins := (if sActiveUses st1 > 0 then insert g (sOperationPins st1) else sOperationPins st1)\<rparr>)"

definition releasePin :: "digest \<Rightarrow> 's store \<Rightarrow> 's store" where
  "releasePin g st = st\<lparr>sTransientPins := (sTransientPins st)(g := sTransientPins st g - 1)\<rparr>"

section \<open>Enforcing the quota\<close>

definition index_delete :: "'s cache_index \<Rightarrow> digest \<Rightarrow> 's store \<Rightarrow> 's store \<times> unit result" where
  "index_delete R g st = (case ix_Delete R g (sIndex st) of (s, r) \<Rightarrow> (st\<lparr>sIndex := s\<rparr>, r))"

definition index_record :: "'s cache_index \<Rightarrow> cache_entry \<Rightarrow> 's store \<Rightarrow> 's store \<times> unit result" where
  "index_record R e st = (case ix_Record R e (sIndex st) of (s, r) \<Rightarrow> (st\<lparr>sIndex := s\<rparr>, r))"

text \<open>\<open>os.Remove\<close>, with \<open>ErrNotExist\<close> accepted.\<close>

definition remove_file :: "io_errors \<Rightarrow> string \<Rightarrow> disk \<Rightarrow> disk result" where
  "remove_file X p dk =
    (if map_of dk p = None then Inr dk
     else (case xRemove X p of Some e \<Rightarrow> Inl e | None \<Rightarrow> Inr (AList.delete p dk)))"

definition remove_chunk :: "casing \<Rightarrow> io_errors \<Rightarrow> digest \<Rightarrow> 's store \<Rightarrow> 's store result" where
  "remove_chunk U X g st =
    ebind (chunkPath U (sRoot st) g) (\<lambda>p. ebind (remove_file X p (sDisk st)) (\<lambda>dk. Inr (st\<lparr>sDisk := dk\<rparr>)))"

fun evict_loop ::
    "casing \<Rightarrow> 's cache_index \<Rightarrow> io_errors \<Rightarrow> clock \<Rightarrow> cache_entry list \<Rightarrow> int \<Rightarrow> int \<Rightarrow> 's store \<Rightarrow> 's store \<times> int result" where
  "evict_loop U R X clock [] currentBytes pinnedBytes st = (st, Inr pinnedBytes)"
| "evict_loop U R X clock (c # cs) currentBytes pinnedBytes st =
    (if currentBytes \<le> sMaximumBytes st then (st, Inr pinnedBytes)
     else let st1 = expireReservationsLocked (clock 0) st in
       if pinnedLocked st1 (enDigest c)
       then evict_loop U R X (advance 1 clock) cs currentBytes (pinnedBytes + enSize c) st1
       else (case remove_chunk U X (enDigest c) st1 of
           Inl e \<Rightarrow> (st1, Inl e)
         | Inr st2 \<Rightarrow>
            (case index_delete R (enDigest c) st2 of
               (st3, Inl e) \<Rightarrow> (st3, Inl e)
             | (st3, Inr _) \<Rightarrow> evict_loop U R X (advance 1 clock) cs (currentBytes - enSize c) pinnedBytes st3)))"

definition enforce ::
    "casing \<Rightarrow> 's cache_index \<Rightarrow> io_errors \<Rightarrow> clock \<Rightarrow> 's store \<Rightarrow> 's store \<times> quota_error option result" where
  "enforce U R X clock st =
    (case ix_Stats R (sIndex st) of
       Inl e \<Rightarrow> (st, Inl e)
     | Inr stats \<Rightarrow>
        if stBytes stats \<le> sMaximumBytes st then (st, Inr None)
        else (case ix_EvictionCandidates R (sIndex st) of
            Inl e \<Rightarrow> (st, Inl e)
          | Inr candidates \<Rightarrow>
             (case evict_loop U R X clock candidates (stBytes stats) (stProtectedBytes stats) st of
                (st', Inl e) \<Rightarrow> (st', Inl e)
              | (st', Inr pinnedBytes) \<Rightarrow>
                 (case ix_Stats R (sIndex st') of
                    Inl e \<Rightarrow> (st', Inl e)
                  | Inr remaining \<Rightarrow>
                     if stBytes remaining > sMaximumBytes st'
                     then (st', Inr (Some \<lparr>qMaximumBytes = sMaximumBytes st', qCurrentBytes = stBytes remaining,
                            qPinnedBytes = min pinnedBytes (stBytes remaining)\<rparr>))
                     else (st', Inr None)))))"

text \<open>\<open>Enforce\<close> returns the quota error as an error that wraps \<open>ErrQuotaExceeded\<close>.\<close>

definition Enforce :: "casing \<Rightarrow> 's cache_index \<Rightarrow> io_errors \<Rightarrow> clock \<Rightarrow> 's store \<Rightarrow> 's store \<times> unit result" where
  "Enforce U R X clock st =
    (case enforce U R X clock st of
       (st', Inl e) \<Rightarrow> (st', Inl e)
     | (st', Inr None) \<Rightarrow> (st', Inr ())
     | (st', Inr (Some _)) \<Rightarrow> (st', Inl [Cache_ErrQuotaExceeded]))"

section \<open>Reading and writing chunks\<close>

definition read_body ::
    "casing \<Rightarrow> (byte list \<Rightarrow> byte list) \<Rightarrow> 's cache_index \<Rightarrow> io_errors \<Rightarrow> time \<Rightarrow> digest \<Rightarrow> 's store \<Rightarrow> 's store \<times> byte list result" where
  "read_body U H R X now g st =
    (case chunkPath U (sRoot st) g of
       Inl e \<Rightarrow> (st, Inl e)
     | Inr p \<Rightarrow>
       (case map_of (sDisk st) p of
          None \<Rightarrow>
            (case index_delete R g st of
               (st', Inl e) \<Rightarrow> (st', Inl e)
             | (st', Inr _) \<Rightarrow> (st', Inl [Cas_ErrNotFound]))
        | Some f \<Rightarrow>
           (case xOpen X p of Some e \<Rightarrow> (st, Inl e) | None \<Rightarrow>
           (case xStat X p of Some e \<Rightarrow> (st, Inl e) | None \<Rightarrow>
             if \<not> dRegular f \<or> length (dData f) = 0 \<or> int (length (dData f)) > MaximumChunkBytes
             then (st, Inl [Cas_ErrCorrupt])
             else (case xRead X p of Some e \<Rightarrow> (st, Inl e) | None \<Rightarrow>
               if Sum H (dData f) \<noteq> g then (st, Inl [Cas_ErrCorrupt])
               else (case index_record R \<lparr>enDigest = g, enSize = int (length (dData f)), enLastAccessed = now\<rparr> st of
                   (st', Inl e) \<Rightarrow> (st', Inl e)
                 | (st', Inr _) \<Rightarrow> (st', Inr (dData f))))))))"

definition Read_chunk ::
    "casing \<Rightarrow> (byte list \<Rightarrow> byte list) \<Rightarrow> 's cache_index \<Rightarrow> io_errors \<Rightarrow> clock \<Rightarrow> digest \<Rightarrow> 's store \<Rightarrow> 's store \<times> byte list result" where
  "Read_chunk U H R X clock g st =
    (if \<not> Digest_Valid U g then (st, Inl [Snapshot_ErrInvalidDigest])
     else (case read_body U H R X (clock 1) g (pinAccess (clock 0) g st) of (st', r) \<Rightarrow> (releasePin g st', r)))"

definition Has ::
    "casing \<Rightarrow> (byte list \<Rightarrow> byte list) \<Rightarrow> 's cache_index \<Rightarrow> io_errors \<Rightarrow> clock \<Rightarrow> digest \<Rightarrow> 's store \<Rightarrow> 's store \<times> bool result" where
  "Has U H R X clock g st =
    (case Read_chunk U H R X clock g st of
       (st', Inr _) \<Rightarrow> (st', Inr True)
     | (st', Inl e) \<Rightarrow> if errors_is e Cas_ErrNotFound then (st', Inr False) else (st', Inl e))"

fun missing_loop ::
    "casing \<Rightarrow> (byte list \<Rightarrow> byte list) \<Rightarrow> 's cache_index \<Rightarrow> io_errors \<Rightarrow> clock \<Rightarrow> digest list \<Rightarrow> 's store \<Rightarrow> 's store \<times> digest list result" where
  "missing_loop U H R X clock [] st = (st, Inr [])"
| "missing_loop U H R X clock (g # gs) st =
    (case Has U H R X clock g st of
       (st', Inl e) \<Rightarrow>
         if errors_is e Cas_ErrCorrupt
         then (case missing_loop U H R X (advance 2 clock) gs st' of
             (st'', Inr ms) \<Rightarrow> (st'', Inr (g # ms)) | (st'', Inl e') \<Rightarrow> (st'', Inl e'))
         else (st', Inl e)
     | (st', Inr present) \<Rightarrow>
         (case missing_loop U H R X (advance 2 clock) gs st' of
            (st'', Inr ms) \<Rightarrow> (st'', Inr (if present then ms else g # ms)) | (st'', Inl e') \<Rightarrow> (st'', Inl e')))"

definition Missing ::
    "casing \<Rightarrow> (byte list \<Rightarrow> byte list) \<Rightarrow> 's cache_index \<Rightarrow> io_errors \<Rightarrow> clock \<Rightarrow> digest list \<Rightarrow> 's store \<Rightarrow> 's store \<times> digest list result" where
  "Missing U H R X clock digests st =
    (if list_ex (\<lambda>g. \<not> Digest_Valid U g) digests then (st, Inl [Snapshot_ErrInvalidDigest])
     else missing_loop U H R X clock (sort (remdups digests)) st)"

definition commit_chunk ::
    "casing \<Rightarrow> (byte list \<Rightarrow> byte list) \<Rightarrow> 's cache_index \<Rightarrow> io_errors \<Rightarrow> clock \<Rightarrow> string \<Rightarrow> digest \<Rightarrow> byte list \<Rightarrow> 's store \<Rightarrow> 's store \<times> unit result" where
  "commit_chunk U H R X clock p g contents st =
    (case xMkdir X p of Some e \<Rightarrow> (st, Inl e) | None \<Rightarrow>
     (case xTemp X p of Some e \<Rightarrow> (st, Inl e) | None \<Rightarrow>
     (case xWrite X p of Some e \<Rightarrow> (st, Inl e) | None \<Rightarrow>
     (case xRename X p of
        Some e \<Rightarrow> (case Has U H R X clock g st of (st', r) \<Rightarrow> (st', if r = Inr True then Inr () else Inl e))
      | None \<Rightarrow>
         (case index_record R \<lparr>enDigest = g, enSize = int (length contents), enLastAccessed = clock 0\<rparr>
             (st\<lparr>sDisk := AList.update p \<lparr>dRegular = True, dData = contents, dModTime = clock 0\<rparr> (sDisk st)\<rparr>) of
            (st', Inl e) \<Rightarrow> (st', Inl e)
          | (st', Inr _) \<Rightarrow> Enforce U R X (advance 1 clock) st')))))"

definition put_body ::
    "casing \<Rightarrow> (byte list \<Rightarrow> byte list) \<Rightarrow> 's cache_index \<Rightarrow> io_errors \<Rightarrow> clock \<Rightarrow> digest \<Rightarrow> byte list \<Rightarrow> 's store \<Rightarrow> 's store \<times> unit result" where
  "put_body U H R X clock g contents st =
    (case chunkPath U (sRoot st) g of
       Inl e \<Rightarrow> (st, Inl e)
     | Inr p \<Rightarrow>
       (case Has U H R X clock g st of
          (st1, Inr True) \<Rightarrow> (st1, Inr ())
        | (st1, Inr False) \<Rightarrow> commit_chunk U H R X (advance 2 clock) p g contents st1
        | (st1, Inl e) \<Rightarrow>
           if \<not> errors_is e Cas_ErrCorrupt then (st1, Inl e)
           else (case remove_file X p (sDisk st1) of
               Inl e' \<Rightarrow> (st1, Inl e')
             | Inr dk \<Rightarrow>
                (case index_delete R g (st1\<lparr>sDisk := dk\<rparr>) of
                   (st2, Inl e') \<Rightarrow> (st2, Inl e')
                 | (st2, Inr _) \<Rightarrow> commit_chunk U H R X (advance 2 clock) p g contents st2))))"

definition Put ::
    "casing \<Rightarrow> (byte list \<Rightarrow> byte list) \<Rightarrow> 's cache_index \<Rightarrow> io_errors \<Rightarrow> clock \<Rightarrow> digest \<Rightarrow> byte list \<Rightarrow> 's store \<Rightarrow> 's store \<times> unit result" where
  "Put U H R X clock g contents st =
    (if \<not> Digest_Valid U g \<or> length contents = 0 \<or> int (length contents) > MaximumChunkBytes \<or> Sum H contents \<noteq> g
     then (st, Inl [Cas_ErrCorrupt])
     else (case put_body U H R X (advance 1 clock) g contents (pinAccess (clock 0) g st) of
         (st', r) \<Rightarrow> (releasePin g st', r)))"

section \<open>Uses and reservations\<close>

definition BeginUse :: "time \<Rightarrow> 's store \<Rightarrow> 's store" where
  "BeginUse now st = (let st1 = expireReservationsLocked now st in st1\<lparr>sActiveUses := sActiveUses st1 + 1\<rparr>)"

text \<open>The function \<open>BeginUse\<close> returns; \<open>sync.Once\<close> makes its second and later calls do nothing.\<close>

definition EndUse :: "casing \<Rightarrow> 's cache_index \<Rightarrow> io_errors \<Rightarrow> clock \<Rightarrow> 's store \<Rightarrow> 's store" where
  "EndUse U R X clock st =
    (let st1 = st\<lparr>sActiveUses := sActiveUses st - 1\<rparr> in
     if sActiveUses st1 = 0 then fst (Enforce U R X clock (st1\<lparr>sOperationPins := {}\<rparr>)) else st1)"

definition Reserve ::
    "casing \<Rightarrow> 's cache_index \<Rightarrow> io_errors \<Rightarrow> clock \<Rightarrow> digest \<Rightarrow> digest list \<Rightarrow> 's store \<Rightarrow> 's store \<times> unit result" where
  "Reserve U R X clock manifestID digests st =
    (if \<not> Digest_Valid U manifestID \<or> length digests = 0 \<or> int (length digests) > MaximumChunks
     then (st, Inl [Cas_ErrInvalidStore])
     else if list_ex (\<lambda>g. \<not> Digest_Valid U g) digests then (st, Inl [Snapshot_ErrInvalidDigest])
     else let now = clock 0; st1 = expireReservationsLocked now st; current = map_of (sReservations st1) manifestID in
       if current = None \<and> length (sReservations st1) \<ge> maximumReservations then (st1, Inl [Cache_ErrReservationLimit])
       else let held = (case current of None \<Rightarrow> [] | Some r \<Rightarrow> rvDigests r);
                additions = filter (\<lambda>g. g \<notin> set held) (remdups digests) in
         if int (length held + length additions) > MaximumChunks then (st1, Inl [Cas_ErrInvalidStore])
         else Enforce U R X (advance 1 clock)
           (st1\<lparr>sReservations := AList.update manifestID
              \<lparr>rvDigests = held @ additions, rvExpiresAt = now + defaultReservationLifetime\<rparr> (sReservations st1)\<rparr>))"

definition ReleaseReservation :: "casing \<Rightarrow> 's cache_index \<Rightarrow> io_errors \<Rightarrow> clock \<Rightarrow> digest \<Rightarrow> 's store \<Rightarrow> 's store" where
  "ReleaseReservation U R X clock manifestID st =
    (if \<not> Digest_Valid U manifestID then st
     else fst (Enforce U R X clock (st\<lparr>sReservations := AList.delete manifestID (sReservations st)\<rparr>)))"

definition Store_Stats :: "'s cache_index \<Rightarrow> 's store \<Rightarrow> cache_stats result" where
  "Store_Stats R st = ix_Stats R (sIndex st)"

section \<open>Opening\<close>

definition chunk_entry :: "casing \<Rightarrow> io_errors \<Rightarrow> string \<Rightarrow> string \<times> disk_file \<Rightarrow> cache_entry option" where
  "chunk_entry U X root pf =
    (case pf of (p, f) \<Rightarrow>
     let name = last (Split CHR ''/'' p) in
     if is_ok (ParseDigest U name) \<and> chunkPath U root name = Inr p \<and> xStat X p = None
        \<and> dRegular f \<and> length (dData f) > 0 \<and> int (length (dData f)) \<le> MaximumChunkBytes
     then Some \<lparr>enDigest = name, enSize = int (length (dData f)), enLastAccessed = dModTime f\<rparr> else None)"

fun reconcile_walk ::
    "casing \<Rightarrow> io_errors \<Rightarrow> string \<Rightarrow> disk \<Rightarrow> disk \<Rightarrow> disk \<times> cache_entry list result" where
  "reconcile_walk U X root [] dk = (dk, Inr [])"
| "reconcile_walk U X root (pf # rest) dk =
    (case chunk_entry U X root pf of
       Some e \<Rightarrow>
         (case reconcile_walk U X root rest dk of (dk', Inl x) \<Rightarrow> (dk', Inl x) | (dk', Inr es) \<Rightarrow> (dk', Inr (e # es)))
     | None \<Rightarrow>
         (case remove_file X (fst pf) dk of Inl x \<Rightarrow> (dk, Inl x) | Inr dk' \<Rightarrow> reconcile_walk U X root rest dk'))"

definition reconcile_store :: "casing \<Rightarrow> 's cache_index \<Rightarrow> io_errors \<Rightarrow> 's store \<Rightarrow> 's store \<times> unit result" where
  "reconcile_store U R X st =
    (case reconcile_walk U X (sRoot st) (sort_key fst (sDisk st)) (sDisk st) of
       (dk, Inl e) \<Rightarrow> (st\<lparr>sDisk := dk\<rparr>, Inl e)
     | (dk, Inr es) \<Rightarrow> (case ix_Reconcile R es (sIndex st) of (s, r) \<Rightarrow> (st\<lparr>sDisk := dk, sIndex := s\<rparr>, r)))"

definition newStore :: "string \<Rightarrow> string result" where
  "newStore root = (if TrimSpace root = '''' \<or> \<not> prefix ''/'' root then Inl [Cas_ErrInvalidStore] else Inr (path_Clean root))"

definition NewManaged ::
    "casing \<Rightarrow> 's cache_index \<Rightarrow> io_errors \<Rightarrow> clock \<Rightarrow> string \<Rightarrow> int \<Rightarrow> disk \<Rightarrow> 's \<Rightarrow> 's store \<times> unit result" where
  "NewManaged U R X clock root maximumBytes dk index =
    (let st = \<lparr>sRoot = root, sIndex = index, sMaximumBytes = maximumBytes, sDisk = dk, sActiveUses = 0,
        sOperationPins = {}, sTransientPins = (\<lambda>_. 0), sReservations = []\<rparr> in
     case ebind (ValidateMaximumBytes maximumBytes) (\<lambda>_. newStore root) of
       Inl e \<Rightarrow> (st, Inl e)
     | Inr root' \<Rightarrow>
        (case reconcile_store U R X (st\<lparr>sRoot := root'\<rparr>) of
           (st', Inl e) \<Rightarrow> (st', Inl e)
         | (st', Inr _) \<Rightarrow> Enforce U R X clock st'))"

section \<open>Paths and pins\<close>

definition chunk_path :: "string \<Rightarrow> digest \<Rightarrow> string" where
  "chunk_path root g = (if root = ''/'' then '''' else root) @ ''/chunks/'' @ take 2 g @ ''/'' @ g"

lemma chunkPath_Inr_iff: "chunkPath U root g = Inr p \<longleftrightarrow> root \<noteq> '''' \<and> Digest_Valid U g \<and> p = chunk_path root g"
  by (auto simp: chunkPath_def chunk_path_def)

lemma chunk_path_inject:
  assumes "chunk_path root g = chunk_path root h" "Digest_Valid U g" "Digest_Valid U h"
  shows "g = h"
proof -
  have "length g = length h" using Digest_Valid_length assms(2,3) by metis
  then show ?thesis using assms(1) by (auto simp: chunk_path_def)
qed

text \<open>A digest is held over a set of instants when a pin or a reservation protects it at all of them.\<close>

definition held_over :: "time set \<Rightarrow> 's store \<Rightarrow> digest \<Rightarrow> bool" where
  "held_over T st g \<longleftrightarrow> sTransientPins st g > 0 \<or> g \<in> sOperationPins st
     \<or> (\<exists>(i, r)\<in>set (sReservations st). g \<in> set (rvDigests r) \<and> (\<forall>t\<in>T. rvExpiresAt r > t))"

lemma pinned_expire: "pinnedLocked (expireReservationsLocked t st) g \<longleftrightarrow> held_over {t} st g"
  by (auto simp: pinnedLocked_def expireReservationsLocked_def held_over_def list_ex_iff)

lemma held_expire: "held_over T (expireReservationsLocked t st) g \<longleftrightarrow> held_over (insert t T) st g"
  by (auto simp: expireReservationsLocked_def held_over_def)

lemma expire_fields [simp]:
  "sRoot (expireReservationsLocked t st) = sRoot st" "sIndex (expireReservationsLocked t st) = sIndex st"
  "sMaximumBytes (expireReservationsLocked t st) = sMaximumBytes st" "sDisk (expireReservationsLocked t st) = sDisk st"
  "sActiveUses (expireReservationsLocked t st) = sActiveUses st"
  "sOperationPins (expireReservationsLocked t st) = sOperationPins st"
  "sTransientPins (expireReservationsLocked t st) = sTransientPins st"
  by (simp_all add: expireReservationsLocked_def)

lemma held_cong:
  "sTransientPins st' = sTransientPins st \<Longrightarrow> sOperationPins st' = sOperationPins st \<Longrightarrow> sReservations st' = sReservations st \<Longrightarrow>
   held_over T st' g = held_over T st g"
  by (simp add: held_over_def)

section \<open>What a sweep does\<close>

text \<open>
  \<open>sweep view clock cs st st' D k\<close>: from \<open>st\<close> to \<open>st'\<close> exactly the chunks \<open>D\<close> left the files and the index, all among the
  first \<open>k\<close> candidates and not held; the others of the first \<open>k\<close> were held. The rest of the state is as it was, except that
  reservations may have expired.
\<close>

definition same_but_swept :: "'s store \<Rightarrow> 's store \<Rightarrow> bool" where
  "same_but_swept st st' \<longleftrightarrow> sRoot st' = sRoot st \<and> sMaximumBytes st' = sMaximumBytes st \<and> sActiveUses st' = sActiveUses st
     \<and> sOperationPins st' = sOperationPins st \<and> sTransientPins st' = sTransientPins st
     \<and> set (sReservations st') \<subseteq> set (sReservations st)"

definition sweep ::
    "('s \<Rightarrow> cache_view) \<Rightarrow> clock \<Rightarrow> cache_entry list \<Rightarrow> 's store \<Rightarrow> 's store \<Rightarrow> digest set \<Rightarrow> nat \<Rightarrow> bool" where
  "sweep view clock cs st st' D k \<longleftrightarrow> same_but_swept st st' \<and> k \<le> length cs \<and> D \<subseteq> enDigest ` set (take k cs)
     \<and> view (sIndex st') = (\<lambda>g. if g \<in> D then None else view (sIndex st) g)
     \<and> map_of (sDisk st') = (\<lambda>p. if p \<in> chunk_path (sRoot st) ` D then None else map_of (sDisk st) p)
     \<and> (\<forall>g\<in>D. \<exists>n. \<not> held_over (clock ` {..n}) st g)
     \<and> (\<forall>c\<in>set (take k cs). enDigest c \<in> D \<or> (\<exists>n. held_over (clock ` {..n}) st (enDigest c)))
     \<and> (k = length cs \<or> usage (view (sIndex st')) \<le> sMaximumBytes st)
     \<and> (D = {} \<or> (\<exists>c\<in>set cs. enDigest c \<in> D \<and> usage (view (sIndex st')) + enSize c > sMaximumBytes st))"

lemma shift_instants: "insert (clock 0) (advance 1 clock ` {..n}) = clock ` {..Suc n}"
proof -
  have "{..Suc n} = insert 0 (Suc ` {..n})" by (auto simp: image_iff) (metis atMost_iff not0_implies_Suc Suc_le_mono)
  then show ?thesis by (simp add: image_image advance_def)
qed

lemma held_later:
  assumes "sTransientPins st1 = sTransientPins st" "sOperationPins st1 = sOperationPins st"
    and "sReservations st1 = sReservations (expireReservationsLocked (clock 0) st)"
  shows "held_over (advance 1 clock ` {..n}) st1 g \<longleftrightarrow> held_over (clock ` {..Suc n}) st g"
  unfolding shift_instants [symmetric] held_expire [symmetric]
  by (rule held_cong) (simp_all add: assms)

text \<open>A sweep that goes on after the first candidate was found held, or was evicted.\<close>

lemma sweep_held:
  assumes s: "sweep view (advance 1 clock) cs (expireReservationsLocked (clock 0) st) st' D k"
    and c: "held_over {clock 0} st (enDigest c)"
  shows "sweep view clock (c # cs) st st' D (Suc k)"
proof -
  have h: "held_over (advance 1 clock ` {..n}) (expireReservationsLocked (clock 0) st) g \<longleftrightarrow> held_over (clock ` {..Suc n}) st g" for n g
    by (rule held_later) simp_all
  have "same_but_swept st st'" using s by (auto simp: sweep_def same_but_swept_def expireReservationsLocked_def)
  moreover have "\<exists>n. held_over (clock ` {..n}) st (enDigest c)" using c by (intro exI [of _ 0]) simp
  ultimately show ?thesis
    using s unfolding sweep_def expire_fields h by (auto simp only: length_Cons take_Suc_Cons list.set image_insert)
qed

lemma sweep_evicted:
  assumes s: "sweep view (advance 1 clock) cs st1 st' D k"
    and same: "sRoot st1 = sRoot st" "sMaximumBytes st1 = sMaximumBytes st" "sActiveUses st1 = sActiveUses st"
      "sOperationPins st1 = sOperationPins st" "sTransientPins st1 = sTransientPins st"
      "sReservations st1 = sReservations (expireReservationsLocked (clock 0) st)"
    and view: "view (sIndex st1) = (view (sIndex st))(enDigest c := None)"
    and disk: "map_of (sDisk st1) = (map_of (sDisk st))(chunk_path (sRoot st) (enDigest c) := None)"
    and c: "\<not> held_over {clock 0} st (enDigest c)" "usage (view (sIndex st1)) + enSize c > sMaximumBytes st"
  shows "sweep view clock (c # cs) st st' (insert (enDigest c) D) (Suc k)"
proof -
  have h: "held_over (advance 1 clock ` {..n}) st1 g \<longleftrightarrow> held_over (clock ` {..Suc n}) st g" for n g
    by (rule held_later) (use same in simp_all)
  have sub: "set (sReservations st1) \<subseteq> set (sReservations st)"
    unfolding same(6) by (auto simp: expireReservationsLocked_def)
  have sb: "same_but_swept st1 st'" and k: "k \<le> length cs" "D \<subseteq> enDigest ` set (take k cs)"
    and v: "view (sIndex st') = (\<lambda>g. if g \<in> D then None else view (sIndex st1) g)"
    and dk: "map_of (sDisk st') = (\<lambda>p. if p \<in> chunk_path (sRoot st) ` D then None else map_of (sDisk st1) p)"
    and un: "\<forall>g\<in>D. \<exists>n. \<not> held_over (clock ` {..n}) st g"
    and hd: "\<forall>c\<in>set (take k cs). enDigest c \<in> D \<or> (\<exists>n. held_over (clock ` {..n}) st (enDigest c))"
    and stop: "k = length cs \<or> usage (view (sIndex st')) \<le> sMaximumBytes st"
    and need: "D = {} \<or> (\<exists>c\<in>set cs. enDigest c \<in> D \<and> usage (view (sIndex st')) + enSize c > sMaximumBytes st)"
    using s unfolding sweep_def same h by blast+
  have same': "same_but_swept st st'" using sb sub same by (auto simp: same_but_swept_def)
  have n0: "\<exists>n. \<not> held_over (clock ` {..n}) st (enDigest c)" using c(1) by (intro exI [of _ 0]) simp
  have vD: "view (sIndex st') = (\<lambda>g. if g \<in> insert (enDigest c) D then None else view (sIndex st) g)"
    unfolding v view by auto
  have dD: "map_of (sDisk st') = (\<lambda>p. if p \<in> chunk_path (sRoot st) ` insert (enDigest c) D then None else map_of (sDisk st) p)"
    unfolding dk disk by auto
  have "usage (view (sIndex st')) + enSize c > sMaximumBytes st" if "D = {}" using that v c(2) by simp
  then have need': "\<exists>x\<in>set (c # cs). enDigest x \<in> insert (enDigest c) D \<and> usage (view (sIndex st')) + enSize x > sMaximumBytes st"
    using need by auto
  show ?thesis
    unfolding sweep_def using same' k un hd stop n0 need' by (intro conjI vD dD) auto
qed

lemma sweep_stop: "usage (view (sIndex st)) \<le> sMaximumBytes st \<Longrightarrow> sweep view clock cs st st {} 0"
  by (simp add: sweep_def same_but_swept_def)

lemma sweep_end: "sweep view clock [] st st {} 0"
  by (simp add: sweep_def same_but_swept_def)

lemma map_of_delete: "map_of (AList.delete p dk) = (map_of dk)(p := None)"
  by (rule delete_conv')

context cache_repository
begin

lemma evict_one:
  assumes "inv (sIndex st)" "sRoot st \<noteq> ''''" "\<And>p. xRemove X p = None" "view (sIndex st) g = Some c"
  shows "\<exists>st2 st3. remove_chunk U X g st = Inr st2 \<and> index_delete R g st2 = (st3, Inr ())
    \<and> inv (sIndex st3) \<and> guarded (sIndex st3) = guarded (sIndex st) \<and> view (sIndex st3) = (view (sIndex st))(g := None)
    \<and> map_of (sDisk st3) = (map_of (sDisk st))(chunk_path (sRoot st) g := None)
    \<and> sRoot st3 = sRoot st \<and> sMaximumBytes st3 = sMaximumBytes st \<and> sActiveUses st3 = sActiveUses st
    \<and> sOperationPins st3 = sOperationPins st \<and> sTransientPins st3 = sTransientPins st \<and> sReservations st3 = sReservations st"
proof -
  have g: "Digest_Valid U g"
    using view_valid [OF assms(1,4)] by (auto simp: Entry_Validate_def split: if_splits)
  then have p: "chunkPath U (sRoot st) g = Inr (chunk_path (sRoot st) g)" using assms(2) by (simp add: chunkPath_Inr_iff)
  obtain dk where dk: "remove_file X (chunk_path (sRoot st) g) (sDisk st) = Inr dk"
    "map_of dk = (map_of (sDisk st))(chunk_path (sRoot st) g := None)"
    using assms(3) by (cases "map_of (sDisk st) (chunk_path (sRoot st) g) = None")
      (auto simp: remove_file_def map_of_delete fun_upd_idem)
  obtain s' where s': "ix_Delete R g (sIndex st) = (s', Inr ())" "inv s'" "view s' = (view (sIndex st))(g := None)"
    "guarded s' = guarded (sIndex st)"
    using delete_ok [OF assms(1) g] by blast
  show ?thesis
    using p dk s' by (intro exI [of _ "st\<lparr>sDisk := dk\<rparr>"] exI [of _ "st\<lparr>sDisk := dk, sIndex := s'\<rparr>"])
      (simp add: remove_chunk_def index_delete_def)
qed

lemma evict_loop_sweep:
  assumes "inv (sIndex st)" "sRoot st \<noteq> ''''" "\<And>p. xRemove X p = None" "distinct (map enDigest cs)"
    and "\<And>c. c \<in> set cs \<Longrightarrow> view (sIndex st) (enDigest c) = Some c" and "cur = usage (view (sIndex st))"
  shows "\<exists>st' p D k. evict_loop U R X clock cs cur pb st = (st', Inr p) \<and> inv (sIndex st')
    \<and> guarded (sIndex st') = guarded (sIndex st) \<and> sweep view clock cs st st' D k"
  using assms
proof (induction cs arbitrary: clock cur pb st)
  case Nil
  then show ?case using sweep_end by fastforce
next
  case (Cons c cs)
  let ?st1 = "expireReservationsLocked (clock 0) st"
  show ?case
  proof (cases "cur \<le> sMaximumBytes st")
    case True
    then show ?thesis using Cons.prems sweep_stop [of view st clock "c # cs"] by fastforce
  next
    case over: False
    show ?thesis
    proof (cases "held_over {clock 0} st (enDigest c)")
      case True
      obtain st' p D k where "evict_loop U R X (advance 1 clock) cs cur (pb + enSize c) ?st1 = (st', Inr p)"
        "inv (sIndex st')" "guarded (sIndex st') = guarded (sIndex st)" "sweep view (advance 1 clock) cs ?st1 st' D k"
        using Cons.IH [of ?st1 cur "advance 1 clock" "pb + enSize c"] Cons.prems by auto
      then show ?thesis using over True sweep_held [of view clock cs st st' D k c] by (fastforce simp: pinned_expire)
    next
      case False
      have vc: "view (sIndex ?st1) (enDigest c) = Some c" using Cons.prems(5) by simp
      obtain st2 st3 where e: "remove_chunk U X (enDigest c) ?st1 = Inr st2" "index_delete R (enDigest c) st2 = (st3, Inr ())"
        and i: "inv (sIndex st3)" "guarded (sIndex st3) = guarded (sIndex st)"
        and v: "view (sIndex st3) = (view (sIndex st))(enDigest c := None)"
        and d: "map_of (sDisk st3) = (map_of (sDisk st))(chunk_path (sRoot st) (enDigest c) := None)"
        and f: "sRoot st3 = sRoot st" "sMaximumBytes st3 = sMaximumBytes st" "sActiveUses st3 = sActiveUses st"
          "sOperationPins st3 = sOperationPins st" "sTransientPins st3 = sTransientPins st" "sReservations st3 = sReservations ?st1"
        using evict_one [of ?st1 X "enDigest c" c] Cons.prems vc by auto
      have u: "usage (view (sIndex st3)) = cur - enSize c"
        unfolding v Cons.prems(6) using usage_delete [OF view_finite] Cons.prems(1,5) by simp
      have "view (sIndex st3) (enDigest x) = Some x" if x: "x \<in> set cs" for x
      proof -
        have "enDigest x \<noteq> enDigest c" using x Cons.prems(4) by (metis distinct.simps(2) imageI image_set list.simps(9))
        then show ?thesis using Cons.prems(5) x by (simp add: v)
      qed
      then obtain st' p D k where r: "evict_loop U R X (advance 1 clock) cs (cur - enSize c) pb st3 = (st', Inr p)"
        "inv (sIndex st')" "guarded (sIndex st') = guarded (sIndex st3)" "sweep view (advance 1 clock) cs st3 st' D k"
        using Cons.IH [of st3 "cur - enSize c" "advance 1 clock" pb] i(1) f(1) u Cons.prems(2,3,4) by auto
      have "sweep view clock (c # cs) st st' (insert (enDigest c) D) (Suc k)"
        by (rule sweep_evicted [OF r(4) f v d False]) (use over u in simp)
      then show ?thesis using over False e r i(2) by (fastforce simp: pinned_expire)
    qed
  qed
qed

text \<open>The outcome of \<open>enforce\<close> when files can be removed.\<close>

lemma enforce_sweep:
  assumes "inv (sIndex st)" "sRoot st \<noteq> ''''" "\<And>p. xRemove X p = None"
  shows "\<exists>st' q cs D k. enforce U R X clock st = (st', Inr q) \<and> inv (sIndex st') \<and> guarded (sIndex st') = guarded (sIndex st)
    \<and> sorted (map lru_key cs) \<and> distinct (map enDigest cs)
    \<and> set cs = {e. \<exists>g. view (sIndex st) g = Some e \<and> \<not> guarded (sIndex st) g}
    \<and> sweep view clock cs st st' D k \<and> (q = None \<longleftrightarrow> usage (view (sIndex st')) \<le> sMaximumBytes st)
    \<and> (usage (view (sIndex st)) \<le> sMaximumBytes st \<longrightarrow> st' = st)"
proof -
  obtain s where s: "ix_Stats R (sIndex st) = Inr s" "stBytes s = usage (view (sIndex st))" using stats_ok [OF assms(1)] by blast
  obtain cs where cs: "ix_EvictionCandidates R (sIndex st) = Inr cs" "distinct (map enDigest cs)" "sorted (map lru_key cs)"
    "set cs = {e. \<exists>g. view (sIndex st) g = Some e \<and> \<not> guarded (sIndex st) g}"
    using candidates_ok [OF assms(1)] by blast
  show ?thesis
  proof (cases "usage (view (sIndex st)) \<le> sMaximumBytes st")
    case True
    then have "enforce U R X clock st = (st, Inr None)" by (simp add: enforce_def s)
    then show ?thesis using True assms(1) cs sweep_stop [where view = view and st = st, of clock cs] by blast
  next
    case False
    have "view (sIndex st) (enDigest c) = Some c" if "c \<in> set cs" for c
      using that cs(4) view_valid [OF assms(1)] by auto
    then obtain st' p D k where e: "evict_loop U R X clock cs (usage (view (sIndex st))) (stProtectedBytes s) st = (st', Inr p)"
      "inv (sIndex st')" "guarded (sIndex st') = guarded (sIndex st)" "sweep view clock cs st st' D k"
      using evict_loop_sweep [OF assms cs(2)] by blast
    obtain s' where s': "ix_Stats R (sIndex st') = Inr s'" "stBytes s' = usage (view (sIndex st'))" using stats_ok [OF e(2)] by blast
    have m: "sMaximumBytes st' = sMaximumBytes st" using e(4) by (simp add: sweep_def same_but_swept_def)
    obtain q where "enforce U R X clock st = (st', Inr q)" "q = None \<longleftrightarrow> usage (view (sIndex st')) \<le> sMaximumBytes st"
      using False s cs(1) e(1) s' m by (cases "usage (view (sIndex st')) \<le> sMaximumBytes st") (auto simp: enforce_def)
    then show ?thesis using e cs False by blast
  qed
qed

end

lemma sorted_take_mem:
  fixes key :: "'a \<Rightarrow> 'b::linorder"
  assumes "sorted (map key cs)" "e \<in> set (take k cs)" "f \<in> set cs" "key f < key e"
  shows "f \<in> set (take k cs)"
proof (rule ccontr)
  assume "f \<notin> set (take k cs)"
  then have "f \<in> set (drop k cs)" using assms(3) by (metis Un_iff append_take_drop_id set_append)
  moreover have "sorted (map key (take k cs) @ map key (drop k cs))" using assms(1) by (simp flip: map_append)
  ultimately have "key e \<le> key f" using assms(2) by (auto simp: sorted_append)
  then show False using assms(4) by simp
qed

lemma entry_digest_valid: "Entry_Validate U e = Inr () \<Longrightarrow> Digest_Valid U (enDigest e)"
  by (simp add: Entry_Validate_def split: if_splits)

context cache_repository
begin

text \<open>What a sweep over all candidates means for the chunks and for the order of eviction.\<close>

lemma sweep_files:
  assumes "sweep view clock cs st st' D k" "\<And>c. c \<in> set cs \<Longrightarrow> Digest_Valid U (enDigest c)" "Digest_Valid U g"
  shows "map_of (sDisk st') (chunk_path (sRoot st) g) = (if g \<in> D then None else map_of (sDisk st) (chunk_path (sRoot st) g))"
proof -
  have "Digest_Valid U h" if "h \<in> D" for h using that assms(1,2) by (auto simp: sweep_def dest!: in_set_takeD)
  then have "chunk_path (sRoot st) g \<in> chunk_path (sRoot st) ` D \<longleftrightarrow> g \<in> D"
    using chunk_path_inject [OF _ assms(3)] by blast
  then show ?thesis using assms(1) by (simp add: sweep_def)
qed

lemma sweep_order:
  assumes s: "sweep view clock cs st st' D k" and inv: "inv (sIndex st)" and srt: "sorted (map lru_key cs)"
    and cs: "set cs = {e. \<exists>g. view (sIndex st) g = Some e \<and> \<not> guarded (sIndex st) g}"
    and a: "view (sIndex st) g = Some x" "g \<in> D" "view (sIndex st) h = Some f" "h \<notin> D" "\<not> guarded (sIndex st) h"
      "lru_key f < lru_key x"
  shows "\<exists>n. held_over (clock ` {..n}) st h"
proof -
  obtain c where c: "c \<in> set (take k cs)" "enDigest c = g" using s a(2) by (auto simp: sweep_def)
  then have "view (sIndex st) g = Some c" using cs view_valid [OF inv] by (auto dest!: in_set_takeD)
  then have "x \<in> set (take k cs)" using a(1) c by simp
  moreover have "f \<in> set cs" using cs a(3,5) by blast
  ultimately have "f \<in> set (take k cs)" using sorted_take_mem [OF srt] a(6) by blast
  then show ?thesis using s a(4) view_valid [OF inv a(3)] unfolding sweep_def by metis
qed

lemma sweep_rest:
  assumes s: "sweep view clock cs st st' D k" and inv: "inv (sIndex st)"
    and cs: "set cs = {e. \<exists>g. view (sIndex st) g = Some e \<and> \<not> guarded (sIndex st) g}"
    and over: "usage (view (sIndex st')) > sMaximumBytes st" and g: "g \<in> dom (view (sIndex st'))"
  shows "guarded (sIndex st) g \<or> (\<exists>n. held_over (clock ` {..n}) st g)"
proof (cases "guarded (sIndex st) g")
  case False
  have k: "k = length cs" and v: "view (sIndex st') = (\<lambda>g. if g \<in> D then None else view (sIndex st) g)"
    using s over unfolding sweep_def by auto
  obtain f where f: "view (sIndex st) g = Some f" "g \<notin> D" using g by (auto simp: v split: if_splits)
  then have "f \<in> set (take k cs)" using cs False k by auto
  then show ?thesis using s f(2) view_valid [OF inv f(1)] unfolding sweep_def by metis
qed simp

lemma enforce_outcome:
  assumes "inv (sIndex st)" "sRoot st \<noteq> ''''" "\<And>p. xRemove X p = None"
    and run: "Enforce U R X clock st = (st', r)"
    and v: "v = view (sIndex st)" and v': "v' = view (sIndex st')"
    and held: "held = (\<lambda>n. held_over (clock ` {..n}) st)" and at: "at = chunk_path (sRoot st)"
  shows "inv (sIndex st') \<and>
    (\<forall>g. Digest_Valid U g \<longrightarrow>
       v' g = v g \<and> map_of (sDisk st') (at g) = map_of (sDisk st) (at g) \<or> v' g = None \<and> map_of (sDisk st') (at g) = None)
    \<and> (\<forall>g. Digest_Valid U g \<and> (guarded (sIndex st) g \<or> (\<forall>n. held n g)) \<longrightarrow>
         v' g = v g \<and> map_of (sDisk st') (at g) = map_of (sDisk st) (at g))
    \<and> (\<forall>g h e f. v g = Some e \<and> v' g = None \<and> v' h = Some f \<and> \<not> guarded (sIndex st) h \<and> lru_key f < lru_key e \<longrightarrow>
         (\<exists>n. held n h))
    \<and> (r = Inr () \<and> usage v' \<le> sMaximumBytes st
       \<or> r = Inl [Cache_ErrQuotaExceeded] \<and> usage v' > sMaximumBytes st
         \<and> (\<forall>g\<in>dom v'. guarded (sIndex st) g \<or> (\<exists>n. held n g)))
    \<and> (usage v \<le> sMaximumBytes st \<longrightarrow> st' = st)"
proof -
  obtain q cs D k st2 where e: "enforce U R X clock st = (st2, Inr q)" "inv (sIndex st2)"
      "sorted (map lru_key cs)" "set cs = {e. \<exists>g. view (sIndex st) g = Some e \<and> \<not> guarded (sIndex st) g}"
      "sweep view clock cs st st2 D k" "q = None \<longleftrightarrow> usage (view (sIndex st2)) \<le> sMaximumBytes st"
      "usage (view (sIndex st)) \<le> sMaximumBytes st \<longrightarrow> st2 = st"
    using enforce_sweep [OF assms(1,2,3), of clock] by blast
  have st': "st2 = st'" using run e(1) by (auto simp: Enforce_def split: option.splits)
  note e = e [unfolded st']
  have vv: "v' = (\<lambda>g. if g \<in> D then None else v g)" using e(5) unfolding sweep_def v v' by blast
  have key: "\<not> guarded (sIndex st) (enDigest c) \<and> Digest_Valid U (enDigest c)" if "c \<in> set cs" for c
    using that e(4) view_valid [OF assms(1)] entry_digest_valid by blast
  have files: "map_of (sDisk st') (at g) = (if g \<in> D then None else map_of (sDisk st) (at g))" if "Digest_Valid U g" for g
    unfolding at by (rule sweep_files [OF e(5) _ that]) (use key in blast)
  have spared: "g \<notin> D" if "guarded (sIndex st) g \<or> (\<forall>n. held n g)" for g
    using that e(5) key unfolding sweep_def held by (auto dest!: in_set_takeD)
  have lru: "\<exists>n. held n h" if "v g = Some x" "v' g = None" "v' h = Some f" "\<not> guarded (sIndex st) h" "lru_key f < lru_key x"
    for g h x f
    using that sweep_order [OF e(5) assms(1) e(3,4), of g x h f] unfolding v held by (auto simp: vv v split: if_splits)
  have left: "guarded (sIndex st) g \<or> (\<exists>n. held n g)" if "g \<in> dom v'" "usage v' > sMaximumBytes st" for g
    using sweep_rest [OF e(5) assms(1) e(4)] that unfolding v' held by blast
  have out: "r = Inr () \<and> usage v' \<le> sMaximumBytes st \<or> r = Inl [Cache_ErrQuotaExceeded] \<and> usage v' > sMaximumBytes st"
    using run e(1,6) unfolding v' by (cases q) (auto simp: Enforce_def not_le)
  have vg: "v' g = (if g \<in> D then None else v g)" for g by (simp add: vv)
  have "v' g = v g \<and> map_of (sDisk st') (at g) = map_of (sDisk st) (at g) \<or> v' g = None \<and> map_of (sDisk st') (at g) = None"
    if "Digest_Valid U g" for g using files [OF that] vg [of g] by simp
  moreover have "v' g = v g \<and> map_of (sDisk st') (at g) = map_of (sDisk st) (at g)"
    if "Digest_Valid U g" "guarded (sIndex st) g \<or> (\<forall>n. held n g)" for g
    using files [OF that(1)] spared [OF that(2)] vg [of g] by simp
  ultimately show ?thesis using e(2,7) lru left out unfolding v [symmetric] by blast
qed

end

section \<open>Reading and writing\<close>

definition quiet :: "io_errors \<Rightarrow> bool" where
  "quiet X \<longleftrightarrow> (\<forall>p. xOpen X p = None \<and> xStat X p = None \<and> xRead X p = None \<and> xRemove X p = None
     \<and> xMkdir X p = None \<and> xTemp X p = None \<and> xWrite X p = None \<and> xRename X p = None)"

definition good_clock :: "clock \<Rightarrow> bool" where
  "good_clock clock \<longleftrightarrow> (\<forall>i. 0 < clock i \<and> nano_ok (clock i))"

definition verified :: "(byte list \<Rightarrow> byte list) \<Rightarrow> digest \<Rightarrow> disk_file \<Rightarrow> bool" where
  "verified H g f \<longleftrightarrow> dRegular f \<and> chunk_sized (dData f) \<and> Sum H (dData f) = g"

text \<open>What an access may change besides the index: operation pins are added and reservations expire.\<close>

definition accessed :: "'s store \<Rightarrow> 's store \<Rightarrow> bool" where
  "accessed st st' \<longleftrightarrow> sRoot st' = sRoot st \<and> sMaximumBytes st' = sMaximumBytes st \<and> sDisk st' = sDisk st
     \<and> sActiveUses st' = sActiveUses st \<and> sTransientPins st' = sTransientPins st \<and> sOperationPins st \<subseteq> sOperationPins st'
     \<and> set (sReservations st') \<subseteq> set (sReservations st)"

lemma read_body_Inr:
  assumes "read_body U H R X now g st = (st', Inr bs)"
  shows "Sum H bs = g \<and> chunk_sized bs \<and> sDisk st' = sDisk st"
  using assms by (auto simp: read_body_def chunk_sized_def index_delete_def index_record_def
      split: sum.splits option.splits if_splits prod.splits)

lemma pinAccess_fields [simp]:
  "sRoot (pinAccess t g st) = sRoot st" "sIndex (pinAccess t g st) = sIndex st"
  "sMaximumBytes (pinAccess t g st) = sMaximumBytes st" "sDisk (pinAccess t g st) = sDisk st"
  "sActiveUses (pinAccess t g st) = sActiveUses st"
  "sTransientPins (pinAccess t g st) = (sTransientPins st)(g := sTransientPins st g + 1)"
  by (simp_all add: pinAccess_def Let_def)

lemma releasePin_fields [simp]:
  "sRoot (releasePin g st) = sRoot st" "sIndex (releasePin g st) = sIndex st"
  "sMaximumBytes (releasePin g st) = sMaximumBytes st" "sDisk (releasePin g st) = sDisk st"
  "sActiveUses (releasePin g st) = sActiveUses st" "sOperationPins (releasePin g st) = sOperationPins st"
  "sReservations (releasePin g st) = sReservations st"
  "sTransientPins (releasePin g st) = (sTransientPins st)(g := sTransientPins st g - 1)"
  by (simp_all add: releasePin_def)

lemma Read_chunk_Inr:
  assumes "Read_chunk U H R X clock g st = (st', Inr bs)"
  shows "Sum H bs = g \<and> chunk_sized bs \<and> sDisk st' = sDisk st"
  using assms read_body_Inr [of U H R X "clock 1" g "pinAccess (clock 0) g st"]
  by (auto simp: Read_chunk_def split: prod.splits if_splits)

context cache_repository
begin

lemma read_body_quiet:
  assumes "inv (sIndex st)" "sRoot st \<noteq> ''''" "Digest_Valid U g" "quiet X" "0 < now" "nano_ok now"
  shows "\<exists>s. inv s \<and> guarded s = guarded (sIndex st) \<and> read_body U H R X now g st = (st\<lparr>sIndex := s\<rparr>,
      case map_of (sDisk st) (chunk_path (sRoot st) g) of
        None \<Rightarrow> Inl [Cas_ErrNotFound]
      | Some f \<Rightarrow> if verified H g f then Inr (dData f) else Inl [Cas_ErrCorrupt])"
proof -
  let ?p = "chunk_path (sRoot st) g"
  have p: "chunkPath U (sRoot st) g = Inr ?p" using assms(2,3) by (simp add: chunkPath_Inr_iff)
  show ?thesis
  proof (cases "map_of (sDisk st) ?p")
    case None
    then show ?thesis using p delete_ok [OF assms(1,3)] by (fastforce simp: read_body_def index_delete_def)
  next
    case (Some f)
    let ?e = "\<lparr>enDigest = g, enSize = int (length (dData f)), enLastAccessed = now\<rparr>"
    show ?thesis
    proof (cases "verified H g f")
      case True
      then have "recordable U ?e"
        using assms(3,5,6) by (auto simp: recordable_def Entry_Validate_def verified_def chunk_sized_def)
      then obtain s where s: "ix_Record R ?e (sIndex st) = (s, Inr ())" "inv s" "guarded s = guarded (sIndex st)"
        using record_ok [OF assms(1)] by blast
      have "read_body U H R X now g st = (st\<lparr>sIndex := s\<rparr>, Inr (dData f))"
        using p Some True s(1) assms(4)
        by (auto simp: read_body_def verified_def chunk_sized_def quiet_def index_record_def)
      then show ?thesis using Some True s(2,3) by fastforce
    next
      case False
      then have "read_body U H R X now g st = (st, Inl [Cas_ErrCorrupt])"
        using p Some assms(4) by (auto simp: read_body_def verified_def chunk_sized_def quiet_def)
      then show ?thesis using Some False assms(1) by (intro exI [of _ "sIndex st"]) simp
    qed
  qed
qed

lemma Read_quiet:
  assumes "inv (sIndex st)" "sRoot st \<noteq> ''''" "Digest_Valid U g" "quiet X" "good_clock clock"
  shows "\<exists>st'. inv (sIndex st') \<and> guarded (sIndex st') = guarded (sIndex st) \<and> accessed st st'
    \<and> Read_chunk U H R X clock g st = (st',
      case map_of (sDisk st) (chunk_path (sRoot st) g) of
        None \<Rightarrow> Inl [Cas_ErrNotFound]
      | Some f \<Rightarrow> if verified H g f then Inr (dData f) else Inl [Cas_ErrCorrupt])"
proof -
  let ?st = "pinAccess (clock 0) g st"
  obtain s where s: "inv s" "guarded s = guarded (sIndex st)"
    "read_body U H R X (clock 1) g ?st = (?st\<lparr>sIndex := s\<rparr>,
      case map_of (sDisk st) (chunk_path (sRoot st) g) of
        None \<Rightarrow> Inl [Cas_ErrNotFound]
      | Some f \<Rightarrow> if verified H g f then Inr (dData f) else Inl [Cas_ErrCorrupt])"
    using read_body_quiet [of ?st g X "clock 1" H] assms by (auto simp: good_clock_def)
  have "accessed st (releasePin g (?st\<lparr>sIndex := s\<rparr>))"
    by (auto simp: accessed_def releasePin_def pinAccess_def Let_def expireReservationsLocked_def)
  then show ?thesis
    using s assms(3) by (intro exI [of _ "releasePin g (?st\<lparr>sIndex := s\<rparr>)"]) (simp add: Read_chunk_def)
qed

lemma Has_quiet:
  assumes "inv (sIndex st)" "sRoot st \<noteq> ''''" "Digest_Valid U g" "quiet X" "good_clock clock"
  shows "\<exists>st'. inv (sIndex st') \<and> guarded (sIndex st') = guarded (sIndex st) \<and> accessed st st'
    \<and> Has U H R X clock g st = (st',
      case map_of (sDisk st) (chunk_path (sRoot st) g) of
        None \<Rightarrow> Inr False
      | Some f \<Rightarrow> if verified H g f then Inr True else Inl [Cas_ErrCorrupt])"
  using Read_quiet [OF assms, of H] by (fastforce simp: Has_def split: option.splits)

lemma Enforce_same:
  assumes "inv (sIndex st)" "sRoot st \<noteq> ''''" "\<And>p. xRemove X p = None" "Enforce U R X clock st = (st', r)"
  shows "same_but_swept st st' \<and> guarded (sIndex st') = guarded (sIndex st)"
proof -
  obtain q cs D k st2 where e: "enforce U R X clock st = (st2, Inr q)" "guarded (sIndex st2) = guarded (sIndex st)"
      "sweep view clock cs st st2 D k"
    using enforce_sweep [OF assms(1,2,3), of clock] by blast
  have "st' = st2" using assms(4) e(1) by (auto simp: Enforce_def split: option.splits)
  then show ?thesis using e(2,3) by (simp add: sweep_def)
qed

lemma good_clock_advance: "good_clock clock \<Longrightarrow> good_clock (advance n clock)"
  by (simp add: good_clock_def advance_def)

lemma commit_quiet:
  assumes "inv (sIndex st)" "sRoot st \<noteq> ''''" "Digest_Valid U g" "quiet X" "good_clock clock"
    and "chunk_sized contents" "sTransientPins st g > 0" and p: "p = chunk_path (sRoot st) g"
  shows "\<exists>st' r. commit_chunk U H R X clock p g contents st = (st', r) \<and> r \<in> {Inr (), Inl [Cache_ErrQuotaExceeded]}
    \<and> inv (sIndex st') \<and> same_but_swept st st'
    \<and> map_of (sDisk st') p = Some \<lparr>dRegular = True, dData = contents, dModTime = clock 0\<rparr>"
proof -
  let ?e = "\<lparr>enDigest = g, enSize = int (length contents), enLastAccessed = clock 0\<rparr>"
  let ?f = "\<lparr>dRegular = True, dData = contents, dModTime = clock 0\<rparr>"
  have "recordable U ?e"
    using assms(3,5,6) by (auto simp: recordable_def Entry_Validate_def chunk_sized_def good_clock_def)
  then obtain s where s: "ix_Record R ?e (sIndex st) = (s, Inr ())" "inv s" "guarded s = guarded (sIndex st)"
    using record_ok [OF assms(1)] by blast
  define st1 where "st1 = st\<lparr>sDisk := AList.update p ?f (sDisk st), sIndex := s\<rparr>"
  have X: "\<And>p. xRemove X p = None" using assms(4) by (simp add: quiet_def)
  obtain st' r where e: "Enforce U R X (advance 1 clock) st1 = (st', r)" by fastforce
  have c: "commit_chunk U H R X clock p g contents st = (st', r)"
    using assms(4) s(1) e by (simp add: commit_chunk_def quiet_def index_record_def st1_def)
  have i: "inv (sIndex st1)" "sRoot st1 \<noteq> ''''" using s(2) assms(2) by (simp_all add: st1_def)
  note o = enforce_outcome [OF i X e refl refl refl refl]
  have "held_over T st1 g" for T using assms(7) by (simp add: held_over_def st1_def)
  then have "map_of (sDisk st') p = map_of (sDisk st1) p" using o assms(3) by (simp add: p st1_def)
  moreover have "map_of (sDisk st1) p = Some ?f" by (simp add: st1_def update_conv')
  moreover have "same_but_swept st1 st'" using Enforce_same [OF i X e] by blast
  then have "same_but_swept st st'" by (simp add: same_but_swept_def st1_def)
  moreover have "r \<in> {Inr (), Inl [Cache_ErrQuotaExceeded]}" "inv (sIndex st')" using o by blast+
  ultimately show ?thesis using c by metis
qed

lemma put_body_quiet:
  assumes "inv (sIndex st)" "sRoot st \<noteq> ''''" "Digest_Valid U g" "quiet X" "good_clock clock"
    and "chunk_sized contents" "Sum H contents = g" "sTransientPins st g > 0"
  shows "\<exists>st' r f. put_body U H R X clock g contents st = (st', r) \<and> r \<in> {Inr (), Inl [Cache_ErrQuotaExceeded]}
    \<and> inv (sIndex st') \<and> sRoot st' = sRoot st \<and> map_of (sDisk st') (chunk_path (sRoot st) g) = Some f \<and> verified H g f
    \<and> (dData f = contents \<or> map_of (sDisk st) (chunk_path (sRoot st) g) = Some f)"
proof -
  let ?p = "chunk_path (sRoot st) g"
  have p: "chunkPath U (sRoot st) g = Inr ?p" using assms(2,3) by (simp add: chunkPath_Inr_iff)
  obtain st1 where st1: "inv (sIndex st1)" "accessed st st1" "Has U H R X clock g st = (st1,
      case map_of (sDisk st) ?p of None \<Rightarrow> Inr False | Some f \<Rightarrow> if verified H g f then Inr True else Inl [Cas_ErrCorrupt])"
    using Has_quiet [OF assms(1-5), of H] by blast
  have f1: "sRoot st1 = sRoot st" "sTransientPins st1 = sTransientPins st" "sDisk st1 = sDisk st"
    using st1(2) by (simp_all add: accessed_def)
  have commit: "\<exists>st' r f. commit_chunk U H R X (advance 2 clock) ?p g contents st2 = (st', r)
      \<and> r \<in> {Inr (), Inl [Cache_ErrQuotaExceeded]} \<and> inv (sIndex st') \<and> sRoot st' = sRoot st
      \<and> map_of (sDisk st') ?p = Some f \<and> verified H g f \<and> dData f = contents"
    if "inv (sIndex st2)" "sRoot st2 = sRoot st" "sTransientPins st2 = sTransientPins st" for st2
    using commit_quiet [of st2 g X "advance 2 clock" contents ?p H] that assms
    by (auto simp: good_clock_advance same_but_swept_def verified_def)
  show ?thesis
  proof (cases "map_of (sDisk st) ?p")
    case None
    then have "put_body U H R X clock g contents st = commit_chunk U H R X (advance 2 clock) ?p g contents st1"
      using st1(3) by (simp add: put_body_def p)
    then show ?thesis using commit [OF st1(1) f1(1,2)] by metis
  next
    case (Some f)
    show ?thesis
    proof (cases "verified H g f")
      case True
      then have "put_body U H R X clock g contents st = (st1, Inr ())" using st1(3) Some by (simp add: put_body_def p)
      then show ?thesis using Some True st1(1) f1 by (intro exI [of _ st1] exI [of _ "Inr ()"] exI [of _ f]) simp
    next
      case False
      obtain s where s: "ix_Delete R g (sIndex st1) = (s, Inr ())" "inv s" using delete_ok [OF st1(1) assms(3)] by blast
      let ?st2 = "st1\<lparr>sDisk := AList.delete ?p (sDisk st), sIndex := s\<rparr>"
      have "put_body U H R X clock g contents st = commit_chunk U H R X (advance 2 clock) ?p g contents ?st2"
        using st1(3) Some False s(1) assms(4)
        by (simp add: put_body_def p remove_file_def f1(3) quiet_def index_delete_def)
      then show ?thesis using commit [of ?st2] s(2) f1(1,2) by simp metis
    qed
  qed
qed

lemma Put_quiet:
  assumes "inv (sIndex st)" "sRoot st \<noteq> ''''" "Digest_Valid U g" "quiet X" "good_clock clock"
    and "chunk_sized contents" "Sum H contents = g" "sTransientPins st g \<ge> 0"
  shows "\<exists>st' r f. Put U H R X clock g contents st = (st', r) \<and> r \<in> {Inr (), Inl [Cache_ErrQuotaExceeded]}
    \<and> inv (sIndex st') \<and> sRoot st' = sRoot st \<and> map_of (sDisk st') (chunk_path (sRoot st) g) = Some f \<and> verified H g f
    \<and> (dData f = contents \<or> map_of (sDisk st) (chunk_path (sRoot st) g) = Some f)"
proof -
  obtain st' r f where b: "put_body U H R X (advance 1 clock) g contents (pinAccess (clock 0) g st) = (st', r)"
    "r \<in> {Inr (), Inl [Cache_ErrQuotaExceeded]}" "inv (sIndex st')" "sRoot st' = sRoot st"
    "map_of (sDisk st') (chunk_path (sRoot st) g) = Some f" "verified H g f"
    "dData f = contents \<or> map_of (sDisk st) (chunk_path (sRoot st) g) = Some f"
    using put_body_quiet [of "pinAccess (clock 0) g st" g X "advance 1 clock" contents H] assms
    by (auto simp: good_clock_advance)
  then have "Put U H R X clock g contents st = (releasePin g st', r)"
    using assms(3,6,7) by (simp add: Put_def chunk_sized_def)
  then show ?thesis using b by (intro exI [of _ "releasePin g st'"] exI [of _ r] exI [of _ f]) simp
qed

end

section \<open>Properties\<close>

text \<open>
  C16: Enforcing the quota evicts least recently used chunks and nothing that is in use. A chunk leaves the files exactly
  when it leaves the index; a chunk of an unretrieved bundle, any chunk while a job is active, and a chunk that a pin or
  a reservation holds throughout stay; a chunk is evicted only if every candidate used less recently was evicted or
  held. The result is success within the quota, or the quota error with only protected and held chunks left; a
  store within its quota is not touched.
\<close>
theorem enforce_spares_content_in_use:
  assumes "cache_ok U (sIndex st)" "sRoot st \<noteq> ''''" "\<And>p. xRemove X p = None"
    and run: "Enforce U (sqlite_index U) X clock st = (st', r)"
    and v: "v = sqlite_view (sIndex st)" and v': "v' = sqlite_view (sIndex st')"
    and held: "held = (\<lambda>n. held_over (clock ` {..n}) st)" and at: "at = chunk_path (sRoot st)"
  shows "cache_ok U (sIndex st') \<and>
    (\<forall>g. Digest_Valid U g \<longrightarrow>
       v' g = v g \<and> map_of (sDisk st') (at g) = map_of (sDisk st) (at g) \<or> v' g = None \<and> map_of (sDisk st') (at g) = None)
    \<and> (\<forall>g. Digest_Valid U g \<and> (protected_digest (sIndex st) g \<or> (\<forall>n. held n g)) \<longrightarrow>
         v' g = v g \<and> map_of (sDisk st') (at g) = map_of (sDisk st) (at g))
    \<and> (\<forall>g h e f. v g = Some e \<and> v' g = None \<and> v' h = Some f \<and> \<not> protected_digest (sIndex st) h \<and> lru_key f < lru_key e \<longrightarrow>
         (\<exists>n. held n h))
    \<and> (r = Inr () \<and> usage v' \<le> sMaximumBytes st
       \<or> r = Inl [Cache_ErrQuotaExceeded] \<and> usage v' > sMaximumBytes st
         \<and> (\<forall>g\<in>dom v'. protected_digest (sIndex st) g \<or> (\<exists>n. held n g)))
    \<and> (usage v \<le> sMaximumBytes st \<longrightarrow> st' = st)"
  by (rule sqlite_cache.enforce_outcome [OF assms])

definition cached :: "char \<Rightarrow> time \<Rightarrow> cache_row" where
  "cached c t = \<lparr>c_digest = replicate 64 c, c_size_bytes = 2, c_last_accessed_ns = t\<rparr>"

definition sample_store :: "content_db store" where
  "sample_store = \<lparr>sRoot = ''/cas'', sIndex = sample_content\<lparr>cache_entries := [cached CHR ''a'' 3, cached CHR ''b'' 1, cached CHR ''c'' 2]\<rparr>,
     sMaximumBytes = 4, sDisk = map (\<lambda>c. (chunk_path ''/cas'' (replicate 64 c), \<lparr>dRegular = True, dData = [1, 2], dModTime = 1\<rparr>)) ''abc'',
     sActiveUses = 0, sOperationPins = {}, sTransientPins = (\<lambda>_. 0),
     sReservations = [(replicate 64 CHR ''0'', \<lparr>rvDigests = [replicate 64 CHR ''b''], rvExpiresAt = 100\<rparr>)]\<rparr>"

theorem enforce_spares_content_in_use_witness:
  "\<exists>st'. Enforce ascii_casing (sqlite_index ascii_casing) no_errors (\<lambda>_. 7) sample_store = (st', Inr ())
    \<and> map c_digest (cache_entries (sIndex st')) = [replicate 64 CHR ''a'', replicate 64 CHR ''b'']
    \<and> sqlite_view (sIndex st') (replicate 64 CHR ''b'') = sqlite_view (sIndex sample_store) (replicate 64 CHR ''b'')"
proof -
  let ?E = "Enforce ascii_casing (sqlite_index ascii_casing) no_errors (\<lambda>_. 7) sample_store"
  have r: "snd ?E = Inr ()" and d: "map c_digest (cache_entries (sIndex (fst ?E))) = [replicate 64 CHR ''a'', replicate 64 CHR ''b'']"
    by code_simp+
  have ok: "cache_ok ascii_casing (sIndex sample_store)" unfolding cache_ok_def keyed_def nano_ok_def by code_simp
  have b: "Digest_Valid ascii_casing (replicate 64 CHR ''b'')" by code_simp
  have h: "held_over ((\<lambda>_. 7) ` {..n}) sample_store (replicate 64 CHR ''b'')" for n
    by (auto simp: held_over_def sample_store_def)
  have e: "?E = (fst ?E, Inr ())" using r by (metis prod.collapse)
  have s: "sRoot sample_store \<noteq> ''''" "\<And>p. xRemove no_errors p = None" by (simp_all add: sample_store_def no_errors_def)
  have "sqlite_view (sIndex (fst ?E)) (replicate 64 CHR ''b'') = sqlite_view (sIndex sample_store) (replicate 64 CHR ''b'')"
    by (rule enforce_spares_content_in_use [OF ok s e refl refl refl refl, THEN conjunct2, THEN conjunct2, THEN conjunct1,
      rule_format, OF conjI [OF b disjI2], OF allI, OF h, THEN conjunct1])
  then show ?thesis using e d by (intro exI conjI)
qed



end
