(* ===== verification/Workspace.thy ===== *)
theory Workspace
  imports FileSystem ContentStore JobId
begin

text \<open>
  \<open>internal/infra/cas/workspace.go\<close>: materialising a manifest into the private workspace of a job. A file is assembled
  from verified chunks in a staging directory, which becomes the workspace by one rename. The files live in the file
  system of \<open>FileSystem\<close>; chunks come from \<open>rd\<close>, the function that reads one from a content store and returns the store
  with what the reading changed. The locale \<open>content_reader\<close> is what its client relies on, and reading from the managed
  store provides it. The constructor's checks leave an absolute, clean state directory and a store; \<open>Missing\<close>, \<open>Put\<close>,
  \<open>BeginUse\<close>, \<open>Reserve\<close> and \<open>ReleaseReservation\<close> are those of the store.
\<close>

abbreviation Cas_ErrWorkspaceExists :: sentinel where "Cas_ErrWorkspaceExists \<equiv> ''cas.ErrWorkspaceExists''"

section \<open>Operations\<close>

type_synonym 's reader = "digest \<Rightarrow> 's \<Rightarrow> 's \<times> byte list result"

definition JobDataDir :: "fpath \<Rightarrow> job_id \<Rightarrow> fpath result" where
  "JobDataDir stateDir i = (if \<not> ID_Valid i then Inl [Job_ErrInvalidID] else Inr (stateDir @ [''jobs'', i]))"

definition JobWorkspacePath :: "fpath \<Rightarrow> job_id \<Rightarrow> fpath result" where
  "JobWorkspacePath stateDir i = ebind (JobDataDir stateDir i) (\<lambda>d. Inr (d @ [''workspace'']))"

text \<open>The loop over the chunks of a file: what it leaves in the file, and the error that ended it.\<close>

fun write_chunks :: "'s reader \<Rightarrow> fs_errors \<Rightarrow> fpath \<Rightarrow> chunk list \<Rightarrow> fs \<times> 's \<Rightarrow> (fs \<times> 's) \<times> goerror option" where
  "write_chunks rd X q [] (fs, st) = ((fs, st), None)"
| "write_chunks rd X q (c # cs) (fs, st) =
    (case rd (cDigest c) st of
       (st1, Inl e) \<Rightarrow> ((fs, st1), Some e)
     | (st1, Inr contents) \<Rightarrow>
         if int (length contents) \<noteq> uint (cSize c) then ((fs, st1), Some [Cas_ErrCorrupt])
         else (case Append X fs q contents of
             Inl e \<Rightarrow> ((fs, st1), Some e)
           | Inr fs1 \<Rightarrow> write_chunks rd X q cs (fs1, st1)))"

definition node_size :: "node \<Rightarrow> int" where
  "node_size n = (case n of Regular bs _ \<Rightarrow> int (length bs) | _ \<Rightarrow> 0)"

definition materializeFile ::
    "'s reader \<Rightarrow> fs_errors \<Rightarrow> fpath \<Rightarrow> snapshot_file \<Rightarrow> fs \<times> 's \<Rightarrow> (fs \<times> 's) \<times> unit result" where
  "materializeFile rd X destination f s =
    (case CreateExclusive X (fst s) destination 0x180 of
       Inl e \<Rightarrow> (s, Inl e)
     | Inr (fs1, q) \<Rightarrow>
         (case write_chunks rd X q (fChunks f) (fs1, snd s) of
            ((fs2, st2), writeErr) \<Rightarrow>
              let closeErr = X OpClose q in
              if writeErr \<noteq> None \<or> closeErr \<noteq> None
              then ((fs2, st2), Inl ((case writeErr of None \<Rightarrow> [] | Some e \<Rightarrow> e) @ (case closeErr of None \<Rightarrow> [] | Some e \<Rightarrow> e)))
              else (case Chmod X fs2 destination (fMode f) of
                  Inl e \<Rightarrow> ((fs2, st2), Inl e)
                | Inr fs3 \<Rightarrow>
                    (case Stat X fs3 destination of
                       Inl _ \<Rightarrow> ((fs3, st2), Inl [Cas_ErrCorrupt])
                     | Inr info \<Rightarrow>
                         if node_size info \<noteq> fSize f then ((fs3, st2), Inl [Cas_ErrCorrupt]) else ((fs3, st2), Inr ())))))"

fun materialize_files ::
    "'s reader \<Rightarrow> fs_errors \<Rightarrow> fpath \<Rightarrow> snapshot_file list \<Rightarrow> fs \<times> 's \<Rightarrow> (fs \<times> 's) \<times> unit result" where
  "materialize_files rd X staging [] s = (s, Inr ())"
| "materialize_files rd X staging (f # files) s =
    (let destination = filepath_Join staging (fPath f) in
     if X OpContext destination \<noteq> None then (s, Inl (the (X OpContext destination)))
     else case MkdirAll X (fst s) (butlast destination) of
       Inl e \<Rightarrow> (s, Inl e)
     | Inr fs1 \<Rightarrow>
         (case materializeFile rd X destination f (fs1, snd s) of
            (s1, Inl e) \<Rightarrow> (s1, Inl e)
          | (s1, Inr _) \<Rightarrow> materialize_files rd X staging files s1))"

text \<open>
  The part between the creation of the staging directory and its deferred removal. \<open>MkdirAll\<close> and \<open>RemoveAll\<close> stop part of
  the way when they fail; what they leave then lies on the way to the target or in the staging directory, and
  here a failing call changes nothing.
\<close>

definition stage_and_commit ::
    "'s reader \<Rightarrow> fs_errors \<Rightarrow> fpath \<Rightarrow> fpath \<Rightarrow> manifest \<Rightarrow> string \<Rightarrow> fs \<times> 's \<Rightarrow> (fs \<times> 's) \<times> fpath result" where
  "stage_and_commit rd X staging target m sub s =
    (case Chmod X (fst s) staging 0x1C0 of
       Inl e \<Rightarrow> (s, Inl e)
     | Inr fs0 \<Rightarrow>
    (case materialize_files rd X staging (mFiles m) (fs0, snd s) of
       (s1, Inl e) \<Rightarrow> (s1, Inl e)
     | (s1, Inr _) \<Rightarrow>
         (case (if sub \<noteq> [] then MkdirAll X (fst s1) (filepath_Join staging sub) else Inr (fst s1)) of
            Inl e \<Rightarrow> (s1, Inl e)
          | Inr fs2 \<Rightarrow>
              (case Rename X fs2 staging target of
                 Inl e \<Rightarrow> ((fs2, snd s1), Inl e)
               | Inr fs3 \<Rightarrow> ((fs3, snd s1), Inr (if sub = [] then target else filepath_Join target sub))))))"

definition Materialize ::
    "casing \<Rightarrow> 's reader \<Rightarrow> fs_errors \<Rightarrow> string \<Rightarrow> fpath \<Rightarrow> job_id \<Rightarrow> manifest \<Rightarrow> string \<Rightarrow> fs \<times> 's \<Rightarrow> (fs \<times> 's) \<times> fpath result" where
  "Materialize U rd X temp stateDir i m sub s =
    (if \<not> ID_Valid i then (s, Inl [Cas_ErrInvalidStore])
     else (case Manifest_Validate U m of
       Inl e \<Rightarrow> (s, Inl e)
     | Inr _ \<Rightarrow>
    (case (if sub \<noteq> [] then ValidatePath U sub else Inr ()) of
       Inl e \<Rightarrow> (s, Inl e)
     | Inr _ \<Rightarrow>
    (case JobWorkspacePath stateDir i of
       Inl e \<Rightarrow> (s, Inl e)
     | Inr target \<Rightarrow>
    (case Lstat X (fst s) target of
       Inr _ \<Rightarrow> (s, Inl [Cas_ErrWorkspaceExists])
     | Inl e \<Rightarrow>
        if \<not> errors_is e Os_ErrNotExist then (s, Inl e)
        else let parent = butlast target in
    (case MkdirAll X (fst s) parent of
       Inl e \<Rightarrow> (s, Inl e)
     | Inr fs1 \<Rightarrow>
    (case MkdirTemp X fs1 parent temp of
       Inl e \<Rightarrow> ((fs1, snd s), Inl e)
     | Inr fs2 \<Rightarrow>
         let staging = parent @ [temp]; (s3, r) = stage_and_commit rd X staging target m sub (fs2, snd s) in
         ((case OsRemoveAll X (fst s3) staging of Inl _ \<Rightarrow> fst s3 | Inr fs4 \<Rightarrow> fs4, snd s3), r))))))))"

definition RemoveWorkspace :: "fs_errors \<Rightarrow> fpath \<Rightarrow> job_id \<Rightarrow> fs \<Rightarrow> fs \<times> unit result" where
  "RemoveWorkspace X stateDir i fs =
    (if \<not> ID_Valid i then (fs, Inl [Cas_ErrInvalidStore])
     else (case JobWorkspacePath stateDir i of
       Inl e \<Rightarrow> (fs, Inl e)
     | Inr target \<Rightarrow> (case OsRemoveAll X fs target of Inl e \<Rightarrow> (fs, Inl e) | Inr fs1 \<Rightarrow> (fs1, Inr ()))))"

section \<open>Reading from the store\<close>

locale content_reader =
  fixes H :: "byte list \<Rightarrow> byte list"
    and rd :: "'s reader"
  assumes rd_verified: "rd g st = (st', Inr bs) \<Longrightarrow> Sum H bs = g"

text \<open>A reader carries the remaining readings of the clock with the store.\<close>

definition store_reader ::
    "casing \<Rightarrow> (byte list \<Rightarrow> byte list) \<Rightarrow> 's cache_index \<Rightarrow> io_errors \<Rightarrow> (clock \<times> 's store) reader" where
  "store_reader U H R X g cs =
    (case cs of (clock, st) \<Rightarrow> (case Read_chunk U H R X clock g st of (st', r) \<Rightarrow> ((advance 2 clock, st'), r)))"

interpretation stored: content_reader H "store_reader U H R X" for U H R X
proof
  show "Sum H bs = g" if "store_reader U H R X g st = (st', Inr bs)" for g st st' bs
    using that Read_chunk_Inr by (cases st) (fastforce simp: store_reader_def split: prod.splits)
qed

section \<open>Trees of files\<close>

text \<open>The contents of a directory that holds the given files and no other entries than the directories they need.\<close>

type_synonym tree = "(fpath \<times> byte list \<times> 32 word) list"

definition layout :: "tree \<Rightarrow> fs" where
  "layout F r =
    (case map_of F r of
       Some (c, m) \<Rightarrow> Some (Regular c m)
     | None \<Rightarrow> if r = [] \<or> (\<exists>x\<in>set F. strict_prefix r (fst x)) then Some Directory else None)"

definition overlay :: "fs \<Rightarrow> fpath \<Rightarrow> fs \<Rightarrow> fs" where
  "overlay fs S t = (\<lambda>q. if prefix S q then t (drop (length S) q) else fs q)"

lemma overlay_below [simp]: "overlay fs S t (S @ r) = t r"
  by (simp add: overlay_def)

text \<open>No file of the tree is at, above or below the path.\<close>

definition apart :: "tree \<Rightarrow> fpath \<Rightarrow> bool" where
  "apart F p \<longleftrightarrow> p \<noteq> [] \<and> (\<forall>x\<in>set F. \<not> prefix (fst x) p \<and> \<not> prefix p (fst x))"

lemma layout_snoc:
  assumes "apart F p"
  shows "layout (F @ [(p, c, m)]) = (with_dirs (butlast p) (layout F))(p \<mapsto> Regular c m)"
proof
  fix r
  have r: "prefix r (butlast p) \<longleftrightarrow> strict_prefix r p"
    using assms by (cases p rule: rev_cases) (auto simp: apart_def strict_prefix_def prefix_snoc)
  have n: "map_of F p = None" using assms by (auto simp: apart_def map_of_eq_None_iff)
  have m: "map_of F r = None" if "strict_prefix r p"
    using assms that by (auto simp: apart_def map_of_eq_None_iff strict_prefix_def)
  show "layout (F @ [(p, c, m)]) r = ((with_dirs (butlast p) (layout F))(p \<mapsto> Regular c m)) r"
    using n m r by (auto simp: layout_def with_dirs_def map_add_def split: option.splits)
qed

text \<open>Staging directory: everything above is a directory and everything below is the tree.\<close>

definition staged :: "fs \<Rightarrow> fpath \<Rightarrow> bool" where
  "staged fs S \<longleftrightarrow> (\<forall>q. strict_prefix q S \<longrightarrow> fs q = Some Directory)"

lemma staged_above:
  assumes "staged fs0 S" "strict_prefix q (S @ p)" "p \<noteq> []" "\<And>r. strict_prefix r p \<Longrightarrow> t r = Some Directory"
  shows "overlay fs0 S t q = Some Directory"
proof (cases "prefix S q")
  case True
  then obtain r where r: "q = S @ r" by (auto simp: prefix_def)
  then have "strict_prefix r p" using assms(2) by (simp add: strict_prefix_def)
  then show ?thesis using assms(4) r by simp
next
  case False
  then have "strict_prefix q S"
    using assms(2) by (metis prefix_same_cases prefix_order.less_imp_le prefixI strict_prefix_def)
  then show ?thesis using assms(1) False by (simp add: overlay_def staged_def)
qed

lemma layout_above: "apart F p \<Longrightarrow> strict_prefix r p \<Longrightarrow> with_dirs (butlast p) t r = Some Directory"
  by (cases p rule: rev_cases) (auto simp: with_dirs_def apart_def strict_prefix_def prefix_snoc)

lemma overlay_update: "(overlay fs0 S t)(S @ p := n) = overlay fs0 S (t(p := n))"
  by (auto simp: overlay_def fun_eq_iff prefix_def)

lemma overlay_with_dirs:
  assumes "staged fs0 S"
  shows "with_dirs (S @ d) (overlay fs0 S t) = overlay fs0 S (with_dirs d t)"
proof
  fix q
  show "with_dirs (S @ d) (overlay fs0 S t) q = overlay fs0 S (with_dirs d t) q"
  proof (cases "prefix S q")
    case True
    then show ?thesis by (auto simp: with_dirs_def prefix_def)
  next
    case False
    then have "fs0 q = Some Directory" if "prefix q (S @ d)"
      using that assms unfolding staged_def by (metis prefix_same_cases prefixI strict_prefix_def)
    then show ?thesis using False by (simp add: with_dirs_def overlay_def)
  qed
qed

lemma overlay_root: "staged fs0 S \<Longrightarrow> t [] = Some Directory \<Longrightarrow> overlay fs0 S t [] = Some Directory"
  by (cases "S = []") (simp_all add: overlay_def staged_def strict_prefix_def)

lemma overlay_clear: "clear (overlay fs0 S t) (S @ d) \<Longrightarrow> clear t d"
  by (simp add: clear_def) (metis overlay_below same_prefix_prefix)

lemma overlay_linkless:
  assumes "staged fs0 S" "\<And>r x. prefix r d \<Longrightarrow> t r \<noteq> Some (Symlink x)"
  shows "linkless (overlay fs0 S t) (S @ d)"
  unfolding linkless_def
proof (intro allI impI)
  fix q x assume q: "prefix q (S @ d)"
  show "overlay fs0 S t q \<noteq> Some (Symlink x)"
  proof (cases "prefix S q")
    case True
    then obtain r where "q = S @ r" by (auto simp: prefix_def)
    then show ?thesis using assms(2) q by simp
  next
    case False
    then have "fs0 q = Some Directory"
      using q assms(1) unfolding staged_def by (metis prefix_same_cases prefixI strict_prefix_def)
    then show ?thesis using False by (simp add: overlay_def)
  qed
qed

section \<open>One file\<close>

text \<open>A file holds what the manifest says: chunks that match their digests and sizes, in order.\<close>

definition chunk_holds :: "(byte list \<Rightarrow> byte list) \<Rightarrow> byte list \<Rightarrow> chunk \<Rightarrow> bool" where
  "chunk_holds H bs c \<longleftrightarrow> Sum H bs = cDigest c \<and> int (length bs) = uint (cSize c)"

definition file_holds :: "(byte list \<Rightarrow> byte list) \<Rightarrow> fpath \<times> byte list \<times> 32 word \<Rightarrow> snapshot_file \<Rightarrow> bool" where
  "file_holds H x f \<longleftrightarrow> fst x = Split CHR ''/'' (fPath f) \<and> snd (snd x) = fMode f
     \<and> (\<exists>bss. fst (snd x) = concat bss \<and> list_all2 (chunk_holds H) bss (fChunks f))"

context content_reader
begin

lemma write_chunks_file:
  assumes "write_chunks rd X q cs (fs, st) = ((fs', st'), err)" "fs q = Some (Regular old mode)"
  shows "\<exists>bss. fs' = fs(q \<mapsto> Regular (old @ concat bss) mode) \<and> (err = None \<longrightarrow> list_all2 (chunk_holds H) bss cs)"
  using assms
proof (induction cs arbitrary: fs st old)
  case Nil
  then show ?case by (intro exI [of _ "[]"]) auto
next
  case (Cons c cs)
  obtain st1 r where r: "rd (cDigest c) st = (st1, r)" by fastforce
  show ?case
  proof (cases "\<exists>bs. r = Inr bs \<and> int (length bs) = uint (cSize c) \<and> X OpWrite q = None")
    case True
    then obtain bs where bs: "r = Inr bs" "int (length bs) = uint (cSize c)" "X OpWrite q = None" by blast
    then have "write_chunks rd X q cs (fs(q \<mapsto> Regular (old @ bs) mode), st1) = ((fs', st'), err)"
      using Cons.prems r by (simp add: Append_def guard_def)
    from Cons.IH [OF this fun_upd_same] obtain bss where bss:
      "fs' = (fs(q \<mapsto> Regular (old @ bs) mode))(q \<mapsto> Regular ((old @ bs) @ concat bss) mode)"
      "err = None \<longrightarrow> list_all2 (chunk_holds H) bss cs" by blast
    have "chunk_holds H bs c" using rd_verified r bs by (simp add: chunk_holds_def)
    then show ?thesis using bss by (intro exI [of _ "bs # bss"]) simp
  next
    case False
    then have "fs' = fs" "err \<noteq> None"
      using Cons.prems r by (auto simp: Append_def guard_def split: sum.splits if_splits option.splits)
    then show ?thesis using Cons.prems(2) by (intro exI [of _ "[]"]) auto
  qed
qed

lemma materializeFile_file:
  assumes S: "staged fs0 S" "p \<noteq> []" "\<And>r. strict_prefix r p \<Longrightarrow> t r = Some Directory" "t p = None"
    and run: "materializeFile rd X (S @ p) f (overlay fs0 S t, st) = ((fs', st'), r)"
  shows "\<exists>n. fs' = overlay fs0 S (t(p := n))
    \<and> (r = Inr () \<longrightarrow> (\<exists>bss. n = Some (Regular (concat bss) (fMode f)) \<and> list_all2 (chunk_holds H) bss (fChunks f)))"
proof -
  let ?q = "S @ p"
  have above: "overlay fs0 S (t(p := n)) q = Some Directory" if "strict_prefix q ?q" for q n
    by (rule staged_above [OF S(1) that S(2)]) (use S(3) in auto)
  have at: "locate (overlay fs0 S t) ?q = Inr ?q"
    using locate_below [of ?q "overlay fs0 S t"] above [of _ "t p"] by simp
  show ?thesis
  proof (cases "X OpCreate ?q")
    case (Some e)
    then have "fs' = overlay fs0 S t" "r = Inl e" using run by (simp_all add: materializeFile_def CreateExclusive_def guard_def)
    then show ?thesis by (intro exI [of _ "t p"]) simp
  next
    case None
    let ?fs1 = "overlay fs0 S (t(p \<mapsto> Regular [] 0x180))"
    have c: "CreateExclusive X (overlay fs0 S t) ?q 0x180 = Inr (?fs1, ?q)"
      using None at S(4) by (simp add: CreateExclusive_def guard_def overlay_update [symmetric])
    obtain fs2 st2 err where w: "write_chunks rd X ?q (fChunks f) (?fs1, st) = ((fs2, st2), err)" by (metis prod.exhaust)
    obtain bss where bss: "fs2 = ?fs1(?q \<mapsto> Regular (concat bss) 0x180)" "err = None \<longrightarrow> list_all2 (chunk_holds H) bss (fChunks f)"
      using write_chunks_file [OF w, of "[]" "0x180"] by auto
    have fs2: "fs2 = overlay fs0 S (t(p \<mapsto> Regular (concat bss) 0x180))" unfolding bss(1) by (simp add: overlay_update)
    have "follow n fs2 ?q = Inr ?q" for n unfolding fs2 by (rule follow_below [OF above]) auto
    then have ch: "Chmod X fs2 ?q (fMode f) = guard X OpChmod ?q (Inr (overlay fs0 S (t(p \<mapsto> Regular (concat bss) (fMode f)))))"
      by (simp add: Chmod_def fs2 overlay_update)
    have "(fs' = fs2 \<or> fs' = overlay fs0 S (t(p \<mapsto> Regular (concat bss) (fMode f))))
        \<and> (r = Inr () \<longrightarrow> fs' = overlay fs0 S (t(p \<mapsto> Regular (concat bss) (fMode f))) \<and> err = None)"
      using run c w ch by (auto simp: materializeFile_def Let_def guard_def split: if_splits option.splits sum.splits)
    then show ?thesis using bss(2) fs2 by blast
  qed
qed

end

section \<open>All files\<close>

abbreviation segments :: "snapshot_file \<Rightarrow> fpath" where
  "segments f \<equiv> Split CHR ''/'' (fPath f)"

definition unrelated :: "fpath \<Rightarrow> fpath \<Rightarrow> bool" where
  "unrelated p q \<longleftrightarrow> \<not> prefix p q \<and> \<not> prefix q p"

lemma layout_no_links: "layout F r \<noteq> Some (Symlink x)"
  by (auto simp: layout_def split: option.splits)

lemma layout_apart: "apart F p \<Longrightarrow> layout F p = None"
  by (fastforce simp: layout_def apart_def strict_prefix_def split: option.splits dest: map_of_SomeD)

lemma layout_root: "(\<And>x. x \<in> set F \<Longrightarrow> fst x \<noteq> []) \<Longrightarrow> layout F [] = Some Directory"
  by (fastforce simp: layout_def split: option.splits dest!: map_of_SomeD)

lemma filepath_Join_plain:
  "list_all plain_seg S \<Longrightarrow> list_all plain_seg (Split CHR ''/'' v) \<Longrightarrow> filepath_Join S v = S @ Split CHR ''/'' v"
  by (simp add: filepath_Join_def clean_segs_plain)

lemma Join_append: "xs \<noteq> [] \<Longrightarrow> ys \<noteq> [] \<Longrightarrow> Join sep (xs @ ys) = Join sep xs @ sep # Join sep ys"
  by (induction xs rule: list_nonempty_induct) (simp_all add: Join_Cons)

lemma segments_inject: "segments f = segments g \<Longrightarrow> fPath f = fPath g"
  by (metis Join_Split)

lemma accepted_segments:
  assumes "keeps_segments U" "manifest_ok U m"
  shows "sorted_wrt unrelated (map segments (mFiles m))"
    and "f \<in> set (mFiles m) \<Longrightarrow> list_all plain_seg (segments f)"
proof -
  have files: "list_all (file_ok U) (mFiles m)" and srt: "sorted_wrt (<) (map fPath (mFiles m))"
    using assms(2) by (simp_all add: manifest_ok_def)
  show "list_all plain_seg (segments f)" if "f \<in> set (mFiles m)" for f
    using files that Validate_path_plain by (auto simp: list_all_iff file_ok_def ValidatePath_def split: if_splits)
  have no: "\<not> prefix (segments f) (segments g)" if "f \<in> set (mFiles m)" "g \<in> set (mFiles m)" "fPath f \<noteq> fPath g" for f g
  proof
    assume "prefix (segments f) (segments g)"
    then obtain r where r: "segments g = segments f @ r" by (auto simp: prefix_def)
    then have "r \<noteq> []" using segments_inject [of g f] that(3) by auto
    then have "fPath g = fPath f @ CHR ''/'' # Join CHR ''/'' r"
      using arg_cong [OF r, of "Join CHR ''/''"] by (simp add: Join_append)
    then show False using accepted_no_parent [OF assms that(1,2)] by simp
  qed
  show "sorted_wrt unrelated (map segments (mFiles m))"
    unfolding sorted_wrt_map
  proof (rule sorted_wrt_mono_rel [OF _ srt [unfolded sorted_wrt_map]])
    show "unrelated (segments f) (segments g)" if "f \<in> set (mFiles m)" "g \<in> set (mFiles m)" "fPath f < fPath g" for f g
      using no that by (metis less_irrefl unrelated_def)
  qed
qed

lemma rename_staged:
  assumes "staged fs0 S" "S = parent @ [temp]" "target = parent @ [name]" "temp \<noteq> name" "t [] = Some Directory"
    and "Rename X (overlay fs0 S t) S target = Inr fs'"
  shows "fs0 target = None \<and> fs' = moved (overlay fs0 S t) S target"
proof -
  have out: "\<not> prefix S target" using assms(2-4) by (simp add: prefix_snoc)
  have above: "overlay fs0 S t q = Some Directory" if "strict_prefix q S \<or> strict_prefix q target" for q
  proof -
    have "strict_prefix q S" using that assms(2,3) by (auto simp: strict_prefix_def prefix_snoc)
    then show ?thesis using assms(1) by (auto simp: overlay_def staged_def strict_prefix_def)
  qed
  have "overlay fs0 S t S = Some Directory" using assms(5) overlay_below [of fs0 S t "[]"] by simp
  moreover have "overlay fs0 S t target = fs0 target" using out by (simp add: overlay_def)
  ultimately show ?thesis
    using assms(6) out locate_below [of S "overlay fs0 S t"] locate_below [of target "overlay fs0 S t"] above
    by (auto simp: Rename_def guard_Inr_iff split: option.splits node.splits if_splits)
qed

definition selected :: "string \<Rightarrow> fs \<Rightarrow> fs" where
  "selected sub t = (if sub = [] then t else with_dirs (Split CHR ''/'' sub) t)"

lemma moved_overlay:
  assumes "\<And>q. prefix S q \<Longrightarrow> fs q = None" "\<not> prefix S T" "\<not> prefix T S"
  shows "moved (overlay fs S t) S T = overlay fs T t"
proof
  fix q
  show "moved (overlay fs S t) S T q = overlay fs T t q"
    using assms prefix_same_cases [of S q T] by (auto simp: moved_def overlay_def)
qed

lemma removed_overlay: "(\<And>q. prefix S q \<Longrightarrow> fs q = None) \<Longrightarrow> Removed (overlay fs S t) S = fs"
  by (auto simp: Removed_def overlay_def fun_eq_iff)

lemma empty_below: "wf_fs fs \<Longrightarrow> fs p = None \<Longrightarrow> prefix p q \<Longrightarrow> fs q = None"
  using wf_fs_above [of fs q p] by (cases "p = q"; cases "fs q") (auto simp: strict_prefix_def)

lemma remove_staging:
  assumes "staged fs S" "\<And>q. prefix S q \<Longrightarrow> fs q = None"
  shows "OsRemoveAll X (overlay fs S t) S = guard X OpRemove S (Inr fs)"
    and "S = parent @ [temp] \<Longrightarrow> T = parent @ [name] \<Longrightarrow> temp \<noteq> name \<Longrightarrow>
      OsRemoveAll X (overlay fs T t) S = guard X OpRemove S (Inr (overlay fs T t))"
proof -
  have "locate (overlay fs S t) S = Inr S"
    by (rule locate_below) (use assms(1) in \<open>auto simp: overlay_def staged_def strict_prefix_def\<close>)
  then show "OsRemoveAll X (overlay fs S t) S = guard X OpRemove S (Inr fs)"
    using removed_overlay [OF assms(2)] by (simp add: OsRemoveAll_def)
  assume n: "S = parent @ [temp]" "T = parent @ [name]" "temp \<noteq> name"
  then have apart: "\<not> prefix S T" "\<not> prefix T S" by (auto simp: prefix_snoc)
  have "\<not> prefix T q" if "strict_prefix q S" for q
    using that n prefix_length_less [of q S] prefix_length_le [of T q] by auto
  then have "locate (overlay fs T t) S = Inr S"
    using assms(1) by (intro locate_below) (simp add: overlay_def staged_def)
  moreover have "Removed (overlay fs T t) S = overlay fs T t"
    using assms(2) apart prefix_same_cases [of S _ T] by (auto simp: Removed_def overlay_def fun_eq_iff)
  ultimately show "OsRemoveAll X (overlay fs T t) S = guard X OpRemove S (Inr (overlay fs T t))"
    by (simp add: OsRemoveAll_def)
qed

lemma new_staging:
  assumes "wf_fs fs" "linkless fs parent" "MkdirAll X fs parent = Inr fs1" "MkdirTemp X fs1 parent temp = Inr fs2"
  shows "clear fs parent" "fs1 = with_dirs parent fs" "fs (parent @ [temp]) = None" "staged fs1 (parent @ [temp])"
    "wf_fs fs1" "fs2 = overlay fs1 (parent @ [temp]) (layout [])"
proof -
  let ?S = "parent @ [temp]"
  show c: "clear fs parent" and fs1: "fs1 = with_dirs parent fs"
    using MkdirAll_Inr [OF _ assms(2,3)] assms(1) by (auto simp: wf_fs_def)
  show wf: "wf_fs fs1" unfolding fs1 by (rule wf_with_dirs [OF assms(1) c])
  show st: "staged fs1 ?S" unfolding fs1 by (auto simp: staged_def with_dirs_def strict_prefix_def prefix_snoc)
  have "locate fs1 ?S = Inr ?S" by (rule locate_below) (use st in \<open>simp add: staged_def\<close>)
  then have mk: "fs1 ?S = None" "fs2 = fs1(?S \<mapsto> Directory)"
    using assms(4) by (auto simp: MkdirTemp_def Mkdir_def guard_Inr_iff split: if_splits)
  show "fs ?S = None" using mk(1) by (auto simp: fs1 with_dirs_def split: if_splits)
  show "fs2 = overlay fs1 ?S (layout [])"
  proof
    fix q
    show "fs2 q = overlay fs1 ?S (layout []) q"
      using empty_below [OF wf mk(1), of q] mk(2) by (auto simp: overlay_def layout_def prefix_def)
  qed
qed

context content_reader
begin

lemma materialize_files_tree:
  assumes S: "staged fs0 S" "list_all plain_seg S"
    and files: "sorted_wrt unrelated (map segments files)" "\<And>f. f \<in> set files \<Longrightarrow> list_all plain_seg (segments f) \<and> apart F (segments f)"
    and F: "\<And>x. x \<in> set F \<Longrightarrow> fst x \<noteq> []"
    and run: "materialize_files rd X S files (overlay fs0 S (layout F), st) = ((fs', st'), r)"
  shows "\<exists>t. fs' = overlay fs0 S t \<and> t [] = Some Directory
    \<and> (r = Inr () \<longrightarrow> (\<exists>G. t = layout (F @ G) \<and> list_all2 (file_holds H) G files))"
  using files F run
proof (induction files arbitrary: F st)
  case Nil
  then show ?case using layout_root [of F] by (intro exI [of _ "layout F"]) auto
next
  case (Cons f files)
  let ?p = "segments f" and ?t = "with_dirs (butlast (segments f)) (layout F)"
  have p: "list_all plain_seg ?p" "apart F ?p" "?p \<noteq> []" using Cons.prems(2) [of f] by (auto simp: apart_def)
  have root: "layout F [] = Some Directory" using Cons.prems(3) by (rule layout_root)
  have dest: "filepath_Join S (fPath f) = S @ ?p" "butlast (S @ ?p) = S @ butlast ?p"
    using S(2) p by (simp_all add: filepath_Join_plain butlast_append)
  note run = Cons.prems(4) [simplified, unfolded dest Let_def dest]
  show ?case
  proof (cases "X OpContext (S @ ?p) = None \<and> is_ok (MkdirAll X (overlay fs0 S (layout F)) (S @ butlast ?p))")
    case False
    then have "fs' = overlay fs0 S (layout F)" "r \<noteq> Inr ()" using run by (auto split: if_splits sum.splits)
    then show ?thesis using root by blast
  next
    case True
    then obtain fs1 where mk: "MkdirAll X (overlay fs0 S (layout F)) (S @ butlast ?p) = Inr fs1" by (cases "MkdirAll X (overlay fs0 S (layout F)) (S @ butlast ?p)") auto
    have fs1: "fs1 = overlay fs0 S ?t"
      using MkdirAll_Inr(2) [OF overlay_root [where S = S] overlay_linkless mk] S(1) root layout_no_links overlay_with_dirs by simp
    obtain fs2 st2 r2 where one: "materializeFile rd X (S @ ?p) f (fs1, st) = ((fs2, st2), r2)" by (metis prod.exhaust)
    have "?t ?p = None" using layout_apart [OF p(2)] p(3) by (cases ?p rule: rev_cases) (auto simp: with_dirs_def)
    from materializeFile_file [OF S(1) p(3) layout_above [OF p(2)] this one [unfolded fs1]] obtain n where
      n: "fs2 = overlay fs0 S (?t(?p := n))"
        "r2 = Inr () \<longrightarrow> (\<exists>bss. n = Some (Regular (concat bss) (fMode f)) \<and> list_all2 (chunk_holds H) bss (fChunks f))" by blast
    have t: "(?t(?p := n)) [] = Some Directory" using p(3) [symmetric] by (simp add: with_dirs_def)
    show ?thesis
    proof (cases r2)
      case (Inl e)
      then have "fs' = fs2" "r = Inl e" using run mk one True by simp_all
      then show ?thesis using n(1) t by blast
    next
      case (Inr u)
      then obtain bss where bss: "n = Some (Regular (concat bss) (fMode f))" "list_all2 (chunk_holds H) bss (fChunks f)" using n(2) by auto
      let ?x = "(?p, concat bss, fMode f)"
      have fs2: "fs2 = overlay fs0 S (layout (F @ [?x]))" using n(1) bss(1) layout_snoc [OF p(2)] by simp
      have rest: "materialize_files rd X S files (overlay fs0 S (layout (F @ [?x])), st2) = ((fs', st'), r)"
        using run mk one Inr True fs2 by simp
      have "apart (F @ [?x]) (segments g)" if "g \<in> set files" for g
        using Cons.prems(1,2) that by (auto simp: apart_def unrelated_def)
      moreover have "sorted_wrt unrelated (map segments files)" using Cons.prems(1) by simp
      moreover have "fst x \<noteq> []" if "x \<in> set (F @ [?x])" for x using Cons.prems(3) [of x] p(3) that by auto
      ultimately obtain t where t: "fs' = overlay fs0 S t" "t [] = Some Directory"
          "r = Inr () \<longrightarrow> (\<exists>G. t = layout ((F @ [?x]) @ G) \<and> list_all2 (file_holds H) G files)"
        using Cons.IH [OF _ _ _ rest] Cons.prems(2) by (metis list.set_intros(2))
      have "file_holds H ?x f" using bss(2) by (auto simp: file_holds_def)
      then have "\<exists>G. t = layout (F @ G) \<and> list_all2 (file_holds H) G (f # files)" if "r = Inr ()"
        using t(3) that by (metis append.assoc append_Cons append_Nil list_all2_Cons)
      then show ?thesis using t(1,2) by blast
    qed
  qed
qed

lemma stage_and_commit_tree:
  assumes S: "staged fs0 S" "S = parent @ [temp]" "target = parent @ [''workspace'']" "temp \<noteq> ''workspace''"
    and plain: "list_all plain_seg S" "list_all plain_seg target" "sub \<noteq> [] \<longrightarrow> list_all plain_seg (Split CHR ''/'' sub)"
    and m: "keeps_segments U" "manifest_ok U m"
    and run: "stage_and_commit rd X S target m sub (overlay fs0 S (layout []), st) = ((fs', st'), r)"
  shows "\<exists>t. case r of
      Inl _ \<Rightarrow> fs' = overlay fs0 S t
    | Inr w \<Rightarrow> fs0 target = None \<and> fs' = moved (overlay fs0 S t) S target
        \<and> (\<exists>G. t = selected sub (layout G) \<and> list_all2 (file_holds H) G (mFiles m)
              \<and> (sub \<noteq> [] \<longrightarrow> clear (layout G) (Split CHR ''/'' sub)))
        \<and> w = (if sub = [] then target else target @ Split CHR ''/'' sub)"
proof -
  have "follow n (overlay fs0 S (layout [])) S = Inr S" for n
    by (rule follow_below) (use S(1) in \<open>auto simp: overlay_def staged_def strict_prefix_def layout_def\<close>)
  then have ch: "Chmod X (overlay fs0 S (layout [])) S 0x1C0 = guard X OpChmod S (Inr (overlay fs0 S (layout [])))"
    by (simp add: Chmod_def overlay_def layout_def)
  show ?thesis
  proof (cases "X OpChmod S")
    case (Some e)
    then have "fs' = overlay fs0 S (layout []) \<and> r = Inl e" using run ch by (simp add: stage_and_commit_def guard_def)
    then show ?thesis by auto
  next
    case None
    obtain fs1 st1 r1 where f: "materialize_files rd X S (mFiles m) (overlay fs0 S (layout []), st) = ((fs1, st1), r1)"
      by (metis prod.exhaust)
    have "apart [] (segments g)" for g by (simp add: apart_def)
    from materialize_files_tree [OF S(1) plain(1) accepted_segments(1) [OF m] _ _ f] accepted_segments(2) [OF m] this
    obtain t where t: "fs1 = overlay fs0 S t" "t [] = Some Directory"
      "r1 = Inr () \<longrightarrow> (\<exists>G. t = layout G \<and> list_all2 (file_holds H) G (mFiles m))" by auto
    show ?thesis
    proof (cases r1)
      case (Inl e)
      then have "fs' = fs1 \<and> r = Inl e" using run ch None f by (simp add: stage_and_commit_def guard_def)
      then show ?thesis using t(1) by auto
    next
      case (Inr u)
      then obtain G where G: "t = layout G" "list_all2 (file_holds H) G (mFiles m)" using t(3) by auto
      define mk where "mk = (if sub \<noteq> [] then MkdirAll X fs1 (filepath_Join S sub) else Inr fs1)"
      have run': "(case mk of Inl e \<Rightarrow> ((fs1, st1), Inl e)
          | Inr fs2 \<Rightarrow> (case Rename X fs2 S target of Inl e \<Rightarrow> ((fs2, st1), Inl e)
               | Inr fs3 \<Rightarrow> ((fs3, st1), Inr (if sub = [] then target else filepath_Join target sub)))) = ((fs', st'), r)"
        using run ch None f Inr by (cases "sub = []") (simp_all add: stage_and_commit_def guard_def mk_def cong: sum.case_cong)
      have fs2: "fs2 = overlay fs0 S (selected sub t) \<and> (sub \<noteq> [] \<longrightarrow> clear t (Split CHR ''/'' sub))" if "mk = Inr fs2" for fs2
      proof (cases "sub = []")
        case False
        then have "MkdirAll X (overlay fs0 S t) (S @ Split CHR ''/'' sub) = Inr fs2"
          using that plain t(1) by (simp add: mk_def filepath_Join_plain)
        from MkdirAll_Inr [OF overlay_root overlay_linkless this] have "fs2 = with_dirs (S @ Split CHR ''/'' sub) (overlay fs0 S t)"
            "clear (overlay fs0 S t) (S @ Split CHR ''/'' sub)"
          using S(1) t(2) G(1) layout_no_links by simp_all
        then show ?thesis using False overlay_with_dirs [OF S(1)] overlay_clear by (simp add: selected_def)
      qed (use that t(1) in \<open>simp add: mk_def selected_def\<close>)
      have sel: "selected sub t [] = Some Directory" using t(2) by (simp add: selected_def with_dirs_def)
      show ?thesis
      proof (cases r)
        case (Inl e)
        then show ?thesis using run' fs2 t(1) by (fastforce split: sum.splits)
      next
        case (Inr w)
        then obtain fs2 where r: "mk = Inr fs2" "Rename X fs2 S target = Inr fs'"
            "w = (if sub = [] then target else filepath_Join target sub)"
          using run' by (auto split: sum.splits)
        have fs2': "fs2 = overlay fs0 S (selected sub t)" "sub \<noteq> [] \<longrightarrow> clear t (Split CHR ''/'' sub)" using fs2 [OF r(1)] by simp_all
        show ?thesis
          using rename_staged [OF S sel r(2) [unfolded fs2'(1)]] r(3) G Inr plain fs2'(2)
          by (intro exI [of _ "selected sub t"]) (auto simp: filepath_Join_plain)
      qed
    qed
  qed
qed

text \<open>What a call leaves: the workspace, or nothing but empty directories on the way to it and an undeletable staging directory.\<close>

lemma Materialize_effect:
  assumes fs: "wf_fs fs" "linkless fs (stateDir @ [''jobs'', i])"
    and plain: "list_all plain_seg stateDir" "plain_seg temp" "temp \<noteq> ''workspace''" "keeps_segments U"
    and run: "Materialize U rd X temp stateDir i m sub (fs, st) = ((fs', st'), r)"
  defines "parent \<equiv> stateDir @ [''jobs'', i]" and "target \<equiv> stateDir @ [''jobs'', i, ''workspace'']"
  shows "case r of
      Inr w \<Rightarrow> clear fs parent \<and> fs target = None \<and> is_ok (Manifest_Validate U m) \<and> w = (if sub = [] then target else target @ Split CHR ''/'' sub)
        \<and> (\<exists>G. list_all2 (file_holds H) G (mFiles m) \<and> (sub \<noteq> [] \<longrightarrow> clear (layout G) (Split CHR ''/'' sub))
              \<and> fs' = overlay (with_dirs parent fs) target (selected sub (layout G)))
    | Inl _ \<Rightarrow> \<forall>q. fs' q \<noteq> fs q \<longrightarrow> fs q = None \<and> (prefix q parent \<or> prefix (parent @ [temp]) q \<and> X OpRemove (parent @ [temp]) \<noteq> None)"
proof -
  let ?S = "parent @ [temp]"
  have paths: "JobWorkspacePath stateDir i = Inr target" "target = parent @ [''workspace'']" "butlast target = parent" if "ID_Valid i"
    using that by (simp_all add: JobWorkspacePath_def JobDataDir_def parent_def target_def butlast_append)
  note start = run [unfolded Materialize_def fst_conv snd_conv Let_def]
  consider "fs' = fs" "\<not> is_ok r"
    | fs1 where "ID_Valid i" "MkdirAll X fs parent = Inr fs1" "fs' = fs1" "\<not> is_ok r"
    | fs1 fs2 where "ID_Valid i" "MkdirAll X fs parent = Inr fs1" "MkdirTemp X fs1 parent temp = Inr fs2" "manifest_ok U m"
        "sub \<noteq> [] \<longrightarrow> is_ok (ValidatePath U sub)"
        "(case stage_and_commit rd X ?S target m sub (fs2, st) of (s3, r3) \<Rightarrow>
          ((case OsRemoveAll X (fst s3) ?S of Inl _ \<Rightarrow> fst s3 | Inr fs4 \<Rightarrow> fs4, snd s3), r3)) = ((fs', st'), r)"
    using start paths Manifest_Validate_iff [of U m]
    by (auto split: if_splits sum.splits)
  then show ?thesis
  proof cases
    case 1
    then show ?thesis by (auto split: sum.splits)
  next
    case (2 fs1)
    have "clear fs parent" "fs1 = with_dirs parent fs"
      using MkdirAll_Inr [OF _ fs(2) [folded parent_def] 2(2)] fs(1) by (auto simp: wf_fs_def)
    then show ?thesis using 2 by (auto simp: with_dirs_def clear_def split: sum.splits if_splits)
  next
    case (3 fs1 fs2)
    note new = new_staging [OF fs(1) fs(2) [folded parent_def] 3(2,3)]
    note T = paths(2) [OF 3(1)]
    obtain fs3 st3 r3 where c: "stage_and_commit rd X ?S target m sub (fs2, st) = ((fs3, st3), r3)" by (metis prod.exhaust)
    have "plain_seg i" using ID_Valid_length [OF 3(1)] by (auto simp: plain_seg_def)
    then have pl: "list_all plain_seg ?S" "list_all plain_seg target" "sub \<noteq> [] \<longrightarrow> list_all plain_seg (Split CHR ''/'' sub)"
      using plain 3(5) Validate_path_plain by (auto simp: parent_def target_def plain_seg_def ValidatePath_def split: if_splits)
    from stage_and_commit_tree [OF new(4) refl T plain(3) pl plain(4) 3(4) c [unfolded new(6)]] obtain t where
      t: "case r3 of Inl _ \<Rightarrow> fs3 = overlay fs1 ?S t
        | Inr w \<Rightarrow> fs1 target = None \<and> fs3 = moved (overlay fs1 ?S t) ?S target
          \<and> (\<exists>G. t = selected sub (layout G) \<and> list_all2 (file_holds H) G (mFiles m)
                \<and> (sub \<noteq> [] \<longrightarrow> clear (layout G) (Split CHR ''/'' sub)))
          \<and> w = (if sub = [] then target else target @ Split CHR ''/'' sub)" by blast
    have none: "fs1 q = None" if "prefix ?S q" for q
      using empty_below [OF new(5) _ that] new(2,3) by (simp add: with_dirs_def)
    have gone: "fs' = (case OsRemoveAll X fs3 ?S of Inl _ \<Rightarrow> fs3 | Inr fs4 \<Rightarrow> fs4)" "r = r3" using 3(6) c by (auto split: sum.splits)
    show ?thesis
    proof (cases r3)
      case (Inl e)
      then have "fs' = (if X OpRemove ?S = None then fs1 else overlay fs1 ?S t)"
        using t gone(1) remove_staging(1) [OF new(4) none] by (simp add: guard_def split: option.splits)
      then have "fs q = None \<and> (prefix q parent \<or> prefix ?S q \<and> X OpRemove ?S \<noteq> None)" if "fs' q \<noteq> fs q" for q
        using that new(1) none [of q] by (auto simp: new(2) with_dirs_def clear_def overlay_def split: if_splits)
      then show ?thesis using Inl gone(2) by simp
    next
      case (Inr w)
      have "fs3 = overlay fs1 target t"
        using t Inr moved_overlay [OF none, where T = target and t = t] T plain(3) by (simp add: prefix_snoc)
      then have "fs' = overlay fs1 target t"
        using gone(1) remove_staging(2) [OF new(4) none refl T plain(3)] by (simp add: guard_def split: option.splits)
      moreover have "fs target = None" using t Inr new(2) by (auto simp: with_dirs_def split: if_splits)
      ultimately show ?thesis using t Inr gone(2) new(1,2) 3(4) Manifest_Validate_iff [of U m] by auto
    qed
  qed
qed

end

section \<open>Properties\<close>

text \<open>
  C23: Materialising a manifest is exact and atomic. Whatever fails on the way (a missing or corrupt chunk, any call of the
  file system, a cancelled context), no entry that existed before is changed or removed, and a failed call leaves nothing
  but empty directories above the workspace and, only if its removal fails too, the staging directory. A call that
  succeeds found no workspace, the manifest was valid, and the workspace then holds the files of the manifest with their
  modes, each made of chunks that have the manifest's digests and sizes, and nothing else than the directories these
  files and the selected working directory need; outside, only the directories above the workspace were added. The hypotheses
  are that entries of the file system have directories above them, no link is on the way to the job's data
  directory, and the name that \<open>MkdirTemp\<close> makes from \<open>.workspace-*\<close> is not \<open>workspace\<close>.
\<close>
theorem materialize_exact:
  assumes "wf_fs fs" "linkless fs (stateDir @ [''jobs'', i])"
    and "list_all plain_seg stateDir" "plain_seg temp" "temp \<noteq> ''workspace''" "keeps_segments U"
    and run: "Materialize U (store_reader U H R Y) X temp stateDir i m sub (fs, st) = ((fs', st'), r)"
  defines "parent \<equiv> stateDir @ [''jobs'', i]" and "target \<equiv> stateDir @ [''jobs'', i, ''workspace'']"
  shows "(\<forall>q. fs q \<noteq> None \<longrightarrow> fs' q = fs q)
    \<and> (\<not> is_ok r \<longrightarrow> (\<forall>q. fs' q \<noteq> fs q \<longrightarrow>
          prefix q parent \<or> prefix (parent @ [temp]) q \<and> X OpRemove (parent @ [temp]) \<noteq> None))
    \<and> (\<forall>w. r = Inr w \<longrightarrow> fs target = None \<and> is_ok (Manifest_Validate U m)
          \<and> w = (if sub = [] then target else target @ Split CHR ''/'' sub)
          \<and> (\<exists>G. list_all2 (file_holds H) G (mFiles m) \<and> (sub \<noteq> [] \<longrightarrow> clear (layout G) (Split CHR ''/'' sub))
              \<and> fs' = overlay (with_dirs parent fs) target (selected sub (layout G))))"
proof -
  note effect = stored.Materialize_effect [OF assms(1-6) run, folded parent_def target_def]
  show ?thesis
  proof (cases r)
    case (Inl e)
    then show ?thesis using effect by auto
  next
    case (Inr w)
    then obtain G where G: "clear fs parent" "fs target = None" "fs' = overlay (with_dirs parent fs) target (selected sub (layout G))"
      using effect by auto
    have "\<forall>q. fs q \<noteq> None \<longrightarrow> fs' q = fs q"
      using empty_below [OF assms(1) G(2)] G(1) by (auto simp: G(3) overlay_def with_dirs_def clear_def)
    then show ?thesis using effect Inr by simp
  qed
qed

definition workspace_manifest :: manifest where
  "workspace_manifest = \<lparr>mVersion = 1, mFiles =
     [\<lparr>fPath = ''run.sh'', fMode = 0x1ED, fSize = 0, fChunks = []\<rparr>,
      \<lparr>fPath = ''src/main.go'', fMode = 0x1A4, fSize = 2, fChunks = [\<lparr>cDigest = replicate 64 CHR ''b'', cSize = 2\<rparr>]\<rparr>],
     mTotalBytes = 2\<rparr>"

definition empty_fs :: fs where
  "empty_fs p = (if p = [] then Some Directory else None)"

lemma empty_fs_ok: "wf_fs empty_fs" "linkless empty_fs p"
  by (auto simp: wf_fs_def linkless_def empty_fs_def)

theorem materialize_exact_witness:
  "\<exists>fs' st' G. Materialize ascii_casing (store_reader ascii_casing (\<lambda>_. replicate 32 0xBB) (sqlite_index ascii_casing) no_errors) no_fs_errors
      ''.workspace-1'' [''state''] (formatID (replicate 16 0)) workspace_manifest ''src'' (empty_fs, \<lambda>_. 7, sample_store)
      = ((fs', st'), Inr [''state'', ''jobs'', formatID (replicate 16 0), ''workspace'', ''src''])
    \<and> list_all2 (file_holds (\<lambda>_. replicate 32 0xBB)) G (mFiles workspace_manifest)
    \<and> fs' = overlay (with_dirs [''state'', ''jobs'', formatID (replicate 16 0)] empty_fs)
        [''state'', ''jobs'', formatID (replicate 16 0), ''workspace''] (selected ''src'' (layout G))"
proof -
  let ?i = "formatID (replicate 16 0)" and ?H = "\<lambda>_. replicate 32 0xBB"
  let ?M = "Materialize ascii_casing (store_reader ascii_casing ?H (sqlite_index ascii_casing) no_errors) no_fs_errors
      ''.workspace-1'' [''state''] ?i workspace_manifest ''src'' (empty_fs, \<lambda>_. 7, sample_store)"
  have r: "snd ?M = Inr [''state'', ''jobs'', ?i, ''workspace'', ''src'']" by code_simp
  obtain fs' st' where m: "?M = ((fs', st'), Inr [''state'', ''jobs'', ?i, ''workspace'', ''src''])"
    using r by (metis prod.collapse)
  have "list_all plain_seg [''state'']" "plain_seg ''.workspace-1''" by (simp_all add: plain_seg_def)
  from materialize_exact [OF empty_fs_ok this _ ascii_casing_segments m]
  show ?thesis unfolding m by auto
qed

end
