(* ===== verification/SnapshotBuilder.thy ===== *)
theory SnapshotBuilder
  imports IgnoreRules Chunker ChunkTransfer Workspace
begin

text \<open>
  \<open>internal/snapshot/builder.go\<close> and \<open>declared.go\<close>: from a project directory, or from declared outputs, to a manifest whose
  chunks are in a store. What a walk finds below a directory is an \<open>entry\<close>: the project may change while it is read, so a
  file is what each attempt to open and read it observes, and a directory may fail to list. Path resolution (for the
  root and for declared outputs) is that of \<open>FileSystem\<close>. The store is the function \<open>put\<close>. The lemmas
  relate the manifest to the files of the tree, and a manifest to the directory that another device materialises from it.
\<close>

abbreviation Snapshot_ErrInvalidRoot :: sentinel where "Snapshot_ErrInvalidRoot \<equiv> ''snapshot.ErrInvalidRoot''"
abbreviation Snapshot_ErrUnsupportedEntry :: sentinel where "Snapshot_ErrUnsupportedEntry \<equiv> ''snapshot.ErrUnsupportedEntry''"
abbreviation Snapshot_ErrProjectChanged :: sentinel where "Snapshot_ErrProjectChanged \<equiv> ''snapshot.ErrProjectChanged''"
abbreviation Snapshot_ErrDeclaredOutputMissing :: sentinel where
  "Snapshot_ErrDeclaredOutputMissing \<equiv> ''snapshot.ErrDeclaredOutputMissing''"

section \<open>Directory trees\<close>

record file_info =
  fiRegular :: bool
  fiMode :: "32 word"
  fiSize :: int
  fiModTime :: int

text \<open>One attempt to read a file: the descriptions before and after, the reads between, and the context's error afterwards.\<close>

record opened =
  oBefore :: "file_info result"
  oReads :: "read_event list"
  oAfter :: "file_info result"
  oContext :: "goerror option"

type_synonym attempts = "nat \<Rightarrow> opened result"

datatype entry = File attempts "string result" | Special | Dir "goerror option" listing
and listing = NoEntry | Entry string entry listing

fun is_dir :: "entry \<Rightarrow> bool" where
  "is_dir (Dir _ _) = True"
| "is_dir _ = False"

fun lookup :: "listing \<Rightarrow> string \<Rightarrow> entry option" where
  "lookup NoEntry n = None"
| "lookup (Entry m e l) n = (if m = n then Some e else lookup l n)"

text \<open>\<open>filepath.WalkDir\<close>: the error of a listing is handed to the callback, which returns it.\<close>

datatype visit = Continue | SkipDir | Fail goerror

type_synonym 's visitor = "string list \<Rightarrow> entry \<Rightarrow> 's \<Rightarrow> 's \<times> visit"

fun walk_entry :: "'s visitor \<Rightarrow> string list \<Rightarrow> entry \<Rightarrow> 's \<Rightarrow> 's \<times> visit"
and walk_listing :: "'s visitor \<Rightarrow> string list \<Rightarrow> listing \<Rightarrow> 's \<Rightarrow> 's \<times> visit" where
  "walk_entry fn names e s =
    (case fn names e s of
       (s1, Fail x) \<Rightarrow> (s1, Fail x)
     | (s1, SkipDir) \<Rightarrow> (s1, if is_dir e then Continue else SkipDir)
     | (s1, Continue) \<Rightarrow>
         (case e of
            Dir err l \<Rightarrow> (case err of Some x \<Rightarrow> (s1, Fail x) | None \<Rightarrow> walk_listing fn names l s1)
          | _ \<Rightarrow> (s1, Continue)))"
| "walk_listing fn names NoEntry s = (s, Continue)"
| "walk_listing fn names (Entry n e l) s =
    (case walk_entry fn (names @ [n]) e s of
       (s1, Continue) \<Rightarrow> walk_listing fn names l s1
     | (s1, SkipDir) \<Rightarrow> (s1, Continue)
     | (s1, Fail x) \<Rightarrow> (s1, Fail x))"

declare walk_entry.simps [simp del]

definition WalkDir :: "'s visitor \<Rightarrow> entry \<Rightarrow> 's \<Rightarrow> 's \<times> goerror option" where
  "WalkDir fn e s = (case walk_entry fn [] e s of (s1, Fail x) \<Rightarrow> (s1, Some x) | (s1, _) \<Rightarrow> (s1, None))"

section \<open>Ignore files\<close>

fun load_rules :: "string \<Rightarrow> listing \<Rightarrow> string list \<Rightarrow> ignoreRule list \<times> nat \<Rightarrow> (ignoreRule list \<times> nat) \<times> visit" where
  "load_rules base l [] s = (s, Continue)"
| "load_rules base l (name # ns) (rules, ignoreFiles) =
    (case lookup l name of
       Some (File _ contents) \<Rightarrow>
         if ignoreFiles + 1 > maximumIgnoreFiles then ((rules, ignoreFiles + 1), Fail [''project contains too many ignore files''])
         else (case parseIgnoreRules contents base of
             Inl e \<Rightarrow> ((rules, ignoreFiles + 1), Fail e)
           | Inr rs \<Rightarrow>
               if length rules + length rs > maximumIgnoreRules + length defaultIgnoreRules
               then ((rules, ignoreFiles + 1), Fail [''project contains too many ignore rules''])
               else load_rules base l ns (rules @ rs, ignoreFiles + 1))
     | _ \<Rightarrow> load_rules base l ns (rules, ignoreFiles))"

definition load_visit :: "(ignoreRule list \<times> nat) visitor" where
  "load_visit names e s =
    (case e of
       Dir _ l \<Rightarrow>
         if names \<noteq> [] \<and> ignored (fst s) (Join CHR ''/'' names) True then (s, SkipDir)
         else load_rules (Join CHR ''/'' names) l [''.gitignore'', ''.computehopignore''] s
     | _ \<Rightarrow> (s, Continue))"

definition loadIgnoreMatcher :: "entry \<Rightarrow> ignoreRule list result" where
  "loadIgnoreMatcher root =
    (case WalkDir load_visit root (defaultIgnoreRules, 0) of
       ((rules, _), None) \<Rightarrow> Inr rules
     | (_, Some e) \<Rightarrow> Inl e)"

section \<open>Files\<close>

type_synonym 's putter = "digest \<Rightarrow> byte list \<Rightarrow> 's \<Rightarrow> 's \<times> unit result"

definition file_mode :: "file_info \<Rightarrow> 32 word" where
  "file_mode info = (if fiMode info AND 0x49 \<noteq> 0 then 0x1ED else 0x1A4)"

definition chunk_of :: "(byte list \<Rightarrow> byte list) \<Rightarrow> byte list \<Rightarrow> chunk" where
  "chunk_of H contents = \<lparr>cDigest = Sum H contents, cSize = of_nat (length contents)\<rparr>"

definition store_chunk :: "(byte list \<Rightarrow> byte list) \<Rightarrow> 's putter \<Rightarrow> ('s \<times> chunk list) consumer" where
  "store_chunk H put contents s =
    (case put (Sum H contents) contents (fst s) of
       (st, Inl e) \<Rightarrow> ((st, snd s), Inl e)
     | (st, Inr _) \<Rightarrow> ((st, snd s @ [chunk_of H contents]), Inr ()))"

definition chunk_bytes :: "chunk list \<Rightarrow> int" where
  "chunk_bytes cs = fold (\<lambda>c n. signed_take_bit 63 (n + uint (cSize c))) cs 0"

definition buildFile ::
    "casing \<Rightarrow> (byte list \<Rightarrow> byte list) \<Rightarrow> 's putter \<Rightarrow> string \<Rightarrow> opened result \<Rightarrow> 's \<Rightarrow> 's \<times> snapshot_file result" where
  "buildFile U H put relative attempt st =
    (case ValidatePath U relative of
       Inl e \<Rightarrow> (st, Inl e)
     | Inr _ \<Rightarrow>
    (case attempt of
       Inl e \<Rightarrow> (st, Inl e)
     | Inr opened \<Rightarrow>
    (case oBefore opened of
       Inl _ \<Rightarrow> (st, Inl [Snapshot_ErrUnsupportedEntry])
     | Inr before \<Rightarrow>
        if \<not> fiRegular before then (st, Inl [Snapshot_ErrUnsupportedEntry])
        else
    (case ChunkReader (oReads opened) (store_chunk H put) (st, []) of
       ((st1, _), Inl e) \<Rightarrow> (st1, Inl e)
     | ((st1, chunks), Inr _) \<Rightarrow>
    (case oAfter opened of
       Inl e \<Rightarrow> (st1, Inl e)
     | Inr after \<Rightarrow>
        if fiSize before \<noteq> fiSize after \<or> fiModTime before \<noteq> fiModTime after then (st1, Inl [Snapshot_ErrProjectChanged])
        else if chunk_bytes chunks \<noteq> fiSize before then (st1, Inl [Snapshot_ErrProjectChanged])
        else (st1, Inr \<lparr>fPath = relative, fMode = file_mode before, fSize = fiSize before, fChunks = chunks\<rparr>))))))"

definition maximumStableFileAttempts :: nat where "maximumStableFileAttempts = 3"

fun stable_loop ::
    "casing \<Rightarrow> (byte list \<Rightarrow> byte list) \<Rightarrow> 's putter \<Rightarrow> string \<Rightarrow> attempts \<Rightarrow> nat list \<Rightarrow> goerror \<Rightarrow> 's \<Rightarrow> 's \<times> snapshot_file result" where
  "stable_loop U H put relative attempts [] err st = (st, Inl err)"
| "stable_loop U H put relative attempts (k # ks) err st =
    (case buildFile U H put relative (attempts k) st of
       (st1, Inr f) \<Rightarrow> (st1, Inr f)
     | (st1, Inl e) \<Rightarrow>
         if \<not> errors_is e Snapshot_ErrProjectChanged then (st1, Inl e)
         else (case (case attempts k of Inl _ \<Rightarrow> None | Inr opened \<Rightarrow> oContext opened) of
             Some c \<Rightarrow> (st1, Inl c)
           | None \<Rightarrow> stable_loop U H put relative attempts ks e st1))"

definition buildStableFile ::
    "casing \<Rightarrow> (byte list \<Rightarrow> byte list) \<Rightarrow> 's putter \<Rightarrow> string \<Rightarrow> attempts \<Rightarrow> 's \<Rightarrow> 's \<times> snapshot_file result" where
  "buildStableFile U H put relative attempts st =
    stable_loop U H put relative attempts [0..<maximumStableFileAttempts] [] st"

section \<open>Projects\<close>

definition pathExists :: "fs_errors \<Rightarrow> fs \<Rightarrow> fpath \<Rightarrow> bool" where
  "pathExists X fs p = is_ok (Lstat X fs p)"

definition projectMarker :: "fs_errors \<Rightarrow> fs \<Rightarrow> fpath \<Rightarrow> bool" where
  "projectMarker X fs directory =
    list_ex (\<lambda>name. pathExists X fs (directory @ [name])) [''computehop.toml'', ''Cargo.toml'', ''go.mod'', ''package.json'']"

text \<open>The loop from the working directory to the root, whose remaining segments are given in reverse order.\<close>

fun root_loop :: "fs_errors \<Rightarrow> fs \<Rightarrow> fpath \<Rightarrow> fpath option \<Rightarrow> fpath \<Rightarrow> fpath" where
  "root_loop X fs absolute nearestMarker [] =
    (if pathExists X fs [''.git''] then []
     else (case (if nearestMarker = None \<and> projectMarker X fs [] then Some [] else nearestMarker) of
         Some m \<Rightarrow> m | None \<Rightarrow> absolute))"
| "root_loop X fs absolute nearestMarker (s # upper) =
    (let current = rev (s # upper) in
     if pathExists X fs (current @ [''.git'']) then current
     else root_loop X fs absolute (if nearestMarker = None \<and> projectMarker X fs current then Some current else nearestMarker) upper)"

text \<open>\<open>filepath.EvalSymlinks\<close> of an absolute path, with the bound on links that the system has.\<close>

definition EvalSymlinks :: "fs_errors \<Rightarrow> fs \<Rightarrow> fpath \<Rightarrow> fpath result" where
  "EvalSymlinks X fs p = guard X OpLstat p (ebind (follow maximumLinks fs p) (\<lambda>q.
     if fs q = None then Inl [Os_ErrNotExist] else Inr q))"

definition ResolveProject :: "casing \<Rightarrow> fs_errors \<Rightarrow> fs \<Rightarrow> fpath \<Rightarrow> (fpath \<times> string) result" where
  "ResolveProject U X fs workingDirectory =
    ebind (EvalSymlinks X fs workingDirectory) (\<lambda>absolute.
      if Stat X fs absolute \<noteq> Inr Directory then Inl [Snapshot_ErrInvalidRoot]
      else
        let root = root_loop X fs absolute None (rev absolute);
            relative = drop (length root) absolute
        in if relative = [] then Inr (root, [])
           else ebind (ValidatePath U (Join CHR ''/'' relative)) (\<lambda>_. Inr (root, Join CHR ''/'' relative)))"

record build_result =
  brRoot :: fpath
  brWorkingSubdirectory :: string
  brManifest :: manifest

definition total_bytes :: "snapshot_file list \<Rightarrow> int" where
  "total_bytes files = fold (\<lambda>f n. signed_take_bit 63 (n + fSize f)) files 0"

text \<open>The callback of \<open>Build\<close>; \<open>ctx\<close> is what \<open>ctx.Err()\<close> returns at each entry.\<close>

definition build_visit ::
    "casing \<Rightarrow> (byte list \<Rightarrow> byte list) \<Rightarrow> 's putter \<Rightarrow> (string list \<Rightarrow> goerror option) \<Rightarrow> ignoreRule list
      \<Rightarrow> ('s \<times> snapshot_file list \<times> int) visitor" where
  "build_visit U H put ctx rules names e s =
    (case ctx names of
       Some x \<Rightarrow> (s, Fail x)
     | None \<Rightarrow>
        if names = [] then (s, Continue)
        else let relative = Join CHR ''/'' names in
        if ignored rules relative (is_dir e) then (s, if is_dir e then SkipDir else Continue)
        else (case e of
            Dir _ _ \<Rightarrow> (s, Continue)
          | Special \<Rightarrow> (s, Fail [Snapshot_ErrUnsupportedEntry])
          | File attempts _ \<Rightarrow>
              (case s of (st, files, bytes) \<Rightarrow>
               (case buildStableFile U H put relative attempts st of
                  (st1, Inl x) \<Rightarrow> ((st1, files, bytes), Fail x)
                | (st1, Inr f) \<Rightarrow>
                    let files1 = files @ [f]; bytes1 = signed_take_bit 63 (bytes + fSize f) in
                    ((st1, files1, bytes1),
                     if length files1 > MaximumFiles \<or> bytes1 > MaximumSnapshotBytes then Fail [Snapshot_ErrInvalidManifest]
                     else Continue)))))"

definition sorted_manifest :: "snapshot_file list \<Rightarrow> int \<Rightarrow> manifest" where
  "sorted_manifest files bytes = \<lparr>mVersion = ManifestVersion, mFiles = sort_key fPath files, mTotalBytes = bytes\<rparr>"

text \<open>\<open>project\<close> is what a walk finds at the root.\<close>

definition Build ::
    "casing \<Rightarrow> (byte list \<Rightarrow> byte list) \<Rightarrow> 's putter \<Rightarrow> (string list \<Rightarrow> goerror option) \<Rightarrow> fs_errors \<Rightarrow> fs \<Rightarrow> (fpath \<Rightarrow> entry)
      \<Rightarrow> fpath \<Rightarrow> 's \<Rightarrow> 's \<times> build_result result" where
  "Build U H put ctx X fs project workingDirectory st =
    (case ResolveProject U X fs workingDirectory of
       Inl e \<Rightarrow> (st, Inl e)
     | Inr (root, subdirectory) \<Rightarrow>
    (case loadIgnoreMatcher (project root) of
       Inl e \<Rightarrow> (st, Inl e)
     | Inr rules \<Rightarrow>
    (case WalkDir (build_visit U H put ctx rules) (project root) (st, [], 0) of
       ((st1, _, _), Some e) \<Rightarrow> (st1, Inl e)
     | ((st1, files, bytes), None) \<Rightarrow>
        let m = sorted_manifest files bytes in
        (case CanonicalBytes U m of
           Inl e \<Rightarrow> (st1, Inl e)
         | Inr _ \<Rightarrow> (st1, Inr \<lparr>brRoot = root, brWorkingSubdirectory = subdirectory, brManifest = m\<rparr>)))))"

section \<open>Declared outputs\<close>

definition reservedTransferPath :: "casing \<Rightarrow> string \<Rightarrow> bool" where
  "reservedTransferPath U v = list_ex reserved_segment (Split CHR ''/'' (Key U v))"

text \<open>The two maps of the code: the files by their path, and the paths by their collision key.\<close>

type_synonym 's collected = "'s \<times> snapshot_file list \<times> (string \<times> string) list"

definition addDeclaredPath ::
    "casing \<Rightarrow> (byte list \<Rightarrow> byte list) \<Rightarrow> 's putter \<Rightarrow> string \<Rightarrow> attempts \<Rightarrow> 's collected \<Rightarrow> 's collected \<times> unit result" where
  "addDeclaredPath U H put relative attempts s =
    (case s of (st, files, portablePaths) \<Rightarrow>
     if \<not> is_ok (ValidatePath U relative) \<or> reservedTransferPath U relative then (s, Inl [Snapshot_ErrUnsafePath])
     else let key = Key U relative in
     (case map_of portablePaths key of
        Some existing \<Rightarrow> if existing = relative then (s, Inr ()) else (s, Inl [Snapshot_ErrInvalidManifest])
      | None \<Rightarrow>
         (case buildStableFile U H put relative attempts st of
            (st1, Inl e) \<Rightarrow> ((st1, files, portablePaths), Inl e)
          | (st1, Inr f) \<Rightarrow>
              if length files \<ge> MaximumFiles then ((st1, files, portablePaths), Inl [Snapshot_ErrInvalidManifest])
              else ((st1, files @ [f], (key, relative) # portablePaths), Inr ()))))"

definition declared_visit ::
    "casing \<Rightarrow> (byte list \<Rightarrow> byte list) \<Rightarrow> 's putter \<Rightarrow> (string list \<Rightarrow> goerror option) \<Rightarrow> string list \<Rightarrow> 's collected visitor" where
  "declared_visit U H put ctx base names e s =
    (case ctx (base @ names) of
       Some x \<Rightarrow> (s, Fail x)
     | None \<Rightarrow>
        (case e of
           Dir _ _ \<Rightarrow> (s, Continue)
         | Special \<Rightarrow> if names = [] then (s, Continue) else (s, Fail [Snapshot_ErrUnsupportedEntry])
         | File attempts _ \<Rightarrow>
             if names = [] then (s, Continue)
             else (case addDeclaredPath U H put (Join CHR ''/'' (base @ names)) attempts s of
                 (s1, Inl x) \<Rightarrow> (s1, Fail x)
               | (s1, Inr _) \<Rightarrow> (s1, Continue))))"

text \<open>One declaration: \<open>view\<close> is what is found at the place that a path resolves to.\<close>

definition collect_declaration ::
    "casing \<Rightarrow> (byte list \<Rightarrow> byte list) \<Rightarrow> 's putter \<Rightarrow> (string list \<Rightarrow> goerror option) \<Rightarrow> fs_errors \<Rightarrow> fs \<Rightarrow> (fpath \<Rightarrow> entry)
      \<Rightarrow> fpath \<Rightarrow> string \<Rightarrow> 's collected \<Rightarrow> 's collected \<times> unit result" where
  "collect_declaration U H put ctx X fs view absolute declaration s =
    (if \<not> is_ok (ValidatePath U declaration) \<or> reservedTransferPath U declaration then (s, Inl [Snapshot_ErrUnsafePath])
     else let selected = filepath_Join absolute declaration; base = Split CHR ''/'' declaration in
     (case Lstat X fs selected of
        Inl e \<Rightarrow> if errors_is e Os_ErrNotExist then (s, Inl [Snapshot_ErrDeclaredOutputMissing]) else (s, Inl e)
      | Inr (Symlink _) \<Rightarrow> (s, Inl [Snapshot_ErrUnsupportedEntry])
      | Inr Directory \<Rightarrow>
          (case locate fs selected of
             Inl e \<Rightarrow> (s, Inl e)
           | Inr q \<Rightarrow>
              (case WalkDir (declared_visit U H put ctx base) (view q) s of
                 (s1, Some e) \<Rightarrow> (s1, Inl e) | (s1, None) \<Rightarrow> (s1, Inr ())))
      | Inr (Regular _ _) \<Rightarrow>
          (case locate fs selected of
             Inl e \<Rightarrow> (s, Inl e)
           | Inr q \<Rightarrow>
              addDeclaredPath U H put declaration
                (case view q of File attempts _ \<Rightarrow> attempts | _ \<Rightarrow> (\<lambda>_. Inl [Os_ErrNotExist])) s)))"

fun collect_declarations ::
    "casing \<Rightarrow> (byte list \<Rightarrow> byte list) \<Rightarrow> 's putter \<Rightarrow> (string list \<Rightarrow> goerror option) \<Rightarrow> fs_errors \<Rightarrow> fs \<Rightarrow> (fpath \<Rightarrow> entry)
      \<Rightarrow> fpath \<Rightarrow> string list \<Rightarrow> 's collected \<Rightarrow> 's collected \<times> unit result" where
  "collect_declarations U H put ctx X fs view absolute [] s = (s, Inr ())"
| "collect_declarations U H put ctx X fs view absolute (d # ds) s =
    (case collect_declaration U H put ctx X fs view absolute d s of
       (s1, Inl e) \<Rightarrow> (s1, Inl e)
     | (s1, Inr _) \<Rightarrow> collect_declarations U H put ctx X fs view absolute ds s1)"

definition BuildDeclared ::
    "casing \<Rightarrow> (byte list \<Rightarrow> byte list) \<Rightarrow> 's putter \<Rightarrow> (string list \<Rightarrow> goerror option) \<Rightarrow> fs_errors \<Rightarrow> fs \<Rightarrow> (fpath \<Rightarrow> entry)
      \<Rightarrow> fpath \<Rightarrow> string list \<Rightarrow> 's \<Rightarrow> 's \<times> manifest result" where
  "BuildDeclared U H put ctx X fs view root declarations st =
    (case EvalSymlinks X fs root of
       Inl e \<Rightarrow> (st, Inl e)
     | Inr absolute \<Rightarrow>
        if Stat X fs absolute \<noteq> Inr Directory then (st, Inl [Snapshot_ErrInvalidRoot])
        else
    (case collect_declarations U H put ctx X fs view absolute declarations (st, [], []) of
       ((st1, _, _), Inl e) \<Rightarrow> (st1, Inl e)
     | ((st1, files, _), Inr _) \<Rightarrow>
        let m = sorted_manifest files (total_bytes files) in
        (case CanonicalBytes U m of Inl e \<Rightarrow> (st1, Inl e) | Inr _ \<Rightarrow> (st1, Inr m))))"

section \<open>What a built file is\<close>

text \<open>A stable attempt: the file had the same size and modification time before and after its contents were read.\<close>

definition observed :: "casing \<Rightarrow> (byte list \<Rightarrow> byte list) \<Rightarrow> string \<Rightarrow> opened \<Rightarrow> byte list \<Rightarrow> snapshot_file \<Rightarrow> bool" where
  "observed U H relative opened bs f \<longleftrightarrow>
    (\<exists>before after. oBefore opened = Inr before \<and> fiRegular before \<and> oAfter opened = Inr after
       \<and> fiSize after = fiSize before \<and> fiModTime after = fiModTime before
       \<and> delivered 0 (oReads opened) = (bs, Inr ())
       \<and> f = \<lparr>fPath = relative, fMode = file_mode before, fSize = fiSize before, fChunks = map (chunk_of H) (chunks_of bs)\<rparr>)"

definition built :: "casing \<Rightarrow> (byte list \<Rightarrow> byte list) \<Rightarrow> string list \<times> attempts \<Rightarrow> snapshot_file \<Rightarrow> bool" where
  "built U H x f \<longleftrightarrow>
    (\<exists>k<maximumStableFileAttempts. \<exists>opened bs. snd x k = Inr opened \<and> observed U H (Join CHR ''/'' (fst x)) opened bs f)"

lemma ChunkReader_Inr:
  assumes "ChunkReader reader consume s = (s', Inr u)"
  shows "\<exists>bs. delivered 0 reader = (bs, Inr ()) \<and> consume_all consume (chunks_of bs) s = (s', Inr ())"
proof -
  obtain bs r where d: "delivered 0 reader = (bs, r)" by fastforce
  show ?thesis
    using assms d unfolding ChunkReader_def chunk_loop_finish
    by (auto simp: finish_def chunks_of_def split: prod.splits sum.splits if_splits)
qed

lemma store_chunks: "consume_all (store_chunk H put) cs (st, acc) = ((st', acc'), Inr u) \<Longrightarrow> acc' = acc @ map (chunk_of H) cs"
  by (induction cs arbitrary: st acc) (fastforce simp: store_chunk_def split: prod.splits sum.splits)+

lemma buildFile_Inr:
  assumes "buildFile U H put relative attempt st = (st', Inr f)"
  shows "\<exists>opened bs. attempt = Inr opened \<and> observed U H relative opened bs f"
proof -
  obtain opened before after st1 chunks where o: "attempt = Inr opened" "oBefore opened = Inr before" "fiRegular before"
      "ChunkReader (oReads opened) (store_chunk H put) (st, []) = ((st1, chunks), Inr ())" "oAfter opened = Inr after"
      "fiSize after = fiSize before" "fiModTime after = fiModTime before"
      "f = \<lparr>fPath = relative, fMode = file_mode before, fSize = fiSize before, fChunks = chunks\<rparr>"
    using assms by (auto simp: buildFile_def split: sum.splits if_splits prod.splits)
  obtain bs where "delivered 0 (oReads opened) = (bs, Inr ())" "chunks = map (chunk_of H) (chunks_of bs)"
    using ChunkReader_Inr [OF o(4)] store_chunks by fastforce
  then show ?thesis using o by (auto simp: observed_def)
qed

lemma stable_loop_Inr:
  "stable_loop U H put relative attempts ks err st = (st', Inr f) \<Longrightarrow>
    \<exists>k\<in>set ks. \<exists>opened bs. attempts k = Inr opened \<and> observed U H relative opened bs f"
proof (induction ks arbitrary: st err)
  case (Cons k ks)
  then show ?case
    using buildFile_Inr [of U H put relative "attempts k" st]
    by (fastforce split: prod.splits sum.splits if_splits option.splits)
qed simp

lemma buildStableFile_Inr: "buildStableFile U H put (Join CHR ''/'' names) attempts st = (st', Inr f) \<Longrightarrow> built U H (names, attempts) f"
  using stable_loop_Inr unfolding buildStableFile_def built_def by fastforce

section \<open>The files of a tree\<close>

text \<open>The files a set of rules selects: those that are not ignored, in directories that are not ignored.\<close>

fun selected_entry :: "ignoreRule list \<Rightarrow> string list \<Rightarrow> entry \<Rightarrow> (string list \<times> attempts) list"
and selected_listing :: "ignoreRule list \<Rightarrow> string list \<Rightarrow> listing \<Rightarrow> (string list \<times> attempts) list" where
  "selected_entry rules names (File attempts _) =
    (if names = [] \<or> ignored rules (Join CHR ''/'' names) False then [] else [(names, attempts)])"
| "selected_entry rules names Special = []"
| "selected_entry rules names (Dir _ l) =
    (if names \<noteq> [] \<and> ignored rules (Join CHR ''/'' names) True then [] else selected_listing rules names l)"
| "selected_listing rules names NoEntry = []"
| "selected_listing rules names (Entry n e l) = selected_entry rules (names @ [n]) e @ selected_listing rules names l"

definition adds :: "casing \<Rightarrow> (byte list \<Rightarrow> byte list) \<Rightarrow> snapshot_file list \<Rightarrow> snapshot_file list \<Rightarrow> (string list \<times> attempts) list \<Rightarrow> bool" where
  "adds U H files files' xs \<longleftrightarrow> (\<exists>G. files' = files @ G \<and> list_all2 (built U H) xs G)"

lemma adds_none [simp]: "adds U H files files []"
  by (simp add: adds_def)

lemma adds_append: "adds U H a b xs \<Longrightarrow> adds U H b c ys \<Longrightarrow> adds U H a c (xs @ ys)"
  by (auto simp: adds_def intro: list_all2_appendI)

lemma build_visit_file:
  assumes "build_visit U H put ctx rules names e (st, files, n) = ((st', files', n'), v)" "v \<noteq> Fail x" "\<not> is_dir e"
  shows "v = Continue \<or> (\<exists>y. v = Fail y)" "v = Continue \<Longrightarrow> adds U H files files' (selected_entry rules names e)"
proof -
  show "v = Continue \<or> (\<exists>y. v = Fail y)"
    using assms(1,3) by (cases e) (auto simp: build_visit_def Let_def split: option.splits if_splits prod.splits sum.splits)
  assume v: "v = Continue"
  show "adds U H files files' (selected_entry rules names e)"
  proof (cases e)
    case (File attempts c)
    then show ?thesis
      using assms(1) v buildStableFile_Inr [of U H put names attempts st]
      by (auto simp: build_visit_def Let_def adds_def split: option.splits if_splits prod.splits sum.splits)
  next
    case Special
    then show ?thesis using assms(1) v by (auto simp: build_visit_def Let_def split: option.splits if_splits)
  qed (use assms(3) in auto)
qed

lemma build_visit_dir:
  assumes "build_visit U H put ctx rules names (Dir err l) s = (s', v)"
  shows "s' = s" "v = Continue \<Longrightarrow> names = [] \<or> \<not> ignored rules (Join CHR ''/'' names) True"
    "v = SkipDir \<Longrightarrow> names \<noteq> [] \<and> ignored rules (Join CHR ''/'' names) True"
  using assms by (auto simp: build_visit_def Let_def split: option.splits if_splits)

lemma walk_build:
  shows "walk_entry (build_visit U H put ctx rules) names e (st, files, n) = ((st', files', n'), v) \<Longrightarrow>
      v \<noteq> SkipDir \<and> (v = Continue \<longrightarrow> adds U H files files' (selected_entry rules names e))"
    and "walk_listing (build_visit U H put ctx rules) names l (st, files, n) = ((st', files', n'), v) \<Longrightarrow>
      v \<noteq> SkipDir \<and> (v = Continue \<longrightarrow> adds U H files files' (selected_listing rules names l))"
proof (induction e and l arbitrary: names st files n st' files' n' v and names st files n st' files' n' v)
  case (File attempts c)
  obtain s1 v1 where r: "build_visit U H put ctx rules names (File attempts c) (st, files, n) = (s1, v1)" by fastforce
  obtain st1 files1 n1 where s1: "s1 = (st1, files1, n1)" by (metis prod.exhaust)
  then show ?case
    using File r build_visit_file [of U H put ctx rules names "File attempts c" st files n st1 files1 n1 v1]
    by (cases v1) (auto simp: walk_entry.simps)
next
  case Special
  obtain s1 v1 where r: "build_visit U H put ctx rules names Special (st, files, n) = (s1, v1)" by fastforce
  obtain st1 files1 n1 where s1: "s1 = (st1, files1, n1)" by (metis prod.exhaust)
  then show ?case
    using Special r build_visit_file [of U H put ctx rules names Special st files n st1 files1 n1 v1]
    by (cases v1) (auto simp: walk_entry.simps)
next
  case (Dir err l)
  obtain s1 v1 where r: "build_visit U H put ctx rules names (Dir err l) (st, files, n) = (s1, v1)" by fastforce
  show ?case
    using Dir.prems Dir.IH r build_visit_dir [OF r]
    by (cases v1; cases err) (auto simp: walk_entry.simps)
next
  case NoEntry
  then show ?case by (auto simp: walk_entry.simps)
next
  case (Entry m e l)
  obtain st1 files1 n1 v1 where r: "walk_entry (build_visit U H put ctx rules) (names @ [m]) e (st, files, n) = ((st1, files1, n1), v1)"
    by (metis prod.exhaust)
  show ?case
  proof (cases v1)
    case Continue
    then have "walk_listing (build_visit U H put ctx rules) names l (st1, files1, n1) = ((st', files', n'), v)"
      using Entry.prems r by (simp add: walk_entry.simps)
    from Entry.IH(2) [OF this] Entry.IH(1) [OF r] Continue show ?thesis by (auto intro: adds_append)
  qed (use Entry.prems Entry.IH(1) [OF r] r in \<open>auto simp: walk_entry.simps\<close>)
qed

lemma walk_invariant:
  assumes "\<And>names e s. I s \<Longrightarrow> I (fst (fn names e s))"
  shows "I s \<Longrightarrow> I (fst (walk_entry fn names e s))" and "I s \<Longrightarrow> I (fst (walk_listing fn names l s))"
proof (induction e and l arbitrary: names s and names s)
  case (Dir err l)
  have "I (fst (fn names (Dir err l) s))" using assms Dir.prems by blast
  then show ?case using Dir.IH by (auto simp: walk_entry.simps split: prod.splits visit.splits option.splits)
next
  case (Entry m e l)
  then have "I (fst (walk_entry fn (names @ [m]) e s))" by blast
  then show ?case using Entry.IH(2) by (auto simp: walk_entry.simps split: prod.splits visit.splits)
qed (use assms in \<open>auto simp: walk_entry.simps split: prod.splits visit.splits dest: arg_cong [of _ _ fst]; metis fst_conv\<close>)+

lemma load_rules_extends: "\<exists>u. fst (fst (load_rules base l ns s)) = fst s @ u"
proof (induction ns arbitrary: s)
  case (Cons name ns)
  obtain rules k where s: "s = (rules, k)" by fastforce
  have ih: "\<exists>u. fst (fst (load_rules base l ns (a, b))) = a @ u" for a b using Cons.IH [of "(a, b)"] by simp
  then have "\<exists>u. fst (fst (load_rules base l ns (rules @ rs, b))) = rules @ u" for rs b by (metis append.assoc)
  with ih show ?case unfolding s by (auto split: option.splits entry.splits sum.splits)
qed simp

lemma loadIgnoreMatcher_default: "loadIgnoreMatcher root = Inr rules \<Longrightarrow> \<exists>u. rules = defaultIgnoreRules @ u"
proof -
  assume run: "loadIgnoreMatcher root = Inr rules"
  let ?I = "\<lambda>s. \<exists>u. fst s = defaultIgnoreRules @ u"
  have "?I (fst (load_visit names e s))" if "?I s" for names e and s :: "ignoreRule list \<times> nat"
    using that load_rules_extends [of "Join CHR ''/'' names" _ "[''.gitignore'', ''.computehopignore'']" s]
    by (fastforce simp: load_visit_def split: entry.splits)
  from walk_invariant(1) [of ?I load_visit "(defaultIgnoreRules, 0)" "[]" root, OF this] show ?thesis
    using run by (auto simp: loadIgnoreMatcher_def WalkDir_def split: prod.splits visit.splits)
qed

lemma observed_size:
  assumes "observed U H relative opened bs f" "file_ok U f"
  shows "fSize f = int (length bs)" "fPath f = relative" "fChunks f = map (chunk_of H) (chunks_of bs)"
proof -
  show p: "fPath f = relative" "fChunks f = map (chunk_of H) (chunks_of bs)" using assms(1) by (auto simp: observed_def)
  have c: "chunk_sized c" if "c \<in> set (chunks_of bs)" for c using chunks_of_bounds(2) [OF that] by (simp add: chunk_sized_def)
  have "sum_list (map (uint \<circ> cSize) (fChunks f)) = sum_list (map (\<lambda>c. int (length c)) (chunks_of bs))"
    unfolding p(2) map_map using c by (intro arg_cong [of _ _ sum_list] map_cong) (auto simp: chunk_of_def size_word)
  also have "\<dots> = int (length (concat (chunks_of bs)))"
  proof -
    have "sum_list (map (\<lambda>c. int (length c)) cs) = int (length (concat cs))" for cs :: "byte list list" by (induction cs) auto
    then show ?thesis .
  qed
  finally show "fSize f = int (length bs)" using assms(2) chunks_of_bounds(1) [of bs] by (simp add: file_ok_def)
qed

lemma selected_not_ignored:
  shows "x \<in> set (selected_entry rules names e) \<Longrightarrow> \<not> ignored rules (Join CHR ''/'' (fst x)) False"
    and "x \<in> set (selected_listing rules names l) \<Longrightarrow> \<not> ignored rules (Join CHR ''/'' (fst x)) False"
  by (induction e and l arbitrary: names and names) (auto split: if_splits)

lemma list_all2_source: "list_all2 R xs ys \<Longrightarrow> y \<in> set ys \<Longrightarrow> \<exists>x\<in>set xs. R x y"
  by (induction rule: list_all2_induct) auto

lemma list_all2_target: "list_all2 R xs ys \<Longrightarrow> x \<in> set xs \<Longrightarrow> \<exists>y\<in>set ys. R x y"
  by (induction rule: list_all2_induct) auto

lemma built_path: "built U H x f \<Longrightarrow> fPath f = Join CHR ''/'' (fst x)"
  by (auto simp: built_def observed_def)

lemma Build_Inr:
  assumes "Build U H put ctx X fs project workingDirectory st = (st', Inr b)"
  shows "\<exists>rules G. loadIgnoreMatcher (project (brRoot b)) = Inr (defaultIgnoreRules @ rules)
    \<and> manifest_ok U (brManifest b) \<and> mFiles (brManifest b) = sort_key fPath G
    \<and> list_all2 (built U H) (selected_entry (defaultIgnoreRules @ rules) [] (project (brRoot b))) G"
proof -
  obtain root rules files n where r: "brRoot b = root" "loadIgnoreMatcher (project root) = Inr rules"
      "WalkDir (build_visit U H put ctx rules) (project root) (st, [], 0) = ((st', files, n), None)"
      "brManifest b = sorted_manifest files n" "is_ok (CanonicalBytes U (sorted_manifest files n))"
    using assms by (auto simp: Build_def Let_def split: sum.splits prod.splits option.splits)
  obtain u where u: "rules = defaultIgnoreRules @ u" using loadIgnoreMatcher_default [OF r(2)] by blast
  have "is_ok (Manifest_Validate U (brManifest b))"
    using r(4,5) by (cases "Manifest_Validate U (brManifest b)") (simp_all add: CanonicalBytes_def)
  then have "manifest_ok U (brManifest b)" unfolding Manifest_Validate_iff .
  moreover have "adds U H [] files (selected_entry rules [] (project root))"
    using r(3) walk_build(1) [of U H put ctx rules "[]" "project root" st "[]" 0 st' files n]
    by (auto simp: WalkDir_def split: prod.splits visit.splits)
  ultimately show ?thesis using r u by (auto simp: adds_def sorted_manifest_def)
qed

section \<open>Properties\<close>


lemma same_chunks:
  assumes "list_all2 (chunk_holds H) bss (map (chunk_of H) cs)" "\<And>x y. H x = H y \<Longrightarrow> x = y"
  shows "bss = cs"
  using assms(1)
proof (induction cs arbitrary: bss)
  case (Cons c cs)
  have "b = c" if "Sum H b = Sum H c" for b
    using that assms(2) hex_decode_encode unfolding Sum_def by (metis option.inject)
  then show ?case using Cons by (auto simp: list_all2_Cons2 chunk_holds_def chunk_of_def)
qed simp

lemma layout_member:
  assumes "distinct (map fst F)" "(p, c, mode) \<in> set F"
  shows "layout F p = Some (Regular c mode)"
  using assms by (simp add: layout_def)

lemma selected_file:
  assumes "sub \<noteq> [] \<longrightarrow> clear t (Split CHR ''/'' sub)"
  shows "selected sub t p = Some (Regular c mode) \<longleftrightarrow> t p = Some (Regular c mode)"
  using assms by (auto simp: selected_def with_dirs_def clear_def)

lemma unrelated_distinct: "sorted_wrt unrelated xs \<Longrightarrow> distinct xs"
  by (induction xs) (auto simp: unrelated_def)


section \<open>Examples\<close>

lemma complete_short: "length chunk + length bs < MinimumChunkBytes \<Longrightarrow> \<exists>r. complete bs chunk rolling = ([], chunk @ bs, r)"
proof (induction bs arbitrary: chunk rolling)
  case (Cons v bs)
  then show ?case using Cons.IH [of "chunk @ [v]" "roll rolling v"] by (simp add: boundary_def Let_def)
qed simp

lemma chunks_of_short: "bs \<noteq> [] \<Longrightarrow> length bs < MinimumChunkBytes \<Longrightarrow> chunks_of bs = [bs]"
  using complete_short [of "[]" bs 0] by (auto simp: chunks_of_def)

lemma ChunkReader_short:
  assumes "bs \<noteq> []" "length bs < MinimumChunkBytes"
  shows "ChunkReader [Read bs (Some EOF)] consume s = consume bs s"
  using complete_short [of "[]" bs 0] assms
  by (auto simp: ChunkReader_def chunk_loop_finish finish_def split: prod.splits sum.splits)

definition sample_opened :: "byte list \<Rightarrow> int \<Rightarrow> opened" where
  "sample_opened bs later =
    (let info = \<lparr>fiRegular = True, fiMode = 0x1A4, fiSize = int (length bs), fiModTime = 5\<rparr>
     in \<lparr>oBefore = Inr info, oReads = [Read bs (Some EOF)], oAfter = Inr (info\<lparr>fiModTime := later\<rparr>), oContext = None\<rparr>)"

text \<open>A project with credentials and one source file that changes while it is first read.\<close>

definition sample_project :: entry where
  "sample_project = Dir None
    (Entry ''.env'' (File (\<lambda>_. Inr (sample_opened [9] 5)) (Inr []))
    (Entry ''src'' (Dir None
      (Entry ''main.go'' (File (\<lambda>k. Inr (sample_opened [1, 2] (if k = 0 then 6 else 5))) (Inr [])) NoEntry)) NoEntry))"

definition sample_hash :: "byte list \<Rightarrow> byte list" where
  "sample_hash x = (if x = [1, 2] then replicate 32 0xBB else replicate 33 0 @ x)"

lemma sample_hash_inj: "sample_hash x = sample_hash y \<Longrightarrow> x = y"
proof -
  assume e: "sample_hash x = sample_hash y"
  then have l: "length (sample_hash x) = length (sample_hash y)" by simp
  have "length (replicate 33 0 @ z) > length (replicate 32 (0xBB :: byte))" for z :: "byte list" by (simp only: length_append length_replicate)
  then have "x = [1, 2] \<longleftrightarrow> y = [1, 2]" using l unfolding sample_hash_def by (smt (verit) less_irrefl)
  then show ?thesis using e unfolding sample_hash_def by (auto split: if_splits)
qed

text \<open>Putting into a content store, with the readings of the clock that each call takes.\<close>

definition store_putter ::
    "casing \<Rightarrow> (byte list \<Rightarrow> byte list) \<Rightarrow> 's cache_index \<Rightarrow> io_errors \<Rightarrow> ((nat \<Rightarrow> clock) \<times> 's store) putter" where
  "store_putter U H R X g contents cs =
    (case cs of (clocks, st) \<Rightarrow>
     (case Put U H R X (clocks 0) g contents st of (st', r) \<Rightarrow> ((\<lambda>k. clocks (Suc k), st'), r)))"

abbreviation sample_put :: "((nat \<Rightarrow> clock) \<times> content_db store) putter" where
  "sample_put \<equiv> store_putter ascii_casing sample_hash (sqlite_index ascii_casing) no_errors"

abbreviation sample_puts :: "(nat \<Rightarrow> clock) \<times> content_db store \<Rightarrow> (nat \<Rightarrow> clock) \<times> content_db store" where
  "sample_puts s \<equiv> fst (sample_put (replicate 64 CHR ''b'') [1, 2] s)"

definition sample_built :: snapshot_file where
  "sample_built = \<lparr>fPath = ''src/main.go'', fMode = 0x1A4, fSize = 2, fChunks = [\<lparr>cDigest = replicate 64 CHR ''b'', cSize = 2\<rparr>]\<rparr>"

lemma sample_buildFile:
  assumes "snd (sample_put (replicate 64 CHR ''b'') [1, 2] s) = Inr ()"
  shows "buildFile ascii_casing sample_hash sample_put ''src/main.go'' (Inr (sample_opened [1, 2] later)) s =
    (sample_puts s, if later = 5 then Inr sample_built else Inl [Snapshot_ErrProjectChanged])"
proof -
  have v: "ValidatePath ascii_casing ''src/main.go'' = Inr ()" by code_simp
  have d: "Sum sample_hash [1, 2] = replicate 64 CHR ''b''" by code_simp
  obtain s1 where p: "sample_put (replicate 64 CHR ''b'') [1, 2] s = (s1, Inr ())" using assms by (metis prod.collapse)
  have c: "store_chunk sample_hash sample_put [1, 2] (s, []) = ((s1, [\<lparr>cDigest = replicate 64 CHR ''b'', cSize = 2\<rparr>]), Inr ())"
    using p by (simp add: store_chunk_def d chunk_of_def)
  have "chunk_bytes [\<lparr>cDigest = replicate 64 CHR ''b'', cSize = 2\<rparr>] = 2" by (simp add: chunk_bytes_def signed_take_bit_int_eq_self)
  then show ?thesis
    by (simp add: buildFile_def sample_opened_def Let_def v p c ChunkReader_short MinimumChunkBytes_def file_mode_def sample_built_def)
qed

lemma sample_build:
  assumes "snd (sample_put (replicate 64 CHR ''b'') [1, 2] s) = Inr ()"
    and "snd (sample_put (replicate 64 CHR ''b'') [1, 2] (sample_puts s)) = Inr ()"
  shows "Build ascii_casing sample_hash sample_put (\<lambda>_. None) no_fs_errors (empty_fs([''p''] \<mapsto> Directory)) (\<lambda>_. sample_project) [''p''] s =
    (sample_puts (sample_puts s), Inr \<lparr>brRoot = [''p''], brWorkingSubdirectory = [], brManifest = sorted_manifest [sample_built] 2\<rparr>)"
proof -
  have p: "ResolveProject ascii_casing no_fs_errors (empty_fs([''p''] \<mapsto> Directory)) [''p''] = Inr ([''p''], [])" by code_simp
  have l: "loadIgnoreMatcher sample_project = Inr defaultIgnoreRules" by code_simp
  have i: "ignored defaultIgnoreRules ''.env'' False" "\<not> ignored defaultIgnoreRules ''src'' True"
      "\<not> ignored defaultIgnoreRules ''src/main.go'' False" by code_simp+
  have c: "is_ok (CanonicalBytes ascii_casing (sorted_manifest [sample_built] 2))" by code_simp
  have "[0..<maximumStableFileAttempts] = [0, 1, 2]" by (simp add: maximumStableFileAttempts_def upt_rec)
  then have "buildStableFile ascii_casing sample_hash sample_put ''src/main.go'' (\<lambda>k. Inr (sample_opened [1, 2] (if k = 0 then 6 else 5))) s
      = (sample_puts (sample_puts s), Inr sample_built)"
    using sample_buildFile [OF assms(1)] sample_buildFile [OF assms(2)]
    by (simp add: buildStableFile_def errors_is_def) (simp add: sample_opened_def Let_def)
  then have "WalkDir (build_visit ascii_casing sample_hash sample_put (\<lambda>_. None) defaultIgnoreRules) sample_project (s, [], 0)
      = ((sample_puts (sample_puts s), [sample_built], 2), None)"
    by (simp add: WalkDir_def sample_project_def walk_entry.simps build_visit_def i Let_def sample_built_def
        signed_take_bit_int_eq_self MaximumFiles_def MaximumSnapshotBytes_def)
  then show ?thesis using c by (auto simp: Build_def p l Let_def split: sum.splits)
qed

abbreviation sample_state :: "(nat \<Rightarrow> clock) \<times> content_db store" where
  "sample_state \<equiv> (\<lambda>_ _. 7, sample_store)"

lemma sample_puts_ok:
  "snd (sample_put (replicate 64 CHR ''b'') [1, 2] sample_state) = Inr ()"
  "snd (sample_put (replicate 64 CHR ''b'') [1, 2] (sample_puts sample_state)) = Inr ()"
  by code_simp+



section \<open>Collecting declared outputs\<close>

definition below :: "string list \<Rightarrow> string \<Rightarrow> bool" where
  "below ds p \<longleftrightarrow> (\<exists>d\<in>set ds. p = d \<or> prefix (d @ ''/'') p)"

definition declared_ok :: "casing \<Rightarrow> string list \<Rightarrow> 's collected \<Rightarrow> bool" where
  "declared_ok U ds s \<longleftrightarrow> (\<forall>f\<in>set (fst (snd s)). below ds (fPath f) \<and> \<not> reservedTransferPath U (fPath f))"

lemma addDeclaredPath_ok:
  assumes "below ds relative" "declared_ok U ds s"
  shows "declared_ok U ds (fst (addDeclaredPath U H put relative attempts s))"
proof -
  obtain st files pp where s: "s = (st, files, pp)" by (metis prod.exhaust)
  obtain st1 r where b: "buildStableFile U H put relative attempts st = (st1, r)" by fastforce
  have "fPath f = relative" if "r = Inr f" for f
    using stable_loop_Inr b that unfolding buildStableFile_def by (fastforce simp: observed_def)
  then show ?thesis using assms b by (auto simp: s addDeclaredPath_def declared_ok_def Let_def split: option.splits sum.splits)
qed

lemma declared_visit_ok:
  assumes "d \<in> set ds" "declared_ok U ds s"
  shows "declared_ok U ds (fst (declared_visit U H put ctx (Split CHR ''/'' d) names e s))"
proof -
  have "below ds (Join CHR ''/'' (Split CHR ''/'' d @ names))" if "names \<noteq> []"
    using assms(1) that by (auto simp: below_def Join_append intro!: bexI [of _ d])
  from addDeclaredPath_ok [OF this assms(2)] show ?thesis
    using assms(2) by (auto simp: declared_visit_def split: option.splits entry.splits prod.splits sum.splits) (metis fst_conv)+
qed

lemma WalkDir_fst: "fst (WalkDir fn e s) = fst (walk_entry fn [] e s)"
  by (simp add: WalkDir_def split: prod.splits visit.splits)

lemma collect_declarations_ok:
  "set ds \<subseteq> set ds0 \<Longrightarrow> declared_ok U ds0 s \<Longrightarrow>
    declared_ok U ds0 (fst (collect_declarations U H put ctx X fs view absolute ds s))"
proof (induction ds arbitrary: s)
  case (Cons d ds)
  have d: "d \<in> set ds0" "below ds0 d" using Cons.prems(1) by (auto simp: below_def)
  have "declared_ok U ds0 (fst (WalkDir (declared_visit U H put ctx (Split CHR ''/'' d)) e s))" for e
    unfolding WalkDir_fst
    by (rule walk_invariant(1) [where I = "declared_ok U ds0", OF declared_visit_ok [OF d(1)] Cons.prems(2)])
  moreover have "declared_ok U ds0 (fst (addDeclaredPath U H put d a s))" for a by (rule addDeclaredPath_ok [OF d(2) Cons.prems(2)])
  ultimately have "declared_ok U ds0 (fst (collect_declaration U H put ctx X fs view absolute d s))"
    using Cons.prems(2) unfolding collect_declaration_def Let_def
    by (auto split: if_splits sum.splits node.splits prod.splits option.splits) (metis fst_conv)+
  then show ?case using Cons by (auto split: prod.splits sum.splits)
qed simp

lemma BuildDeclared_Inr:
  assumes "BuildDeclared U H put ctx X fs view root declarations st = (st', Inr m)"
  shows "is_ok (Manifest_Validate U m)"
    and "f \<in> set (mFiles m) \<Longrightarrow> below declarations (fPath f) \<and> \<not> reservedTransferPath U (fPath f)"
proof -
  obtain absolute files pp where r: "collect_declarations U H put ctx X fs view absolute declarations (st, [], []) = ((st', files, pp), Inr ())"
      "m = sorted_manifest files (total_bytes files)" "is_ok (CanonicalBytes U m)"
    using assms by (auto simp: BuildDeclared_def Let_def split: sum.splits prod.splits if_splits)
  show "is_ok (Manifest_Validate U m)" using r(3) by (cases "Manifest_Validate U m") (simp_all add: CanonicalBytes_def)
  show "below declarations (fPath f) \<and> \<not> reservedTransferPath U (fPath f)" if "f \<in> set (mFiles m)"
    using collect_declarations_ok [of declarations declarations U "(st, [], [])" H put ctx X fs view absolute] r(1,2) that
    by (simp add: declared_ok_def sorted_manifest_def)
qed

text \<open>
  C22: Collection follows links in the directories above a declared output. Only the last component of a declared path is checked
  to be no symbolic link. When a job leaves the link \<open>src\<close> in its workspace \<open>/p\<close>, pointing to \<open>/etc\<close>, the declared
  output \<open>src/main.go\<close> is the file \<open>/etc/main.go\<close> outside the workspace, and collection accepts and returns its contents.
\<close>
theorem declared_output_follows_a_link:
  fixes fs :: fs and view :: "fpath \<Rightarrow> entry"
  defines "fs \<equiv> empty_fs([''p''] \<mapsto> Directory, [''p'', ''src''] \<mapsto> Symlink [''etc''], [''etc''] \<mapsto> Directory,
      [''etc'', ''main.go''] \<mapsto> Regular [1, 2] 0x1A4)"
    and "view \<equiv> (\<lambda>q. if q = [''etc'', ''main.go''] then File (\<lambda>_. Inr (sample_opened [1, 2] 5)) (Inr []) else Special)"
  shows "snd (BuildDeclared ascii_casing sample_hash sample_put (\<lambda>_. None) no_fs_errors fs view [''p''] [''src/main.go''] sample_state)
      = Inr (sorted_manifest [sample_built] 2)"
proof -
  have e: "EvalSymlinks no_fs_errors fs [''p''] = Inr [''p'']" "Stat no_fs_errors fs [''p''] = Inr Directory"
      "Lstat no_fs_errors fs (filepath_Join [''p''] ''src/main.go'') = Inr (Regular [1, 2] 0x1A4)"
      "locate fs (filepath_Join [''p''] ''src/main.go'') = Inr [''etc'', ''main.go'']"
    unfolding fs_def by code_simp+
  have v: "is_ok (ValidatePath ascii_casing ''src/main.go'')" "\<not> reservedTransferPath ascii_casing ''src/main.go''" by code_simp+
  have c: "CanonicalBytes ascii_casing (sorted_manifest [sample_built] 2) = Inr (writeCanonical (sorted_manifest [sample_built] 2))" by code_simp
  have "[0..<maximumStableFileAttempts] = [0, 1, 2]" by (simp add: maximumStableFileAttempts_def upt_rec)
  then have "buildStableFile ascii_casing sample_hash sample_put ''src/main.go'' (\<lambda>_. Inr (sample_opened [1, 2] 5)) sample_state
      = (sample_puts sample_state, Inr sample_built)"
    using sample_buildFile [OF sample_puts_ok(1)] by (simp add: buildStableFile_def)
  then have a: "addDeclaredPath ascii_casing sample_hash sample_put ''src/main.go'' (\<lambda>_. Inr (sample_opened [1, 2] 5)) (sample_state, [], [])
      = ((sample_puts sample_state, [sample_built], [(Key ascii_casing ''src/main.go'', ''src/main.go'')]), Inr ())"
    using v by (simp add: addDeclaredPath_def Let_def MaximumFiles_def)
  have t: "total_bytes [sample_built] = 2" by (simp add: total_bytes_def sample_built_def signed_take_bit_int_eq_self)
  show ?thesis
    using v by (simp add: BuildDeclared_def e collect_declaration_def Let_def a view_def t c)
qed

end
