(* ===== verification/ArtifactManager.thy ===== *)
theory ArtifactManager
  imports SnapshotBuilder
begin

text \<open>
  \<open>internal/infra/cas/artifacts.go\<close>: collecting the declared outputs of a job into a bundle, reading its chunks, and restoring
  a bundle into a directory without overwriting anything. The manager works on a file system and on a content store whose
  index is the database that also has the artifact tables. \<open>clocks\<close> gives the readings of the clock that each stage takes. The
  lemmas follow the placement of each file: whatever is in the destination stays, and each file ends up in its place
  or below \<open>.computehop-conflicts\<close>.
\<close>

section \<open>Collecting and reading\<close>

type_synonym manager = "content_db store"

abbreviation with_db :: "manager \<Rightarrow> content_db \<times> 'a result \<Rightarrow> manager \<times> 'a result" where
  "with_db st dr \<equiv> (st\<lparr>sIndex := fst dr\<rparr>, snd dr)"

text \<open>\<open>filepath.Clean\<close> of an absolute path.\<close>

definition abs_path :: "string \<Rightarrow> fpath" where
  "abs_path p = clean_segs True (Split CHR ''/'' p) []"

definition Collect_artifacts ::
    "casing \<Rightarrow> (byte list \<Rightarrow> byte list) \<Rightarrow> (manifest \<Rightarrow> nat) \<Rightarrow> io_errors \<Rightarrow> (string list \<Rightarrow> goerror option) \<Rightarrow> fs_errors \<Rightarrow> fs \<Rightarrow> (fpath \<Rightarrow> entry)
      \<Rightarrow> (nat \<Rightarrow> clock) \<Rightarrow> time \<Rightarrow> job \<Rightarrow> manager \<Rightarrow> manager \<times> artifact_bundle result" where
  "Collect_artifacts U H J Y ctx X fs view clocks now v st =
    (if \<not> is_ok (Job_Validate U v) \<or> Outputs (jSpec v) = [] then (st, Inl [Artifact_ErrInvalidBundle])
     else
       let st0 = BeginUse (clocks 0 0) st;
           ((_, st1), built) = BuildDeclared U H (store_putter U H (sqlite_index U) Y) ctx X fs view (abs_path (WorkingDirectory (jSpec v))) (Outputs (jSpec v))
             (\<lambda>k. clocks (k + 2), st0);
           (st2, r) = (case built of
               Inl e \<Rightarrow> (st1, Inl e)
             | Inr m \<Rightarrow>
                 let b = \<lparr>bJobID = jID v, bManifest = m, bCollectedAt = now\<rparr> in
                 (case with_db st1 (Save U H J b (sIndex st1)) of
                    (st2, Inl e) \<Rightarrow> (st2, Inl e) | (st2, Inr _) \<Rightarrow> (st2, Inr b)))
       in (EndUse U (sqlite_index U) Y (clocks 1) st2, r))"

definition ReadJobChunk ::
    "casing \<Rightarrow> (byte list \<Rightarrow> byte list) \<Rightarrow> (manifest \<Rightarrow> nat) \<Rightarrow> io_errors \<Rightarrow> clock \<Rightarrow> job_id \<Rightarrow> digest \<Rightarrow> manager \<Rightarrow> manager \<times> byte list result" where
  "ReadJobChunk U H J Y clock i g st =
    (if \<not> Digest_Valid U g then (st, Inl [Cas_ErrInvalidStore])
     else (case Artifact_Get U H J (sIndex st) i of
         Inl e \<Rightarrow> (st, Inl e)
       | Inr b \<Rightarrow>
           if g \<notin> set (Digests (bManifest b)) then (st, Inl [Artifact_ErrNotFound])
           else Read_chunk U H (sqlite_index U) Y clock g st))"

definition Manager_MarkRetrieved :: "time \<Rightarrow> job_id \<Rightarrow> manager \<Rightarrow> manager \<times> unit result" where
  "Manager_MarkRetrieved now i st =
    (if \<not> ID_Valid i then (st, Inl [Artifact_ErrInvalidBundle]) else with_db st (MarkRetrieved i now (sIndex st)))"

section \<open>Placing one file\<close>

text \<open>\<open>filesEqual\<close> compares blocks of 64 KiB until one of them is short.\<close>

definition block :: nat where "block = 65536"

function blocks_equal :: "byte list \<Rightarrow> byte list \<Rightarrow> bool" where
  "blocks_equal left right =
    (if length (take block left) \<noteq> length (take block right) \<or> take block left \<noteq> take block right then False
     else if length (take block left) < block then length (take block right) < block
     else blocks_equal (drop block left) (drop block right))"
  by pat_completeness auto
termination by (relation "measure (length \<circ> fst)") (auto simp: block_def)

declare blocks_equal.simps [simp del]

definition filesEqual :: "fs_errors \<Rightarrow> fs \<Rightarrow> fpath \<Rightarrow> fpath \<Rightarrow> bool result" where
  "filesEqual X fs left right =
    ebind (Stat X fs left) (\<lambda>a. ebind (Stat X fs right) (\<lambda>b.
      case (a, b) of
        (Regular _ _, Regular _ _) \<Rightarrow>
          if node_size a \<noteq> node_size b then Inr False
          else ebind (ReadFile X fs left) (\<lambda>l. ebind (ReadFile X fs right) (\<lambda>r. Inr (blocks_equal l r)))
      | _ \<Rightarrow> Inr False))"

text \<open>The description of a path, after creating the directory if there is nothing.\<close>

definition lstat_or_mkdir :: "fs_errors \<Rightarrow> fs \<Rightarrow> fpath \<Rightarrow> fs \<times> node result" where
  "lstat_or_mkdir X fs p =
    (case Lstat X fs p of
       Inl e \<Rightarrow>
         if errors_is e Os_ErrNotExist then
           (case Mkdir X fs p of
              Inl e2 \<Rightarrow> if errors_is e2 Os_ErrExist then (fs, Lstat X fs p) else (fs, Inl e2)
            | Inr fs1 \<Rightarrow> (fs1, Lstat X fs1 p))
         else (fs, Inl e)
     | Inr n \<Rightarrow> (fs, Inr n))"

definition ensureRestoreRoot :: "fs_errors \<Rightarrow> fpath \<Rightarrow> fs \<Rightarrow> fs \<times> unit result" where
  "ensureRestoreRoot X root fs =
    (case lstat_or_mkdir X fs root of
       (fs1, info) \<Rightarrow> (fs1, if info = Inr Directory then Inr () else Inl [Artifact_ErrInvalidDestination]))"

definition splitNativePath :: "string \<Rightarrow> string list" where
  "splitNativePath v = filter (\<lambda>s. s \<noteq> []) (concat (map (Split CHR 0x5C) (Split CHR ''/'' v)))"

fun ensure_segments :: "fs_errors \<Rightarrow> fpath \<Rightarrow> string list \<Rightarrow> fs \<Rightarrow> fs \<times> bool result" where
  "ensure_segments X current [] fs = (fs, Inr True)"
| "ensure_segments X current (segment # rest) fs =
    (let current = filepath_Join current segment; (fs1, info) = lstat_or_mkdir X fs current
     in (case info of
           Inl e \<Rightarrow> (fs1, Inl e)
         | Inr (Symlink _) \<Rightarrow> (fs1, Inl [Artifact_ErrInvalidDestination])
         | Inr (Regular _ _) \<Rightarrow> (fs1, Inr False)
         | Inr Directory \<Rightarrow> ensure_segments X current rest fs1))"

definition ensureRestoreDirectory :: "fs_errors \<Rightarrow> fpath \<Rightarrow> string \<Rightarrow> fs \<Rightarrow> fs \<times> bool result" where
  "ensureRestoreDirectory X root relative fs =
    (if relative = ''.'' \<or> relative = [] then
       (case ensureRestoreRoot X root fs of (fs1, Inl e) \<Rightarrow> (fs1, Inl e) | (fs1, Inr _) \<Rightarrow> (fs1, Inr True))
     else ensure_segments X root (splitNativePath relative) fs)"

text \<open>Comparing with an existing file and giving up the staged one.\<close>

definition same_or_keep :: "fs_errors \<Rightarrow> fpath \<Rightarrow> fpath \<Rightarrow> fs \<Rightarrow> fs \<times> bool result" where
  "same_or_keep X source target fs =
    (case filesEqual X fs source target of
       Inl e \<Rightarrow> (fs, Inl e)
     | Inr False \<Rightarrow> (fs, Inr False)
     | Inr True \<Rightarrow> (case RemoveFile X fs source of Inl e \<Rightarrow> (fs, Inl e) | Inr fs1 \<Rightarrow> (fs1, Inr True)))"

definition placeWithoutOverwrite :: "fs_errors \<Rightarrow> fpath \<Rightarrow> fpath \<Rightarrow> fs \<Rightarrow> fs \<times> bool result" where
  "placeWithoutOverwrite X source target fs =
    (case Lstat X fs target of
       Inl e \<Rightarrow>
         if errors_is e Os_ErrNotExist then
           (case Rename X fs source target of
              Inr fs1 \<Rightarrow> (fs1, Inr True)
            | Inl e2 \<Rightarrow> if is_ok (Lstat X fs target) then (fs, Inr False) else (fs, Inl e2))
         else (fs, Inl e)
     | Inr (Regular _ _) \<Rightarrow> same_or_keep X source target fs
     | Inr _ \<Rightarrow> (fs, Inr False))"

fun digits :: "nat \<Rightarrow> string" where
  "digits n = (if n < 10 then [char_of (48 + n)] else digits (n div 10) @ [char_of (48 + n mod 10)])"

declare digits.simps [simp del]

definition conflict_path :: "job_id \<Rightarrow> nat \<Rightarrow> string \<Rightarrow> string" where
  "conflict_path i attempt original =
    path_Clean (Join CHR ''/'' [''.computehop-conflicts'', if attempt > 1 then i @ ''-'' @ digits attempt else i, original])"

fun conflict_loop :: "fs_errors \<Rightarrow> fpath \<Rightarrow> fpath \<Rightarrow> job_id \<Rightarrow> string \<Rightarrow> nat list \<Rightarrow> fs \<Rightarrow> fs \<times> string result" where
  "conflict_loop X source destination i original [] fs = (fs, Inl [Artifact_ErrConflict])"
| "conflict_loop X source destination i original (attempt # rest) fs =
    (let relative = conflict_path i attempt original;
         target = filepath_Join destination relative in
     case ensureRestoreDirectory X destination (path_Dir relative) fs of
       (fs1, Inl e) \<Rightarrow> (fs1, Inl e)
     | (fs1, Inr ready) \<Rightarrow>
         if \<not> ready then conflict_loop X source destination i original rest fs1
         else (case Lstat X fs1 target of
             Inl e \<Rightarrow>
               if errors_is e Os_ErrNotExist then
                 (case Rename X fs1 source target of
                    Inr fs2 \<Rightarrow> (fs2, Inr relative)
                  | Inl _ \<Rightarrow> conflict_loop X source destination i original rest fs1)
               else (fs1, Inl e)
           | Inr _ \<Rightarrow>
               (case same_or_keep X source target fs1 of
                  (fs2, Inl e) \<Rightarrow> (fs2, Inl e)
                | (fs2, Inr True) \<Rightarrow> (fs2, Inr relative)
                | (fs2, Inr False) \<Rightarrow> conflict_loop X source destination i original rest fs2)))"

definition placeConflict :: "fs_errors \<Rightarrow> fpath \<Rightarrow> fpath \<Rightarrow> job_id \<Rightarrow> string \<Rightarrow> fs \<Rightarrow> fs \<times> string result" where
  "placeConflict X source destination i original fs = conflict_loop X source destination i original [1..<101] fs"

section \<open>Restoring a bundle\<close>

text \<open>The loop over the files once all of them are staged.\<close>

fun place_files ::
    "fs_errors \<Rightarrow> fpath \<Rightarrow> fpath \<Rightarrow> job_id \<Rightarrow> snapshot_file list \<Rightarrow> restore_result \<Rightarrow> fs \<Rightarrow> fs \<times> restore_result result" where
  "place_files X staging destination i [] result fs = (fs, Inr result)"
| "place_files X staging destination i (f # files) result fs =
    (let source = filepath_Join staging (fPath f); target = filepath_Join destination (fPath f) in
     case ensureRestoreDirectory X destination (path_Dir (fPath f)) fs of
       (fs1, Inl e) \<Rightarrow> (fs1, Inl e)
     | (fs1, Inr parentReady) \<Rightarrow>
         (case (if parentReady then placeWithoutOverwrite X source target fs1 else (fs1, Inr False)) of
            (fs2, Inl e) \<Rightarrow> (fs2, Inl e)
          | (fs2, Inr True) \<Rightarrow>
              place_files X staging destination i files (result\<lparr>rRestored := rRestored result @ [fPath f]\<rparr>) fs2
          | (fs2, Inr False) \<Rightarrow>
              (case placeConflict X source destination i (fPath f) fs2 of
                 (fs3, Inl e) \<Rightarrow> (fs3, Inl e)
               | (fs3, Inr conflict) \<Rightarrow>
                   place_files X staging destination i files (result\<lparr>rConflicts := rConflicts result @ [conflict]\<rparr>) fs3)))"

definition place_all ::
    "fs_errors \<Rightarrow> fpath \<Rightarrow> fpath \<Rightarrow> artifact_bundle \<Rightarrow> fs \<Rightarrow> fs \<times> restore_result result" where
  "place_all X staging destination b fs =
    (case ensureRestoreRoot X destination fs of
       (fs1, Inl _) \<Rightarrow> (fs1, Inl [Artifact_ErrInvalidDestination])
     | (fs1, Inr _) \<Rightarrow>
         place_files X staging destination (bJobID b) (mFiles (bManifest b))
           \<lparr>rDestination = CHR ''/'' # Join CHR ''/'' destination, rRestored = [], rConflicts = []\<rparr> fs1)"

definition finish_restore :: "casing \<Rightarrow> time \<Rightarrow> job_id \<Rightarrow> restore_result \<Rightarrow> manager \<Rightarrow> manager \<times> restore_result result" where
  "finish_restore U now i result st =
    (let result = NormalizeResult result in
     case Restore_Validate U result of
       Inl e \<Rightarrow> (st, Inl e)
     | Inr _ \<Rightarrow>
         (case with_db st (MarkRetrieved i now (sIndex st)) of
            (st1, Inl e) \<Rightarrow> (st1, Inl e) | (st1, Inr _) \<Rightarrow> (st1, Inr result)))"

text \<open>The part behind the creation of the staging directory \<open>S\<close>.\<close>

definition staged_part ::
    "casing \<Rightarrow> (byte list \<Rightarrow> byte list) \<Rightarrow> io_errors \<Rightarrow> fs_errors \<Rightarrow> (nat \<Rightarrow> clock) \<Rightarrow> time \<Rightarrow> artifact_bundle \<Rightarrow> fpath \<Rightarrow> fpath
      \<Rightarrow> fs \<Rightarrow> manager \<Rightarrow> fs \<times> manager \<times> restore_result result" where
  "staged_part U H Y X clocks now b D S fs2 st1 =
    (case materialize_files (store_reader U H (sqlite_index U) Y) X S (mFiles (bManifest b)) (fs2, clocks 2, st1) of
       ((fs3, _, st3), Inl e) \<Rightarrow> (fs3, st3, Inl e)
     | ((fs3, _, st3), Inr _) \<Rightarrow>
         (case place_all X S D b fs3 of
            (fs4, Inl e) \<Rightarrow> (fs4, st3, Inl e)
          | (fs4, Inr result) \<Rightarrow> (case finish_restore U now (bJobID b) result st3 of (st4, r) \<Rightarrow> (fs4, st4, r))))"

text \<open>Everything between \<open>BeginUse\<close> and its release. \<open>temp\<close> is the name \<open>MkdirTemp\<close> makes for the staging directory.\<close>

definition restore_body ::
    "casing \<Rightarrow> (byte list \<Rightarrow> byte list) \<Rightarrow> io_errors \<Rightarrow> fs_errors \<Rightarrow> (nat \<Rightarrow> clock) \<Rightarrow> time \<Rightarrow> string \<Rightarrow> artifact_bundle \<Rightarrow> fpath
      \<Rightarrow> fs \<times> manager \<Rightarrow> (fs \<times> manager) \<times> restore_result result" where
  "restore_body U H Y X clocks now temp b destination s =
    (case s of (fs, st) \<Rightarrow>
     if destination = [] then (s, Inl [Artifact_ErrInvalidDestination])
     else
    (case Missing U H (sqlite_index U) Y (clocks 1) (Digests (bManifest b)) st of
       (st1, Inl e) \<Rightarrow> ((fs, st1), Inl e)
     | (st1, Inr missing) \<Rightarrow>
        if missing \<noteq> [] then ((fs, st1), Inl [Cas_ErrNotFound])
        else
    (let parent = butlast destination; staging = parent @ [temp] in
     case MkdirAll X fs parent of
       Inl e \<Rightarrow> ((fs, st1), Inl e)
     | Inr fs1 \<Rightarrow>
    (case MkdirTemp X fs1 parent temp of
       Inl e \<Rightarrow> ((fs1, st1), Inl e)
     | Inr fs2 \<Rightarrow>
         let (fs5, st5, r) = staged_part U H Y X clocks now b destination staging fs2 st1
         in ((case OsRemoveAll X fs5 staging of Inl _ \<Rightarrow> fs5 | Inr fs6 \<Rightarrow> fs6, st5), r)))))"

definition Restore ::
    "casing \<Rightarrow> (byte list \<Rightarrow> byte list) \<Rightarrow> io_errors \<Rightarrow> fs_errors \<Rightarrow> (nat \<Rightarrow> clock) \<Rightarrow> time \<Rightarrow> string \<Rightarrow> artifact_bundle \<Rightarrow> string
      \<Rightarrow> fs \<times> manager \<Rightarrow> (fs \<times> manager) \<times> restore_result result" where
  "Restore U H Y X clocks now temp b destination s =
    (if \<not> is_ok (Bundle_Validate U b) \<or> \<not> prefix ''/'' destination then (s, Inl [Artifact_ErrInvalidDestination])
     else
       let ((fs1, st1), r) = restore_body U H Y X clocks now temp b (abs_path destination) (fst s, BeginUse (clocks 0 0) (snd s))
       in ((fs1, EndUse U (sqlite_index U) Y (clocks 3) st1), r))"

section \<open>File system facts\<close>

text \<open>Everything outside a set of paths stays what it was, and no link is made; no error is reported as a missing file.\<close>

definition kept :: "fpath set \<Rightarrow> fs \<Rightarrow> fs \<Rightarrow> bool" where
  "kept A fs fs' \<longleftrightarrow> (\<forall>q. q \<notin> A \<longrightarrow> fs q \<noteq> None \<longrightarrow> fs' q = fs q)
     \<and> (\<forall>q l. fs' q = Some (Symlink l) \<longrightarrow> fs q = Some (Symlink l))"

definition honest :: "fs_errors \<Rightarrow> bool" where
  "honest X \<longleftrightarrow> (\<forall>op p e. X op p = Some e \<longrightarrow> \<not> errors_is e Os_ErrNotExist)"

lemma kept_refl [simp]: "kept A fs fs"
  by (simp add: kept_def)

lemma kept_trans: "kept A fs fs1 \<Longrightarrow> kept B fs1 fs2 \<Longrightarrow> kept (A \<union> B) fs fs2"
  unfolding kept_def by (metis UnCI)

lemma kept_mono: "kept A fs fs' \<Longrightarrow> A \<subseteq> B \<Longrightarrow> kept B fs fs'"
  by (auto simp: kept_def)

lemma keptD: "kept A fs fs' \<Longrightarrow> fs q = Some n \<Longrightarrow> q \<notin> A \<Longrightarrow> fs' q = Some n"
  by (simp add: kept_def)

lemma locate_wf: "wf_fs fs \<Longrightarrow> fs p \<noteq> None \<Longrightarrow> locate fs p = Inr p"
  by (rule locate_below) (rule wf_fs_above)

lemma locate_child:
  assumes "wf_fs fs" "fs d = Some Directory"
  shows "locate fs (d @ [s]) = Inr (d @ [s])"
proof (rule locate_below)
  fix q assume "strict_prefix q (d @ [s])"
  then have "q = d \<or> strict_prefix q d" by (auto simp: strict_prefix_def prefix_snoc)
  then show "fs q = Some Directory" using assms wf_fs_above [of fs d q] by auto
qed

lemma Lstat_child:
  "wf_fs fs \<Longrightarrow> fs d = Some Directory \<Longrightarrow>
    Lstat X fs (d @ [s]) = guard X OpLstat (d @ [s]) (case fs (d @ [s]) of None \<Rightarrow> Inl [Os_ErrNotExist] | Some n \<Rightarrow> Inr n)"
  by (simp add: Lstat_def locate_child)

lemma wf_child: "wf_fs fs \<Longrightarrow> fs d = Some Directory \<Longrightarrow> fs (d @ [s]) = None \<Longrightarrow> wf_fs (fs(d @ [s] \<mapsto> n))"
  using empty_below [of fs "d @ [s]" "(d @ [s]) @ _"] unfolding wf_fs_def by (auto simp: prefix_def)

lemma regular_leaf: "wf_fs fs \<Longrightarrow> fs p = Some (Regular c m) \<Longrightarrow> strict_prefix p q \<Longrightarrow> fs q = None"
  using wf_fs_above [of fs q p] by (cases "fs q") auto

lemma wf_remove_file: "wf_fs fs \<Longrightarrow> fs p = Some (Regular c m) \<Longrightarrow> wf_fs (fs(p := None))"
  using regular_leaf [of fs p c m "p @ [_]"] unfolding wf_fs_def by (auto simp: strict_prefix_def)

lemma Stat_regular: "wf_fs fs \<Longrightarrow> fs p = Some (Regular c m) \<Longrightarrow> Stat X fs p = guard X OpStat p (Inr (Regular c m))"
  using follow_below [of p fs maximumLinks] wf_fs_above [of fs p] by (simp add: Stat_def)

lemma ReadFile_regular: "wf_fs fs \<Longrightarrow> fs p = Some (Regular c m) \<Longrightarrow> ReadFile X fs p = guard X OpRead p (Inr c)"
  using follow_below [of p fs maximumLinks] wf_fs_above [of fs p] by (simp add: ReadFile_def)

lemma moved_file:
  assumes "wf_fs fs" "fs a = Some (Regular c m)" "fs b = None" "a \<noteq> b"
  shows "moved fs a b = fs(a := None, b \<mapsto> Regular c m)"
proof
  fix q
  have leaf: "fs (a @ r) = None" if "r \<noteq> []" for r using regular_leaf [OF assms(1,2)] that by (simp add: strict_prefix_def)
  show "moved fs a b q = (fs(a := None, b \<mapsto> Regular c m)) q"
  proof (cases "prefix b q")
    case True
    then obtain r where q: "q = b @ r" by (auto simp: prefix_def)
    show ?thesis
    proof (cases "r = []")
      case False
      then show ?thesis using leaf [OF False] empty_below [OF assms(1,3) True] q by (simp add: moved_def)
    qed (use assms(2) q in \<open>simp add: moved_def\<close>)
  next
    case False
    then have "q \<noteq> b" by auto
    then show ?thesis using False leaf by (cases "prefix a q") (auto simp: moved_def prefix_def, metis)
  qed
qed

lemma blocks_equal_iff: "blocks_equal l r \<longleftrightarrow> l = r"
proof (induction l r rule: blocks_equal.induct)
  case (1 l r)
  show ?case
  proof (cases "take block l = take block r \<and> \<not> length (take block l) < block")
    case True
    then have "blocks_equal l r \<longleftrightarrow> drop block l = drop block r" using 1 by (subst blocks_equal.simps) auto
    then show ?thesis using True by (metis append_take_drop_id)
  next
    case False
    then show ?thesis
      by (subst blocks_equal.simps) (auto simp: min_def split: if_splits)
  qed
qed

lemma same_or_keep_spec:
  assumes "wf_fs fs" "fs source = Some (Regular c m)" "same_or_keep X source target fs = (fs1, r)"
  shows "wf_fs fs1" "kept {source} fs fs1" "r = Inr True \<Longrightarrow> fs target = Some (Regular d n) \<Longrightarrow> d = c"
    "r = Inr True \<Longrightarrow> fs1 = fs(source := None)" "r \<noteq> Inr True \<Longrightarrow> fs1 = fs"
proof -
  have rm: "RemoveFile X fs source = guard X OpRemove source (Inr (fs(source := None)))"
    using assms(1,2) by (simp add: RemoveFile_def locate_wf)
  consider "fs1 = fs" "r \<noteq> Inr True" | "fs1 = fs(source := None)" "r = Inr True" "filesEqual X fs source target = Inr True"
  proof (cases "filesEqual X fs source target = Inr True \<and> X OpRemove source = None")
    case True
    then show ?thesis using assms(3) rm that(2) by (simp add: same_or_keep_def guard_def)
  next
    case False
    then have "fs1 = fs \<and> r \<noteq> Inr True"
      using assms(3) rm by (auto simp: same_or_keep_def guard_def split: sum.splits bool.splits option.splits)
    then show ?thesis using that(1) by blast
  qed
  note cases = this
  show "wf_fs fs1" using cases assms(1,2) wf_remove_file by cases auto
  show "kept {source} fs fs1" using cases by cases (auto simp: kept_def)
  show "r = Inr True \<Longrightarrow> fs1 = fs(source := None)" "r \<noteq> Inr True \<Longrightarrow> fs1 = fs" using cases by (cases; simp)+
  show "d = c" if "r = Inr True" "fs target = Some (Regular d n)"
  proof -
    have "filesEqual X fs source target = Inr True" using cases that(1) by cases auto
    then show ?thesis
      using Stat_regular [OF assms(1)] ReadFile_regular [OF assms(1)] assms(2) that(2)
      by (auto simp: filesEqual_def guard_def blocks_equal_iff result_simps split: option.splits if_splits)
  qed
qed

section \<open>Placing never overwrites\<close>

lemma lstat_or_mkdir_spec:
  assumes "wf_fs fs" "fs d = Some Directory" "lstat_or_mkdir X fs (d @ [s]) = (fs1, r)"
  shows "wf_fs fs1" "kept {} fs fs1" "r = Inr n \<Longrightarrow> fs1 (d @ [s]) = Some n"
    "fs1 = fs \<or> (fs (d @ [s]) = None \<and> fs1 = fs(d @ [s] \<mapsto> Directory))"
proof -
  let ?p = "d @ [s]"
  have l: "Lstat X fs ?p = guard X OpLstat ?p (case fs ?p of None \<Rightarrow> Inl [Os_ErrNotExist] | Some n \<Rightarrow> Inr n)"
    by (rule Lstat_child [OF assms(1,2)])
  have m: "Mkdir X fs ?p = guard X OpMkdir ?p (if fs ?p \<noteq> None then Inl [Os_ErrExist] else Inr (fs(?p \<mapsto> Directory)))"
    by (simp add: Mkdir_def locate_child [OF assms(1,2)])
  have wf: "wf_fs (fs(?p \<mapsto> Directory))" if "fs ?p = None" by (rule wf_child [OF assms(1,2) that])
  have d': "(fs(?p \<mapsto> Directory)) d = Some Directory" using assms(2) by simp
  have l': "Lstat X (fs(?p \<mapsto> Directory)) ?p = guard X OpLstat ?p (Inr Directory)" if "fs ?p = None"
    using Lstat_child [OF wf [OF that] d', of X s] by (simp only: fun_upd_same option.case)
  have c: "(fs1 = fs \<and> (r = Inr n \<longrightarrow> fs ?p = Some n))
      \<or> (fs ?p = None \<and> fs1 = fs(?p \<mapsto> Directory) \<and> (r = Inr n \<longrightarrow> n = Directory))"
    using assms(3) l m l' by (auto simp: lstat_or_mkdir_def guard_def split: option.splits if_splits)
  then show "wf_fs fs1" "kept {} fs fs1" "r = Inr n \<Longrightarrow> fs1 ?p = Some n" "fs1 = fs \<or> (fs ?p = None \<and> fs1 = fs(?p \<mapsto> Directory))"
    using assms(1) wf by (auto simp: kept_def split: if_splits)
qed

text \<open>Segments as they come out of validated paths.\<close>

definition native :: "string list \<Rightarrow> bool" where
  "native ss \<longleftrightarrow> list_all (\<lambda>s. plain_seg s \<and> CHR ''/'' \<notin> set s \<and> CHR 0x5C \<notin> set s) ss"

lemma native_ok: "native ss \<Longrightarrow> segs_ok ss \<and> list_all plain_seg ss"
  by (auto simp: native_def segs_ok_def list_all_iff)

lemma native_butlast: "native ss \<Longrightarrow> native (butlast ss)"
  by (auto simp: native_def list_all_iff dest: in_set_butlastD)

lemma splitNativePath_Join: "native ss \<Longrightarrow> ss \<noteq> [] \<Longrightarrow> splitNativePath (Join CHR ''/'' ss) = ss"
proof -
  assume n: "native ss" "ss \<noteq> []"
  have "concat (map (Split CHR 0x5C) ts) = ts" if "list_all (\<lambda>s. CHR 0x5C \<notin> set s) ts" for ts
    using that by (induction ts) (auto simp: Split_single)
  moreover have "list_all (\<lambda>s. CHR 0x5C \<notin> set s) ss" "filter (\<lambda>s. s \<noteq> []) ss = ss"
    using n(1) by (auto simp: native_def list_all_iff plain_seg_def)
  ultimately show ?thesis using n native_ok by (simp add: splitNativePath_def Split_segs)
qed

lemma filepath_Join_seg: "list_all plain_seg D \<Longrightarrow> plain_seg s \<Longrightarrow> CHR ''/'' \<notin> set s \<Longrightarrow> filepath_Join D s = D @ [s]"
  by (simp add: filepath_Join_plain Split_single)

lemma ensure_segments_spec:
  assumes "wf_fs fs" "fs D = Some Directory" "list_all plain_seg D" "native ss" "ensure_segments X D ss fs = (fs1, r)"
  shows "wf_fs fs1 \<and> kept {} fs fs1 \<and> (r = Inr True \<longrightarrow> fs1 (D @ ss) = Some Directory)
    \<and> (\<forall>q. fs1 q \<noteq> fs q \<longrightarrow> strict_prefix D q \<and> fs1 q = Some Directory)"
  using assms
proof (induction ss arbitrary: D fs)
  case (Cons s ss)
  have s: "plain_seg s" "CHR ''/'' \<notin> set s" "native ss" using Cons.prems(4) by (auto simp: native_def)
  have j: "filepath_Join D s = D @ [s]" using Cons.prems(3) s by (simp add: filepath_Join_seg)
  obtain fs2 info where l: "lstat_or_mkdir X fs (D @ [s]) = (fs2, info)" by fastforce
  note spec = lstat_or_mkdir_spec [OF Cons.prems(1,2) l]
  have new: "strict_prefix D q \<and> fs2 q = Some Directory" if "fs2 q \<noteq> fs q" for q
    using spec(4) that by (auto simp: strict_prefix_def split: if_splits)
  show ?case
  proof (cases "info = Inr Directory")
    case True
    have run: "ensure_segments X (D @ [s]) ss fs2 = (fs1, r)" using Cons.prems(5) True l by (simp add: j)
    have ih: "wf_fs fs1 \<and> kept {} fs2 fs1 \<and> (r = Inr True \<longrightarrow> fs1 ((D @ [s]) @ ss) = Some Directory)
        \<and> (\<forall>q. fs1 q \<noteq> fs2 q \<longrightarrow> strict_prefix (D @ [s]) q \<and> fs1 q = Some Directory)"
      by (rule Cons.IH [OF spec(1) spec(3) [OF True] _ s(3) run]) (use Cons.prems(3) s in simp)
    have "strict_prefix D q \<and> fs1 q = Some Directory" if q: "fs1 q \<noteq> fs q" for q
    proof (cases "fs1 q = fs2 q")
      case True
      then show ?thesis using new [of q] q by simp
    next
      case False
      then have "strict_prefix (D @ [s]) q" "fs1 q = Some Directory" using ih by auto
      then show ?thesis by (metis append_prefixD prefix_order.le_less_trans prefixI strict_prefix_def not_Cons_self2 append_self_conv)
    qed
    then show ?thesis using ih kept_trans [OF spec(2), of "{}" fs1] by auto
  next
    case False
    then have "fs1 = fs2 \<and> r \<noteq> Inr True"
      using Cons.prems(5) l by (auto simp: j split: sum.splits node.splits)
    then show ?thesis using spec new by auto
  qed
qed simp

lemma ensureRestoreDirectory_spec:
  assumes "wf_fs fs" "fs D = Some Directory" "D \<noteq> []" "list_all plain_seg D" "native ss" "ss \<noteq> []"
    and "ensureRestoreDirectory X D (path_Dir (Join CHR ''/'' ss)) fs = (fs1, r)"
  shows "wf_fs fs1" "kept {} fs fs1" "r = Inr True \<Longrightarrow> fs1 (D @ butlast ss) = Some Directory"
    "fs1 q \<noteq> fs q \<Longrightarrow> strict_prefix D q \<and> fs1 q = Some Directory"
proof -
  have dir: "path_Dir (Join CHR ''/'' ss) = (if butlast ss = [] then ''.'' else Join CHR ''/'' (butlast ss))"
    using path_Dir_Join assms(5,6) native_ok by blast
  have "wf_fs fs1 \<and> kept {} fs fs1 \<and> (r = Inr True \<longrightarrow> fs1 (D @ butlast ss) = Some Directory)
      \<and> (\<forall>q. fs1 q \<noteq> fs q \<longrightarrow> strict_prefix D q \<and> fs1 q = Some Directory)"
  proof (cases "butlast ss = []")
    case True
    obtain fs2 info where l: "lstat_or_mkdir X fs D = (fs2, info)" by fastforce
    obtain d s where D: "D = d @ [s]" using assms(3) by (cases D rule: rev_cases) auto
    have "fs d = Some Directory" using assms(1,2) D by (auto simp: wf_fs_def)
    from lstat_or_mkdir_spec(4) [OF assms(1) this l [unfolded D]] have "fs2 = fs" using assms(2) D by auto
    then show ?thesis
      using assms(1,2,7) True l by (auto simp: ensureRestoreDirectory_def dir ensureRestoreRoot_def split: if_splits)
  next
    case False
    have n: "native (butlast ss)" by (rule native_butlast [OF assms(5)])
    have "butlast ss \<noteq> [[]]" using native_ok [OF n] by (auto simp: plain_seg_def)
    then have "Join CHR ''/'' (butlast ss) \<noteq> ''.'' \<and> Join CHR ''/'' (butlast ss) \<noteq> []"
      using Join_dot [of "butlast ss"] native_ok [OF n] False Split_segs [of "butlast ss"] by (metis Split.simps(1))
    then have "ensure_segments X D (butlast ss) fs = (fs1, r)"
      using assms(7) False by (simp add: ensureRestoreDirectory_def dir splitNativePath_Join [OF n])
    from ensure_segments_spec [OF assms(1,2,4) n this] show ?thesis .
  qed
  then show "wf_fs fs1" "kept {} fs fs1" "r = Inr True \<Longrightarrow> fs1 (D @ butlast ss) = Some Directory"
    "fs1 q \<noteq> fs q \<Longrightarrow> strict_prefix D q \<and> fs1 q = Some Directory" by auto
qed

lemma rename_file:
  assumes "wf_fs fs" "fs source = Some (Regular c m)" "fs d = Some Directory" "fs (d @ [s]) = None"
  shows "Rename X fs source (d @ [s]) = guard X OpRename (d @ [s]) (Inr (fs(source := None, d @ [s] \<mapsto> Regular c m)))"
    and "wf_fs (fs(source := None, d @ [s] \<mapsto> Regular c m))" "kept {source} fs (fs(source := None, d @ [s] \<mapsto> Regular c m))"
proof -
  have ne: "source \<noteq> d @ [s]" "source \<noteq> d" using assms by auto
  show "Rename X fs source (d @ [s]) = guard X OpRename (d @ [s]) (Inr (fs(source := None, d @ [s] \<mapsto> Regular c m)))"
    using assms locate_wf [OF assms(1), of source] locate_child [OF assms(1,3)] moved_file [OF assms(1,2,4) ne(1)]
    by (simp add: Rename_def)
  show "wf_fs (fs(source := None, d @ [s] \<mapsto> Regular c m))"
    by (rule wf_child [OF wf_remove_file [OF assms(1,2)]]) (use assms(3,4) ne in auto)
  show "kept {source} fs (fs(source := None, d @ [s] \<mapsto> Regular c m))" using assms(4) by (simp add: kept_def)
qed

lemma placeWithoutOverwrite_spec:
  assumes "wf_fs fs" "fs source = Some (Regular c m)" "fs d = Some Directory" "honest X"
    and "placeWithoutOverwrite X source (d @ [s]) fs = (fs1, r)"
  shows "wf_fs fs1" "kept {source} fs fs1" "r = Inr True \<Longrightarrow> source \<noteq> d @ [s] \<Longrightarrow> \<exists>m'. fs1 (d @ [s]) = Some (Regular c m')"
    "r \<noteq> Inr True \<Longrightarrow> fs1 = fs"
proof -
  let ?t = "d @ [s]"
  note l = Lstat_child [OF assms(1,3), of X s]
  have h: "\<not> errors_is e Os_ErrNotExist" if "X op p = Some e" for op p e using assms(4) that by (auto simp: honest_def)
  have all: "wf_fs fs1 \<and> kept {source} fs fs1 \<and> (r = Inr True \<longrightarrow> source \<noteq> ?t \<longrightarrow> (\<exists>m'. fs1 ?t = Some (Regular c m')))
      \<and> (r \<noteq> Inr True \<longrightarrow> fs1 = fs)"
  proof (cases "X OpLstat ?t")
    case (Some e)
    then have "fs1 = fs \<and> r \<noteq> Inr True" using assms(5) l h by (auto simp: placeWithoutOverwrite_def guard_def)
    then show ?thesis using assms(1) by simp
  next
    case ok: None
    show ?thesis
    proof (cases "fs ?t")
      case None
      note ren = rename_file(1) [OF assms(1-3) None, of X] rename_file(2,3) [OF assms(1-3) None]
      have "(fs1 = fs \<and> r \<noteq> Inr True) \<or> (fs1 = fs(source := None, ?t \<mapsto> Regular c m) \<and> r = Inr True)"
        using assms(5) l ok None ren(1) by (auto simp: placeWithoutOverwrite_def guard_def errors_is_def split: option.splits if_splits)
      then show ?thesis using assms(1) ren(2,3) by auto
    next
      case (Some n)
      show ?thesis
      proof (cases n)
        case (Regular c' m')
        then have run: "same_or_keep X source ?t fs = (fs1, r)"
          using assms(5) l ok Some by (simp add: placeWithoutOverwrite_def guard_def)
        note sk = same_or_keep_spec [OF assms(1,2) run]
        show ?thesis using sk Some Regular by auto
      qed (use assms(1,5) l ok Some in \<open>auto simp: placeWithoutOverwrite_def guard_def\<close>)
    qed
  qed
  then show "wf_fs fs1" "kept {source} fs fs1" "r = Inr True \<Longrightarrow> source \<noteq> ?t \<Longrightarrow> \<exists>m'. fs1 ?t = Some (Regular c m')"
    "r \<noteq> Inr True \<Longrightarrow> fs1 = fs" by auto
qed

text \<open>A file is at a path, or a link that was there before leads to one.\<close>

definition found :: "fs \<Rightarrow> fs \<Rightarrow> fpath \<Rightarrow> byte list \<Rightarrow> bool" where
  "found fs0 fs p c \<longleftrightarrow> (\<exists>m. fs p = Some (Regular c m)) \<or> (\<exists>t. fs0 p = Some (Symlink t))"

definition conflict_segments :: "job_id \<Rightarrow> nat \<Rightarrow> string \<Rightarrow> string list" where
  "conflict_segments i k original = ''.computehop-conflicts'' # (if k > 1 then i @ ''-'' @ digits k else i) # Split CHR ''/'' original"

lemma digit_chars: "set (digits n) \<subseteq> {c. 48 \<le> byte_of c \<and> byte_of c \<le> 57}"
proof (induction n rule: digits.induct)
  case (1 n)
  have d: "(of_char (char_of (48 + k) :: char) :: nat) = 48 + k" if "k < 10" for k using that by simp
  have "byte_of (char_of (48 + n mod 10)) = 48 + n mod 10" by (rule d) simp
  then show ?case using 1 by (subst digits.simps) auto
qed

lemma hex_chars: "c \<in> set (hex_encode bs) \<Longrightarrow> 48 \<le> byte_of c \<and> (byte_of c \<le> 57 \<or> 97 \<le> byte_of c)"
proof (induction bs)
  case (Cons b bs)
  have h: "48 \<le> byte_of (hex_digit n) \<and> (byte_of (hex_digit n) \<le> 57 \<or> 97 \<le> byte_of (hex_digit n))" if "n < 16" for n
    using that by (auto simp: hex_digit_def)
  have "unat b < 256" using unsigned_less [of b, where 'a = nat] by simp
  then show ?case using Cons h [of "unat b div 16"] h [of "unat b mod 16"] by (auto simp: hex_encode_def hex_byte_def)
qed (simp add: hex_encode_def)

lemma job_id_chars: "ID_Valid i \<Longrightarrow> CHR ''/'' \<notin> set i \<and> CHR 0x5C \<notin> set i"
proof -
  assume "ID_Valid i"
  then obtain v where v: "length v = 16" "i = formatID v" by (auto simp: ID_Valid_iff)
  have "CHR ''/'' \<notin> set (hex_encode bs) \<and> CHR 0x5C \<notin> set (hex_encode bs)" for bs
    using hex_chars [of "CHR ''/''" bs] hex_chars [of "CHR 0x5C" bs] by auto
  then show ?thesis unfolding v(2) formatID_def by simp
qed

lemma conflict_segments_native:
  assumes "ID_Valid i" "native (Split CHR ''/'' original)"
  shows "native (conflict_segments i k original)"
proof -
  have d: "CHR ''/'' \<notin> set (digits k) \<and> CHR 0x5C \<notin> set (digits k)" using digit_chars [of k] by auto
  have "plain_seg i" "plain_seg (i @ ''-'' @ digits k)" using ID_Valid_length [OF assms(1)] by (auto simp: plain_seg_def dest: arg_cong [of _ _ length])
  then show ?thesis
    using assms(2) job_id_chars [OF assms(1)] d by (simp add: conflict_segments_def native_def plain_seg_def)
qed

lemma conflict_path_Join:
  assumes "ID_Valid i" "native (Split CHR ''/'' original)"
  shows "conflict_path i k original = Join CHR ''/'' (conflict_segments i k original)"
    "Split CHR ''/'' (conflict_path i k original) = conflict_segments i k original"
proof -
  note n = conflict_segments_native [OF assms, of k]
  let ?j = "Join CHR ''/'' (conflict_segments i k original)"
  have j: "Split CHR ''/'' ?j = conflict_segments i k original"
    by (rule Split_segs) (use native_ok [OF n] in \<open>simp_all add: conflict_segments_def\<close>)
  have e: "Join CHR ''/'' [''.computehop-conflicts'', if k > 1 then i @ ''-'' @ digits k else i, original] = ?j"
    by (simp add: conflict_segments_def Join_Cons)
  show "conflict_path i k original = ?j"
    unfolding conflict_path_def e by (rule path_Clean_plain) (use n native_ok j in auto)
  then show "Split CHR ''/'' (conflict_path i k original) = conflict_segments i k original" using j by simp
qed

lemma same_or_keep_directory:
  assumes "wf_fs fs" "fs target = Some Directory" "same_or_keep X source target fs = (fs1, r)"
  shows "r \<noteq> Inr True"
proof -
  have "Stat X fs target = guard X OpStat target (Inr Directory)"
    using follow_below [of target fs maximumLinks] wf_fs_above [OF assms(1), of target] assms(2) by (simp add: Stat_def)
  then have "filesEqual X fs source target \<noteq> Inr True"
    by (auto simp: filesEqual_def guard_def result_simps split: option.splits node.splits)
  then show ?thesis using assms(3) by (auto simp: same_or_keep_def split: sum.splits bool.splits)
qed

lemma conflict_loop_spec:
  assumes "wf_fs fs" "fs source = Some (Regular c m)" "fs D = Some Directory" "D \<noteq> []" "list_all plain_seg D" "honest X"
    and "ID_Valid i" "native (Split CHR ''/'' original)" "\<not> prefix D source"
    and "conflict_loop X source D i original ks fs = (fs1, r)"
  shows "wf_fs fs1 \<and> kept {source} fs fs1 \<and> (\<forall>rel. r = Inr rel \<longrightarrow> found fs fs1 (D @ Split CHR ''/'' rel) c)"
  using assms(1-3,10)
proof (induction ks arbitrary: fs)
  case (Cons k ks)
  let ?ss = "conflict_segments i k original" and ?rel = "conflict_path i k original"
  note n = conflict_segments_native [OF assms(7,8), of k]
  note p = conflict_path_Join [OF assms(7,8), of k]
  have ss: "?ss \<noteq> []" by (simp add: conflict_segments_def)
  obtain s where s: "?ss = butlast ?ss @ [s]" using ss by (metis append_butlast_last_id)
  have t: "filepath_Join D ?rel = (D @ butlast ?ss) @ [s]"
    using assms(5) native_ok [OF n] s by (simp add: filepath_Join_plain p(2))
  obtain fs2 r2 where e: "ensureRestoreDirectory X D (path_Dir ?rel) fs = (fs2, r2)" by fastforce
  note dir = ensureRestoreDirectory_spec [OF Cons.prems(1,3) assms(4,5) n ss e [unfolded p(1)]]
  have src: "fs2 source = Some (Regular c m)" "fs2 D = Some Directory"
    using keptD [OF dir(2) Cons.prems(2)] keptD [OF dir(2) Cons.prems(3)] by simp_all
  have go_on: "wf_fs fs1 \<and> kept {source} fs fs1 \<and> (\<forall>rel. r = Inr rel \<longrightarrow> found fs fs1 (D @ Split CHR ''/'' rel) c)"
    if "conflict_loop X source D i original ks fs2 = (fs1, r)"
  proof -
    have ih: "wf_fs fs1 \<and> kept {source} fs2 fs1 \<and> (\<forall>rel. r = Inr rel \<longrightarrow> found fs2 fs1 (D @ Split CHR ''/'' rel) c)"
      by (rule Cons.IH [OF dir(1) src that])
    have "fs q = Some (Symlink l)" if "fs2 q = Some (Symlink l)" for q l using dir(4) [of q] that by (cases "fs2 q = fs q") auto
    then show ?thesis using ih kept_trans [OF dir(2), of "{source}" fs1] by (fastforce simp: found_def)
  qed
  have keep: "kept {source} fs fs2" using kept_mono [OF dir(2)] by simp
  show ?case
  proof (cases "r2 = Inr True")
    case False
    then have "(fs1 = fs2 \<and> \<not> is_ok r) \<or> conflict_loop X source D i original ks fs2 = (fs1, r)"
      using Cons.prems(4) e by (auto simp: Let_def split: sum.splits bool.splits)
    then show ?thesis using go_on dir(1) keep by auto
  next
    case True
    let ?d = "D @ butlast ?ss"
    let ?t = "?d @ [s]"
    have d: "fs2 ?d = Some Directory" by (rule dir(3) [OF True])
    have ne: "source \<noteq> ?t" using assms(9) by auto
    note l = Lstat_child [OF dir(1) d, of X s]
    have tgt: "D @ Split CHR ''/'' ?rel = ?t" using s p(2) by simp
    note run = Cons.prems(4) [simplified, unfolded Let_def t e, simplified True, simplified]
    have h: "\<not> errors_is e Os_ErrNotExist" if "X op q = Some e" for op q e using assms(6) that by (auto simp: honest_def)
    show ?thesis
    proof (cases "X OpLstat ?t")
      case (Some e')
      then have "fs1 = fs2 \<and> \<not> is_ok r" using run l h by (auto simp: guard_def)
      then show ?thesis using dir(1) keep by auto
    next
      case ok: None
      show ?thesis
      proof (cases "fs2 ?t")
        case None
        note ren = rename_file(1) [OF dir(1) src(1) d None, of X] rename_file(2,3) [OF dir(1) src(1) d None]
        have "conflict_loop X source D i original ks fs2 = (fs1, r)
            \<or> (fs1 = fs2(source := None, ?t \<mapsto> Regular c m) \<and> r = Inr ?rel)"
          using run l ok None ren(1) by (auto simp: guard_def errors_is_def split: option.splits)
        then show ?thesis
        proof
          assume "fs1 = fs2(source := None, ?t \<mapsto> Regular c m) \<and> r = Inr ?rel"
          then have f: "fs1 = fs2(source := None, ?t \<mapsto> Regular c m)" "r = Inr ?rel" by simp_all
          have "found fs fs1 ?t c" by (simp add: found_def f(1))
          then show ?thesis using ren(2) kept_trans [OF keep ren(3)] unfolding f(1) [symmetric] f(2) by (simp add: tgt del: append_assoc)
        qed (rule go_on)
      next
        case (Some nd)
        obtain fs3 r3 where sk: "same_or_keep X source ?t fs2 = (fs3, r3)" by fastforce
        note spec = same_or_keep_spec [OF dir(1) src(1) sk]
        show ?thesis
        proof (cases "r3 = Inr True")
          case True
          then have f: "fs1 = fs3" "r = Inr ?rel" using run l ok Some sk by (simp_all add: guard_def)
          have "nd \<noteq> Directory" using same_or_keep_directory [OF dir(1) _ sk] Some True by auto
          moreover have "fs ?t = Some (Symlink x)" if "nd = Symlink x" for x
            using dir(4) [of ?t] Some that by (cases "fs2 ?t = fs ?t") auto
          ultimately have "found fs fs1 ?t c" 
            using Some spec(3) [OF True] ne by (cases nd) (auto simp: found_def f(1) spec(4) [OF True])
          then show ?thesis using spec(1) kept_trans [OF keep spec(2)] unfolding f by (simp add: tgt del: append_assoc)
        next
          case False
          then have "(fs1 = fs2 \<and> \<not> is_ok r) \<or> conflict_loop X source D i original ks fs2 = (fs1, r)"
            using run l ok Some sk spec(5) by (auto simp: guard_def split: sum.splits bool.splits)
          then show ?thesis using go_on dir(1) keep by auto
        qed
      qed
    qed
  qed
qed auto

lemma found_kept:
  assumes "found fs0 fs p c" "kept A fs fs'" "p \<notin> A"
  shows "found fs0 fs' p c"
  using assms keptD unfolding found_def by blast

text \<open>Where a file of the bundle is after placing.\<close>

definition delivered_to :: "fpath \<Rightarrow> restore_result \<Rightarrow> fs \<Rightarrow> fs \<Rightarrow> snapshot_file \<Rightarrow> byte list \<Rightarrow> bool" where
  "delivered_to D result fs0 fs f c \<longleftrightarrow>
    (fPath f \<in> set (rRestored result) \<and> (\<exists>m. fs (D @ segments f) = Some (Regular c m)))
    \<or> (\<exists>rel\<in>set (rConflicts result). found fs0 fs (D @ Split CHR ''/'' rel) c)"

definition grows :: "restore_result \<Rightarrow> restore_result \<Rightarrow> bool" where
  "grows a b \<longleftrightarrow> set (rRestored a) \<subseteq> set (rRestored b) \<and> set (rConflicts a) \<subseteq> set (rConflicts b) \<and> rDestination a = rDestination b"

lemma delivered_kept:
  assumes "delivered_to D a fs0 fs f c" "grows a b" "kept A fs fs'" "\<And>q. prefix D q \<Longrightarrow> q \<notin> A"
  shows "delivered_to D b fs0 fs' f c"
  using assms found_kept [of fs0 fs _ c A fs'] keptD [OF assms(3)] unfolding delivered_to_def grows_def
  by (meson prefixI subsetD)

text \<open>One file: the place of the staged file is given up, everything else stays, and the file is in the destination.\<close>

lemma place_one:
  assumes fs: "wf_fs fs" "fs (S @ segments f) = Some (Regular c m)" "fs D = Some Directory"
    and D: "D \<noteq> []" "list_all plain_seg D" "list_all plain_seg S" "\<not> prefix D (S @ segments f)"
    and X: "honest X" "ID_Valid i" "native (segments f)"
    and run: "place_files X S D i (f # files) result fs = (fs', r)"
  shows "\<exists>fs1. wf_fs fs1 \<and> kept {S @ segments f} fs fs1
    \<and> ((fs' = fs1 \<and> \<not> is_ok r)
      \<or> (\<exists>result1. grows result result1 \<and> place_files X S D i files result1 fs1 = (fs', r) \<and> delivered_to D result1 fs fs1 f c))"
proof -
  let ?src = "S @ segments f" and ?ss = "segments f"
  obtain s where s: "?ss = butlast ?ss @ [s]" by (metis append_butlast_last_id Split_nonempty)
  have j: "filepath_Join S (fPath f) = ?src" "filepath_Join D (fPath f) = (D @ butlast ?ss) @ [s]"
    using D X(3) native_ok s by (simp_all add: filepath_Join_plain)
  have path: "fPath f = Join CHR ''/'' ?ss" by simp
  obtain fs1 r1 where e: "ensureRestoreDirectory X D (path_Dir (fPath f)) fs = (fs1, r1)" by fastforce
  have e': "ensureRestoreDirectory X D (path_Dir (Join CHR ''/'' ?ss)) fs = (fs1, r1)" using e path by simp
  note dir = ensureRestoreDirectory_spec [OF fs(1,3) D(1,2) X(3) Split_nonempty e']
  have src: "fs1 ?src = Some (Regular c m)" "fs1 D = Some Directory"
    using keptD [OF dir(2) fs(2)] keptD [OF dir(2) fs(3)] by simp_all
  have keep: "kept {?src} fs fs1" using kept_mono [OF dir(2)] by simp
  note run = run [simplified, unfolded Let_def j e, simplified]
  show ?thesis
  proof (cases r1)
    case (Inl x)
    then show ?thesis using run dir(1) keep by auto
  next
    case (Inr ready)
    obtain fs2 r2 where pl: "(if ready then placeWithoutOverwrite X ?src ((D @ butlast ?ss) @ [s]) fs1 else (fs1, Inr False)) = (fs2, r2)" by fastforce
    have two: "wf_fs fs2 \<and> kept {?src} fs fs2 \<and> (r2 = Inr True \<longrightarrow> (\<exists>m'. fs2 (D @ ?ss) = Some (Regular c m'))) \<and> (r2 \<noteq> Inr True \<longrightarrow> fs2 = fs1)"
    proof (cases ready)
      case True
      then have d: "fs1 (D @ butlast ?ss) = Some Directory" using dir(3) Inr by simp
      have p: "placeWithoutOverwrite X ?src ((D @ butlast ?ss) @ [s]) fs1 = (fs2, r2)" using pl True by simp
      note w = placeWithoutOverwrite_spec [OF dir(1) src(1) d X(1) p]
      have "?src \<noteq> (D @ butlast ?ss) @ [s]" using D(4) by auto
      moreover have "(D @ butlast ?ss) @ [s] = D @ ?ss" using s by simp
      ultimately show ?thesis using w kept_trans [OF keep w(2)] by (metis Un_absorb)
    next
      case False
      then show ?thesis using pl dir(1) keep by auto
    qed
    show ?thesis
    proof (cases "r2 = Inr True")
      case True
      let ?res = "result\<lparr>rRestored := rRestored result @ [fPath f]\<rparr>"
      have "place_files X S D i files ?res fs2 = (fs', r)" using run Inr pl True by simp
      moreover have "delivered_to D ?res fs fs2 f c" using two True by (simp add: delivered_to_def)
      ultimately show ?thesis using two by (intro exI [of _ fs2]) (auto simp: grows_def intro!: exI [of _ ?res])
    next
      case False
      then have f2: "fs2 = fs1" using two by simp
      show ?thesis
      proof (cases r2)
        case (Inl x)
        then show ?thesis using run Inr pl two by auto
      next
        case (Inr b)
        obtain fs3 r3 where pc: "placeConflict X ?src D i (fPath f) fs1 = (fs3, r3)" by fastforce
        note c = conflict_loop_spec [OF dir(1) src(1,2) D(1,2) X(1,2,3) D(4) pc [unfolded placeConflict_def]]
        have k3: "kept {?src} fs fs3" using kept_trans [OF keep, of "{?src}" fs3] c by simp
        have run': "(case r3 of Inl x \<Rightarrow> (fs3, Inl x)
            | Inr conflict \<Rightarrow> place_files X S D i files (result\<lparr>rConflicts := rConflicts result @ [conflict]\<rparr>) fs3) = (fs', r)"
          using run \<open>r1 = Inr ready\<close> pl Inr False f2 pc by (simp split: if_splits)
        show ?thesis
        proof (cases r3)
          case (Inl x)
          then show ?thesis using run' c k3 by auto
        next
          case (Inr rel)
          let ?res = "result\<lparr>rConflicts := rConflicts result @ [rel]\<rparr>"
          have "fs q = Some (Symlink l)" if "fs1 q = Some (Symlink l)" for q l using dir(4) [of q] that by (cases "fs1 q = fs q") auto
          then have "delivered_to D ?res fs fs3 f c" using c Inr by (auto simp: delivered_to_def found_def)
          then show ?thesis using run' Inr c k3 by (intro exI [of _ fs3]) (auto simp: grows_def intro!: exI [of _ ?res])
        qed
      qed
    qed
  qed
qed

lemma found_earlier: "found fs1 fs p c \<Longrightarrow> kept A fs0 fs1 \<Longrightarrow> found fs0 fs p c"
  unfolding found_def kept_def by blast

lemma delivered_earlier: "delivered_to D res fs1 fs f c \<Longrightarrow> kept A fs0 fs1 \<Longrightarrow> delivered_to D res fs0 fs f c"
  unfolding delivered_to_def using found_earlier [of fs1 fs _ c A fs0] by blast

lemma place_files_spec:
  assumes "wf_fs fs" "fs D = Some Directory" "\<And>f. f \<in> set files \<Longrightarrow> \<exists>m. fs (S @ segments f) = Some (Regular (C f) m)"
    and D: "D \<noteq> []" "list_all plain_seg D" "list_all plain_seg S" "unrelated S D"
    and X: "honest X" "ID_Valid i" "\<And>f. f \<in> set files \<Longrightarrow> native (segments f)" "distinct (map segments files)"
    and "place_files X S D i files result fs = (fs', r)"
  shows "wf_fs fs' \<and> kept {q. prefix S q} fs fs'
    \<and> (\<forall>res. r = Inr res \<longrightarrow> grows result res \<and> (\<forall>f\<in>set files. delivered_to D res fs fs' f (C f)))"
  using assms(1-3,10-12)
proof (induction files arbitrary: fs result)
  case Nil
  then show ?case by (auto simp: grows_def)
next
  case (Cons f files)
  have out: "\<not> prefix D (S @ q)" for q using D(4) prefix_same_cases [of D "S @ q" S] by (auto simp: unrelated_def)
  obtain m where m: "fs (S @ segments f) = Some (Regular (C f) m)" using Cons.prems(3) by auto
  obtain fs1 where one: "wf_fs fs1" "kept {S @ segments f} fs fs1"
      "(fs' = fs1 \<and> \<not> is_ok r) \<or> (\<exists>result1. grows result result1 \<and> place_files X S D i files result1 fs1 = (fs', r)
        \<and> delivered_to D result1 fs fs1 f (C f))"
    using place_one [OF Cons.prems(1) m Cons.prems(2) D(1-3) out X(1,2) _ Cons.prems(6)] Cons.prems(4) by auto
  have k1: "kept {q. prefix S q} fs fs1" by (rule kept_mono [OF one(2)]) simp
  from one(3) show ?case
  proof
    assume "\<exists>result1. grows result result1 \<and> place_files X S D i files result1 fs1 = (fs', r) \<and> delivered_to D result1 fs fs1 f (C f)"
    then obtain result1 where r: "grows result result1" "place_files X S D i files result1 fs1 = (fs', r)" "delivered_to D result1 fs fs1 f (C f)"
      by blast
    have D1: "fs1 D = Some Directory" using keptD [OF k1 Cons.prems(2)] D(4) by (simp add: unrelated_def)
    have staged1: "\<exists>m. fs1 (S @ segments g) = Some (Regular (C g) m)" if "g \<in> set files" for g
    proof -
      obtain m where m: "fs (S @ segments g) = Some (Regular (C g) m)" using Cons.prems(3) [of g] \<open>g \<in> set files\<close> by auto
      have "segments f \<notin> set (map segments files)" using Cons.prems(5) by simp
      moreover have "segments g \<in> set (map segments files)" unfolding set_map using \<open>g \<in> set files\<close> by (rule imageI)
      ultimately have "segments g \<noteq> segments f" by metis
      then have "S @ segments g \<notin> {S @ segments f}" by simp
      then show ?thesis using keptD [OF one(2) m] by blast
    qed
    have ih: "wf_fs fs' \<and> kept {q. prefix S q} fs1 fs'
        \<and> (\<forall>res. r = Inr res \<longrightarrow> grows result1 res \<and> (\<forall>g\<in>set files. delivered_to D res fs1 fs' g (C g)))"
      by (rule Cons.IH [OF one(1) D1 staged1 _ _ r(2)]) (use Cons.prems(4,5) in simp_all)
    have in_D: "q \<notin> {q. prefix S q}" if "prefix D q" for q
      using that D(4) prefix_same_cases [of D q S] by (auto simp: unrelated_def)
    have "grows result res \<and> (\<forall>g\<in>set (f # files). delivered_to D res fs fs' g (C g))" if "r = Inr res" for res
    proof -
      have g: "grows result1 res" "\<forall>g\<in>set files. delivered_to D res fs1 fs' g (C g)" using ih that by auto
      have "delivered_to D res fs fs' f (C f)" by (rule delivered_kept [OF r(3) g(1) _ in_D]) (use ih in auto)
      moreover have "delivered_to D res fs fs' g (C g)" if "g \<in> set files" for g
        using g(2) that delivered_earlier [OF _ k1] by blast
      moreover have "grows result res" using r(1) g(1) by (auto simp: grows_def)
      ultimately show ?thesis by simp
    qed
    then show ?thesis using ih kept_trans [OF k1, of "{q. prefix S q}" fs'] by simp
  qed (use one(1) k1 in auto)
qed

section \<open>Restoring\<close>

lemma clean_segs_rooted: "list_all plain_seg out \<Longrightarrow> list_all plain_seg (clean_segs True ss out)"
  by (induction ss arbitrary: out) (auto simp: plain_seg_def split: list.splits)

lemma abs_path_plain: "list_all plain_seg (abs_path p)"
  unfolding abs_path_def by (rule clean_segs_rooted) simp

lemma validated_native: "is_ok (Validate_path U p) \<Longrightarrow> native (Split CHR ''/'' p)"
proof -
  assume v: "is_ok (Validate_path U p)"
  have "\<not> ContainsAny p forbidden_chars" using v by (auto simp: Validate_path_iff portable_ref_def)
  then have b: "CHR 0x5C \<notin> set p" by (auto simp: ContainsAny_def forbidden_chars_def list_ex_iff)
  have "set s \<subseteq> set p" if "s \<in> set (Split CHR ''/'' p)" for s
    using that by (induction p arbitrary: s) (fastforce split: if_splits list.splits)+
  then show ?thesis using Validate_path_plain [OF v] Split_no_sep b unfolding native_def list_all_iff by blast
qed

lemma wf_layout:
  assumes "\<And>x y. x \<in> set F \<Longrightarrow> y \<in> set F \<Longrightarrow> \<not> strict_prefix (fst x) (fst y)" "\<And>x. x \<in> set F \<Longrightarrow> fst x \<noteq> []" "layout F (p @ [s]) \<noteq> None"
  shows "layout F p = Some Directory"
proof -
  have "\<exists>y\<in>set F. strict_prefix p (fst y)"
  proof (cases "map_of F (p @ [s])")
    case (Some y)
    then show ?thesis using map_of_SomeD [OF Some] by (intro bexI [of _ "(p @ [s], y)"]) (auto simp: strict_prefix_def)
  next
    case None
    then obtain y where y: "y \<in> set F" "strict_prefix (p @ [s]) (fst y)" using assms(3) by (auto simp: layout_def split: if_splits)
    then have "strict_prefix p (fst y)" using prefix_order.less_trans [of p "p @ [s]" "fst y"] by (simp add: strict_prefix_def)
    then show ?thesis using y(1) by blast
  qed
  then obtain y where y: "y \<in> set F" "strict_prefix p (fst y)" by blast
  have "map_of F p = None" unfolding map_of_eq_None_iff using assms(1) [OF _ y(1)] y(2) by blast
  then show ?thesis using y by (auto simp: layout_def)
qed

lemma wf_overlay:
  assumes "wf_fs fs" "staged fs S" "t [] = Some Directory" "\<And>p s. t (p @ [s]) \<noteq> None \<Longrightarrow> t p = Some Directory"
  shows "wf_fs (overlay fs S t)"
  unfolding wf_fs_def
proof (intro conjI allI impI)
  show "overlay fs S t [] = Some Directory" using overlay_root [of fs S t] assms(2,3) by simp
  fix p s assume n: "overlay fs S t (p @ [s]) \<noteq> None"
  show "overlay fs S t p = Some Directory"
  proof (cases "prefix S p")
    case True
    then obtain r where "p = S @ r" by (auto simp: prefix_def)
    then show ?thesis using n assms(4) [of r s] by simp
  next
    case False
    show ?thesis
    proof (cases "prefix S (p @ [s])")
      case True
      then have "S = p @ [s]" using False by (auto simp: prefix_snoc)
      then show ?thesis using False assms(2) by (simp add: overlay_def staged_def strict_prefix_def)
    next
      case no: False
      then have "fs (p @ [s]) \<noteq> None" using n by (simp add: overlay_def)
      then show ?thesis using False assms(1) by (auto simp: overlay_def wf_fs_def)
    qed
  qed
qed

lemma staged_contents:
  assumes "keeps_segments U" "manifest_ok U m" "list_all2 (file_holds H) F (mFiles m)"
  defines "C \<equiv> \<lambda>f. (case layout F (segments f) of Some (Regular c _) \<Rightarrow> c | _ \<Rightarrow> [])"
  shows "f \<in> set (mFiles m) \<Longrightarrow> layout F (segments f) = Some (Regular (C f) (fMode f)) \<and> file_holds H (segments f, C f, fMode f) f"
    and "layout F (p @ [s]) \<noteq> None \<Longrightarrow> layout F p = Some Directory" "layout F [] = Some Directory"
    and "distinct (map segments (mFiles m))"
proof -
  have fst: "map fst F = map segments (mFiles m)" using assms(3) by (induction rule: list_all2_induct) (auto simp: file_holds_def)
  note un = accepted_segments(1) [OF assms(1,2)]
  show d: "distinct (map segments (mFiles m))" by (rule unrelated_distinct [OF un])
  show "layout F (segments f) = Some (Regular (C f) (fMode f)) \<and> file_holds H (segments f, C f, fMode f) f" if "f \<in> set (mFiles m)"
  proof -
    obtain p c mode where y: "(p, c, mode) \<in> set F" "file_holds H (p, c, mode) f" using list_all2_source [OF assms(3) \<open>f \<in> set (mFiles m)\<close>] by auto
    then have "p = segments f" "mode = fMode f" by (simp_all add: file_holds_def)
    then show ?thesis using layout_member [of F p c mode] d fst y by (simp add: C_def)
  qed
  have ne: "fst x \<noteq> []" if "x \<in> set F" for x
  proof -
    have "fst x \<in> set (map fst F)" using that by simp
    then obtain f where "fst x = segments f" unfolding fst by auto
    then show ?thesis by simp
  qed
  then show "layout F [] = Some Directory" by (rule layout_root)
  have "\<not> strict_prefix a b" if "a \<in> set xs" "b \<in> set xs" "sorted_wrt unrelated xs" for a b :: fpath and xs
    using that by (induction xs) (auto simp: unrelated_def strict_prefix_def)
  then have "\<not> strict_prefix (fst x) (fst y)" if "x \<in> set F" "y \<in> set F" for x y
    using that un unfolding fst [symmetric] by (metis imageI set_map)
  from wf_layout [OF this ne] show "layout F p = Some Directory" if "layout F (p @ [s]) \<noteq> None" using that by blast
qed

lemma place_all_spec:
  assumes fs: "wf_fs fs" "fs parent = Some Directory" "D = parent @ [name]"
    and D: "list_all plain_seg D" "list_all plain_seg S" "unrelated S D"
    and X: "honest X" "ID_Valid (bJobID b)" "keeps_segments U" "manifest_ok U (bManifest b)" "list_all2 (file_holds H) F (mFiles (bManifest b))"
    and S: "\<And>r. fs (S @ r) = layout F r"
    and run: "place_all X S D b fs = (fs', r)"
  shows "kept {q. prefix S q} fs fs'"
    and "r = Inr res \<Longrightarrow> f \<in> set (mFiles (bManifest b)) \<Longrightarrow> \<exists>c. file_holds H (segments f, c, fMode f) f \<and> delivered_to D res fs fs' f c"
proof -
  let ?C = "\<lambda>f. (case layout F (segments f) of Some (Regular c _) \<Rightarrow> c | _ \<Rightarrow> [])"
  note sc = staged_contents [OF X(3-5)]
  obtain fs1 info where l: "lstat_or_mkdir X fs (parent @ [name]) = (fs1, info)" by fastforce
  note spec = lstat_or_mkdir_spec [OF fs(1,2) l]
  have k1: "kept {q. prefix S q} fs fs1" by (rule kept_mono [OF spec(2)]) simp
  have nat: "native (segments f)" if "f \<in> set (mFiles (bManifest b))" for f
    using X(4) that by (intro validated_native [of U]) (auto simp: manifest_ok_def list_all_iff file_ok_def)
  have "kept {q. prefix S q} fs fs'
      \<and> (\<forall>res. r = Inr res \<longrightarrow> (\<forall>f\<in>set (mFiles (bManifest b)). delivered_to D res fs fs' f (?C f)))"
  proof (cases "info = Inr Directory")
    case True
    have D1: "fs1 D = Some Directory" using spec(3) [OF True] fs(3) by simp
    have "\<exists>m. fs1 (S @ segments f) = Some (Regular (?C f) m)" if "f \<in> set (mFiles (bManifest b))" for f
      using keptD [OF spec(2), of "S @ segments f"] sc(1) [OF that] S by auto
    moreover have "\<exists>result. place_files X S D (bJobID b) (mFiles (bManifest b)) result fs1 = (fs', r)"
      using run l True fs(3) by (auto simp: place_all_def ensureRestoreRoot_def)
    then obtain result where "place_files X S D (bJobID b) (mFiles (bManifest b)) result fs1 = (fs', r)" by blast
    ultimately have "kept {q. prefix S q} fs1 fs'
        \<and> (\<forall>res. r = Inr res \<longrightarrow> (\<forall>f\<in>set (mFiles (bManifest b)). delivered_to D res fs1 fs' f (?C f)))"
      using place_files_spec [where C = ?C, OF spec(1) D1 _ _ D X(1,2) nat sc(4)] fs(3) by blast
    then show ?thesis
      using kept_trans [OF k1, of "{q. prefix S q}" fs'] delivered_earlier [OF _ k1] unfolding Un_absorb by blast
  next
    case False
    then have "fs' = fs1 \<and> \<not> is_ok r" using run l fs(3) by (auto simp: place_all_def ensureRestoreRoot_def)
    then show ?thesis using k1 by auto
  qed
  then show "kept {q. prefix S q} fs fs'"
    and "r = Inr res \<Longrightarrow> f \<in> set (mFiles (bManifest b)) \<Longrightarrow> \<exists>c. file_holds H (segments f, c, fMode f) f \<and> delivered_to D res fs fs' f c"
    using sc(1) by blast+
qed

lemma locate_staged: "staged fs S \<Longrightarrow> locate fs S = Inr S"
  by (rule locate_below) (simp add: staged_def)

lemma finish_restore_Inr: "finish_restore U now i result st = (st', Inr res) \<Longrightarrow> res = NormalizeResult result"
  by (auto simp: finish_restore_def Let_def split: sum.splits prod.splits)

lemma delivered_normal: "delivered_to D (NormalizeResult result) fs0 fs f c \<longleftrightarrow> delivered_to D result fs0 fs f c"
  by (simp add: delivered_to_def NormalizeResult_def)

lemma staged_part_spec:
  assumes fs1: "wf_fs fs1" "staged fs1 S" "fs1 parent = Some Directory" "\<And>q. prefix S q \<Longrightarrow> fs1 q = None"
    and D: "D = parent @ [name]" "list_all plain_seg D" "list_all plain_seg S" "unrelated S D"
    and X: "honest X" "ID_Valid (bJobID b)" "keeps_segments U" "manifest_ok U (bManifest b)"
    and run: "staged_part U H Y X clocks now b D S (overlay fs1 S (layout [])) st1 = (fs5, st5, r)"
  shows "\<forall>q. \<not> prefix S q \<longrightarrow> fs1 q \<noteq> None \<longrightarrow> fs5 q = fs1 q"
    and "r = Inr res \<Longrightarrow> f \<in> set (mFiles (bManifest b)) \<Longrightarrow> \<exists>c. file_holds H (segments f, c, fMode f) f \<and> delivered_to D res fs1 fs5 f c"
proof -
  obtain fs3 ck st3 r3 where mat: "materialize_files (store_reader U H (sqlite_index U) Y) X S (mFiles (bManifest b))
      (overlay fs1 S (layout []), clocks 2, st1) = ((fs3, ck, st3), r3)" by (metis prod.exhaust)
  have "apart [] (segments g)" for g by (simp add: apart_def)
  from stored.materialize_files_tree [OF fs1(2) D(3) accepted_segments(1) [OF X(3,4)] _ _ mat] accepted_segments(2) [OF X(3,4)] this
  obtain t where t: "fs3 = overlay fs1 S t" "t [] = Some Directory"
      "r3 = Inr () \<longrightarrow> (\<exists>G. t = layout G \<and> list_all2 (file_holds H) G (mFiles (bManifest b)))" by auto
  have same: "fs3 q = fs1 q" if "\<not> prefix S q" for q using that t(1) by (simp add: overlay_def)
  have "(\<forall>q. \<not> prefix S q \<longrightarrow> fs1 q \<noteq> None \<longrightarrow> fs5 q = fs1 q)
      \<and> (\<forall>res. r = Inr res \<longrightarrow> (\<forall>f\<in>set (mFiles (bManifest b)). \<exists>c. file_holds H (segments f, c, fMode f) f \<and> delivered_to D res fs1 fs5 f c))"
  proof (cases r3)
    case (Inl e)
    then have "fs5 = fs3 \<and> \<not> is_ok r" using run mat by (auto simp: staged_part_def)
    then show ?thesis using same by auto
  next
    case (Inr u)
    then obtain G where G: "t = layout G" "list_all2 (file_holds H) G (mFiles (bManifest b))" using t(3) by auto
    note sc = staged_contents [OF X(3,4) G(2)]
    have wf3: "wf_fs fs3" unfolding t(1) by (rule wf_overlay [where t = t, OF fs1(1,2) t(2)]) (use sc(2) G(1) in auto)
    have p3: "fs3 parent = Some Directory" using same [of parent] fs1(3,4) by (cases "prefix S parent") auto
    obtain fs4 r4 where pl: "place_all X S D b fs3 = (fs4, r4)" by fastforce
    have below: "fs3 (S @ r) = layout G r" for r using t(1) G(1) by simp
    note pa = place_all_spec [OF wf3 p3 D X(1-4) G(2) below pl]
    have res: "fs5 = fs4" "r = Inr res \<Longrightarrow> \<exists>res0. r4 = Inr res0 \<and> res = NormalizeResult res0" for res
      using run mat Inr pl finish_restore_Inr [of U now "bJobID b" _ st3] by (auto simp: staged_part_def split: sum.splits prod.splits)
    have early: "delivered_to D res0 fs1 fs4 f c" if d: "delivered_to D res0 fs3 fs4 f c" for res0 f c
    proof -
      have "fs3 (D @ q) = fs1 (D @ q)" for q
        using same [of "D @ q"] D(4) prefix_same_cases [of S "D @ q" D] by (auto simp: unrelated_def)
      then show ?thesis using d by (simp add: delivered_to_def found_def)
    qed
    have "fs5 q = fs1 q" if "\<not> prefix S q" "fs1 q \<noteq> None" for q using pa(1) same that res(1) by (auto simp: kept_def)
    moreover have "\<exists>c. file_holds H (segments f, c, fMode f) f \<and> delivered_to D res fs1 fs5 f c"
      if "r = Inr res" "f \<in> set (mFiles (bManifest b))" for res f
    proof -
      obtain res0 where r0: "r4 = Inr res0" "res = NormalizeResult res0" using res(2) [OF \<open>r = Inr res\<close>] by blast
      show ?thesis using pa(2) [OF r0(1) that(2)] early unfolding r0(2) res(1) delivered_normal by blast
    qed
    ultimately show ?thesis by blast
  qed
  then show "\<forall>q. \<not> prefix S q \<longrightarrow> fs1 q \<noteq> None \<longrightarrow> fs5 q = fs1 q"
    and "r = Inr res \<Longrightarrow> f \<in> set (mFiles (bManifest b)) \<Longrightarrow> \<exists>c. file_holds H (segments f, c, fMode f) f \<and> delivered_to D res fs1 fs5 f c"
    by blast+
qed

lemma restore_body_spec:
  assumes fs: "wf_fs fs" "linkless fs (butlast D)" and D: "list_all plain_seg D" "plain_seg temp" "D = parent @ [name]" "temp \<noteq> name"
    and X: "honest X" "keeps_segments U" "is_ok (Bundle_Validate U b)"
    and run: "restore_body U H Y X clocks now temp b D (fs, st) = ((fs', st'), r)"
  shows "\<forall>q. fs q \<noteq> None \<longrightarrow> fs' q = fs q"
    and "r = Inr res \<Longrightarrow> f \<in> set (mFiles (bManifest b)) \<Longrightarrow> \<exists>c. file_holds H (segments f, c, fMode f) f \<and> delivered_to D res fs fs' f c"
proof -
  let ?S = "parent @ [temp]" and ?read = "store_reader U H (sqlite_index U) Y" and ?files = "mFiles (bManifest b)"
  have par: "butlast D = parent" "D \<noteq> []" "unrelated ?S D" "list_all plain_seg ?S" using D by (auto simp: unrelated_def prefix_snoc)
  have b: "ID_Valid (bJobID b)" "is_ok (CanonicalBytes U (bManifest b))" using X(3) by (auto simp: Bundle_Validate_def split: if_splits)
  have "is_ok (Manifest_Validate U (bManifest b))"
    using b(2) by (cases "Manifest_Validate U (bManifest b)") (simp_all add: CanonicalBytes_def)
  then have m: "manifest_ok U (bManifest b)" unfolding Manifest_Validate_iff .
  have all: "(\<forall>q. fs q \<noteq> None \<longrightarrow> fs' q = fs q)
      \<and> (\<forall>res. r = Inr res \<longrightarrow> (\<forall>f\<in>set ?files. \<exists>c. file_holds H (segments f, c, fMode f) f \<and> delivered_to D res fs fs' f c))"
  proof -
    consider "fs' = fs" "\<not> is_ok r"
      | fs1 where "MkdirAll X fs parent = Inr fs1" "fs' = fs1" "\<not> is_ok r"
      | fs1 fs2 st1 fs5 st5 where "MkdirAll X fs parent = Inr fs1" "MkdirTemp X fs1 parent temp = Inr fs2"
          "staged_part U H Y X clocks now b D ?S fs2 st1 = (fs5, st5, r)" "fs' = (case OsRemoveAll X fs5 ?S of Inl _ \<Rightarrow> fs5 | Inr fs6 \<Rightarrow> fs6)"
      using run par(1,2) by (auto simp: restore_body_def Let_def split: sum.splits prod.splits if_splits)
    then show ?thesis
    proof cases
      case 1
      then show ?thesis by auto
    next
      case (2 fs1)
      have "clear fs parent" "fs1 = with_dirs parent fs"
        using MkdirAll_Inr [OF _ fs(2) [unfolded par(1)] 2(1)] fs(1) by (auto simp: wf_fs_def)
      then show ?thesis using 2 by (auto simp: with_dirs_def clear_def)
    next
      case (3 fs1 fs2 st1 fs5 st5)
      note new = new_staging [OF fs(1) fs(2) [unfolded par(1)] 3(1,2)]
      have none: "fs1 q = None" if "prefix ?S q" for q using empty_below [OF new(5) _ that] new(2,3) by (simp add: with_dirs_def)
      have "fs1 parent = Some Directory" using new(2) by (simp add: with_dirs_def)
      note sp = staged_part_spec [OF new(5,4) this none D(3,1) par(4,3) X(1) b(1) X(2) m 3(3) [unfolded new(6)]]
      have "staged fs5 ?S" unfolding staged_def
      proof (intro allI impI)
        fix q assume q: "strict_prefix q ?S"
        then have "\<not> prefix ?S q" using prefix_length_le [of ?S q] prefix_length_less [of q ?S] by auto
        then show "fs5 q = Some Directory" using sp(1) new(4) q by (simp add: staged_def)
      qed
      then have rm: "fs' q = fs5 q" if "\<not> prefix ?S q" for q
        using 3(4) that by (auto simp: OsRemoveAll_def locate_staged guard_def Removed_def split: option.splits)
      have base: "fs1 q = fs q \<or> (fs q = None \<and> fs1 q = Some Directory)" for q
        using new(1,2) by (auto simp: with_dirs_def clear_def)
      have "fs' q = fs q" if "fs q \<noteq> None" for q
      proof -
        have "fs1 q = fs q" using base [of q] that by auto
        moreover from this have "\<not> prefix ?S q" using none [of q] that by auto
        ultimately show ?thesis using sp(1) rm that by auto
      qed
      moreover have "delivered_to D res fs fs' f c" if "delivered_to D res fs1 fs5 f c" for res f c
      proof -
        have "\<not> prefix ?S (D @ q)" for q
          using par(3) prefix_same_cases [of ?S "D @ q" D] by (auto simp: unrelated_def)
        then have "fs' (D @ q) = fs5 (D @ q)" for q using rm by blast
        moreover have "fs q = Some (Symlink l)" if "fs1 q = Some (Symlink l)" for q l using base [of q] that by auto
        ultimately show ?thesis using that unfolding delivered_to_def found_def by metis
      qed
      ultimately show ?thesis using sp(2) by blast
    qed
  qed
  then show "\<forall>q. fs q \<noteq> None \<longrightarrow> fs' q = fs q"
    and "r = Inr res \<Longrightarrow> f \<in> set ?files \<Longrightarrow> \<exists>c. file_holds H (segments f, c, fMode f) f \<and> delivered_to D res fs fs' f c" by blast+
qed

section \<open>Properties\<close>


definition occupied_fs :: fs where
  "occupied_fs = empty_fs([''out''] \<mapsto> Directory, [''out'', ''a''] \<mapsto> Regular [7] 0x1A4)"

lemma occupied_fs_ok: "wf_fs occupied_fs" "linkless occupied_fs p"
  by (auto simp: wf_fs_def linkless_def occupied_fs_def empty_fs_def split: if_splits)

lemma no_fs_errors_honest: "honest no_fs_errors"
  by (simp add: honest_def no_fs_errors_def)

definition conflict_bundle :: artifact_bundle where
  "conflict_bundle = \<lparr>bJobID = formatID (replicate 16 0), bManifest = \<lparr>mVersion = 1, mFiles = [\<lparr>fPath = ''a'', fMode = 0x1A4, fSize = 0, fChunks = []\<rparr>], mTotalBytes = 0\<rparr>, bCollectedAt = 5\<rparr>"


text \<open>
  What is collected and read: a bundle has only files at or below the declared outputs and outside the reserved directories,
  and a chunk is handed out only if the bundle of the job refers to it.
\<close>

lemma collected_outputs_are_declared:
  assumes "Collect_artifacts U H J Y ctx X fs view clocks now v st = (st', Inr b)"
  shows "bJobID b = jID v \<and> bCollectedAt b = now \<and> is_ok (Manifest_Validate U (bManifest b))
    \<and> (\<forall>f\<in>set (mFiles (bManifest b)). below (Outputs (jSpec v)) (fPath f) \<and> \<not> reservedTransferPath U (fPath f))"
proof -
  obtain cs st1 m where r: "BuildDeclared U H (store_putter U H (sqlite_index U) Y) ctx X fs view (abs_path (WorkingDirectory (jSpec v)))
      (Outputs (jSpec v)) (\<lambda>k. clocks (k + 2), BeginUse (clocks 0 0) st) = ((cs, st1), Inr m)" "b = \<lparr>bJobID = jID v, bManifest = m, bCollectedAt = now\<rparr>"
    using assms by (auto simp: Collect_artifacts_def Let_def split: if_splits prod.splits sum.splits)
  show ?thesis using BuildDeclared_Inr [OF r(1)] r(2) by simp
qed

lemma ReadJobChunk_Inr:
  assumes "ReadJobChunk U H J Y clock i g st = (st', Inr bs)"
  shows "\<exists>b. Artifact_Get U H J (sIndex st) i = Inr b \<and> g \<in> set (Digests (bManifest b)) \<and> Sum H bs = g"
  using assms Read_chunk_Inr by (fastforce simp: ReadJobChunk_def split: if_splits sum.splits)

end
