(* ===== verification/LogStore.thy ===== *)
theory LogStore
  imports ExecutionRepository
begin

text \<open>
  \<open>internal/logging/log.go\<close>, \<open>internal/logging/store.go\<close> and \<open>internal/infra/sqlite/log_repository.go\<close>:
  the output of a job is an append-only file whose committed ranges are indexed by the database. \<open>Cursor\<close>,
  \<open>Commit\<close> and \<open>List\<close> are the repository; \<open>OpenWriter\<close>, \<open>append\<close> and \<open>Read\<close> are the store on a file system that
  maps a job to the bytes of its log file.

  A \<open>uint64\<close> sequence is an integer; \<open>database/sql\<close> refuses one with the high bit set. Directory creation and
  permission checks of the platform are not modelled; a failing write, sync or commit is (\<open>io\<close> below).
\<close>

section \<open>Records\<close>

datatype stream = StreamStdout | StreamStderr | StreamOther string

definition stream_string :: "stream \<Rightarrow> string" where
  "stream_string s = (case s of StreamStdout \<Rightarrow> ''stdout'' | StreamStderr \<Rightarrow> ''stderr'' | StreamOther v \<Rightarrow> v)"

definition Stream_of :: "string \<Rightarrow> stream" where
  "Stream_of v = (if v = ''stdout'' then StreamStdout else if v = ''stderr'' then StreamStderr else StreamOther v)"

definition DefaultPageLimit :: int where "DefaultPageLimit = 32"
definition MaximumPageLimit :: int where "MaximumPageLimit = 32"
definition LogMaximumChunkBytes :: nat where "LogMaximumChunkBytes = 16384"

record metadata =
  mJobID :: job_id
  mSequence :: int
  mStream :: stream
  mDataOffset :: int
  mDataLength :: int
  mAt :: time

definition Metadata_Validate :: "metadata \<Rightarrow> unit result" where
  "Metadata_Validate m =
    (if \<not> ID_Valid (mJobID m) \<or> mSequence m = 0 \<or> mSequence m > 2 ^ 63 - 1 then Inl [Logging_ErrInvalidRecord]
     else if mStream m \<noteq> StreamStdout \<and> mStream m \<noteq> StreamStderr then Inl [Logging_ErrInvalidRecord]
     else if mDataOffset m < 0 \<or> mDataLength m \<le> 0 \<or> mDataLength m > int LogMaximumChunkBytes
     then Inl [Logging_ErrInvalidRecord]
     else if IsZero (mAt m) then Inl [Logging_ErrInvalidRecord]
     else Inr ())"

record log_record =
  recSequence :: int
  recStream :: stream
  recData :: "byte list"
  recAt :: time

section \<open>The repository\<close>

definition Cursor :: "db \<Rightarrow> job_id \<Rightarrow> (int \<times> int) result" where
  "Cursor d i =
    (if \<not> ID_Valid i then Inl [Job_ErrInvalidID]
     else (case row_with e_job_id i (job_executions d) of
         None \<Rightarrow> Inl [Logging_ErrNotFound]
       | Some e \<Rightarrow> Inr (e_log_bytes e, e_next_log_sequence e)))"

definition insert_log :: "log_row \<Rightarrow> log_row list \<Rightarrow> log_row list result" where
  "insert_log r rows =
    (if \<not> log_row_check r
        \<or> list_ex (\<lambda>s. l_job_id s = l_job_id r
             \<and> (l_sequence s = l_sequence r \<or> l_data_offset s = l_data_offset r)) rows
     then Inl [Sqlite_ErrConstraint] else Inr (rows @ [r]))"

definition log_row_of :: "metadata \<Rightarrow> log_row" where
  "log_row_of m = \<lparr>l_job_id = mJobID m, l_sequence = mSequence m, l_stream = stream_string (mStream m),
     l_data_offset = mDataOffset m, l_data_length = mDataLength m, l_at_ns = UnixNano (mAt m)\<rparr>"

definition Commit_tx :: "job_id \<Rightarrow> int \<Rightarrow> stream \<Rightarrow> int \<Rightarrow> time \<Rightarrow> db \<Rightarrow> (db \<times> metadata) result" where
  "Commit_tx i expected s len at d =
    (if \<not> ID_Valid i \<or> expected < 0 \<or> len \<le> 0 \<or> len > int LogMaximumChunkBytes \<or> IsZero at
     then Inl [Logging_ErrInvalidRecord]
     else if s \<noteq> StreamStdout \<and> s \<noteq> StreamStderr then Inl [Logging_ErrInvalidRecord]
     else (case row_with e_job_id i (job_executions d) of
         None \<Rightarrow> Inl [Logging_ErrNotFound]
       | Some e \<Rightarrow>
         if Status (e_status e) = StatusCompleted then Inl [Execution_ErrAttemptCompleted]
         else if e_log_bytes e \<noteq> expected then Inl [Logging_ErrConflict]
         else let seqno = e_next_log_sequence e;
                  m = \<lparr>mJobID = i, mSequence = seqno, mStream = s, mDataOffset = expected,
                       mDataLength = len, mAt = at\<rparr>
           in ebind (Metadata_Validate m) (\<lambda>_.
              ebind (insert_log (log_row_of m) (job_log_records d)) (\<lambda>logs.
              if seqno + 1 \<ge> 2 ^ 63 then Inl []
              else ebind (sql_update execution_row_check
                  (\<lambda>r. e_job_id r = i \<and> (e_log_bytes r = expected \<and> e_next_log_sequence r = seqno))
                  (\<lambda>r. r\<lparr>e_log_bytes := signed_take_bit 63 (expected + len), e_next_log_sequence := seqno + 1\<rparr>)
                  (job_executions d)) (\<lambda>(rows, n).
                if n \<noteq> 1 then Inl [Logging_ErrConflict]
                else Inr (d\<lparr>job_log_records := logs, job_executions := rows\<rparr>, m))))))"

definition Commit :: "job_id \<Rightarrow> int \<Rightarrow> stream \<Rightarrow> int \<Rightarrow> time \<Rightarrow> db \<Rightarrow> db \<times> metadata result" where
  "Commit i expected s len at d = transact d (Commit_tx i expected s len at d)"

definition scan_log :: "job_id \<Rightarrow> log_row \<Rightarrow> metadata result" where
  "scan_log i r =
    (let m = \<lparr>mJobID = i, mSequence = l_sequence r, mStream = Stream_of (l_stream r),
       mDataOffset = l_data_offset r, mDataLength = l_data_length r, mAt = l_at_ns r\<rparr>
     in ebind (Metadata_Validate m) (\<lambda>_. Inr m))"

definition Log_List :: "db \<Rightarrow> job_id \<Rightarrow> int \<Rightarrow> int \<Rightarrow> (metadata list \<times> bool) result" where
  "Log_List d i after limit =
    (if \<not> ID_Valid i then Inl [Job_ErrInvalidID]
     else if limit \<le> 0 \<or> limit > MaximumPageLimit then Inl [Logging_ErrInvalidPage]
     else if row_with e_job_id i (job_executions d) = None then Inl [Logging_ErrNotFound]
     else if after \<ge> 2 ^ 63 then Inl []
     else ebind (collect (scan_log i) (take (nat limit + 1) (sort_key l_sequence
            (filter (\<lambda>r. l_job_id r = i \<and> l_sequence r > after) (job_log_records d))))) (\<lambda>ms.
       let hasMore = length ms > nat limit in Inr (if hasMore then take (nat limit) ms else ms, hasMore)))"

section \<open>The store\<close>

type_synonym files = "job_id \<Rightarrow> byte list option"

record writer =
  wJobID :: job_id
  wOffset :: int
  wClosed :: bool

definition WriteAt :: "byte list \<Rightarrow> nat \<Rightarrow> byte list \<Rightarrow> byte list" where
  "WriteAt f off bs = take off (f @ replicate (off - length f) 0) @ bs @ drop (off + length bs) f"

definition ReadAt :: "byte list \<Rightarrow> nat \<Rightarrow> nat \<Rightarrow> byte list option" where
  "ReadAt f off n = (if off + n \<le> length f then Some (take n (drop off f)) else None)"

definition OpenWriter :: "db \<Rightarrow> job_id \<Rightarrow> files \<Rightarrow> files \<times> writer result" where
  "OpenWriter d i fs =
    (case Cursor d i of
       Inl e \<Rightarrow> (fs, Inl e)
     | Inr (off, _) \<Rightarrow>
        let f = (case fs i of None \<Rightarrow> [] | Some f \<Rightarrow> f) in
        if int (length f) < off then (fs(i \<mapsto> f), Inl [Logging_ErrCorrupt])
        else (fs(i \<mapsto> (if int (length f) > off then take (nat off) f else f)),
              Inr \<lparr>wJobID = i, wOffset = off, wClosed = False\<rparr>))"

text \<open>
  The file operations of one chunk may fail. The argument of \<open>io\<close> is what the file holds behind the writer's
  offset when the chunk is not committed: anything after a failed write, and after a failed sync or commit
  nothing if the repair by \<open>Truncate\<close> succeeded and anything otherwise.
\<close>

datatype io = IoOk "byte list" | IoWriteFails "byte list" | IoSyncFails "byte list"

definition log_file :: "files \<Rightarrow> job_id \<Rightarrow> byte list" where
  "log_file fs i = (case fs i of None \<Rightarrow> [] | Some f \<Rightarrow> f)"

definition append_chunk ::
    "stream \<Rightarrow> byte list \<Rightarrow> time \<Rightarrow> io \<Rightarrow> db \<times> files \<times> writer \<Rightarrow> (db \<times> files \<times> writer) \<times> unit result" where
  "append_chunk s chunk now fault st =
    (case st of (d, fs, w) \<Rightarrow>
       if wClosed w then (st, Inl [''os.ErrClosed''])
       else let f = log_file fs (wJobID w); off = wOffset w; g = WriteAt f (nat off) chunk;
                left = (\<lambda>rest. fs(wJobID w \<mapsto> take (nat off) g @ rest)) in
         (case fault of
            IoWriteFails rest \<Rightarrow> ((d, left rest, w), Inl [])
          | IoSyncFails rest \<Rightarrow> ((d, left rest, w), Inl [])
          | IoOk rest \<Rightarrow>
             (case Commit (wJobID w) off s (int (length chunk)) now d of
                (d', Inl e) \<Rightarrow> ((d', left rest, w), Inl e)
              | (d', Inr m) \<Rightarrow>
                  ((d', fs(wJobID w \<mapsto> g), w\<lparr>wOffset := mDataOffset m + mDataLength m\<rparr>), Inr ()))))"

text \<open>\<open>append\<close> returns the number of bytes written and the error, if any.\<close>

function append_loop ::
    "stream \<Rightarrow> byte list \<Rightarrow> (nat \<Rightarrow> time) \<Rightarrow> (nat \<Rightarrow> io) \<Rightarrow> nat \<Rightarrow> nat \<Rightarrow> db \<times> files \<times> writer
     \<Rightarrow> (db \<times> files \<times> writer) \<times> nat \<times> goerror option" where
  "append_loop s contents clock faults k written st =
    (if contents = [] then (st, written, None)
     else let n = min (length contents) LogMaximumChunkBytes in
       (case append_chunk s (take n contents) (clock k) (faults k) st of
          (st', Inl e) \<Rightarrow> (st', written, Some e)
        | (st', Inr _) \<Rightarrow> append_loop s (drop n contents) clock faults (k + 1) (written + n) st'))"
  by auto
termination
  by (relation "measure (\<lambda>(_, contents, _). length contents)") (auto simp: LogMaximumChunkBytes_def)

definition append_log ::
    "stream \<Rightarrow> byte list \<Rightarrow> (nat \<Rightarrow> time) \<Rightarrow> (nat \<Rightarrow> io) \<Rightarrow> db \<times> files \<times> writer
     \<Rightarrow> (db \<times> files \<times> writer) \<times> nat \<times> goerror option" where
  "append_log s contents clock faults st =
    (if s \<noteq> StreamStdout \<and> s \<noteq> StreamStderr then (st, 0, Some [Logging_ErrInvalidRecord])
     else append_loop s contents clock faults 0 0 st)"

definition Writer_Close :: "writer \<Rightarrow> writer" where
  "Writer_Close w = (if wClosed w then w else w\<lparr>wClosed := True\<rparr>)"

definition read_record :: "byte list \<Rightarrow> metadata \<Rightarrow> log_record result" where
  "read_record f m =
    ebind (Metadata_Validate m) (\<lambda>_.
      case ReadAt f (nat (mDataOffset m)) (nat (mDataLength m)) of
        None \<Rightarrow> Inl [Logging_ErrCorrupt]
      | Some bs \<Rightarrow> Inr \<lparr>recSequence = mSequence m, recStream = mStream m, recData = bs, recAt = mAt m\<rparr>)"

definition Log_Read :: "db \<Rightarrow> files \<Rightarrow> job_id \<Rightarrow> int \<Rightarrow> int \<Rightarrow> (log_record list \<times> bool) result" where
  "Log_Read d fs i after limit0 =
    (let limit = (if limit0 = 0 then DefaultPageLimit else limit0) in
     if limit < 0 \<or> limit > MaximumPageLimit then Inl [Logging_ErrInvalidPage]
     else ebind (Log_List d i after limit) (\<lambda>(ms, hasMore).
       if ms = [] then Inr ([], hasMore)
       else (case fs i of
           None \<Rightarrow> Inl []
         | Some f \<Rightarrow> ebind (collect (read_record f) ms) (\<lambda>rs. Inr (rs, hasMore)))))"

section \<open>The index\<close>

text \<open>
  The records of a job are consecutive: sequences from 1, and each range begins where the one before
  ends.
\<close>

fun log_chain :: "int \<Rightarrow> int \<Rightarrow> log_row list \<Rightarrow> bool" where
  "log_chain s off [] = True"
| "log_chain s off (r # rs) =
    (l_sequence r = s \<and> l_data_offset r = off \<and> log_row_check r \<and> nano_ok (l_at_ns r)
     \<and> log_chain (s + 1) (off + l_data_length r) rs)"

definition log_rows :: "db \<Rightarrow> job_id \<Rightarrow> log_row list" where
  "log_rows d i = filter (\<lambda>r. l_job_id r = i) (job_log_records d)"

definition log_size :: "log_row list \<Rightarrow> int" where
  "log_size rs = sum_list (map l_data_length rs)"

definition indexed :: "execution_row option \<Rightarrow> log_row list \<Rightarrow> bool" where
  "indexed er rs =
    (case er of
       None \<Rightarrow> rs = []
     | Some e \<Rightarrow> log_chain 1 0 rs \<and> e_log_bytes e = log_size rs
         \<and> e_next_log_sequence e = int (length rs) + 1
         \<and> e_log_bytes e < 2 ^ 63 \<and> e_next_log_sequence e < 2 ^ 63)"

definition index_ok :: "db \<Rightarrow> bool" where
  "index_ok d \<longleftrightarrow> keyed e_job_id (job_executions d) \<and>
    (\<forall>i. indexed (row_with e_job_id i (job_executions d)) (log_rows d i))"

lemma log_size_simps [simp]:
  "log_size [] = 0" "log_size (r # rs) = l_data_length r + log_size rs"
  "log_size (rs @ qs) = log_size rs + log_size qs"
  by (simp_all add: log_size_def)

lemma log_chain_append:
  "log_chain s off (rs @ qs) \<longleftrightarrow>
     log_chain s off rs \<and> log_chain (s + int (length rs)) (off + log_size rs) qs"
  by (induction rs arbitrary: s off) (auto simp: algebra_simps)

lemma log_chain_size: "log_chain s off rs \<Longrightarrow> 0 \<le> log_size rs"
  by (induction rs arbitrary: s off) (auto simp: log_row_check_def add_nonneg_nonneg)

lemma log_chain_mem: "log_chain s off rs \<Longrightarrow> r \<in> set rs \<Longrightarrow>
    s \<le> l_sequence r \<and> l_sequence r < s + int (length rs) \<and> off \<le> l_data_offset r
    \<and> l_data_offset r < off + log_size rs \<and> log_row_check r \<and> nano_ok (l_at_ns r)"
proof (induction rs arbitrary: s off)
  case (Cons q rs)
  have "0 \<le> log_size rs" using Cons.prems(1) log_chain_size by auto
  moreover have "0 < l_data_length q" using Cons.prems(1) by (simp add: log_row_check_def)
  ultimately show ?case using Cons.prems Cons.IH [of "s + 1" "off + l_data_length q"] by auto
qed simp

lemma log_chain_after:
  assumes "log_chain s off rs" "s \<le> a + 1"
  shows "filter (\<lambda>r. a < l_sequence r) rs = drop (nat (a + 1 - s)) rs"
  using assms
proof (induction rs arbitrary: s off)
  case (Cons q rs)
  show ?case
  proof (cases "s = a + 1")
    case True
    have "\<forall>r \<in> set rs. a < l_sequence r"
      using Cons.prems(1) True log_chain_mem [of "s + 1" "off + l_data_length q" rs] by fastforce
    then show ?thesis using Cons.prems True by simp
  next
    case False
    then have "nat (a + 1 - s) = Suc (nat (a + 1 - (s + 1)))" using Cons.prems(2) by auto
    then show ?thesis using Cons False by auto
  qed
qed simp

lemma log_chain_sorted: "log_chain s off rs \<Longrightarrow> sorted (map l_sequence rs)"
proof (induction rs arbitrary: s off)
  case (Cons q rs)
  then show ?case using log_chain_mem [of "s + 1" "off + l_data_length q" rs] by fastforce
qed simp

lemma index_ok_row:
  assumes "index_ok d" "row_with e_job_id i (job_executions d) = Some e"
  shows "log_chain 1 0 (log_rows d i)" "e_log_bytes e = log_size (log_rows d i)"
    "e_next_log_sequence e = int (length (log_rows d i)) + 1"
    "e_log_bytes e < 2 ^ 63" "e_next_log_sequence e < 2 ^ 63"
  using assms by (auto simp: index_ok_def indexed_def dest!: spec [of _ i])

section \<open>Commits\<close>

definition bump :: "int \<Rightarrow> int \<Rightarrow> execution_row \<Rightarrow> execution_row" where
  "bump bytes seqno r = r\<lparr>e_log_bytes := bytes, e_next_log_sequence := seqno\<rparr>"

lemma signed_add_check:
  assumes "0 \<le> off" "off < 2 ^ 63" "0 < n" "n \<le> 16384" "0 \<le> signed_take_bit 63 (off + n :: int)"
  shows "signed_take_bit 63 (off + n) = off + n \<and> off + n < 2 ^ 63"
proof (cases "off + n < 2 ^ 63")
  case True
  then show ?thesis using assms by (simp add: signed_take_bit_int_eq_self)
next
  case False
  have "off + n + 2 ^ 63 = (off + n - 2 ^ 63) + 2 ^ 64" by simp
  then have "(off + n + 2 ^ 63) mod 2 ^ 64 = (off + n - 2 ^ 63) mod 2 ^ 64"
    by (metis mod_add_self2)
  also have "\<dots> = off + n - 2 ^ 63"
    using False assms by (intro mod_pos_pos_trivial) auto
  finally have "signed_take_bit 63 (off + n) = off + n - 2 ^ 64"
    by (simp add: signed_take_bit_eq_take_bit_shift take_bit_eq_mod)
  then show ?thesis using assms by simp
qed

lemma Commit_InrD:
  assumes ok: "index_ok d" and c: "Commit i expected s len at d = (d', Inr m)"
  obtains e where "row_with e_job_id i (job_executions d) = Some e" "e_status e \<noteq> ''completed''"
    "expected = e_log_bytes e" "0 < len" "len \<le> int LogMaximumChunkBytes" "ID_Valid i"
    "m = \<lparr>mJobID = i, mSequence = e_next_log_sequence e, mStream = s, mDataOffset = expected,
       mDataLength = len, mAt = at\<rparr>" "log_row_check (log_row_of m)"
    "expected + len < 2 ^ 63" "e_next_log_sequence e + 1 < 2 ^ 63"
    "job_log_records d' = job_log_records d @ [log_row_of m]" "keyed e_job_id (job_executions d')"
    "\<And>k. row_with e_job_id k (job_executions d') = (if k = i
       then Some (bump (expected + len) (e_next_log_sequence e + 1) e) else row_with e_job_id k (job_executions d))"
proof -
  have key: "keyed e_job_id (job_executions d)" using ok by (simp add: index_ok_def)
  obtain e where e: "row_with e_job_id i (job_executions d) = Some e" "e_status e \<noteq> ''completed''"
    using c by (auto simp: Commit_def transact_Inr_iff Commit_tx_def split: if_splits option.splits)
  let ?n = "e_next_log_sequence e"
  let ?p = "\<lambda>r. e_log_bytes r = expected \<and> e_next_log_sequence r = ?n"
  let ?f = "bump (signed_take_bit 63 (expected + len)) (?n + 1)"
  have f: "e_job_id (?f r) = e_job_id r" for r by (simp add: bump_def)
  obtain rows where g: "ID_Valid i" "0 < len" "len \<le> int LogMaximumChunkBytes" "e_log_bytes e = expected"
      "?n + 1 < 2 ^ 63" "0 \<le> expected"
    and m: "m = \<lparr>mJobID = i, mSequence = ?n, mStream = s, mDataOffset = expected, mDataLength = len, mAt = at\<rparr>"
    and ins: "insert_log (log_row_of m) (job_log_records d) = Inr (job_log_records d')"
    and up: "sql_update execution_row_check (\<lambda>r. e_job_id r = i \<and> ?p r) ?f (job_executions d) = Inr (rows, 1)"
    and d': "job_executions d' = rows"
    using c e by (auto simp: Commit_def transact_Inr_iff Commit_tx_def Let_def result_simps bump_def [abs_def]
        split: if_splits)
  have "execution_row_check (?f e)"
    using up e(1) g(4) row_with_SomeD [OF e(1)] by (auto simp: sql_update_Inr_iff list_all_iff)
  then have "signed_take_bit 63 (expected + len) = expected + len" and lt: "expected + len < 2 ^ 63"
    using signed_add_check [of expected len] index_ok_row [OF ok e(1)] g
    by (auto simp: execution_row_check_def bump_def LogMaximumChunkBytes_def)
  then have fe: "?f = bump (expected + len) (?n + 1)" by simp
  have rows: "rows = update_where (\<lambda>r. e_job_id r = i \<and> ?p r) ?f (job_executions d)"
    using up by (simp add: sql_update_Inr_iff)
  show thesis
  proof (rule that [OF e])
    show "keyed e_job_id (job_executions d')"
      using key by (simp add: d' rows keyed_update_where [of e_job_id ?f, OF f])
    show "row_with e_job_id k (job_executions d') = (if k = i then Some (bump (expected + len) (?n + 1) e)
        else row_with e_job_id k (job_executions d))" for k
      using row_with_update_key [of e_job_id ?f "job_executions d" i e ?p k] f key e(1) g(4)
      by (simp add: d' rows fe)
  qed (use g m ins lt in \<open>auto simp: insert_log_def split: if_splits\<close>)
qed

lemma Commit_index_ok:
  assumes ok: "index_ok d" and c: "Commit i expected s len at d = (d', Inr m)"
  shows "index_ok d' \<and> log_rows d' i = log_rows d i @ [log_row_of m] \<and> (\<forall>k. k \<noteq> i \<longrightarrow> log_rows d' k = log_rows d k)"
  using assms
proof (rule Commit_InrD)
  fix e
  assume e: "row_with e_job_id i (job_executions d) = Some e" and x: "expected = e_log_bytes e"
    and m: "m = \<lparr>mJobID = i, mSequence = e_next_log_sequence e, mStream = s, mDataOffset = expected,
       mDataLength = len, mAt = at\<rparr>" and chk: "log_row_check (log_row_of m)"
    and lt: "expected + len < 2 ^ 63" "e_next_log_sequence e + 1 < 2 ^ 63"
    and logs: "job_log_records d' = job_log_records d @ [log_row_of m]" and key: "keyed e_job_id (job_executions d')"
    and rows: "\<And>k. row_with e_job_id k (job_executions d') = (if k = i
       then Some (bump (expected + len) (e_next_log_sequence e + 1) e) else row_with e_job_id k (job_executions d))"
  note o = index_ok_row [OF ok e]
  have l: "log_rows d' k = log_rows d k @ (if k = i then [log_row_of m] else [])" for k
    by (auto simp: log_rows_def logs log_row_of_def m)
  have "log_chain 1 0 (log_rows d' i)"
    using o chk by (simp add: l log_chain_append log_row_of_def m x)
  moreover have "log_size (log_rows d' i) = expected + len" "int (length (log_rows d' i)) = e_next_log_sequence e"
    using o x by (simp_all add: l log_row_of_def m)
  ultimately have new: "indexed (row_with e_job_id i (job_executions d')) (log_rows d' i)"
    using lt by (simp add: indexed_def rows bump_def)
  have "indexed (row_with e_job_id k (job_executions d')) (log_rows d' k)" for k
  proof (cases "k = i")
    case False
    then show ?thesis using ok by (simp add: index_ok_def rows l)
  qed (use new in simp)
  then have "index_ok d'" using key by (simp add: index_ok_def)
  then show ?thesis using l by auto
qed

section \<open>The store\<close>

definition log_end :: "db \<Rightarrow> job_id \<Rightarrow> nat" where
  "log_end d i = (case row_with e_job_id i (job_executions d) of None \<Rightarrow> 0 | Some e \<Rightarrow> nat (e_log_bytes e))"

definition committed :: "db \<Rightarrow> files \<Rightarrow> job_id \<Rightarrow> byte list" where
  "committed d fs i = take (log_end d i) (log_file fs i)"

definition store_ok :: "db \<Rightarrow> files \<Rightarrow> bool" where
  "store_ok d fs \<longleftrightarrow> index_ok d \<and> (\<forall>i. log_end d i \<le> length (log_file fs i))"

definition owns :: "db \<Rightarrow> writer \<Rightarrow> bool" where
  "owns d w \<longleftrightarrow> row_with e_job_id (wJobID w) (job_executions d) \<noteq> None \<and> wOffset w = int (log_end d (wJobID w))"

lemma log_end_row: "index_ok d \<Longrightarrow> row_with e_job_id i (job_executions d) = Some e \<Longrightarrow> e_log_bytes e = int (log_end d i)"
  using index_ok_row [of d i e] log_chain_size [of 1 0 "log_rows d i"] by (simp add: log_end_def)

lemma log_end_rows: "index_ok d \<Longrightarrow> int (log_end d i) = log_size (log_rows d i)"
proof (cases "row_with e_job_id i (job_executions d)")
  case None
  then show "index_ok d \<Longrightarrow> int (log_end d i) = log_size (log_rows d i)"
    by (auto simp: index_ok_def indexed_def log_end_def dest!: spec [of _ i])
next
  case (Some e)
  then show "index_ok d \<Longrightarrow> int (log_end d i) = log_size (log_rows d i)"
    using index_ok_row [of d i e] log_end_row [of d i e] by simp
qed

lemma WriteAt_take:
  assumes "off \<le> length f"
  shows "take off (WriteAt f off bs) = take off f" "take (off + length bs) (WriteAt f off bs) = take off f @ bs"
    "off + length bs \<le> length (WriteAt f off bs)"
  using assms by (simp_all add: WriteAt_def)

lemma log_file_upd: "log_file (fs(i \<mapsto> f)) k = (if k = i then f else log_file fs k)"
  by (simp add: log_file_def)

lemma store_left:
  assumes "store_ok d fs" "take (log_end d i) f = take (log_end d i) (log_file fs i)" "log_end d i \<le> length f"
  shows "store_ok d (fs(i \<mapsto> f)) \<and> committed d (fs(i \<mapsto> f)) = committed d fs"
  using assms by (auto simp: store_ok_def committed_def log_file_upd)

lemma append_chunk_spec:
  assumes ok: "store_ok d fs" and w: "owns d w" and c: "\<not> wClosed w"
    and a: "append_chunk s chunk now fault (d, fs, w) = ((d', fs', w'), res)"
  shows "store_ok d' fs' \<and> owns d' w' \<and> wJobID w' = wJobID w \<and> \<not> wClosed w'
    \<and> committed d' fs' (wJobID w) = committed d fs (wJobID w) @ (if res = Inr () then chunk else [])
    \<and> (\<forall>k. k \<noteq> wJobID w \<longrightarrow> committed d' fs' k = committed d fs k)"
proof -
  let ?i = "wJobID w"
  let ?f = "log_file fs ?i"
  let ?n = "log_end d ?i"
  let ?L = "\<lambda>rest. fs(?i \<mapsto> take ?n (WriteAt ?f ?n chunk) @ rest)"
  have ix: "index_ok d" and len: "?n \<le> length ?f" using ok by (auto simp: store_ok_def)
  have off: "nat (wOffset w) = ?n" using w by (simp add: owns_def)
  note g = WriteAt_take [OF len, of chunk]
  have failed: "store_ok d (?L rest) \<and> committed d (?L rest) = committed d fs" for rest
    by (rule store_left [OF ok]) (use g len in auto)
  show ?thesis
  proof (cases "\<exists>rest. fault = IoOk rest \<and> (\<exists>m. Commit ?i (wOffset w) s (int (length chunk)) now d = (d', Inr m))")
    case False
    have u: "append_chunk s chunk now fault (d, fs, w) = (case fault of
        IoWriteFails rest \<Rightarrow> ((d, ?L rest, w), Inl []) | IoSyncFails rest \<Rightarrow> ((d, ?L rest, w), Inl [])
      | IoOk rest \<Rightarrow> (case Commit ?i (wOffset w) s (int (length chunk)) now d of
          (d', Inl e) \<Rightarrow> ((d', ?L rest, w), Inl e)
        | (d', Inr m) \<Rightarrow> ((d', fs(?i \<mapsto> WriteAt ?f ?n chunk), w\<lparr>wOffset := mDataOffset m + mDataLength m\<rparr>), Inr ())))"
      unfolding append_chunk_def Let_def prod.case off using c by (simp only: if_False)
    obtain d2 r2 where cm: "Commit ?i (wOffset w) s (int (length chunk)) now d = (d2, r2)" by (cases "Commit ?i (wOffset w) s (int (length chunk)) now d")
    have ce: "r2 = Inl e \<Longrightarrow> d2 = d" for e using cm by (simp add: Commit_def transact_Inl_iff)
    have "\<exists>rest. d' = d \<and> fs' = ?L rest \<and> w' = w \<and> res \<noteq> Inr ()"
      using a False unfolding u by (cases fault; cases r2) (auto simp: cm dest: ce)
    then obtain rest where "d' = d" "fs' = ?L rest" "w' = w" "res \<noteq> Inr ()" by blast
    then show ?thesis using failed [of rest] w c by auto
  next
    case True
    then obtain rest m where m: "fault = IoOk rest" "Commit ?i (wOffset w) s (int (length chunk)) now d = (d', Inr m)"
      by blast
    then have r: "fs' = fs(?i \<mapsto> WriteAt ?f ?n chunk)" "w' = w\<lparr>wOffset := mDataOffset m + mDataLength m\<rparr>" "res = Inr ()"
      using a c by (auto simp: append_chunk_def Let_def off)
    obtain e where e: "row_with e_job_id ?i (job_executions d) = Some e" and
      md: "mDataOffset m = wOffset w" "mDataLength m = int (length chunk)" and
      rows: "\<And>k. row_with e_job_id k (job_executions d') = (if k = ?i
        then Some (bump (wOffset w + int (length chunk)) (e_next_log_sequence e + 1) e)
        else row_with e_job_id k (job_executions d))"
      by (rule Commit_InrD [OF ix m(2)]) auto
    have le: "log_end d' k = (if k = ?i then ?n + length chunk else log_end d k)" for k
      using w by (auto simp: log_end_def rows bump_def owns_def nat_add_distrib)
    have "index_ok d'" using Commit_index_ok [OF ix m(2)] by blast
    then have "store_ok d' fs'" using ok g(3) by (auto simp: store_ok_def le r(1) log_file_upd)
    moreover have "owns d' w'" using w by (simp add: owns_def r(2) md le rows)
    ultimately show ?thesis
      using g(2) c by (auto simp: committed_def le r log_file_upd)
  qed
qed

lemma append_loop_spec:
  assumes "store_ok d fs" "owns d w" "\<not> wClosed w"
    "append_loop s contents clock faults k written (d, fs, w) = ((d', fs', w'), n, err)"
  shows "store_ok d' fs' \<and> owns d' w' \<and> \<not> wClosed w' \<and> wJobID w' = wJobID w \<and> written \<le> n
    \<and> n - written \<le> length contents
    \<and> committed d' fs' (wJobID w) = committed d fs (wJobID w) @ take (n - written) contents
    \<and> (err = None \<longrightarrow> n - written = length contents)
    \<and> (\<forall>i. i \<noteq> wJobID w \<longrightarrow> committed d' fs' i = committed d fs i)"
  using assms
proof (induction s contents clock faults k written "(d, fs, w)" arbitrary: d fs w rule: append_loop.induct)
  case (1 s contents clock faults k written)
  show ?case
  proof (cases "contents = []")
    case True
    then show ?thesis using "1.prems" by auto
  next
    case False
    let ?m = "min (length contents) LogMaximumChunkBytes"
    obtain d1 fs1 w1 r where c: "append_chunk s (take ?m contents) (clock k) (faults k) (d, fs, w) = ((d1, fs1, w1), r)"
      by (metis prod_cases3 surj_pair)
    note one = append_chunk_spec [OF "1.prems"(1-3) c]
    show ?thesis
    proof (cases r)
      case (Inl e)
      then have "d' = d1" "fs' = fs1" "w' = w1" "n = written" "err = Some e"
        using "1.prems"(4) False c by (auto simp: Let_def)
      then show ?thesis using one Inl by auto
    next
      case (Inr u)
      have l: "append_loop s (drop ?m contents) clock faults (k + 1) (written + ?m) (d1, fs1, w1) = ((d', fs', w'), n, err)"
        using "1.prems"(4) False c Inr by (simp add: Let_def)
      have ih: "store_ok d' fs' \<and> owns d' w' \<and> \<not> wClosed w' \<and> wJobID w' = wJobID w1 \<and> written + ?m \<le> n
        \<and> n - (written + ?m) \<le> length (drop ?m contents)
        \<and> committed d' fs' (wJobID w1) = committed d1 fs1 (wJobID w1) @ take (n - (written + ?m)) (drop ?m contents)
        \<and> (err = None \<longrightarrow> n - (written + ?m) = length (drop ?m contents))
        \<and> (\<forall>i. i \<noteq> wJobID w1 \<longrightarrow> committed d' fs' i = committed d1 fs1 i)"
        by (rule "1.hyps" [OF False refl c [symmetric] Inr _ _ _ l]) (use one in auto)
      have t: "take ?m contents @ take (n - (written + ?m)) (drop ?m contents) = take (n - written) contents"
        using ih by (simp add: take_add [symmetric])
      show ?thesis using one ih Inr t by auto
    qed
  qed
qed

section \<open>Reading\<close>

definition meta_of :: "job_id \<Rightarrow> log_row \<Rightarrow> metadata" where
  "meta_of i r = \<lparr>mJobID = i, mSequence = l_sequence r, mStream = Stream_of (l_stream r),
     mDataOffset = l_data_offset r, mDataLength = l_data_length r, mAt = l_at_ns r\<rparr>"

lemma meta_of_valid:
  "ID_Valid i \<Longrightarrow> log_row_check r \<Longrightarrow> nano_ok (l_at_ns r) \<Longrightarrow> l_sequence r < 2 ^ 63 \<Longrightarrow>
   Metadata_Validate (meta_of i r) = Inr ()"
  by (auto simp: Metadata_Validate_def meta_of_def log_row_check_def Stream_of_def LogMaximumChunkBytes_def)

lemma scan_log_ok:
  "ID_Valid i \<Longrightarrow> log_row_check r \<Longrightarrow> nano_ok (l_at_ns r) \<Longrightarrow> l_sequence r < 2 ^ 63 \<Longrightarrow>
   scan_log i r = Inr (meta_of i r)"
  using meta_of_valid [of i r] by (simp add: scan_log_def meta_of_def)

lemma Log_List_ok:
  assumes ok: "index_ok d" and i: "ID_Valid i" and e: "row_with e_job_id i (job_executions d) = Some e"
    and a: "0 \<le> after" "after < 2 ^ 63" and l: "0 < limit" "limit \<le> MaximumPageLimit"
  shows "Log_List d i after limit =
    Inr (map (meta_of i) (take (nat limit) (drop (nat after) (log_rows d i))),
         nat after + nat limit < length (log_rows d i))"
proof -
  let ?rs = "drop (nat after) (log_rows d i)"
  note o = index_ok_row [OF ok e]
  have "filter (\<lambda>r. l_job_id r = i \<and> l_sequence r > after) (job_log_records d) =
      filter (\<lambda>r. after < l_sequence r) (log_rows d i)"
    by (simp add: log_rows_def conj_commute)
  also have "\<dots> = ?rs" using log_chain_after [OF o(1), of after] a(1) by simp
  finally have f: "filter (\<lambda>r. l_job_id r = i \<and> l_sequence r > after) (job_log_records d) = ?rs" .
  have "sorted (map l_sequence ?rs)"
    using log_chain_sorted [OF o(1)] by (simp add: drop_map [symmetric] sorted_wrt_drop)
  then have s: "sort_key l_sequence ?rs = ?rs" by (simp add: sort_key_id_if_sorted)
  have scan: "scan_log i r = Inr (meta_of i r)" if "r \<in> set ?rs" for r
  proof -
    have m: "r \<in> set (log_rows d i)" using that by (rule in_set_dropD)
    show ?thesis using log_chain_mem [OF o(1) m] o(3,5) by (intro scan_log_ok i) auto
  qed
  have "collect (scan_log i) (take (nat limit + 1) ?rs) = Inr (map (meta_of i) (take (nat limit + 1) ?rs))"
    by (rule collect_total) (rule scan, rule in_set_takeD)
  moreover have "(nat limit < length (take (nat limit + 1) ?rs)) = (nat after + nat limit < length (log_rows d i))"
    by auto
  ultimately show ?thesis
    using i e a l f s by (auto simp: Log_List_def Let_def take_map MaximumPageLimit_def)
qed

lemma read_records_ok:
  assumes "log_chain s off rs" "ID_Valid i" "0 < s" "0 \<le> off" "s + int (length rs) \<le> 2 ^ 63"
    "off + log_size rs \<le> int (length f)"
  shows "\<exists>recs. collect (read_record f) (map (meta_of i) rs) = Inr recs
    \<and> map recSequence recs = map l_sequence rs
    \<and> concat (map recData recs) = take (nat (log_size rs)) (drop (nat off) f)"
  using assms
proof (induction rs arbitrary: s off)
  case (Cons r rs)
  let ?n = "l_data_length r"
  have r: "l_sequence r = s" "l_data_offset r = off" "log_row_check r" "nano_ok (l_at_ns r)" "0 < ?n"
    "log_chain (s + 1) (off + ?n) rs" using Cons.prems(1) by (auto simp: log_row_check_def)
  have n: "0 \<le> log_size rs" using r(6) by (rule log_chain_size)
  obtain recs where ih: "collect (read_record f) (map (meta_of i) rs) = Inr recs"
      "map recSequence recs = map l_sequence rs"
      "concat (map recData recs) = take (nat (log_size rs)) (drop (nat (off + ?n)) f)"
    using Cons.IH [OF r(6)] Cons.prems r(5) by auto
  let ?rec = "\<lparr>recSequence = s, recStream = Stream_of (l_stream r),
     recData = take (nat ?n) (drop (nat off) f), recAt = l_at_ns r\<rparr>"
  have v: "Metadata_Validate (meta_of i r) = Inr ()"
    using r Cons.prems(2,5) by (intro meta_of_valid) auto
  have "nat off + nat ?n \<le> length f" using Cons.prems(4,6) n r(5) by auto
  then have "read_record f (meta_of i r) = Inr ?rec"
    using v r by (simp add: read_record_def ReadAt_def meta_of_def)
  moreover have "take (nat (?n + log_size rs)) (drop (nat off) f) =
      take (nat ?n) (drop (nat off) f) @ take (nat (log_size rs)) (drop (nat (off + ?n)) f)"
    using r(5) n Cons.prems(4) by (simp add: nat_add_distrib take_add drop_drop add.commute)
  ultimately show ?case using ih r by auto
qed simp

lemma Log_Read_ok:
  assumes ok: "store_ok d fs" and i: "ID_Valid i" and e: "row_with e_job_id i (job_executions d) = Some e"
    and a: "0 \<le> after" "after < 2 ^ 63" and l: "0 < limit" "limit \<le> MaximumPageLimit"
    and page: "page = take (nat limit) (drop (nat after) (log_rows d i))"
  shows "\<exists>recs. Log_Read d fs i after limit = Inr (recs, nat after + nat limit < length (log_rows d i))
    \<and> map recSequence recs = map l_sequence page
    \<and> concat (map recData recs) = take (nat (log_size page))
        (drop (nat (log_size (take (nat after) (log_rows d i)))) (committed d fs i))"
proof -
  have ix: "index_ok d" using ok by (simp add: store_ok_def)
  note o = index_ok_row [OF ix e]
  let ?all = "log_rows d i"
  let ?k = "nat after"
  let ?f = "log_file fs i"
  note ll = Log_List_ok [OF ix i e a l]
  define pre where "pre = take ?k ?all"
  define post where "post = drop (nat limit) (drop ?k ?all)"
  have all: "?all = pre @ page @ post" by (simp only: page pre_def post_def append_take_drop_id)
  have ch: "log_chain 1 0 pre" "log_chain (1 + int (length pre)) (log_size pre) page"
    and tail: "0 \<le> log_size post"
    using o(1) unfolding all by (auto simp: log_chain_append dest: log_chain_size)
  have z: "0 \<le> log_size pre" "0 \<le> log_size page" using ch by (auto simp: log_chain_size)
  have total: "log_size pre + log_size page + log_size post = int (log_end d i)"
    using log_end_rows [OF ix, of i] by (simp add: all)
  have fits: "log_size pre + log_size page \<le> int (length ?f)"
    using total tail ok by (simp add: store_ok_def) (metis add_increasing2 le_add_same_cancel1 of_nat_mono order_trans)
  have lens: "1 + int (length pre) + int (length page) \<le> 2 ^ 63"
    using o(3,5) by (simp add: all)
  show ?thesis
  proof (cases "page = []")
    case True
    then show ?thesis
      using ll l by (simp add: Log_Read_def Let_def page [symmetric])
  next
    case False
    obtain recs where r: "collect (read_record ?f) (map (meta_of i) page) = Inr recs"
        "map recSequence recs = map l_sequence page"
        "concat (map recData recs) = take (nat (log_size page)) (drop (nat (log_size pre)) ?f)"
      using read_records_ok [OF ch(2) i _ z(1) lens fits] by auto
    have "0 < log_size page" using False ch(2) by (cases page) (auto simp: log_row_check_def dest: log_chain_size)
    then have "?f \<noteq> []" using fits z by auto
    then have "fs i = Some ?f" by (auto simp: log_file_def split: option.splits)
    then have "Log_Read d fs i after limit = Inr (recs, ?k + nat limit < length ?all)"
      using ll l r(1) False by (simp add: Log_Read_def Let_def page [symmetric])
    moreover have "nat (log_size page) \<le> log_end d i - nat (log_size pre)" using total tail z by auto
    then have "take (nat (log_size page)) (drop (nat (log_size pre)) (committed d fs i)) =
        take (nat (log_size page)) (drop (nat (log_size pre)) ?f)"
      by (simp add: committed_def drop_take min_def)
    ultimately show ?thesis using r by (auto simp: pre_def)
  qed
qed

section \<open>Properties\<close>

text \<open>A claimed job whose log holds one committed record of three bytes.\<close>

definition log_db :: db where
  "log_db = empty_db\<lparr>job_executions := [bump 3 2 (claimed_row sample_id 41 8)],
     job_log_records := [\<lparr>l_job_id = sample_id, l_sequence = 1, l_stream = ''stdout'', l_data_offset = 0,
       l_data_length = 3, l_at_ns = 9\<rparr>]\<rparr>"

definition log_files :: files where
  "log_files = [sample_id \<mapsto> [1, 2, 3]]"

definition log_writer :: writer where
  "log_writer = \<lparr>wJobID = sample_id, wOffset = 3, wClosed = False\<rparr>"

lemma log_db_row: "row_with e_job_id i (job_executions log_db) =
    (if i = sample_id then Some (bump 3 2 (claimed_row sample_id 41 8)) else None)"
  by (simp add: log_db_def bump_def claimed_row_def)

lemma log_db_end: "log_end log_db i = (if i = sample_id then 3 else 0)"
  by (simp add: log_end_def log_db_row bump_def)

lemma log_db_ok: "store_ok log_db log_files"
proof -
  have "indexed (row_with e_job_id i (job_executions log_db)) (log_rows log_db i)" for i
    by (auto simp: log_db_row indexed_def log_rows_def log_db_def log_row_check_def nano_ok_def bump_def
        claimed_row_def)
  moreover have "keyed e_job_id (job_executions log_db)" by (simp add: log_db_def keyed_def)
  ultimately show ?thesis
    by (auto simp: store_ok_def index_ok_def log_db_end log_files_def log_file_def)
qed

lemma log_writer_owns: "owns log_db log_writer \<and> \<not> wClosed log_writer"
  by (simp add: owns_def log_writer_def log_db_row log_db_end)

text \<open>
  C7: Appending. Whatever writes, syncs or commits fail, \<open>append\<close> returns a number n of bytes such that
  exactly the first n bytes of the contents have been added to the committed log of the job and every other log is
  as before; without an error n is the length of the contents. The index stays consecutive and covered by the
  files.
\<close>

theorem append_commits_a_prefix:
  assumes "store_ok d fs" "owns d w" "\<not> wClosed w"
    "append_log s contents clock faults (d, fs, w) = ((d', fs', w'), n, err)"
  shows "store_ok d' fs' \<and> owns d' w' \<and> n \<le> length contents
    \<and> committed d' fs' (wJobID w) = committed d fs (wJobID w) @ take n contents
    \<and> (err = None \<longrightarrow> n = length contents)
    \<and> (\<forall>i. i \<noteq> wJobID w \<longrightarrow> committed d' fs' i = committed d fs i)"
proof (cases "s \<noteq> StreamStdout \<and> s \<noteq> StreamStderr")
  case True
  then show ?thesis using assms by (auto simp: append_log_def)
next
  case False
  then have "append_loop s contents clock faults 0 0 (d, fs, w) = ((d', fs', w'), n, err)"
    using assms(4) by (auto simp: append_log_def)
  from append_loop_spec [OF assms(1-3) this] show ?thesis by auto
qed

theorem append_commits_a_prefix_witness:
  "\<exists>d' fs' w'. append_log StreamStdout [7, 8] (\<lambda>_. 9) (\<lambda>_. IoOk []) (log_db, log_files, log_writer) =
       ((d', fs', w'), 2, None)
     \<and> committed d' fs' sample_id = [1, 2, 3, 7, 8]"
proof -
  let ?a = "append_log StreamStdout [7, 8] (\<lambda>_. 9) (\<lambda>_. IoOk []) (log_db, log_files, log_writer)"
  have "snd ?a = (2, None)" by code_simp
  then obtain d' fs' w' where a: "?a = ((d', fs', w'), 2, None)" by (metis prod.collapse)
  have "committed log_db log_files sample_id = [1, 2, 3]"
    by (simp add: committed_def log_db_end log_file_def log_files_def)
  then show ?thesis
    using a append_commits_a_prefix [OF log_db_ok _ _ a] log_writer_owns by (auto simp: log_writer_def)
qed

text \<open>
  C35: Reading. A page after sequence number a holds at most the limit records, the next sequence numbers in
  order, and the bytes of the committed log from where record a ends; \<open>HasMore\<close> says whether records remain. Reading
  never fails on a store whose index is covered by its files.
\<close>

theorem read_returns_the_log:
  assumes "store_ok d fs" "ID_Valid i" "row_with e_job_id i (job_executions d) = Some e"
    "0 \<le> after" "after < 2 ^ 63" "0 < limit" "limit \<le> MaximumPageLimit"
    "page = take (nat limit) (drop (nat after) (log_rows d i))"
  shows "\<exists>recs. Log_Read d fs i after limit = Inr (recs, nat after + nat limit < length (log_rows d i))
    \<and> int (length recs) \<le> limit
    \<and> map recSequence recs = map (\<lambda>k. after + 1 + int k) [0 ..< length recs]
    \<and> concat (map recData recs) = take (nat (log_size page))
        (drop (nat (log_size (take (nat after) (log_rows d i)))) (committed d fs i))"
proof -
  obtain recs where r: "Log_Read d fs i after limit = Inr (recs, nat after + nat limit < length (log_rows d i))"
      "map recSequence recs = map l_sequence page"
      "concat (map recData recs) = take (nat (log_size page))
        (drop (nat (log_size (take (nat after) (log_rows d i)))) (committed d fs i))"
    using Log_Read_ok [OF assms] by blast
  have len: "length recs = length page" using arg_cong [OF r(2), of length] by simp
  have ix: "index_ok d" using assms(1) by (simp add: store_ok_def)
  have "log_chain 1 0 (take (nat after) (log_rows d i) @ page @ drop (nat limit) (drop (nat after) (log_rows d i)))"
    using index_ok_row(1) [OF ix assms(3)] by (simp only: assms(8) append_take_drop_id)
  then have c: "log_chain (1 + int (length (take (nat after) (log_rows d i))))
      (log_size (take (nat after) (log_rows d i))) page" by (simp add: log_chain_append)
  have n: "map l_sequence q = map (\<lambda>k. s + int k) [0 ..< length q]" if "log_chain s off q" for s off q
    using that
  proof (induction q arbitrary: s off)
    case (Cons x q)
    then have "map l_sequence q = map (\<lambda>k. s + 1 + int k) [0 ..< length q]" by auto
    then show ?case
      using Cons.prems by (simp add: upt_conv_Cons map_Suc_upt [symmetric] o_def add.assoc del: upt_Suc)
  qed simp
  have "map l_sequence page = map (\<lambda>k. after + 1 + int k) [0 ..< length page]"
  proof (cases "page = []")
    case False
    then have "length (take (nat after) (log_rows d i)) = nat after" by (auto simp: assms(8))
    then show ?thesis using n [OF c] assms(4) by (simp add: add.commute)
  qed simp
  moreover have "int (length recs) \<le> limit" using len assms(6,8) by simp
  ultimately show ?thesis using r len by auto
qed

theorem read_returns_the_log_witness:
  "\<exists>recs. Log_Read log_db log_files sample_id 0 32 = Inr (recs, False)
     \<and> map recSequence recs = [1] \<and> concat (map recData recs) = [1, 2, 3]"
proof -
  let ?page = "take (nat 32) (drop (nat 0) (log_rows log_db sample_id))"
  have rows: "log_rows log_db sample_id = job_log_records log_db" by (simp add: log_rows_def log_db_def)
  have len: "length (log_rows log_db sample_id) = 1" "log_size (log_rows log_db sample_id) = 3"
    unfolding rows by (simp_all add: log_db_def)
  obtain recs where r: "Log_Read log_db log_files sample_id 0 32 =
        Inr (recs, nat 0 + nat 32 < length (log_rows log_db sample_id))"
      "map recSequence recs = map (\<lambda>k. 0 + 1 + int k) [0 ..< length recs]"
      "concat (map recData recs) = take (nat (log_size ?page))
        (drop (nat (log_size (take (nat 0) (log_rows log_db sample_id)))) (committed log_db log_files sample_id))"
    using read_returns_the_log [OF log_db_ok sample_id_valid, of _ 0 32 ?page]
    by (auto simp: log_db_row MaximumPageLimit_def)
  have p: "?page = log_rows log_db sample_id" using len by simp
  have "fst (projr (Log_Read log_db log_files sample_id 0 32)) \<noteq> []
      \<and> length (fst (projr (Log_Read log_db log_files sample_id 0 32))) = 1" by code_simp
  then have "length recs = 1" using r(1) by simp
  moreover have "committed log_db log_files sample_id = [1, 2, 3]"
    by (simp add: committed_def log_db_end log_file_def log_files_def)
  ultimately show ?thesis using r len p by auto
qed

text \<open>
  Recovery. Opening a writer on a file that holds at least the committed bytes, whatever an interrupted
  append left behind them, cuts the file back to exactly the committed log and positions the writer at its end; a file
  that lost committed bytes is reported as corrupt.
\<close>

theorem open_repairs_the_tail:
  assumes "index_ok d" "ID_Valid i" "row_with e_job_id i (job_executions d) = Some e"
  shows "case OpenWriter d i fs of (fs', res) \<Rightarrow>
    if log_end d i \<le> length (log_file fs i)
    then (\<exists>w. res = Inr w \<and> owns d w \<and> wJobID w = i \<and> \<not> wClosed w)
      \<and> log_file fs' i = committed d fs i \<and> committed d fs' = committed d fs
    else res = Inl [Logging_ErrCorrupt] \<and> committed d fs' = committed d fs"
proof -
  have c: "Cursor d i = Inr (int (log_end d i), e_next_log_sequence e)"
    using assms by (simp add: Cursor_def log_end_row [OF assms(1,3)])
  show ?thesis
  proof (cases "log_end d i \<le> length (log_file fs i)")
    case True
    then have "OpenWriter d i fs = (fs(i \<mapsto> take (log_end d i) (log_file fs i)),
        Inr \<lparr>wJobID = i, wOffset = int (log_end d i), wClosed = False\<rparr>)"
      by (auto simp: OpenWriter_def c Let_def log_file_def)
    then show ?thesis
      using True assms(3) by (auto simp: owns_def committed_def log_file_upd fun_eq_iff)
  next
    case False
    then have "OpenWriter d i fs = (fs(i \<mapsto> log_file fs i), Inl [Logging_ErrCorrupt])"
      by (auto simp: OpenWriter_def c Let_def log_file_def)
    then show ?thesis using False by (auto simp: committed_def log_file_upd fun_eq_iff)
  qed
qed

theorem open_repairs_the_tail_witness:
  "\<exists>fs' w. OpenWriter log_db sample_id (log_files(sample_id \<mapsto> [1, 2, 3, 99, 98])) = (fs', Inr w)
     \<and> log_file fs' sample_id = [1, 2, 3] \<and> wJobID w = sample_id"
proof -
  let ?fs = "log_files(sample_id \<mapsto> [1, 2, 3, 99, 98])"
  have "index_ok log_db" using log_db_ok by (simp add: store_ok_def)
  from open_repairs_the_tail [OF this sample_id_valid, of _ ?fs] show ?thesis
    by (auto simp: log_db_row log_db_end log_file_upd committed_def split: prod.splits)
qed

end
