(* ===== verification/WorkerService.thy ===== *)
theory WorkerService
  imports ArtifactManager JobService LogStore
begin

text \<open>
  The remaining operations of \<open>internal/app/worker/jobs.go\<close>, which tie the job repository to the content store, the job
  workspaces, the collected artifacts and the logs: submission of a project snapshot, reading and restoring artifacts,
  uploads and reservations, reading logs. The state is the file system and the content store; the index of the store is
  the database, so the job tables are those of the same database. A dependency that the service may lack is a flag of the
  configuration. Every reading of the clock is an argument, \<open>clocks\<close> those of the content store and \<open>now\<close> those of the service.
\<close>

abbreviation Worker_ErrSnapshotsDisabled :: sentinel where "Worker_ErrSnapshotsDisabled \<equiv> ''worker.ErrSnapshotsDisabled''"
abbreviation Worker_ErrSnapshotIncomplete :: sentinel where "Worker_ErrSnapshotIncomplete \<equiv> ''worker.ErrSnapshotIncomplete''"
abbreviation Worker_ErrArtifactsDisabled :: sentinel where "Worker_ErrArtifactsDisabled \<equiv> ''worker.ErrArtifactsDisabled''"
abbreviation Worker_ErrArtifactsNotReady :: sentinel where "Worker_ErrArtifactsNotReady \<equiv> ''worker.ErrArtifactsNotReady''"

section \<open>Operations\<close>

record worker_config =
  hasSnapshots :: bool
  hasArtifacts :: bool
  stateDirectory :: fpath

abbreviation worker_jobs :: "manager \<Rightarrow> db" where
  "worker_jobs st \<equiv> job_tables (sIndex st)"

definition on_jobs :: "(db \<Rightarrow> db \<times> 'a result) \<Rightarrow> manager \<Rightarrow> manager \<times> 'a result" where
  "on_jobs f st = (case f (worker_jobs st) of (d, r) \<Rightarrow> (st\<lparr>sIndex := (sIndex st)\<lparr>job_tables := d\<rparr>\<rparr>, r))"

subsection \<open>Artifacts\<close>

record finished_artifacts =
  faJob :: job
  faBundle :: artifact_bundle

definition ReadArtifacts ::
    "casing \<Rightarrow> (byte list \<Rightarrow> byte list) \<Rightarrow> (manifest \<Rightarrow> nat) \<Rightarrow> worker_config \<Rightarrow> job_id \<Rightarrow> manager \<Rightarrow> finished_artifacts result" where
  "ReadArtifacts U H J C i st =
    (if \<not> hasArtifacts C then Inl [Worker_ErrArtifactsDisabled]
     else ebind (Job_Get U (worker_jobs st) i) (\<lambda>current.
       if jState current \<noteq> StateSucceeded \<or> length (Outputs (jSpec current)) = 0 then Inl [Worker_ErrArtifactsNotReady]
       else ebind (Artifact_Get U H J (sIndex st) i) (\<lambda>b.
         if bJobID b \<noteq> i then Inl [Artifact_ErrInvalidBundle] else Inr \<lparr>faJob = current, faBundle = b\<rparr>)))"

definition MarkArtifactsRetrieved ::
    "casing \<Rightarrow> (byte list \<Rightarrow> byte list) \<Rightarrow> (manifest \<Rightarrow> nat) \<Rightarrow> worker_config \<Rightarrow> time \<Rightarrow> job_id \<Rightarrow> manager \<Rightarrow> manager \<times> unit result" where
  "MarkArtifactsRetrieved U H J C now i st =
    (case ReadArtifacts U H J C i st of Inl e \<Rightarrow> (st, Inl e) | Inr _ \<Rightarrow> Manager_MarkRetrieved now i st)"

definition ReadArtifactChunk ::
    "casing \<Rightarrow> (byte list \<Rightarrow> byte list) \<Rightarrow> (manifest \<Rightarrow> nat) \<Rightarrow> io_errors \<Rightarrow> worker_config \<Rightarrow> clock \<Rightarrow> job_id \<Rightarrow> digest \<Rightarrow> manager \<Rightarrow> manager \<times> byte list result" where
  "ReadArtifactChunk U H J Y C clock i g st =
    (case ReadArtifacts U H J C i st of Inl e \<Rightarrow> (st, Inl e) | Inr _ \<Rightarrow> ReadJobChunk U H J Y clock i g st)"

definition RestoreArtifacts ::
    "casing \<Rightarrow> (byte list \<Rightarrow> byte list) \<Rightarrow> (manifest \<Rightarrow> nat) \<Rightarrow> io_errors \<Rightarrow> fs_errors \<Rightarrow> worker_config \<Rightarrow> (nat \<Rightarrow> clock) \<Rightarrow> (nat \<Rightarrow> time) \<Rightarrow> string
      \<Rightarrow> job_id \<Rightarrow> string \<Rightarrow> fs \<times> manager \<Rightarrow> (fs \<times> manager) \<times> restore_result result" where
  "RestoreArtifacts U H J Y X C clocks now temp i destination s =
    (case s of (fs, st) \<Rightarrow>
     case ReadArtifacts U H J C i st of
       Inl e \<Rightarrow> (s, Inl e)
     | Inr result \<Rightarrow>
    (let restoreBytes = max (mTotalBytes (bManifest (faBundle result))) 1 in
     case on_jobs (setProgress (sqlite_store U) i ProgressRestore 0 restoreBytes (now 0)) st of
       (st1, Inl e) \<Rightarrow> ((fs, st1), Inl e)
     | (st1, Inr _) \<Rightarrow>
    (case Restore U H Y X clocks (now 1) temp (faBundle result) destination (fs, st1) of
       (s2, Inl e) \<Rightarrow> (s2, Inl e)
     | ((fs2, st2), Inr restored) \<Rightarrow>
    (case on_jobs (setProgress (sqlite_store U) i ProgressRestore restoreBytes restoreBytes (now 2)) st2 of
       (st3, Inl e) \<Rightarrow> ((fs2, st3), Inl e)
     | (st3, Inr _) \<Rightarrow>
    (case on_jobs (ClearProgress i) st3 of
       (st4, Inl e) \<Rightarrow> ((fs2, st4), Inl e)
     | (st4, Inr _) \<Rightarrow> ((fs2, st4), Inr restored))))))"

subsection \<open>Uploads\<close>

definition Service_GetProgress :: "job_id \<Rightarrow> manager \<Rightarrow> progress option result" where
  "Service_GetProgress i st = GetProgress (worker_jobs st) i"

definition MissingChunks ::
    "casing \<Rightarrow> (byte list \<Rightarrow> byte list) \<Rightarrow> io_errors \<Rightarrow> worker_config \<Rightarrow> clock \<Rightarrow> digest list \<Rightarrow> manager \<Rightarrow> manager \<times> digest list result" where
  "MissingChunks U H Y C clock digests st =
    (if \<not> hasSnapshots C then (st, Inl [Worker_ErrSnapshotsDisabled]) else Missing U H (sqlite_index U) Y clock digests st)"

definition PutChunk ::
    "casing \<Rightarrow> (byte list \<Rightarrow> byte list) \<Rightarrow> io_errors \<Rightarrow> worker_config \<Rightarrow> clock \<Rightarrow> digest \<Rightarrow> byte list \<Rightarrow> manager \<Rightarrow> manager \<times> unit result" where
  "PutChunk U H Y C clock g contents st =
    (if \<not> hasSnapshots C then (st, Inl [Worker_ErrSnapshotsDisabled])
     else if \<not> Digest_Valid U g \<or> length contents = 0 \<or> int (length contents) > MaximumChunkBytes \<or> Sum H contents \<noteq> g
     then (st, Inl [Snapshot_ErrInvalidDigest])
     else Put U H (sqlite_index U) Y clock g contents st)"

definition ReserveSnapshot ::
    "casing \<Rightarrow> io_errors \<Rightarrow> worker_config \<Rightarrow> clock \<Rightarrow> digest \<Rightarrow> digest list \<Rightarrow> manager \<Rightarrow> manager \<times> unit result" where
  "ReserveSnapshot U Y C clock manifestID digests st =
    (if \<not> hasSnapshots C then (st, Inl [Worker_ErrSnapshotsDisabled])
     else Reserve U (sqlite_index U) Y clock manifestID digests st)"

definition ReleaseSnapshot :: "casing \<Rightarrow> io_errors \<Rightarrow> worker_config \<Rightarrow> clock \<Rightarrow> digest \<Rightarrow> manager \<Rightarrow> manager" where
  "ReleaseSnapshot U Y C clock manifestID st =
    (if hasSnapshots C then ReleaseReservation U (sqlite_index U) Y clock manifestID st else st)"

subsection \<open>Submission\<close>

definition SubmitWithID :: "casing \<Rightarrow> (nat \<Rightarrow> time) \<Rightarrow> job_id \<Rightarrow> spec \<Rightarrow> manager \<Rightarrow> manager \<times> job result" where
  "SubmitWithID U now i s st = on_jobs (submitWithID U (sqlite_store U) i s (now 0) (now 1) (now 2)) st"

definition Submit :: "casing \<Rightarrow> (nat \<Rightarrow> time) \<Rightarrow> job_id result \<Rightarrow> spec \<Rightarrow> manager \<Rightarrow> manager \<times> job result" where
  "Submit U now generated s st = (case generated of Inl e \<Rightarrow> (st, Inl e) | Inr i \<Rightarrow> SubmitWithID U now i s st)"

text \<open>The part of \<open>SubmitSnapshotWithID\<close> that queues the job once its workspace exists, and the part between \<open>BeginUse\<close> and its release.\<close>

definition native_path :: "fpath \<Rightarrow> string" where
  "native_path p = CHR ''/'' # Join CHR ''/'' p"

definition queue_prepared ::
    "casing \<Rightarrow> fs_errors \<Rightarrow> (nat \<Rightarrow> time) \<Rightarrow> worker_config \<Rightarrow> job_id \<Rightarrow> spec \<Rightarrow> fpath \<Rightarrow> fs \<times> manager \<Rightarrow> (fs \<times> manager) \<times> job result" where
  "queue_prepared U X now C i s workingDirectory t =
    (case SubmitWithID U now i (s\<lparr>WorkingDirectory := native_path workingDirectory\<rparr>) (snd t) of
       (st1, Inr v) \<Rightarrow> ((fst t, st1), Inr v)
     | (st1, Inl e) \<Rightarrow>
         (case RemoveWorkspace X (stateDirectory C) i (fst t) of
            (fs1, r) \<Rightarrow> ((fs1, st1), Inl (e @ (case r of Inl e2 \<Rightarrow> e2 | Inr _ \<Rightarrow> [])))))"

definition submit_in_use ::
    "casing \<Rightarrow> (byte list \<Rightarrow> byte list) \<Rightarrow> io_errors \<Rightarrow> fs_errors \<Rightarrow> worker_config \<Rightarrow> (nat \<Rightarrow> clock) \<Rightarrow> (nat \<Rightarrow> time) \<Rightarrow> string
      \<Rightarrow> job_id \<Rightarrow> spec \<Rightarrow> manifest \<Rightarrow> string \<Rightarrow> fs \<times> manager \<Rightarrow> (fs \<times> manager) \<times> job result" where
  "submit_in_use U H Y X C clocks now temp i s m sub t =
    (case Missing U H (sqlite_index U) Y (clocks 1) (Digests m) (snd t) of
       (st1, Inl e) \<Rightarrow> ((fst t, st1), Inl e)
     | (st1, Inr missing) \<Rightarrow>
        if length missing \<noteq> 0 then ((fst t, st1), Inl [Worker_ErrSnapshotIncomplete])
        else
    (case Materialize U (store_reader U H (sqlite_index U) Y) X temp (stateDirectory C) i m sub (fst t, clocks 2, st1) of
       ((fs2, _, st2), Inl e) \<Rightarrow> ((fs2, st2), Inl e)
     | ((fs2, _, st2), Inr workingDirectory) \<Rightarrow> queue_prepared U X now C i s workingDirectory (fs2, st2)))"

definition SubmitSnapshotWithID ::
    "casing \<Rightarrow> (byte list \<Rightarrow> byte list) \<Rightarrow> io_errors \<Rightarrow> fs_errors \<Rightarrow> worker_config \<Rightarrow> (nat \<Rightarrow> clock) \<Rightarrow> (nat \<Rightarrow> time) \<Rightarrow> string
      \<Rightarrow> job_id \<Rightarrow> spec \<Rightarrow> manifest \<Rightarrow> string \<Rightarrow> fs \<times> manager \<Rightarrow> (fs \<times> manager) \<times> job result" where
  "SubmitSnapshotWithID U H Y X C clocks now temp i s m sub t =
    (if \<not> hasSnapshots C then (t, Inl [Worker_ErrSnapshotsDisabled])
     else if \<not> ID_Valid i then (t, Inl [Job_ErrInvalidID])
     else (case ebind (Spec_Validate U s) (\<lambda>_. ebind (Manifest_Validate U m) (\<lambda>_. if sub \<noteq> '''' then ValidatePath U sub else Inr ())) of
         Inl e \<Rightarrow> (t, Inl e)
       | Inr _ \<Rightarrow>
           (case submit_in_use U H Y X C clocks now temp i s m sub (fst t, BeginUse (clocks 0 0) (snd t)) of
              ((fs', st'), r) \<Rightarrow> ((fs', EndUse U (sqlite_index U) Y (clocks 3) st'), r))))"

definition SubmitSnapshot ::
    "casing \<Rightarrow> (byte list \<Rightarrow> byte list) \<Rightarrow> io_errors \<Rightarrow> fs_errors \<Rightarrow> worker_config \<Rightarrow> (nat \<Rightarrow> clock) \<Rightarrow> (nat \<Rightarrow> time) \<Rightarrow> string
      \<Rightarrow> job_id result \<Rightarrow> spec \<Rightarrow> manifest \<Rightarrow> string \<Rightarrow> fs \<times> manager \<Rightarrow> (fs \<times> manager) \<times> job result" where
  "SubmitSnapshot U H Y X C clocks now temp generated s m sub t =
    (case generated of Inl e \<Rightarrow> (t, Inl e) | Inr i \<Rightarrow> SubmitSnapshotWithID U H Y X C clocks now temp i s m sub t)"

subsection \<open>Logs\<close>

record job_logs =
  lgJob :: job
  lgExecution :: "attempt option"
  lgPage :: "log_record list \<times> bool"

definition ReadLogs :: "casing \<Rightarrow> files \<Rightarrow> job_id \<Rightarrow> int \<Rightarrow> int \<Rightarrow> manager \<Rightarrow> job_logs result" where
  "ReadLogs U logs i after limit st =
    ebind (Job_Get U (worker_jobs st) i) (\<lambda>current.
      case Attempt_Get (worker_jobs st) i of
        Inl e \<Rightarrow>
          if errors_is e Execution_ErrNotFound then Inr \<lparr>lgJob = current, lgExecution = None, lgPage = ([], False)\<rparr>
          else Inl e
      | Inr a \<Rightarrow>
          ebind (Log_Read (worker_jobs st) logs i after limit) (\<lambda>page.
            Inr \<lparr>lgJob = current, lgExecution = Some a, lgPage = page\<rparr>))"

section \<open>The content store leaves the jobs alone\<close>

lemma index_jobs:
  "index_delete (sqlite_index U) g st = (st', r) \<Longrightarrow> worker_jobs st' = worker_jobs st"
  "index_record (sqlite_index U) e st = (st', r) \<Longrightarrow> worker_jobs st' = worker_jobs st"
  by (auto simp: index_delete_def index_record_def sqlite_index_def Delete_def Record_def transact_def ebind_Inr_iff
      split: prod.splits if_splits sum.splits)

lemma store_jobs [simp]:
  "worker_jobs (expireReservationsLocked t st) = worker_jobs st"
  "worker_jobs (pinAccess t g st) = worker_jobs st"
  "worker_jobs (releasePin g st) = worker_jobs st"
  "worker_jobs (BeginUse t st) = worker_jobs st"
  by (simp_all add: expireReservationsLocked_def pinAccess_def releasePin_def BeginUse_def Let_def)

lemma evict_loop_jobs: "evict_loop U (sqlite_index U) Y clock cs c p st = (st', r) \<Longrightarrow> worker_jobs st' = worker_jobs st"
proof (induction cs arbitrary: clock c p st)
  case (Cons x cs)
  have "worker_jobs st2 = worker_jobs st" if "remove_chunk U Y g (expireReservationsLocked t st) = Inr st2" for g t st2
    using that by (auto simp: remove_chunk_def ebind_Inr_iff)
  with Cons show ?case by (fastforce simp: Let_def dest: index_jobs split: if_splits sum.splits prod.splits)
qed simp

lemma Enforce_jobs: "worker_jobs (fst (Enforce U (sqlite_index U) Y clock st)) = worker_jobs st"
  by (auto simp: Enforce_def enforce_def dest: evict_loop_jobs split: sum.splits prod.splits option.splits)

lemma EndUse_jobs [simp]: "worker_jobs (EndUse U (sqlite_index U) Y clock st) = worker_jobs st"
  by (simp add: EndUse_def Let_def Enforce_jobs)

lemma Read_chunk_jobs: "Read_chunk U H (sqlite_index U) Y clock g st = (st', r) \<Longrightarrow> worker_jobs st' = worker_jobs st"
  by (auto simp: Read_chunk_def read_body_def dest!: index_jobs split: if_splits prod.splits sum.splits option.splits)

lemma Missing_jobs: "Missing U H (sqlite_index U) Y clock gs st = (st', r) \<Longrightarrow> worker_jobs st' = worker_jobs st"
proof -
  have "missing_loop U H (sqlite_index U) Y clock gs st = (st', r) \<Longrightarrow> worker_jobs st' = worker_jobs st" for gs clock st and r
  proof (induction gs arbitrary: clock st r)
    case (Cons g gs)
    then show ?case
      by (fastforce simp: Has_def dest: Read_chunk_jobs split: if_splits prod.splits sum.splits)
  qed simp
  then show "Missing U H (sqlite_index U) Y clock gs st = (st', r) \<Longrightarrow> worker_jobs st' = worker_jobs st"
    by (auto simp: Missing_def split: if_splits)
qed

text \<open>What a reader keeps of its store, materialising keeps.\<close>

locale steady_reader =
  fixes rd :: "'s reader" and part :: "'s \<Rightarrow> 'k"
  assumes rd_part: "rd g st = (st', r) \<Longrightarrow> part st' = part st"
begin

lemma write_chunks_part: "write_chunks rd X q cs s = (s', err) \<Longrightarrow> part (snd s') = part (snd s)"
proof (induction cs arbitrary: s)
  case (Cons c cs)
  then show ?case
    by (cases s) (fastforce dest: rd_part split: prod.splits sum.splits if_splits)
qed auto

lemma materializeFile_part: "materializeFile rd X q f s = (s', r) \<Longrightarrow> part (snd s') = part (snd s)"
  by (auto simp: materializeFile_def Let_def dest!: write_chunks_part split: prod.splits sum.splits if_splits)

lemma materialize_files_part: "materialize_files rd X S fs s = (s', r) \<Longrightarrow> part (snd s') = part (snd s)"
proof (induction fs arbitrary: s)
  case (Cons f fs)
  then show ?case
    by (fastforce simp: Let_def dest: materializeFile_part split: prod.splits sum.splits if_splits)
qed auto

lemma stage_and_commit_part: "stage_and_commit rd X S T m sub s = (s', r) \<Longrightarrow> part (snd s') = part (snd s)"
  by (auto simp: stage_and_commit_def dest!: materialize_files_part split: prod.splits sum.splits if_splits)

lemma Materialize_part: "Materialize U rd X temp D i m sub s = (s', r) \<Longrightarrow> part (snd s') = part (snd s)"
  by (auto simp: Materialize_def Let_def dest!: stage_and_commit_part split: prod.splits sum.splits if_splits)

end

interpretation steady: steady_reader "store_reader U H (sqlite_index U) Y" "\<lambda>cs. worker_jobs (snd cs)" for U H Y
  by unfold_locales (auto simp: store_reader_def dest: Read_chunk_jobs split: prod.splits)


section \<open>Submitting the job\<close>

lemma on_jobs_same: "f (worker_jobs st) = (worker_jobs st, r) \<Longrightarrow> on_jobs f st = (st, r)"
  by (cases st) (simp add: on_jobs_def)

lemma SubmitWithID_cases:
  assumes ok: "jobs_ok U (worker_jobs st)" and j: "\<forall>j. New U i s (now 0) = Inr j \<longrightarrow> storable j"
    and clock: "now 0 \<le> now 1" "now 1 \<le> now 2" "nano_ok (now 0)" "nano_ok (now 2)"
    and run: "SubmitWithID U now i s st = (st', r)"
  shows "case r of
      Inl _ \<Rightarrow> st' = st
    | Inr v \<Rightarrow> jobs_ok U (worker_jobs st') \<and> Job_Get U (worker_jobs st) i = Inl [Job_ErrNotFound]
        \<and> Job_Get U (worker_jobs st') i = Inr v \<and> jState v = StateQueued \<and> jSpec v = s
        \<and> (\<forall>k. k \<noteq> i \<longrightarrow> Job_Get U (worker_jobs st') k = Job_Get U (worker_jobs st) k)"
proof (cases "New U i s (now 0)")
  case (Inl e)
  then have "SubmitWithID U now i s st = (st, Inl e)"
    unfolding SubmitWithID_def by (intro on_jobs_same) (simp add: submitWithID_def)
  then show ?thesis using run by auto
next
  case (Inr created)
  note get = js.get_missing [OF ok, of i, unfolded sqlite_store_def, simplified]
  have c: "Job_Validate U created = Inr ()" "jState created = StateCreated" "jID created = i" "ID_Valid i"
    using Inr by (auto simp: New_def Let_def result_simps Job_Validate_iff)
  show ?thesis
  proof (cases "\<exists>v. Job_Get U (worker_jobs st) i = Inr v")
    case True
    then have "st_Create (sqlite_store U) created (worker_jobs st) = (worker_jobs st, Inl [Job_ErrConflict])"
      using js.create_duplicate [OF ok, of created] c by (auto simp: sqlite_store_def)
    then have "SubmitWithID U now i s st = (st, Inl [Job_ErrConflict])"
      unfolding SubmitWithID_def by (intro on_jobs_same) (simp add: submitWithID_def and_then_def Inr)
    then show ?thesis using run by auto
  next
    case False
    then have fresh: "Job_Get U (worker_jobs st) i = Inl [Job_ErrNotFound]" using get c(4) by auto
    have n: "nano_ok (now 1)" using nano_ok_mono [of "now 0" "now 2" "now 1"] clock by auto
    have sq: "st_Get (sqlite_store U) = Job_Get U" by (simp add: sqlite_store_def)
    obtain d v where "submitWithID U (sqlite_store U) i s (now 0) (now 1) (now 2) (worker_jobs st) = (d, Inr v)"
        "jobs_ok U d" "Job_Get U d i = Inr v" "jState v = StateQueued" "jSpec v = s"
        "\<And>k. k \<noteq> i \<Longrightarrow> Job_Get U d k = Job_Get U (worker_jobs st) k"
      using js.submit_ok [OF ok _ Inr j [rule_format, OF Inr] clock(1,2,3) n clock(4), unfolded sq] fresh by blast
    moreover from this have "r = Inr v" "worker_jobs st' = d" using run by (auto simp: SubmitWithID_def on_jobs_def)
    ultimately show ?thesis using fresh by simp
  qed
qed

lemma RemoveWorkspace_undoes:
  assumes "ID_Valid i" "wf_fs fs" "fs (D @ [''jobs'', i, ''workspace'']) = None"
  defines "parent \<equiv> D @ [''jobs'', i]" and "target \<equiv> D @ [''jobs'', i, ''workspace'']"
  shows "fst (RemoveWorkspace X D i (overlay (with_dirs parent fs) target t)) =
    (if X OpRemove target = None then with_dirs parent fs else overlay (with_dirs parent fs) target t)"
proof -
  have T: "target = parent @ [''workspace'']" by (simp add: parent_def target_def)
  then have "staged (with_dirs parent fs) target"
    by (auto simp: staged_def with_dirs_def strict_prefix_def prefix_snoc)
  moreover have "with_dirs parent fs q = None" if "prefix target q" for q
    using that empty_below [OF assms(2,3)] prefix_length_le [of q parent] prefix_length_le [OF that] T
    by (auto simp: with_dirs_def target_def [symmetric])
  ultimately have "OsRemoveAll X (overlay (with_dirs parent fs) target t) target = guard X OpRemove target (Inr (with_dirs parent fs))"
    by (rule remove_staging(1))
  then show ?thesis
    using assms(1) by (simp add: RemoveWorkspace_def JobWorkspacePath_def JobDataDir_def target_def [symmetric] guard_def split: option.split)
qed


text \<open>What materialising and queueing leave when the job tables and the clock are in order.\<close>

lemma queue_prepared_cases:
  assumes fs: "wf_fs fs" "fs (D @ [''jobs'', i, ''workspace'']) = None" "stateDirectory C = D" "ID_Valid i"
    and ok: "jobs_ok U (worker_jobs st)" "New U i s (now 0) = Inr j" "storable j"
    and clock: "now 0 \<le> now 1" "now 1 \<le> now 2" "nano_ok (now 2)"
  defines "parent \<equiv> D @ [''jobs'', i]" and "target \<equiv> D @ [''jobs'', i, ''workspace'']"
  assumes run: "queue_prepared U X now C i s w (overlay (with_dirs parent fs) target t, st) = ((fs', st'), r)"
  shows "case r of
      Inl _ \<Rightarrow> st' = st \<and> fs' = (if X OpRemove target = None then with_dirs parent fs else overlay (with_dirs parent fs) target t)
    | Inr v \<Rightarrow> fs' = overlay (with_dirs parent fs) target t \<and> jobs_ok U (worker_jobs st')
        \<and> Job_Get U (worker_jobs st) i = Inl [Job_ErrNotFound] \<and> Job_Get U (worker_jobs st') i = Inr v
        \<and> jState v = StateQueued \<and> jSpec v = s\<lparr>WorkingDirectory := native_path w\<rparr>
        \<and> (\<forall>k. k \<noteq> i \<longrightarrow> Job_Get U (worker_jobs st') k = Job_Get U (worker_jobs st) k)"
proof -
  let ?s = "s\<lparr>WorkingDirectory := native_path w\<rparr>"
  have j: "j = \<lparr>jID = i, jSpec = s, jState = StateCreated, jCreatedAt = now 0, jUpdatedAt = now 0, jFailure = None, jProgress = None\<rparr>"
    using ok(2) by (auto simp: New_def Let_def result_simps)
  then have n: "nano_ok (now 0)" using ok(3) by (simp add: storable_def)
  have "\<forall>j'. New U i ?s (now 0) = Inr j' \<longrightarrow> storable j'"
    using ok(3) j by (auto simp: New_def Let_def result_simps storable_def)
  note cases = SubmitWithID_cases [OF ok(1) this clock(1,2) n clock(3)]
  obtain st1 r1 where sub: "SubmitWithID U now i ?s st = (st1, r1)" by fastforce
  show ?thesis
  proof (cases r1)
    case (Inl e)
    then show ?thesis
      using cases [OF sub] sub run RemoveWorkspace_undoes [OF fs(4,1,2), of X t] fs(3)
      by (auto simp: queue_prepared_def parent_def target_def split: prod.splits)
  next
    case (Inr v)
    then have "r = Inr v" "st' = st1" "fs' = overlay (with_dirs parent fs) target t" using sub run by (auto simp: queue_prepared_def)
    then show ?thesis using cases [OF sub] Inr by simp
  qed
qed

lemma SubmitSnapshotWithID_run:
  assumes "SubmitSnapshotWithID U H Y X C clocks now temp i s m sub (fs, st) = ((fs', st'), r)"
  obtains "\<not> is_ok r" "fs' = fs" "worker_jobs st' = worker_jobs st"
  | st1 s2 r2 where "ID_Valid i" "worker_jobs st1 = worker_jobs st"
      "Materialize U (store_reader U H (sqlite_index U) Y) X temp (stateDirectory C) i m sub (fs, clocks 2, st1) = (s2, r2)"
      "(case (s2, r2) of
           ((fs2, _, st2), Inl e) \<Rightarrow> ((fs2, EndUse U (sqlite_index U) Y (clocks 3) st2), Inl e)
         | ((fs2, _, st2), Inr w) \<Rightarrow>
            (case queue_prepared U X now C i s w (fs2, st2) of
              ((fs3, st3), r3) \<Rightarrow> ((fs3, EndUse U (sqlite_index U) Y (clocks 3) st3), r3))) = ((fs', st'), r)"
  using assms
  by (auto simp: SubmitSnapshotWithID_def submit_in_use_def dest: Missing_jobs split: if_splits sum.splits prod.splits)

section \<open>Properties\<close>



definition idle_worker :: manager where
  "idle_worker = sample_store\<lparr>sIndex := (sIndex sample_store)\<lparr>job_tables := empty_db\<rparr>\<rparr>"

definition idle_config :: worker_config where
  "idle_config = \<lparr>hasSnapshots = True, hasArtifacts = True, stateDirectory = [''state'']\<rparr>"


text \<open>
  An artifact chunk is handed out only for a job that has succeeded and declared outputs, only if the job's bundle refers
  to it, and only with the bytes of its digest.
\<close>

theorem artifact_chunks_are_authorised:
  assumes "ReadArtifactChunk U H J Y C clock i g st = (st', Inr bs)"
  shows "\<exists>v b. Job_Get U (worker_jobs st) i = Inr v \<and> jState v = StateSucceeded \<and> Outputs (jSpec v) \<noteq> []
    \<and> Artifact_Get U H J (sIndex st) i = Inr b \<and> g \<in> set (Digests (bManifest b)) \<and> Sum H bs = g \<and> worker_jobs st' = worker_jobs st"
  using assms
  by (auto simp: ReadArtifactChunk_def ReadArtifacts_def ReadJobChunk_def ebind_Inr_iff
      dest: Read_chunk_jobs Read_chunk_Inr split: sum.splits if_splits)

end
