(* ===== verification/Runner.thy ===== *)
theory Runner
  imports WorkerService WorkerSystem "HOL-Library.State_Monad"
begin

text \<open>
  \<open>internal/app/worker/runner.go\<close>, \<open>internal/app/worker/executors.go\<close> and the native starter of \<open>cmd/computehopd/main.go\<close>: the
  runner that owns a claimed job until its process has ended and a terminal result is stored. The functions are
  in the state monad over the worker's site. Each loop of the source is a recursion over the moments its \<open>select\<close> sees:
  the channel it waits for is ready, the ticker fires, or the context ends; a loop whose moments run out is blocked. Between
  two calls of the runner other processes change the database (\<open>rnOthers\<close>), and every call may fail without effect
  (\<open>rnFault\<close>: a cancelled context, a storage fault). Processes, their exits and the texts of errors are inputs. The
  trace records what the runner did with the process.
\<close>

section \<open>Processes and starters\<close>

record exit =
  xCode :: int
  xSignal :: string
  xWaitErr :: "goerror option"

text \<open>A process: its identifier, its exit if it is left alone, within the grace period after a graceful stop, and after a kill.\<close>

record managed =
  mpPID :: int
  mpExit :: exit
  mpStopped :: "exit option"
  mpKilled :: exit

text \<open>A value of the interface type \<open>ManagedProcess\<close>: nil, a nil \<open>*processes.Process\<close> in a non-nil interface, or a process.\<close>

datatype process_ref = NoProcess | NilProcess | Process managed

record start_result =
  srProcess :: process_ref
  srErr :: "goerror option"

text \<open>The closure of \<open>defaultExecutorStarter\<close>: it returns both results of \<open>processes.Start\<close>, whose pointer is nil on an error.\<close>

definition native_start :: "managed result \<Rightarrow> start_result" where
  "native_start r = (case r of
     Inl e \<Rightarrow> \<lparr>srProcess = NilProcess, srErr = Some e\<rparr>
   | Inr p \<Rightarrow> \<lparr>srProcess = Process p, srErr = None\<rparr>)"

type_synonym starter = "executor list \<times> (spec \<Rightarrow> start_result)"

definition NewNativeExecutorStarter :: "(spec \<Rightarrow> start_result) \<Rightarrow> starter" where
  "NewNativeExecutorStarter start = ([ExecutorNative], start)"

fun register :: "executor list \<Rightarrow> (spec \<Rightarrow> start_result) \<Rightarrow> (executor \<times> (spec \<Rightarrow> start_result)) list
    \<Rightarrow> (executor \<times> (spec \<Rightarrow> start_result)) list result" where
  "register [] start starters = Inr starters"
| "register (x # xs) start starters =
    (if x \<noteq> ExecutorNative \<and> x \<noteq> ExecutorContainer then Inl [Job_ErrInvalidSpec]
     else if map_of starters x \<noteq> None then Inl [Job_ErrInvalidSpec]
     else register xs start (starters @ [(x, start)]))"

fun register_all :: "starter list \<Rightarrow> (executor \<times> (spec \<Rightarrow> start_result)) list \<Rightarrow> (executor \<times> (spec \<Rightarrow> start_result)) list result" where
  "register_all [] starters = Inr starters"
| "register_all (s # ss) starters = ebind (register (fst s) (snd s) starters) (register_all ss)"

abbreviation Worker_ErrMissingDependency :: sentinel where "Worker_ErrMissingDependency \<equiv> ''worker.ErrMissingDependency''"

definition NewExecutorSet :: "starter list \<Rightarrow> (executor \<times> (spec \<Rightarrow> start_result)) list result" where
  "NewExecutorSet ss =
    (if length ss = 0 then Inl [Worker_ErrMissingDependency]
     else ebind (register_all ss []) (\<lambda>starters. if length starters = 0 then Inl [Worker_ErrMissingDependency] else Inr starters))"

definition SupportedExecutors :: "(executor \<times> (spec \<Rightarrow> start_result)) list \<Rightarrow> executor list" where
  "SupportedExecutors starters = sort_key executor_string (map fst starters)"

definition ExecutorSet_Start :: "(executor \<times> (spec \<Rightarrow> start_result)) list \<Rightarrow> spec \<Rightarrow> start_result" where
  "ExecutorSet_Start starters s =
    (case map_of starters (Executor s) of
       None \<Rightarrow> \<lparr>srProcess = NoProcess, srErr = Some [Job_ErrInvalidSpec]\<rparr>
     | Some start \<Rightarrow> start s)"

section \<open>The site of a runner\<close>

datatype action =
    DidLoad job
  | DidStart
  | DidStop
  | DidKill
  | DidWait exit
  | SawCancel
  | DidCollect "unit result"
  | DidComplete completion "unit result"

record site =
  siStore :: manager
  siLogs :: files
  siCalls :: nat
  siReads :: nat
  siTrace :: "action list"

datatype moment = Ready | Tick | ContextDone

datatype 'a outcome = Blocked | Panics | Returns 'a

record runner =
  rnPID :: int
  rnNow :: "nat \<Rightarrow> time"
  rnText :: "goerror \<Rightarrow> string"
  rnHasProgress :: bool
  rnCollect :: "(bool \<Rightarrow> job \<Rightarrow> manager \<Rightarrow> manager \<times> unit result) option"
  rnOthers :: "nat \<Rightarrow> manager \<Rightarrow> manager"
  rnFault :: "nat \<Rightarrow> goerror option"
  rnStopped :: "nat \<Rightarrow> goerror option"
  rnCloseErr :: "goerror option"

type_synonym 'a run = "(site, 'a) state"

abbreviation ret :: "'a \<Rightarrow> 'a run" where "ret \<equiv> State_Monad.return"

definition act :: "action \<Rightarrow> unit run" where
  "act a = State (\<lambda>s. ((), s\<lparr>siTrace := siTrace s @ [a]\<rparr>))"

definition reading :: "runner \<Rightarrow> time run" where
  "reading R = State (\<lambda>s. (rnNow R (siReads s), s\<lparr>siReads := siReads s + 1\<rparr>))"

text \<open>A call of a repository: other processes first, then the fault or the operation.\<close>

definition repo :: "runner \<Rightarrow> (db \<Rightarrow> db \<times> 'a result) \<Rightarrow> 'a result run" where
  "repo R op = State (\<lambda>s.
     let n = siCalls s; st = rnOthers R n (siStore s) in
     case rnFault R n of
       Some e \<Rightarrow> (Inl e, s\<lparr>siStore := st, siCalls := n + 1\<rparr>)
     | None \<Rightarrow> (case on_jobs op st of (st', r) \<Rightarrow> (r, s\<lparr>siStore := st', siCalls := n + 1\<rparr>)))"

definition open_writer :: "runner \<Rightarrow> job_id \<Rightarrow> writer result run" where
  "open_writer R i = State (\<lambda>s.
     let n = siCalls s; st = rnOthers R n (siStore s) in
     case rnFault R n of
       Some e \<Rightarrow> (Inl e, s\<lparr>siStore := st, siCalls := n + 1\<rparr>)
     | None \<Rightarrow> (case OpenWriter (worker_jobs st) i (siLogs s) of
         (logs, r) \<Rightarrow> (r, s\<lparr>siStore := st, siLogs := logs, siCalls := n + 1\<rparr>)))"

definition ctx_err :: "runner \<Rightarrow> goerror option run" where
  "ctx_err R = State (\<lambda>s. (rnStopped R (siCalls s), s))"

text \<open>\<open>errors.Join\<close>.\<close>

definition join_errors :: "goerror option list \<Rightarrow> unit result" where
  "join_errors es = (if list_all (\<lambda>e. e = None) es then Inr () else Inl (concat (map (case_option [] id) es)))"

abbreviation err_of :: "'a result \<Rightarrow> goerror option" where
  "err_of r \<equiv> (case r of Inl e \<Rightarrow> Some e | Inr _ \<Rightarrow> None)"

section \<open>Completions\<close>

definition int_text :: "int \<Rightarrow> string" where
  "int_text n = (if n < 0 then CHR ''-'' # digits (nat (- n)) else digits (nat n))"

definition failedCompletion :: "time \<Rightarrow> string \<Rightarrow> string \<Rightarrow> string option \<Rightarrow> int option \<Rightarrow> string \<Rightarrow> completion" where
  "failedCompletion at code message cause exitCode signal =
    \<lparr>cAt = at, cExitCode = exitCode, cTerminationSignal = signal,
     cFailure = Some \<lparr>fCode = code, fMessage = message @ (case cause of None \<Rightarrow> '''' | Some t \<Rightarrow> '': '' @ t), fRetryable = False\<rparr>,
     cCancelled = False\<rparr>"

definition completionForExit :: "runner \<Rightarrow> time \<Rightarrow> exit \<Rightarrow> completion" where
  "completionForExit R at x =
    (if xCode x = 0 \<and> xSignal x = '''' \<and> xWaitErr x = None
     then \<lparr>cAt = at, cExitCode = Some (xCode x), cTerminationSignal = '''', cFailure = None, cCancelled = False\<rparr>
     else
       let message = (case xWaitErr x of
             Some e \<Rightarrow> rnText R e
           | None \<Rightarrow> if xSignal x \<noteq> '''' then ''process terminated by '' @ xSignal x
               else ''process exited with code '' @ int_text (xCode x))
       in \<lparr>cAt = at, cExitCode = Some (xCode x), cTerminationSignal = xSignal x,
           cFailure = Some \<lparr>fCode = ''process_exit'', fMessage = message, fRetryable = False\<rparr>, cCancelled = False\<rparr>)"

definition cancelledCompletion :: "time \<Rightarrow> exit option \<Rightarrow> completion" where
  "cancelledCompletion at x =
    \<lparr>cAt = at, cExitCode = map_option xCode x, cTerminationSignal = (case x of None \<Rightarrow> '''' | Some e \<Rightarrow> xSignal e),
     cFailure = None, cCancelled = True\<rparr>"

definition zero_completion :: completion where
  "zero_completion = \<lparr>cAt = zero_time, cExitCode = None, cTerminationSignal = '''', cFailure = None, cCancelled = False\<rparr>"

section \<open>Stopping a process\<close>

text \<open>
  \<open>GracefulStop\<close>, \<open>Kill\<close> and \<open>PID\<close> of a nil \<open>*processes.Process\<close> do nothing; \<open>Wait\<close> dereferences it. \<open>None\<close> is the panic.
\<close>

definition PID :: "process_ref \<Rightarrow> int" where
  "PID r = (case r of Process p \<Rightarrow> mpPID p | _ \<Rightarrow> 0)"

definition launched :: "start_result \<Rightarrow> unit run" where
  "launched z = (case srProcess z of Process _ \<Rightarrow> act DidStart | _ \<Rightarrow> ret ())"

definition kill_and_wait :: "process_ref \<Rightarrow> exit option run" where
  "kill_and_wait r = (case r of
     Process p \<Rightarrow> do { act DidKill; act (DidWait (mpKilled p)); ret (Some (mpKilled p)) }
   | _ \<Rightarrow> ret None)"

definition stop :: "process_ref \<Rightarrow> exit option run" where
  "stop r = (case r of
     Process p \<Rightarrow> do {
       act DidStop;
       case mpStopped p of
         Some x \<Rightarrow> do { act (DidWait x); ret (Some x) }
       | None \<Rightarrow> do { act DidKill; act (DidWait (mpKilled p)); ret (Some (mpKilled p)) } }
   | _ \<Rightarrow> ret None)"

definition poll :: "runner \<Rightarrow> job_id \<Rightarrow> bool result run" where
  "poll R i = do {
     r \<leftarrow> repo R (\<lambda>d. (d, CancellationRequested d i (rnPID R)));
     (if r = Inr True then act SawCancel else ret ());
     ret r }"

text \<open>What every loop does when its ticker fires: a heartbeat, then a look for a cancellation request.\<close>

definition on_tick :: "runner \<Rightarrow> job_id \<Rightarrow> (goerror \<Rightarrow> 'a run) \<Rightarrow> (goerror \<Rightarrow> 'a run) \<Rightarrow> 'a run \<Rightarrow> 'a run \<Rightarrow> 'a run" where
  "on_tick R i beat_fails poll_fails requested continue = do {
     at \<leftarrow> reading R;
     h \<leftarrow> repo R (Heartbeat i (rnPID R) at);
     case h of
       Inl e \<Rightarrow> beat_fails e
     | Inr _ \<Rightarrow> do {
         c \<leftarrow> poll R i;
         case c of Inl e \<Rightarrow> poll_fails e | Inr r \<Rightarrow> if r then requested else continue } }"

section \<open>Starting\<close>

type_synonym start_outcome = "(process_ref \<times> completion \<times> goerror option) outcome"

text \<open>The start is given up: a process that comes up after all is killed.\<close>

definition abandon_start :: "runner \<Rightarrow> start_result \<Rightarrow> string \<Rightarrow> string \<Rightarrow> goerror \<Rightarrow> start_outcome run" where
  "abandon_start R z code message e = do {
     launched z;
     x \<leftarrow> (if srProcess z \<noteq> NoProcess then do { w \<leftarrow> kill_and_wait (srProcess z); ret (w = None) } else ret False);
     if x then ret Panics
     else do {
       at \<leftarrow> reading R;
       ret (Returns (NoProcess, failedCompletion at code message (Some (rnText R e)) None '''', Some e)) } }"

definition cancel_start :: "runner \<Rightarrow> start_result \<Rightarrow> start_outcome run" where
  "cancel_start R z = do {
     launched z;
     if srProcess z \<noteq> NoProcess then do {
       w \<leftarrow> stop (srProcess z);
       case w of
         None \<Rightarrow> ret Panics
       | Some x \<Rightarrow> do { at \<leftarrow> reading R; ret (Returns (NoProcess, cancelledCompletion at (Some x), srErr z)) } }
     else do { at \<leftarrow> reading R; ret (Returns (NoProcess, cancelledCompletion at None, None)) } }"

definition interrupt_start :: "runner \<Rightarrow> start_result \<Rightarrow> start_outcome run" where
  "interrupt_start R z = do {
     launched z;
     e \<leftarrow> ctx_err R;
     if srProcess z \<noteq> NoProcess then do {
       w \<leftarrow> stop (srProcess z);
       case w of
         None \<Rightarrow> ret Panics
       | Some x \<Rightarrow> do {
           at \<leftarrow> reading R;
           ret (Returns (NoProcess, failedCompletion at ''runner_stopped'' ''runner was stopped before process start''
             (map_option (rnText R) e) (Some (xCode x)) (xSignal x), e)) } }
     else do {
       at \<leftarrow> reading R;
       ret (Returns (NoProcess, failedCompletion at ''runner_stopped'' ''runner was stopped before process start''
         (map_option (rnText R) e) None '''', e)) } }"

fun startClaimedProcess :: "runner \<Rightarrow> job_id \<Rightarrow> start_result \<Rightarrow> moment list \<Rightarrow> start_outcome run" where
  "startClaimedProcess R i z [] = ret Blocked"
| "startClaimedProcess R i z (m # ms) =
    (case m of
       Ready \<Rightarrow>
         (case srErr z of
            Some e \<Rightarrow> do {
              at \<leftarrow> reading R;
              ret (Returns (NoProcess, failedCompletion at ''process_start'' ''start process'' (Some (rnText R e)) None '''', None)) }
          | None \<Rightarrow> do { launched z; ret (Returns (srProcess z, zero_completion, None)) })
     | Tick \<Rightarrow>
         on_tick R i (abandon_start R z ''heartbeat'' ''persist runner heartbeat'')
           (abandon_start R z ''check_cancellation'' ''poll cancellation request'')
           (cancel_start R z) (startClaimedProcess R i z ms)
     | ContextDone \<Rightarrow> interrupt_start R z)"

section \<open>Supervising\<close>

type_synonym run_outcome = "(completion \<times> goerror option) outcome"

definition stopAfterFailure :: "runner \<Rightarrow> process_ref \<Rightarrow> string \<Rightarrow> string \<Rightarrow> goerror \<Rightarrow> run_outcome run" where
  "stopAfterFailure R r code message e = do {
     w \<leftarrow> stop r;
     case w of
       None \<Rightarrow> ret Panics
     | Some x \<Rightarrow> do {
         at \<leftarrow> reading R;
         ret (Returns (failedCompletion at code message (Some (rnText R e)) (Some (xCode x)) (xSignal x),
           err_of (join_errors [Some e, xWaitErr x]))) } }"

definition stop_requested :: "runner \<Rightarrow> process_ref \<Rightarrow> run_outcome run" where
  "stop_requested R r = do {
     w \<leftarrow> stop r;
     case w of
       None \<Rightarrow> ret Panics
     | Some x \<Rightarrow> do { at \<leftarrow> reading R; ret (Returns (cancelledCompletion at (Some x), xWaitErr x)) } }"

definition stop_interrupted :: "runner \<Rightarrow> process_ref \<Rightarrow> run_outcome run" where
  "stop_interrupted R r = do {
     w \<leftarrow> stop r;
     case w of
       None \<Rightarrow> ret Panics
     | Some x \<Rightarrow> do {
         e \<leftarrow> ctx_err R;
         at \<leftarrow> reading R;
         ret (Returns (failedCompletion at ''runner_stopped'' ''runner was stopped'' (map_option (rnText R) e) (Some (xCode x)) (xSignal x), e)) } }"

fun supervise :: "runner \<Rightarrow> job_id \<Rightarrow> process_ref \<Rightarrow> moment list \<Rightarrow> run_outcome run" where
  "supervise R i r [] = ret Blocked"
| "supervise R i r (m # ms) =
    (case m of
       Ready \<Rightarrow>
         (case r of
            Process p \<Rightarrow> do {
              act (DidWait (mpExit p));
              at \<leftarrow> reading R;
              ret (Returns (completionForExit R at (mpExit p), xWaitErr (mpExit p))) }
          | _ \<Rightarrow> ret Panics)
     | Tick \<Rightarrow>
         on_tick R i (stopAfterFailure R r ''heartbeat'' ''persist runner heartbeat'')
           (stopAfterFailure R r ''check_cancellation'' ''poll cancellation request'')
           (stop_requested R r) (supervise R i r ms)
     | ContextDone \<Rightarrow> stop_interrupted R r)"

definition clearProgress :: "runner \<Rightarrow> job_id \<Rightarrow> unit run" where
  "clearProgress R i = (if rnHasProgress R then do { _ \<leftarrow> repo R (ClearProgress i); ret () } else ret ())"

text \<open>A process that has come up: it is recorded and supervised, or killed when it cannot be recorded.\<close>

definition run_started :: "casing \<Rightarrow> runner \<Rightarrow> job_id \<Rightarrow> process_ref \<Rightarrow> moment list \<Rightarrow> run_outcome run" where
  "run_started U R i p runs = do {
     at \<leftarrow> reading R;
     r \<leftarrow> repo R (MarkRunning U i (rnPID R) (PID p) at);
     case r of
       Inl e \<Rightarrow> do {
         w \<leftarrow> kill_and_wait p;
         case w of
           None \<Rightarrow> ret Panics
         | Some q \<Rightarrow> do {
             at2 \<leftarrow> reading R;
             ret (Returns (failedCompletion at2 ''mark_running'' ''record running process'' (Some (rnText R e)) (Some (xCode q)) (xSignal q), Some e)) } }
     | Inr _ \<Rightarrow> do { clearProgress R i; supervise R i p runs } }"

definition runClaimed :: "casing \<Rightarrow> runner \<Rightarrow> job_id \<Rightarrow> start_result \<Rightarrow> moment list \<Rightarrow> moment list \<Rightarrow> run_outcome run" where
  "runClaimed U R i z starts runs = do {
     c \<leftarrow> poll R i;
     case c of
       Inl e \<Rightarrow> do {
         at \<leftarrow> reading R;
         ret (Returns (failedCompletion at ''check_cancellation'' ''check cancellation before start'' (Some (rnText R e)) None '''', Some e)) }
     | Inr cancelled \<Rightarrow>
         if cancelled then do { at \<leftarrow> reading R; ret (Returns (cancelledCompletion at None, None)) }
         else do {
           x \<leftarrow> startClaimedProcess R i z starts;
           case x of
             Blocked \<Rightarrow> ret Blocked
           | Panics \<Rightarrow> ret Panics
           | Returns (p, completion, err) \<Rightarrow>
               if p = NoProcess then ret (Returns (completion, err)) else run_started U R i p runs } }"

section \<open>Collecting and completing\<close>

definition gather :: "(bool \<Rightarrow> job \<Rightarrow> manager \<Rightarrow> manager \<times> unit result) \<Rightarrow> bool \<Rightarrow> job \<Rightarrow> unit result run" where
  "gather coll cancelled v = do {
     r \<leftarrow> State (\<lambda>s. case coll cancelled v (siStore s) of (st, r) \<Rightarrow> (r, s\<lparr>siStore := st\<rparr>));
     act (DidCollect r);
     ret r }"

text \<open>\<open>cancel(); <-collected\<close>: the collection ends with a cancelled context, and its result is dropped.\<close>

definition abandon_collection ::
    "(bool \<Rightarrow> job \<Rightarrow> manager \<Rightarrow> manager \<times> unit result) \<Rightarrow> runner \<Rightarrow> job \<Rightarrow> string \<Rightarrow> string \<Rightarrow> goerror option \<Rightarrow> run_outcome run" where
  "abandon_collection coll R v code message e = do {
     _ \<leftarrow> gather coll True v;
     at \<leftarrow> reading R;
     ret (Returns (failedCompletion at code message (map_option (rnText R) e) None '''', e)) }"

fun await_collection ::
    "(bool \<Rightarrow> job \<Rightarrow> manager \<Rightarrow> manager \<times> unit result) \<Rightarrow> runner \<Rightarrow> job_id \<Rightarrow> job \<Rightarrow> moment list \<Rightarrow> run_outcome run" where
  "await_collection coll R i v [] = ret Blocked"
| "await_collection coll R i v (m # ms) =
    (case m of
       Ready \<Rightarrow> do {
         r \<leftarrow> gather coll False v;
         at \<leftarrow> reading R;
         case r of
           Inl e \<Rightarrow> ret (Returns (failedCompletion at ''collect_artifacts'' ''collect declared outputs'' (Some (rnText R e)) None '''', None))
         | Inr _ \<Rightarrow> ret (Returns (\<lparr>cAt = at, cExitCode = Some 0, cTerminationSignal = '''', cFailure = None, cCancelled = False\<rparr>, None)) }
     | Tick \<Rightarrow>
         on_tick R i (\<lambda>e. abandon_collection coll R v ''heartbeat'' ''persist artifact collection heartbeat'' (Some e))
           (\<lambda>e. abandon_collection coll R v ''check_cancellation'' ''poll artifact cancellation'' (Some e))
           (do {
             _ \<leftarrow> gather coll True v;
             at \<leftarrow> reading R;
             ret (Returns (cancelledCompletion at None, None)) })
           (await_collection coll R i v ms)
     | ContextDone \<Rightarrow> do {
         e \<leftarrow> ctx_err R;
         abandon_collection coll R v ''runner_stopped'' ''runner stopped during artifact collection'' e })"

definition collectDeclaredArtifacts :: "casing \<Rightarrow> runner \<Rightarrow> job_id \<Rightarrow> moment list \<Rightarrow> run_outcome run" where
  "collectDeclaredArtifacts U R i collects =
    (case rnCollect R of
       None \<Rightarrow> do {
         at \<leftarrow> reading R;
         ret (Returns (failedCompletion at ''artifacts_unavailable'' ''collect declared outputs''
           (Some ''artifact collection is not configured'') None '''', None)) }
     | Some coll \<Rightarrow> do {
         g \<leftarrow> repo R (\<lambda>d. (d, Job_Get U d i));
         case g of
           Inl e \<Rightarrow> do {
             at \<leftarrow> reading R;
             ret (Returns (failedCompletion at ''load_job'' ''load job before artifact collection'' (Some (rnText R e)) None '''', Some e)) }
         | Inr current \<Rightarrow> do {
             now \<leftarrow> reading R;
             case Apply U current StateCollecting now None of
               Inl e \<Rightarrow> do {
                 at \<leftarrow> reading R;
                 ret (Returns (failedCompletion at ''begin_collection'' ''begin artifact collection'' (Some (rnText R e)) None '''', Some e)) }
             | Inr (_, t) \<Rightarrow> do {
                 a \<leftarrow> repo R (ApplyTransition U t);
                 case a of
                   Inl e \<Rightarrow> do {
                     at \<leftarrow> reading R;
                     ret (Returns (failedCompletion at ''begin_collection'' ''persist artifact collection state'' (Some (rnText R e)) None '''', Some e)) }
                 | Inr collecting \<Rightarrow> await_collection coll R i collecting collects } } })"

definition store_completion :: "casing \<Rightarrow> runner \<Rightarrow> job_id \<Rightarrow> completion \<Rightarrow> goerror option run" where
  "store_completion U R i c = do {
     r \<leftarrow> repo R (Complete U i (rnPID R) c);
     act (DidComplete c (case r of Inl e \<Rightarrow> Inl e | Inr _ \<Rightarrow> Inr ()));
     ret (err_of r) }"

definition failClaimed :: "casing \<Rightarrow> runner \<Rightarrow> job_id \<Rightarrow> string \<Rightarrow> string \<Rightarrow> goerror \<Rightarrow> unit result outcome run" where
  "failClaimed U R i code message e = do {
     at \<leftarrow> reading R;
     r \<leftarrow> store_completion U R i (failedCompletion at code message (Some (rnText R e)) None '''');
     c \<leftarrow> ctx_err R;
     ret (Returns (join_errors [Some e, r, c])) }"

text \<open>The end of \<open>Run\<close>: the error of closing the log, the time of the completion, and storing it.\<close>

definition final_completion :: "runner \<Rightarrow> completion \<Rightarrow> completion run" where
  "final_completion R c0 = do {
     c1 \<leftarrow> (case rnCloseErr R of
         Some e \<Rightarrow>
           if cFailure c0 = None \<and> \<not> cCancelled c0 then do {
             at \<leftarrow> reading R;
             ret (failedCompletion at ''close_logs'' ''close durable job logs'' (Some (rnText R e)) (cExitCode c0) (cTerminationSignal c0)) }
           else ret c0
       | None \<Rightarrow> ret c0);
     if IsZero (cAt c1) then do { at \<leftarrow> reading R; ret (c1\<lparr>cAt := at\<rparr>) } else ret c1 }"

definition finish_run :: "casing \<Rightarrow> runner \<Rightarrow> job_id \<Rightarrow> completion \<Rightarrow> goerror option \<Rightarrow> unit result outcome run" where
  "finish_run U R i c0 runErr = do {
     c \<leftarrow> final_completion R c0;
     r \<leftarrow> store_completion U R i c;
     ret (Returns (join_errors [runErr, rnCloseErr R, r])) }"

definition run_loaded :: "casing \<Rightarrow> runner \<Rightarrow> job_id \<Rightarrow> job \<Rightarrow> start_result \<Rightarrow> moment list \<Rightarrow> moment list \<Rightarrow> moment list \<Rightarrow> unit result outcome run" where
  "run_loaded U R i v z starts runs collects = do {
     x \<leftarrow> runClaimed U R i z starts runs;
     case x of
       Blocked \<Rightarrow> ret Blocked
     | Panics \<Rightarrow> ret Panics
     | Returns (c, err) \<Rightarrow>
         if Kind c = CompletionSucceeded \<and> length (Outputs (jSpec v)) > 0 then do {
           y \<leftarrow> collectDeclaredArtifacts U R i collects;
           case y of
             Blocked \<Rightarrow> ret Blocked
           | Panics \<Rightarrow> ret Panics
           | Returns (c', err') \<Rightarrow> finish_run U R i c' err' }
         else finish_run U R i c err }"

definition open_and_run :: "casing \<Rightarrow> runner \<Rightarrow> job_id \<Rightarrow> job \<Rightarrow> start_result \<Rightarrow> moment list \<Rightarrow> moment list \<Rightarrow> moment list \<Rightarrow> unit result outcome run" where
  "open_and_run U R i v z starts runs collects = do {
     w \<leftarrow> open_writer R i;
     case w of
       Inl e \<Rightarrow> failClaimed U R i ''open_logs'' ''open durable job logs'' e
     | Inr _ \<Rightarrow> run_loaded U R i v z starts runs collects }"

definition Run :: "casing \<Rightarrow> runner \<Rightarrow> job_id \<Rightarrow> (spec \<Rightarrow> start_result) \<Rightarrow> moment list \<Rightarrow> moment list \<Rightarrow> moment list \<Rightarrow> unit result outcome run" where
  "Run U R i start starts runs collects = do {
     at \<leftarrow> reading R;
     claimed \<leftarrow> repo R (Claim U i (rnPID R) at);
     case claimed of
       Inl e \<Rightarrow> ret (Returns (Inl e))
     | Inr _ \<Rightarrow> do {
         g \<leftarrow> repo R (\<lambda>d. (d, Job_Get U d i));
         case g of
           Inl e \<Rightarrow> failClaimed U R i ''load_job'' ''load claimed job'' e
         | Inr v \<Rightarrow> do { act (DidLoad v); open_and_run U R i v (start (jSpec v)) starts runs collects } } }"

section \<open>Collecting leaves the jobs alone\<close>

definition artifact_collector ::
    "casing \<Rightarrow> (byte list \<Rightarrow> byte list) \<Rightarrow> (manifest \<Rightarrow> nat) \<Rightarrow> io_errors \<Rightarrow> (bool \<Rightarrow> string list \<Rightarrow> goerror option) \<Rightarrow> fs_errors \<Rightarrow> fs
      \<Rightarrow> (fpath \<Rightarrow> entry) \<Rightarrow> (nat \<Rightarrow> clock) \<Rightarrow> time \<Rightarrow> bool \<Rightarrow> job \<Rightarrow> manager \<Rightarrow> manager \<times> unit result" where
  "artifact_collector U H J Y ctx X fs view clocks now cancelled v st =
    (case Collect_artifacts U H J Y (ctx cancelled) X fs view clocks now v st of (st', r) \<Rightarrow> (st', ebind r (\<lambda>_. Inr ())))"

lemma feed_part:
  assumes "\<And>c s s' r. consume c s = (s', r) \<Longrightarrow> part s' = part s"
  shows "feed consume bs chunk rolling s = (s', r) \<Longrightarrow> part s' = part s"
  by (induction bs arbitrary: chunk rolling s) (auto simp: Let_def dest!: assms split: if_splits prod.splits sum.splits)

lemma chunk_loop_part:
  assumes "\<And>c s s' r. consume c s = (s', r) \<Longrightarrow> part s' = part s"
  shows "chunk_loop consume es n chunk rolling s = (s', r) \<Longrightarrow> part s' = part s"
proof (induction es arbitrary: n chunk rolling s)
  case (Cons e es)
  have fed: "feed consume bs chunk rolling s = (t, x) \<Longrightarrow> part t = part s" for bs chunk rolling s t x
    by (rule feed_part [of consume part]) (use assms in blast)+
  show ?case
  proof (cases e)
    case (Read bs err)
    then show ?thesis
      using Cons by (fastforce dest: assms fed split: if_splits prod.splits sum.splits option.splits read_error.splits)
  qed (use Cons in auto)
qed (auto dest: assms split: if_splits)

lemma walk_part:
  assumes "\<And>names e s s' r. fn names e s = (s', r) \<Longrightarrow> part s' = part s"
  shows "walk_entry fn names e s = (s', r) \<Longrightarrow> part s' = part s"
    and "walk_listing fn names l s = (s', r) \<Longrightarrow> part s' = part s"
proof (induction e and l arbitrary: names s s' r and names s s' r)
  case (Entry n e l)
  then show ?case by (fastforce split: prod.splits visit.splits)
qed (auto simp: walk_entry.simps dest!: assms split: prod.splits visit.splits option.splits)

locale steady_putter =
  fixes put :: "'s putter" and part :: "'s \<Rightarrow> 'k"
  assumes put_part: "put g bs st = (st', r) \<Longrightarrow> part st' = part st"
begin

lemma store_chunk_part: "store_chunk H put c s = (s', r) \<Longrightarrow> part (fst s') = part (fst s)"
  by (auto simp: store_chunk_def dest: put_part split: prod.splits sum.splits)

lemma ChunkReader_part: "ChunkReader es (store_chunk H put) s = (s', r) \<Longrightarrow> part (fst s') = part (fst s)"
  unfolding ChunkReader_def using chunk_loop_part [of "store_chunk H put" "part \<circ> fst"] store_chunk_part by (metis comp_apply)

lemma buildFile_part: "buildFile U H put p a st = (st', r) \<Longrightarrow> part st' = part st"
  by (auto simp: buildFile_def dest!: ChunkReader_part split: prod.splits sum.splits if_splits)

lemma stable_loop_part: "stable_loop U H put p a ks e st = (st', r) \<Longrightarrow> part st' = part st"
  by (induction ks arbitrary: e st) (auto dest!: buildFile_part split: prod.splits sum.splits if_splits option.splits)

lemma addDeclaredPath_part: "addDeclaredPath U H put p a s = (s', r) \<Longrightarrow> part (fst s') = part (fst s)"
  by (auto simp: addDeclaredPath_def buildStableFile_def Let_def dest!: stable_loop_part split: prod.splits sum.splits if_splits option.splits)

lemma declared_visit_part: "declared_visit U H put ctx base names e s = (s', r) \<Longrightarrow> part (fst s') = part (fst s)"
  by (auto simp: declared_visit_def dest!: addDeclaredPath_part split: prod.splits sum.splits if_splits option.splits entry.splits)

lemma declared_walk_part: "walk_entry (declared_visit U H put ctx base) names e s = (s', r) \<Longrightarrow> part (fst s') = part (fst s)"
  using walk_part(1) [where part = "\<lambda>s. part (fst s)" and fn = "declared_visit U H put ctx base"] declared_visit_part by blast

lemma collect_declaration_part: "collect_declaration U H put ctx X fs view absolute d s = (s', r) \<Longrightarrow> part (fst s') = part (fst s)"
  by (auto simp: collect_declaration_def WalkDir_def Let_def dest!: addDeclaredPath_part declared_walk_part
      split: prod.splits sum.splits if_splits option.splits node.splits visit.splits)

lemma collect_declarations_part: "collect_declarations U H put ctx X fs view absolute ds s = (s', r) \<Longrightarrow> part (fst s') = part (fst s)"
  by (induction ds arbitrary: s) (auto dest!: collect_declaration_part split: prod.splits sum.splits)

lemma BuildDeclared_part: "BuildDeclared U H put ctx X fs view root ds st = (st', r) \<Longrightarrow> part st' = part st"
  by (auto simp: BuildDeclared_def Let_def dest!: collect_declarations_part split: prod.splits sum.splits if_splits)

end

lemma commit_chunk_jobs: "commit_chunk U H (sqlite_index U) Y clock p g bs st = (st', r) \<Longrightarrow> worker_jobs st' = worker_jobs st"
proof -
  have enforced: "Enforce U (sqlite_index U) Y clock st = (st', r) \<Longrightarrow> worker_jobs st' = worker_jobs st" for clock st st' r
    using Enforce_jobs [of U Y clock st] by simp
  show "commit_chunk U H (sqlite_index U) Y clock p g bs st = (st', r) \<Longrightarrow> worker_jobs st' = worker_jobs st"
    by (auto simp: commit_chunk_def Has_def dest!: Read_chunk_jobs index_jobs enforced split: option.splits prod.splits sum.splits if_splits)
qed

lemma Put_jobs: "Put U H (sqlite_index U) Y clock g bs st = (st', r) \<Longrightarrow> worker_jobs st' = worker_jobs st"
  by (auto simp: Put_def put_body_def Has_def dest!: commit_chunk_jobs Read_chunk_jobs index_jobs
      split: option.splits prod.splits sum.splits if_splits bool.splits)

interpretation steady_put: steady_putter "store_putter U H (sqlite_index U) Y" "\<lambda>cs. worker_jobs (snd cs)" for U H Y
  by unfold_locales (auto simp: store_putter_def dest: Put_jobs split: prod.splits)

lemma Save_jobs: "job_tables (fst (Save U H J b d)) = job_tables d"
  by (auto simp: Save_def transact_def ebind_Inr_iff split: sum.splits if_splits)

lemma artifact_collector_jobs:
  "worker_jobs (fst (artifact_collector U H J Y ctx X fs view clocks now c v st)) = worker_jobs st"
  by (auto simp: artifact_collector_def Collect_artifacts_def Let_def Save_jobs dest!: steady_put.BuildDeclared_part
      split: prod.splits sum.splits if_splits)

section \<open>What the runner does with a process\<close>

text \<open>
  The process of a run is started once, stopped or killed only while it is alive, and waited for before anything is
  collected or completed; \<open>watched\<close> follows a trace and says whether the process is alive at the end.
\<close>

fun watch :: "action \<Rightarrow> bool \<Rightarrow> bool option" where
  "watch DidStart alive = (if alive then None else Some True)"
| "watch DidStop alive = (if alive then Some True else None)"
| "watch DidKill alive = (if alive then Some True else None)"
| "watch (DidWait _) alive = (if alive then Some False else None)"
| "watch (DidCollect _) alive = (if alive then None else Some False)"
| "watch (DidComplete _ _) alive = (if alive then None else Some False)"
| "watch (DidLoad _) alive = Some alive"
| "watch SawCancel alive = Some alive"

fun watched :: "bool \<Rightarrow> action list \<Rightarrow> bool option" where
  "watched alive [] = Some alive"
| "watched alive (a # as) = Option.bind (watch a alive) (\<lambda>b. watched b as)"

lemma watched_append: "watched b (as @ bs) = Option.bind (watched b as) (\<lambda>b'. watched b' bs)"
  by (induction as arbitrary: b) (auto split: Option.bind_splits)

text \<open>Between two states the trace grows by actions that lead from one condition to another and include the given ones.\<close>

definition does :: "site \<Rightarrow> bool \<Rightarrow> action set \<Rightarrow> bool \<Rightarrow> site \<Rightarrow> bool" where
  "does s b A b' s' \<longleftrightarrow> (\<exists>as. siTrace s' = siTrace s @ as \<and> watched b as = Some b' \<and> A \<subseteq> set as
     \<and> (\<forall>c r v. DidComplete c r \<notin> set as \<and> DidLoad v \<notin> set as))"

lemma does_refl: "siTrace s' = siTrace s \<Longrightarrow> does s b {} b s'"
  by (simp add: does_def)

lemma does_trans: "does s b A b' s' \<Longrightarrow> does s' b' B b'' s'' \<Longrightarrow> A \<union> B = C \<Longrightarrow> does s b C b'' s''"
  unfolding does_def by (fastforce simp: watched_append)

lemma does_weaken: "does s b A b' s' \<Longrightarrow> B \<subseteq> A \<Longrightarrow> does s b B b' s'"
  unfolding does_def by blast

lemma does_same: "siTrace s1 = siTrace s \<Longrightarrow> does s b A b' s' = does s1 b A b' s'"
  by (simp add: does_def)

lemma run_steps [simp]:
  "run_state (act a) s = ((), s\<lparr>siTrace := siTrace s @ [a]\<rparr>)"
  "run_state (reading R) s = (rnNow R (siReads s), s\<lparr>siReads := siReads s + 1\<rparr>)"
  "run_state (ctx_err R) s = (rnStopped R (siCalls s), s)"
  by (simp_all add: act_def reading_def ctx_err_def)

lemma repo_trace [simp]: "siTrace (snd (run_state (repo R op) s)) = siTrace s"
  by (simp add: repo_def Let_def split: option.split prod.split)

lemma repo_traceD: "run_state (repo R op) s = (r, s') \<Longrightarrow> siTrace s' = siTrace s"
  using repo_trace [of R op s] by simp

lemma open_writer_trace [simp]: "siTrace (snd (run_state (open_writer R i) s)) = siTrace s"
  by (simp add: open_writer_def Let_def split: option.split prod.split)

text \<open>A starter that behaves: it returns a process or an error and no process.\<close>

definition starts_or_fails :: "start_result \<Rightarrow> bool" where
  "starts_or_fails z \<longleftrightarrow> (case srErr z of None \<Rightarrow> \<exists>p. srProcess z = Process p | Some _ \<Rightarrow> srProcess z = NoProcess)"

text \<open>The verdicts a runner may reach by what it has done.\<close>

definition clean_exit :: "exit \<Rightarrow> bool" where
  "clean_exit x \<longleftrightarrow> xCode x = 0 \<and> xSignal x = '''' \<and> xWaitErr x = None"

definition earned :: "completion \<Rightarrow> action set \<Rightarrow> bool" where
  "earned c A \<longleftrightarrow> (Kind c = CompletionSucceeded \<longrightarrow> (\<exists>x. clean_exit x \<and> DidWait x \<in> A))
     \<and> (Kind c = CompletionCancelled \<longrightarrow> SawCancel \<in> A)"

lemma Kind_simps [simp]:
  "Kind (failedCompletion at code m e x sg) = CompletionFailed"
  "Kind (cancelledCompletion at x') = CompletionCancelled"
  by (simp_all add: Kind_def failedCompletion_def cancelledCompletion_def)

lemma earned_simps [simp]:
  "earned (failedCompletion at code m e x sg) A"
  "earned (cancelledCompletion at x') A \<longleftrightarrow> SawCancel \<in> A"
  by (simp_all add: earned_def)

lemma earned_exit: "DidWait x \<in> A \<Longrightarrow> earned (completionForExit R at x) A"
  by (auto simp: earned_def completionForExit_def Kind_def clean_exit_def Let_def)

lemma poll_does:
  "run_state (poll R i) s = (r, s') \<Longrightarrow> does s b (if r = Inr True then {SawCancel} else {}) b s'"
proof -
  assume "run_state (poll R i) s = (r, s')"
  moreover obtain r1 s1 where "run_state (repo R (\<lambda>d. (d, CancellationRequested d i (rnPID R)))) s = (r1, s1)" by fastforce
  moreover from this have "siTrace s1 = siTrace s" using repo_trace by (metis snd_conv)
  ultimately show ?thesis by (auto simp: poll_def does_def split: if_splits)
qed

lemma abandon_start_does:
  assumes "run_state (abandon_start R z code m e) s = (out, s')" "starts_or_fails z"
  shows "\<exists>c x. out = Returns (NoProcess, c, x) \<and> Kind c = CompletionFailed \<and> does s False {} False s'"
  using assms
  by (cases "srProcess z")
    (auto simp: abandon_start_def launched_def kill_and_wait_def starts_or_fails_def does_def split: option.splits)

lemma cancel_start_does:
  assumes "run_state (cancel_start R z) s = (out, s')" "starts_or_fails z"
  shows "\<exists>c x. out = Returns (NoProcess, c, x) \<and> Kind c = CompletionCancelled \<and> does s False {} False s'"
  using assms
  by (cases "srProcess z")
    (auto simp: cancel_start_def launched_def stop_def starts_or_fails_def does_def split: option.splits)

lemma interrupt_start_does:
  assumes "run_state (interrupt_start R z) s = (out, s')" "starts_or_fails z"
  shows "\<exists>c x. out = Returns (NoProcess, c, x) \<and> Kind c = CompletionFailed \<and> does s False {} False s'"
  using assms
  by (cases "srProcess z")
    (auto simp: interrupt_start_def launched_def stop_def starts_or_fails_def does_def split: option.splits)

text \<open>A tick: what it has seen and where the loop goes on.\<close>

lemma on_tick_cases:
  assumes "run_state (on_tick R i f g requested continue) s = (out, s')"
  obtains (beat) e s1 where "does s b {} b s1" "run_state (f e) s1 = (out, s')"
    | (poll) e s1 where "does s b {} b s1" "run_state (g e) s1 = (out, s')"
    | (requested) s1 where "does s b {SawCancel} b s1" "run_state requested s1 = (out, s')"
    | (continue) s1 where "does s b {} b s1" "run_state continue s1 = (out, s')"
proof -
  obtain h s1 where h: "run_state (repo R (Heartbeat i (rnPID R) (rnNow R (siReads s)))) (s\<lparr>siReads := siReads s + 1\<rparr>) = (h, s1)"
    by fastforce
  then have t: "siTrace s1 = siTrace s" using repo_trace by (metis snd_conv site.select_convs(5) site.surjective site.update_convs(4))
  note d1 = does_refl [OF t, of b]
  obtain c s2 where c: "run_state (poll R i) s1 = (c, s2)" by fastforce
  have d2: "does s b (if c = Inr True then {SawCancel} else {}) b s2"
    using does_trans [OF d1 poll_does [OF c]] by simp
  show thesis
  proof (cases h)
    case (Inl e)
    then show thesis using beat [OF d1] assms h by (simp add: on_tick_def)
  next
    case (Inr u)
    then show thesis
      using assms h c d2 poll [of s2] requested [of s2] continue [of s2]
      by (cases c) (auto simp: on_tick_def split: if_splits)
  qed
qed

lemma startClaimedProcess_does:
  assumes "starts_or_fails z" "run_state (startClaimedProcess R i z ms) s = (out, s')"
  shows "case out of
      Blocked \<Rightarrow> does s False {} False s' \<and> Ready \<notin> set ms
    | Panics \<Rightarrow> False
    | Returns (p, c, e) \<Rightarrow>
        (case p of NoProcess \<Rightarrow> \<exists>A. does s False A False s' \<and> earned c A | NilProcess \<Rightarrow> False | Process _ \<Rightarrow> does s False {} True s')"
  using assms(2)
proof (induction ms arbitrary: s)
  case Nil
  then show ?case by (auto intro: does_refl)
next
  case (Cons m ms)
  show ?case
  proof (cases m)
    case Ready
    then show ?thesis
      using Cons.prems assms(1)
      by (auto simp: starts_or_fails_def launched_def does_def split: option.splits)
  next
    case Tick
    then have "run_state (on_tick R i (abandon_start R z ''heartbeat'' ''persist runner heartbeat'')
           (abandon_start R z ''check_cancellation'' ''poll cancellation request'')
           (cancel_start R z) (startClaimedProcess R i z ms)) s = (out, s')" using Cons.prems by simp
    then show ?thesis
    proof (cases rule: on_tick_cases [where b = False])
      case (beat e s1)
      then show ?thesis using abandon_start_does [OF beat(2) assms(1)] does_trans [OF beat(1)] by (fastforce simp: earned_def)
    next
      case (poll e s1)
      then show ?thesis using abandon_start_does [OF poll(2) assms(1)] does_trans [OF poll(1)] by (fastforce simp: earned_def)
    next
      case (requested s1)
      then show ?thesis using cancel_start_does [OF requested(2) assms(1)] does_trans [OF requested(1)] by (fastforce simp: earned_def)
    next
      case (continue s1)
      then show ?thesis
        using Cons.IH [OF continue(2)] does_trans [OF continue(1)] Tick
        by (fastforce split: outcome.splits process_ref.splits)
    qed
  next
    case ContextDone
    then show ?thesis using interrupt_start_does [OF _ assms(1)] Cons.prems by (fastforce simp: earned_def)
  qed
qed

lemma stop_paths:
  "run_state (stopAfterFailure R (Process p) code m e) s = (out, s') \<Longrightarrow>
     \<exists>c x. out = Returns (c, x) \<and> Kind c = CompletionFailed \<and> does s True {} False s'"
  "run_state (stop_requested R (Process p)) s = (out, s') \<Longrightarrow>
     \<exists>c x. out = Returns (c, x) \<and> Kind c = CompletionCancelled \<and> does s True {} False s'"
  "run_state (stop_interrupted R (Process p)) s = (out, s') \<Longrightarrow>
     \<exists>c x. out = Returns (c, x) \<and> Kind c = CompletionFailed \<and> does s True {} False s'"
  by (auto simp: stopAfterFailure_def stop_requested_def stop_interrupted_def stop_def does_def split: option.splits)

lemma supervise_does:
  assumes "run_state (supervise R i (Process p) ms) s = (out, s')"
  shows "case out of
      Blocked \<Rightarrow> does s True {} True s' \<and> Ready \<notin> set ms
    | Panics \<Rightarrow> False
    | Returns (c, e) \<Rightarrow> \<exists>A. does s True A False s' \<and> earned c A"
  using assms
proof (induction ms arbitrary: s)
  case Nil
  then show ?case by (auto intro: does_refl)
next
  case (Cons m ms)
  show ?case
  proof (cases m)
    case Ready
    then have "does s True {DidWait (mpExit p)} False s'" using Cons.prems by (auto simp: does_def)
    then show ?thesis using Ready Cons.prems earned_exit by fastforce
  next
    case Tick
    then have "run_state (on_tick R i (stopAfterFailure R (Process p) ''heartbeat'' ''persist runner heartbeat'')
           (stopAfterFailure R (Process p) ''check_cancellation'' ''poll cancellation request'')
           (stop_requested R (Process p)) (supervise R i (Process p) ms)) s = (out, s')" using Cons.prems by simp
    then show ?thesis
    proof (cases rule: on_tick_cases [where b = True])
      case (beat e s1)
      then show ?thesis using stop_paths(1) [OF beat(2)] does_trans [OF beat(1)] by (fastforce simp: earned_def)
    next
      case (poll e s1)
      then show ?thesis using stop_paths(1) [OF poll(2)] does_trans [OF poll(1)] by (fastforce simp: earned_def)
    next
      case (requested s1)
      then show ?thesis using stop_paths(2) [OF requested(2)] does_trans [OF requested(1)] by (fastforce simp: earned_def)
    next
      case (continue s1)
      then show ?thesis
        using Cons.IH [OF continue(2)] does_trans [OF continue(1)] Tick by (fastforce split: outcome.splits)
    qed
  next
    case ContextDone
    then show ?thesis using stop_paths(3) Cons.prems by (fastforce simp: earned_def)
  qed
qed

lemma clearProgress_trace [simp]: "siTrace (snd (run_state (clearProgress R i) s)) = siTrace s"
  using repo_trace [of R "ClearProgress i" s] by (auto simp: clearProgress_def split: prod.splits simp del: repo_trace)

lemma run_started_does:
  assumes "run_state (run_started U R i (Process p) runs) s = (out, s')"
  shows "case out of
      Blocked \<Rightarrow> does s True {} True s' \<and> Ready \<notin> set runs
    | Panics \<Rightarrow> False
    | Returns (c, e) \<Rightarrow> \<exists>A. does s True A False s' \<and> earned c A"
proof -
  let ?s = "s\<lparr>siReads := siReads s + 1\<rparr>" and ?op = "MarkRunning U i (rnPID R) (PID (Process p)) (rnNow R (siReads s))"
  obtain r s1 where r: "run_state (repo R ?op) ?s = (r, s1)" by fastforce
  then have t: "siTrace s1 = siTrace s" using repo_trace [of R ?op ?s] by simp
  show ?thesis
  proof (cases r)
    case (Inl e)
    then show ?thesis using assms r t by (auto simp: run_started_def kill_and_wait_def does_def)
  next
    case (Inr a)
    obtain u s2 where c: "run_state (clearProgress R i) s1 = (u, s2)" by (metis surj_pair)
    then have "siTrace s2 = siTrace s" using clearProgress_trace [of R i s1] t by simp
    moreover have "run_state (supervise R i (Process p) runs) s2 = (out, s')" using assms r Inr c by (simp add: run_started_def)
    ultimately show ?thesis using supervise_does [of R i p runs s2 out s'] does_same [of s2 s] by (cases out) auto
  qed
qed

lemma runClaimed_does:
  assumes "starts_or_fails z" "run_state (runClaimed U R i z starts runs) s = (out, s')"
  shows "case out of
      Blocked \<Rightarrow> (\<exists>b. does s False {} b s') \<and> (Ready \<notin> set starts \<or> Ready \<notin> set runs)
    | Panics \<Rightarrow> False
    | Returns (c, e) \<Rightarrow> \<exists>A. does s False A False s' \<and> earned c A"
proof -
  obtain c s1 where c: "run_state (poll R i) s = (c, s1)" by fastforce
  note d1 = poll_does [OF c, of False]
  show ?thesis
  proof (cases "c = Inr False")
    case False
    show ?thesis
    proof (cases c)
      case (Inl e)
      then show ?thesis using assms(2) c d1 by (auto simp: runClaimed_def earned_def does_def)
    next
      case (Inr b)
      then have "out = Returns (cancelledCompletion (rnNow R (siReads s1)) None, None)" "siTrace s' = siTrace s1"
        using False assms(2) c by (auto simp: runClaimed_def)
      then show ?thesis using d1 Inr False by (auto simp: does_def)
    qed
  next
    case True
    then have d1: "does s False {} False s1" using d1 by simp
    obtain x s2 where x: "run_state (startClaimedProcess R i z starts) s1 = (x, s2)" by fastforce
    note st = startClaimedProcess_does [OF assms(1) x]
    show ?thesis
    proof (cases "\<exists>p c' e. x = Returns (Process p, c', e)")
      case False
      then show ?thesis
        using st assms(2) c True x does_trans [OF d1] by (fastforce simp: runClaimed_def split: outcome.splits process_ref.splits)
    next
      case yes: True
      then obtain p c' e where p: "x = Returns (Process p, c', e)" by blast
      have d2: "does s False {} True s2" using st p does_trans [OF d1] by simp
      have "run_state (run_started U R i (Process p) runs) s2 = (out, s')" using assms(2) c True x p by (simp add: runClaimed_def)
      from run_started_does [OF this] show ?thesis using does_trans [OF d2] by (fastforce split: outcome.splits)
    qed
  qed
qed

text \<open>Collecting.\<close>

definition gathered :: "completion \<Rightarrow> action set \<Rightarrow> bool" where
  "gathered c A \<longleftrightarrow> (Kind c = CompletionSucceeded \<longrightarrow> DidCollect (Inr ()) \<in> A) \<and> (Kind c = CompletionCancelled \<longrightarrow> SawCancel \<in> A)"

lemma gather_does: "run_state (gather coll b v) s = (r, s') \<Longrightarrow> does s False {DidCollect r} False s'"
  by (auto simp: gather_def does_def split: prod.splits)

lemma abandon_collection_does:
  "run_state (abandon_collection coll R v code m e) s = (out, s') \<Longrightarrow>
     \<exists>c x. out = Returns (c, x) \<and> Kind c = CompletionFailed \<and> does s False {} False s'"
  by (auto simp: abandon_collection_def gather_def does_def split: prod.splits)

lemma await_collection_does:
  assumes "run_state (await_collection coll R i v ms) s = (out, s')"
  shows "case out of
      Blocked \<Rightarrow> does s False {} False s' \<and> Ready \<notin> set ms
    | Panics \<Rightarrow> False
    | Returns (c, e) \<Rightarrow> \<exists>A. does s False A False s' \<and> gathered c A"
  using assms
proof (induction ms arbitrary: s)
  case Nil
  then show ?case by (auto intro: does_refl)
next
  case (Cons m ms)
  show ?case
  proof (cases m)
    case Ready
    obtain r s1 where g: "run_state (gather coll False v) s = (r, s1)" by fastforce
    have "siTrace s' = siTrace s1" using Ready Cons.prems g by (auto split: sum.splits)
    then have "does s False {DidCollect r} False s'" using gather_does [OF g] by (simp add: does_def)
    then show ?thesis
      using Ready Cons.prems g by (cases r) (auto simp: gathered_def Kind_def failedCompletion_def intro!: exI [of _ "{DidCollect r}"])
  next
    case Tick
    then have "run_state (on_tick R i (\<lambda>e. abandon_collection coll R v ''heartbeat'' ''persist artifact collection heartbeat'' (Some e))
           (\<lambda>e. abandon_collection coll R v ''check_cancellation'' ''poll artifact cancellation'' (Some e))
           (do { _ \<leftarrow> gather coll True v; at \<leftarrow> reading R; ret (Returns (cancelledCompletion at None, None)) })
           (await_collection coll R i v ms)) s = (out, s')" using Cons.prems by simp
    then show ?thesis
    proof (cases rule: on_tick_cases [where b = False])
      case (beat e s1)
      then show ?thesis using abandon_collection_does [OF beat(2)] does_trans [OF beat(1)] by (fastforce simp: gathered_def)
    next
      case (poll e s1)
      then show ?thesis using abandon_collection_does [OF poll(2)] does_trans [OF poll(1)] by (fastforce simp: gathered_def)
    next
      case (requested s1)
      obtain r s2 where g: "run_state (gather coll True v) s1 = (r, s2)" by fastforce
      then have "out = Returns (cancelledCompletion (rnNow R (siReads s2)) None, None)" "siTrace s' = siTrace s2"
        using requested(2) by auto
      then show ?thesis
        using does_trans [OF requested(1) gather_does [OF g] refl] by (fastforce simp: gathered_def does_def)
    next
      case (continue s1)
      then show ?thesis
        using Cons.IH [OF continue(2)] does_trans [OF continue(1)] Tick by (fastforce split: outcome.splits)
    qed
  next
    case ContextDone
    then show ?thesis using abandon_collection_does Cons.prems by (fastforce simp: gathered_def)
  qed
qed

lemma collectDeclaredArtifacts_does:
  assumes "run_state (collectDeclaredArtifacts U R i ms) s = (out, s')"
  shows "case out of
      Blocked \<Rightarrow> does s False {} False s' \<and> Ready \<notin> set ms
    | Panics \<Rightarrow> False
    | Returns (c, e) \<Rightarrow> \<exists>A. does s False A False s' \<and> gathered c A"
proof -
  obtain g s1 where g: "run_state (repo R (\<lambda>d. (d, Job_Get U d i))) s = (g, s1)" by fastforce
  then have t: "siTrace s1 = siTrace s" using repo_trace [of R "\<lambda>d. (d, Job_Get U d i)" s] by simp
  show ?thesis
  proof (cases "\<exists>coll v w t r s2. rnCollect R = Some coll \<and> g = Inr v \<and> Apply U v StateCollecting (rnNow R (siReads s1)) None = Inr (w, t)
      \<and> run_state (repo R (ApplyTransition U t)) (s1\<lparr>siReads := siReads s1 + 1\<rparr>) = (Inr r, s2)")
    case True
    then obtain coll v w tr r s2 where a: "rnCollect R = Some coll" "g = Inr v"
        "Apply U v StateCollecting (rnNow R (siReads s1)) None = Inr (w, tr)"
        "run_state (repo R (ApplyTransition U tr)) (s1\<lparr>siReads := siReads s1 + 1\<rparr>) = (Inr r, s2)" by blast
    have "siTrace s2 = siTrace s" using repo_traceD [OF a(4)] t by simp
    moreover have "run_state (await_collection coll R i r ms) s2 = (out, s')"
      using assms g a by (simp add: collectDeclaredArtifacts_def)
    ultimately show ?thesis using await_collection_does [of coll R i r ms s2 out s'] does_same [of s2 s] by (cases out) auto
  next
    case False
    have tr: "siTrace s2 = siTrace s" if "run_state (repo R (ApplyTransition U t)) (s1\<lparr>siReads := x\<rparr>) = (r, s2)" for t r s2 x
      using repo_traceD [OF that] t by simp
    have "\<exists>c e. out = Returns (c, e) \<and> Kind c = CompletionFailed \<and> siTrace s' = siTrace s"
      using assms False g t
      by (auto simp: collectDeclaredArtifacts_def dest!: tr split: option.splits sum.splits prod.splits)
    then show ?thesis by (auto simp: gathered_def does_def)
  qed
qed

section \<open>The database during a run\<close>

text \<open>A computation that keeps the custody invariant, given that the other processes do.\<close>

definition safe :: "casing \<Rightarrow> 'a run \<Rightarrow> bool" where
  "safe U m \<longleftrightarrow> (\<forall>s. custody U (worker_jobs (siStore s)) \<longrightarrow> custody U (worker_jobs (siStore (snd (run_state m s)))))"

lemma safeD: "safe U m \<Longrightarrow> run_state m s = (a, s') \<Longrightarrow> custody U (worker_jobs (siStore s)) \<Longrightarrow> custody U (worker_jobs (siStore s'))"
  unfolding safe_def by (metis snd_conv)

lemma safe_basic:
  "safe U (ret a)" "safe U (act x)" "safe U (reading R)" "safe U (ctx_err R)"
  by (simp_all add: safe_def)

lemma safe_bind: "safe U m \<Longrightarrow> (\<And>a. safe U (f a)) \<Longrightarrow> safe U (State_Monad.bind m f)"
  by (auto simp: safe_def split: prod.splits)

lemmas safe_intros = safe_bind safe_basic

definition considerate :: "casing \<Rightarrow> runner \<Rightarrow> bool" where
  "considerate U R \<longleftrightarrow> (\<forall>n st. custody U (worker_jobs st) \<longrightarrow> custody U (worker_jobs (rnOthers R n st)))
     \<and> (\<forall>coll c v st. rnCollect R = Some coll \<longrightarrow> worker_jobs (fst (coll c v st)) = worker_jobs st)"

lemma repo_jobs:
  assumes "considerate U R" "run_state (repo R op) s = (r, s')" "custody U (worker_jobs (siStore s))"
  obtains (failed) e where "r = Inl e" "custody U (worker_jobs (siStore s'))"
  | (made) d where "custody U d" "op d = (worker_jobs (siStore s'), r)"
proof -
  let ?st = "rnOthers R (siCalls s) (siStore s)"
  have c: "custody U (worker_jobs ?st)" using assms(1,3) by (simp add: considerate_def)
  show thesis
    using assms(2) c failed made [OF c]
    by (cases "rnFault R (siCalls s)") (auto simp: repo_def on_jobs_def Let_def split: prod.splits)
qed

lemma safe_repo:
  assumes "considerate U R" "\<And>d. custody U d \<Longrightarrow> custody U (fst (op d))"
  shows "safe U (repo R op)"
  unfolding safe_def
proof (intro allI impI)
  fix s :: site assume c: "custody U (worker_jobs (siStore s))"
  obtain r s' where run: "run_state (repo R op) s = (r, s')" by fastforce
  show "custody U (worker_jobs (siStore (snd (run_state (repo R op) s))))"
    using assms(1) run c
  proof (cases rule: repo_jobs)
    case (made d)
    then show ?thesis using run assms(2) [OF made(1)] by simp
  qed (use run in simp)
qed

lemma operations_custody:
  "custody U d \<Longrightarrow> custody U (fst (Heartbeat i pid at d))"
  "custody U d \<Longrightarrow> custody U (fst (Claim U i pid at d))"
  "custody U d \<Longrightarrow> custody U (fst (MarkRunning U i pid ppid at d))"
  "custody U d \<Longrightarrow> custody U (fst (ClearProgress i d))"
  using worker_step_custody worker_step.intros by (metis prod.collapse)+

locale runner_site =
  fixes U :: casing and R :: runner
  assumes considerate: "considerate U R"
begin

lemma safe_reads: "safe U (repo R (\<lambda>d. (d, f d)))"
  by (rule safe_repo [OF considerate]) simp

lemma safe_open_writer: "safe U (open_writer R i)"
  using considerate by (auto simp: safe_def open_writer_def considerate_def Let_def split: option.splits prod.splits)

lemma safe_poll: "safe U (poll R i)"
  unfolding poll_def by (auto intro!: safe_intros safe_reads split: if_split)

lemma safe_stop: "safe U (stop p)" "safe U (kill_and_wait p)" "safe U (launched z)"
  by (auto simp: stop_def kill_and_wait_def launched_def intro!: safe_intros split: process_ref.split option.split)

lemma safe_on_tick:
  assumes "\<And>e. safe U (f e)" "\<And>e. safe U (g e)" "safe U m" "safe U n"
  shows "safe U (on_tick R i f g m n)"
  unfolding on_tick_def using assms
  by (auto intro!: safe_intros safe_poll safe_repo [OF considerate] operations_custody split: sum.split)

lemma safe_start: "safe U (startClaimedProcess R i z ms)"
  by (induction ms)
    (auto simp: abandon_start_def cancel_start_def interrupt_start_def intro!: safe_on_tick safe_intros safe_stop
      split: moment.split option.split)

lemma safe_supervise: "safe U (supervise R i p ms)"
  by (induction ms)
    (auto simp: stopAfterFailure_def stop_requested_def stop_interrupted_def intro!: safe_on_tick safe_intros safe_stop
      split: moment.split option.split process_ref.split)

lemma safe_runClaimed: "safe U (runClaimed U R i z starts runs)"
  unfolding runClaimed_def run_started_def clearProgress_def
  by (auto intro!: safe_intros safe_poll safe_start safe_supervise safe_stop safe_repo [OF considerate] operations_custody
      split: sum.split outcome.split option.split)

lemma safe_gather: "rnCollect R = Some coll \<Longrightarrow> safe U (gather coll b v)"
  unfolding gather_def using considerate
  by (intro safe_intros) (fastforce simp: safe_def considerate_def dest: arg_cong [of _ _ fst] split: prod.split)

lemma safe_await: "rnCollect R = Some coll \<Longrightarrow> safe U (await_collection coll R i v ms)"
  by (induction ms)
    (auto simp: abandon_collection_def intro!: safe_on_tick safe_intros safe_gather split: moment.split sum.split)

lemma safe_collecting:
  assumes "Apply U v StateCollecting now None = Inr (w, t)"
  shows "safe U (repo R (ApplyTransition U t))"
proof (rule safe_repo [OF considerate])
  fix d assume c: "custody U d"
  have "tFrom t = StateRunning" "tTo t = StateCollecting"
    using assms by (cases "jState v"; auto simp: Apply_Inr_iff CanTransition_iff)+
  then have "free_step (tFrom t) (tTo t)" by (simp add: free_step_def)
  then show "custody U (fst (ApplyTransition U t d))"
    using worker_step_custody [OF worker_step.advance c] by (metis prod.collapse)
qed

lemma safe_collectDeclaredArtifacts: "safe U (collectDeclaredArtifacts U R i ms)"
  unfolding collectDeclaredArtifacts_def
  by (auto intro!: safe_intros safe_reads safe_await safe_collecting split: option.split sum.split)

end

text \<open>The completion is the last call of a run, and a stored one is the job's state.\<close>

lemma Complete_stores:
  assumes "custody U d" "Complete U i pid c d = (d', Inr x)"
  shows "\<exists>v. Job_Get U d' i = Inr v \<and> jState v = completion_state c"
proof -
  obtain rows st v where i: "ID_Valid i"
    and ap: "applyJobTransition U \<lparr>tJobID = i, tFrom = st, tTo = completion_state c,
        tAt = cAt c, tFailure = cFailure c\<rparr> (d\<lparr>job_executions := rows\<rparr>) = Inr (d', v)"
    using assms(2) by (auto simp: Complete_transact transact_Inr_iff Complete_tx_def result_simps split: if_splits)
  have ok: "jobs_ok U (d\<lparr>job_executions := rows\<rparr>)" using assms(1) by (simp add: custody_def)
  have "jState v = completion_state c" by (rule applyJobTransition_InrD [OF ok ap]) simp
  then show ?thesis using applyJobTransition_query [OF ok ap] i by (simp add: Job_Get_Inr_iff)
qed

definition stored_as :: "casing \<Rightarrow> job_id \<Rightarrow> completion \<Rightarrow> unit result \<Rightarrow> site \<Rightarrow> bool" where
  "stored_as U i c r s \<longleftrightarrow> (r = Inr () \<longrightarrow> (\<exists>v. Job_Get U (worker_jobs (siStore s)) i = Inr v \<and> jState v = completion_state c))"

lemma store_completion_run:
  assumes "considerate U R" "custody U (worker_jobs (siStore s))" "run_state (store_completion U R i c) s = (e, s')"
  shows "\<exists>r. siTrace s' = siTrace s @ [DidComplete c r] \<and> stored_as U i c r s' \<and> e = err_of r"
proof -
  obtain r s1 where run: "run_state (repo R (Complete U i (rnPID R) c)) s = (r, s1)" by fastforce
  have "stored_as U i c (case r of Inl e \<Rightarrow> Inl e | Inr _ \<Rightarrow> Inr ()) s1"
    by (rule repo_jobs [OF assms(1) run assms(2)]) (auto simp: stored_as_def dest: Complete_stores split: sum.splits)
  moreover have "siTrace s1 = siTrace s" by (rule repo_traceD [OF run])
  ultimately show ?thesis
    using assms(3) run by (intro exI [of _ "case r of Inl e \<Rightarrow> Inl e | Inr _ \<Rightarrow> Inr ()"])
      (auto simp: store_completion_def stored_as_def split: sum.splits)
qed

lemma join_errors_Inr: "join_errors es = Inr u \<longleftrightarrow> list_all (\<lambda>e. e = None) es"
  by (simp add: join_errors_def)

lemma failClaimed_run:
  assumes "considerate U R" "custody U (worker_jobs (siStore s))" "run_state (failClaimed U R i code m e) s = (out, s')"
  shows "\<exists>c r x. siTrace s' = siTrace s @ [DidComplete c r] \<and> Kind c = CompletionFailed \<and> stored_as U i c r s' \<and> out = Returns (Inl x)"
proof -
  let ?c = "failedCompletion (rnNow R (siReads s)) code m (Some (rnText R e)) None ''''" and ?s = "s\<lparr>siReads := siReads s + 1\<rparr>"
  obtain e1 s1 where run: "run_state (store_completion U R i ?c) ?s = (e1, s1)" by fastforce
  have "custody U (worker_jobs (siStore ?s))" using assms(2) by simp
  from store_completion_run [OF assms(1) this run] obtain r
    where "siTrace s1 = siTrace s @ [DidComplete ?c r]" "stored_as U i ?c r s1" by auto
  moreover have "s' = s1" "\<exists>x. out = Returns (Inl x)" using assms(3) run by (auto simp: failClaimed_def join_errors_def)
  ultimately show ?thesis by auto
qed

lemma Kind_at [simp]: "Kind (c\<lparr>cAt := t\<rparr>) = Kind c"
  by (simp add: Kind_def)

lemma final_completion_run:
  "run_state (final_completion R c0) s = (c, s') \<Longrightarrow>
     Kind c \<in> {Kind c0, CompletionFailed} \<and> siTrace s' = siTrace s \<and> siStore s' = siStore s"
  by (auto simp: final_completion_def split: option.splits if_splits)

lemma finish_run_run:
  assumes "considerate U R" "custody U (worker_jobs (siStore s))" "run_state (finish_run U R i c0 e) s = (out, s')"
  shows "\<exists>c r x. siTrace s' = siTrace s @ [DidComplete c r] \<and> Kind c \<in> {Kind c0, CompletionFailed} \<and> stored_as U i c r s'
    \<and> out = Returns x \<and> (x = Inr () \<longrightarrow> r = Inr ())"
proof -
  obtain c s1 where c: "run_state (final_completion R c0) s = (c, s1)" by fastforce
  note final = final_completion_run [OF c]
  obtain e1 where run: "run_state (store_completion U R i c) s1 = (e1, s')" and out: "out = Returns (join_errors [e, rnCloseErr R, e1])"
    using assms(3) c by (auto simp: finish_run_def split: prod.splits)
  have "custody U (worker_jobs (siStore s1))" using assms(2) final by simp
  from store_completion_run [OF assms(1) this run] obtain r
    where r: "siTrace s' = siTrace s @ [DidComplete c r]" "stored_as U i c r s'" "e1 = err_of r" using final by auto
  have "join_errors [e, rnCloseErr R, e1] = Inr () \<longrightarrow> r = Inr ()" using r(3) by (cases r) (simp_all add: join_errors_Inr)
  then show ?thesis using r final out by blast
qed

text \<open>The run of a loaded job, from the claim to the stored completion.\<close>

definition justified :: "job \<Rightarrow> completion \<Rightarrow> action set \<Rightarrow> bool" where
  "justified v c A \<longleftrightarrow> earned c A \<and> (Kind c = CompletionSucceeded \<and> Outputs (jSpec v) \<noteq> [] \<longrightarrow> DidCollect (Inr ()) \<in> A)"

lemma justified_failed: "Kind c = CompletionFailed \<Longrightarrow> justified v c A"
  by (simp add: justified_def earned_def)

lemma justified_cong: "justified v c A \<Longrightarrow> Kind c' \<in> {Kind c, CompletionFailed} \<Longrightarrow> A \<subseteq> B \<Longrightarrow> justified v c' B"
  by (auto simp: justified_def earned_def)

lemma justified_collected:
  "earned c A \<Longrightarrow> Kind c = CompletionSucceeded \<Longrightarrow> gathered c' B \<Longrightarrow> justified v c' (A \<union> B)"
  by (auto simp: justified_def earned_def gathered_def)

definition completed_by :: "casing \<Rightarrow> job_id \<Rightarrow> job \<Rightarrow> site \<Rightarrow> site \<Rightarrow> unit result \<Rightarrow> bool" where
  "completed_by U i v s s' x \<longleftrightarrow> (\<exists>A c r s1. does s False A False s1 \<and> siTrace s' = siTrace s1 @ [DidComplete c r]
     \<and> justified v c A \<and> stored_as U i c r s' \<and> (x = Inr () \<longrightarrow> r = Inr ()))"

context runner_site
begin

lemma finish_completed:
  assumes "does s False A False s1" "justified v c A" "custody U (worker_jobs (siStore s1))"
    "run_state (finish_run U R i c e) s1 = (out, s')"
  shows "\<exists>x. out = Returns x \<and> completed_by U i v s s' x"
  using finish_run_run [OF considerate assms(3,4)] assms(1) justified_cong [OF assms(2)] unfolding completed_by_def by blast

lemma run_loaded_cases:
  assumes "starts_or_fails z" "custody U (worker_jobs (siStore s))"
    and run: "run_state (run_loaded U R i v z starts runs collects) s = (out, s')"
  shows "case out of
      Blocked \<Rightarrow> (\<exists>b. does s False {} b s') \<and> (Ready \<notin> set starts \<or> Ready \<notin> set runs \<or> Ready \<notin> set collects)
    | Panics \<Rightarrow> False
    | Returns x \<Rightarrow> completed_by U i v s s' x"
proof -
  obtain x s1 where x: "run_state (runClaimed U R i z starts runs) s = (x, s1)" by fastforce
  note claimed = runClaimed_does [OF assms(1) x] and cust = safeD [OF safe_runClaimed x assms(2)]
  show ?thesis
  proof (cases "\<exists>c e. x = Returns (c, e)")
    case False
    then show ?thesis using claimed x run by (auto simp: run_loaded_def split: outcome.splits)
  next
    case True
    then obtain c e A where c: "x = Returns (c, e)" "does s False A False s1" "earned c A" using claimed by auto
    show ?thesis
    proof (cases "Kind c = CompletionSucceeded \<and> Outputs (jSpec v) \<noteq> []")
      case False
      then have "run_state (finish_run U R i c e) s1 = (out, s')" using run x c(1) by (auto simp: run_loaded_def)
      moreover have "justified v c A" using c(3) False unfolding justified_def by blast
      ultimately show ?thesis using finish_completed [OF c(2) _ cust] by fastforce
    next
      case True
      obtain y s2 where y: "run_state (collectDeclaredArtifacts U R i collects) s1 = (y, s2)" by fastforce
      note coll = collectDeclaredArtifacts_does [OF y] and cust2 = safeD [OF safe_collectDeclaredArtifacts y cust]
      show ?thesis
      proof (cases "\<exists>c' e'. y = Returns (c', e')")
        case False
        have "does s False {} False s1" using does_weaken [OF c(2)] by simp
        then show ?thesis
          using False coll run x c(1) y True does_trans by (fastforce simp: run_loaded_def split: outcome.splits)
      next
        case ret: True
        then obtain c' e' B where c': "y = Returns (c', e')" "does s1 False B False s2" "gathered c' B" using coll by auto
        have "run_state (finish_run U R i c' e') s2 = (out, s')" using run x c(1) y c'(1) True by (simp add: run_loaded_def)
        then show ?thesis
          using finish_completed [OF does_trans [OF c(2) c'(2) refl] justified_collected [OF c(3) _ c'(3)] cust2] True by fastforce
      qed
    qed
  qed
qed

lemma failed_before_start:
  assumes "custody U (worker_jobs (siStore s))" "run_state (failClaimed U R i code m e) s = (out, s')"
  shows "\<exists>x. out = Returns x \<and> completed_by U i v s s' x"
  using failClaimed_run [OF considerate assms] does_refl [of s s False] justified_failed unfolding completed_by_def by blast

lemma open_and_run_cases:
  assumes "starts_or_fails z" "custody U (worker_jobs (siStore s))"
    and run: "run_state (open_and_run U R i v z starts runs collects) s = (out, s')"
  shows "case out of
      Blocked \<Rightarrow> (\<exists>b. does s False {} b s') \<and> (Ready \<notin> set starts \<or> Ready \<notin> set runs \<or> Ready \<notin> set collects)
    | Panics \<Rightarrow> False
    | Returns x \<Rightarrow> completed_by U i v s s' x"
proof -
  obtain w s1 where w: "run_state (open_writer R i) s = (w, s1)" by fastforce
  have t: "siTrace s1 = siTrace s" using open_writer_trace [of R i s] w by simp
  note same = does_same [OF t [symmetric]] and cust = safeD [OF safe_open_writer w assms(2)]
  show ?thesis
  proof (cases w)
    case (Inl e)
    then have "run_state (failClaimed U R i ''open_logs'' ''open durable job logs'' e) s1 = (out, s')"
      using run w by (simp add: open_and_run_def)
    from failed_before_start [OF cust this, of v] show ?thesis using same by (fastforce simp: completed_by_def)
  next
    case (Inr wr)
    then have "run_state (run_loaded U R i v z starts runs collects) s1 = (out, s')" using run w by (simp add: open_and_run_def)
    from run_loaded_cases [OF assms(1) cust this] show ?thesis using same by (cases out) (auto simp: completed_by_def)
  qed
qed

text \<open>A run: it was refused, or the job could not be loaded, or the rest follows.\<close>

lemma Run_cases:
  assumes start: "\<And>s. starts_or_fails (start s)" and s: "custody U (worker_jobs (siStore s))"
    and run: "run_state (Run U R i start starts runs collects) s = (out, s')"
  shows "(\<exists>e. out = Returns (Inl e) \<and> siTrace s' = siTrace s)
    \<or> (\<exists>c r x. out = Returns (Inl x) \<and> siTrace s' = siTrace s @ [DidComplete c r] \<and> Kind c = CompletionFailed \<and> stored_as U i c r s')
    \<or> (\<exists>v s1. siTrace s1 = siTrace s @ [DidLoad v] \<and>
        (case out of
           Blocked \<Rightarrow> (\<exists>b. does s1 False {} b s') \<and> (Ready \<notin> set starts \<or> Ready \<notin> set runs \<or> Ready \<notin> set collects)
         | Panics \<Rightarrow> False
         | Returns x \<Rightarrow> completed_by U i v s1 s' x))"
proof -
  let ?s0 = "s\<lparr>siReads := siReads s + 1\<rparr>" and ?claim = "Claim U i (rnPID R) (rnNow R (siReads s))"
    and ?load = "\<lambda>d. (d, Job_Get U d i)"
  obtain c s1 where c: "run_state (repo R ?claim) ?s0 = (c, s1)" by fastforce
  obtain g s2 where g: "run_state (repo R ?load) s1 = (g, s2)" by fastforce
  have s0: "custody U (worker_jobs (siStore ?s0))" using s by simp
  have cust1: "custody U (worker_jobs (siStore s1))"
    by (rule safeD [OF safe_repo [OF considerate operations_custody(2)] c s0])
  have cust: "custody U (worker_jobs (siStore s2))" by (rule safeD [OF safe_reads g cust1])
  have t: "siTrace s1 = siTrace s" "siTrace s2 = siTrace s" using repo_traceD [OF c] repo_traceD [OF g] by simp_all
  show ?thesis
  proof (cases c)
    case (Inl e)
    then show ?thesis using run c t(1) by (auto simp: Run_def)
  next
    case claimed: (Inr a)
    show ?thesis
    proof (cases g)
      case (Inl e)
      then have "run_state (failClaimed U R i ''load_job'' ''load claimed job'' e) s2 = (out, s')"
        using run c claimed g by (simp add: Run_def)
      from failClaimed_run [OF considerate cust this] show ?thesis using t(2) by fastforce
    next
      case (Inr v)
      let ?s3 = "s2\<lparr>siTrace := siTrace s2 @ [DidLoad v]\<rparr>"
      have "custody U (worker_jobs (siStore ?s3))" using cust by simp
      moreover have "run_state (open_and_run U R i v (start (jSpec v)) starts runs collects) ?s3 = (out, s')"
        using run c claimed g Inr by (simp add: Run_def)
      ultimately have "case out of
           Blocked \<Rightarrow> (\<exists>b. does ?s3 False {} b s') \<and> (Ready \<notin> set starts \<or> Ready \<notin> set runs \<or> Ready \<notin> set collects)
         | Panics \<Rightarrow> False
         | Returns x \<Rightarrow> completed_by U i v ?s3 s' x"
        by (rule open_and_run_cases [OF start])
      moreover have "siTrace ?s3 = siTrace s @ [DidLoad v]" using t(2) by simp
      ultimately show ?thesis by blast
    qed
  qed
qed

end

section \<open>A runner among other processes\<close>

text \<open>The calls other processes of the worker make between two calls of the runner.\<close>

datatype repository_call =
    CallCreate job
  | CallAdvance transition
  | CallClaim job_id int time
  | CallMarkRunning job_id int int time
  | CallHeartbeat job_id int time
  | CallRequest job_id time
  | CallComplete job_id int completion
  | CallSetProgress job_id progress
  | CallClearProgress job_id

fun perform :: "casing \<Rightarrow> repository_call \<Rightarrow> db \<Rightarrow> db" where
  "perform U (CallCreate j) d = (if storable j then fst (Job_Create U j d) else d)"
| "perform U (CallAdvance t) d = (if free_step (tFrom t) (tTo t) then fst (ApplyTransition U t d) else d)"
| "perform U (CallClaim i pid at) d = fst (Claim U i pid at d)"
| "perform U (CallMarkRunning i pid ppid at) d = fst (MarkRunning U i pid ppid at d)"
| "perform U (CallHeartbeat i pid at) d = fst (Heartbeat i pid at d)"
| "perform U (CallRequest i at) d = fst (RequestCancellation i at d)"
| "perform U (CallComplete i pid c) d = fst (Complete U i pid c d)"
| "perform U (CallSetProgress i p) d = fst (SetProgress i p d)"
| "perform U (CallClearProgress i) d = fst (ClearProgress i d)"

definition interleave :: "casing \<Rightarrow> (nat \<Rightarrow> repository_call list) \<Rightarrow> nat \<Rightarrow> manager \<Rightarrow> manager" where
  "interleave U calls n st = fst (on_jobs (\<lambda>d. (fold (perform U) (calls n) d, Inr ())) st)"

text \<open>A runner of the worker: its collector is the artifact manager, and the others use the repositories.\<close>

definition installed ::
    "casing \<Rightarrow> (nat \<Rightarrow> repository_call list) \<Rightarrow> (bool \<Rightarrow> job \<Rightarrow> manager \<Rightarrow> manager \<times> unit result) \<Rightarrow> runner \<Rightarrow> runner" where
  "installed U calls coll R = R\<lparr>rnOthers := interleave U calls, rnCollect := map_option (\<lambda>_. coll) (rnCollect R)\<rparr>"

lemma perform_step: "perform U c d = d \<or> worker_step U d (perform U c d)"
  by (cases c) (simp_all, (metis prod.collapse worker_step.intros)+)

lemma interleave_custody: "custody U (worker_jobs st) \<Longrightarrow> custody U (worker_jobs (interleave U calls n st))"
proof -
  assume c: "custody U (worker_jobs st)"
  have "custody U (perform U c d)" if "custody U d" for c d
    using that perform_step [of U c d] worker_step_custody by fastforce
  then have "custody U (fold (perform U) cs d)" if "custody U d" for cs d
    using that by (induction cs arbitrary: d) simp_all
  then show ?thesis using c by (simp add: interleave_def on_jobs_def)
qed

interpretation worker_runner:
  runner_site U "installed U calls (artifact_collector U H J Y ctx X fs view clocks now) R" for U calls H J Y ctx X fs view clocks now R
  by unfold_locales
    (auto simp: considerate_def installed_def interleave_custody artifact_collector_jobs)

lemma completed_trace:
  assumes "completed_by U i v s s' x" "siTrace s = [DidLoad v]"
  obtains as c r where "siTrace s' = DidLoad v # as @ [DidComplete c r]" "watched False as = Some False"
    "\<And>c r. DidComplete c r \<notin> set as" "\<And>v. DidLoad v \<notin> set as" "justified v c (set as)" "stored_as U i c r s'" "x = Inr () \<longrightarrow> r = Inr ()"
proof -
  obtain A c r and s1 :: site and as where "siTrace s1 = siTrace s @ as" "watched False as = Some False" "A \<subseteq> set as"
      "\<forall>c r v. DidComplete c r \<notin> set as \<and> DidLoad v \<notin> set as" "siTrace s' = siTrace s1 @ [DidComplete c r]"
      "justified v c A" "stored_as U i c r s'" "x = Inr () \<longrightarrow> r = Inr ()"
    using assms(1) unfolding completed_by_def does_def by blast
  then show thesis using that [of as c r] assms(2) justified_cong [of v c A c "set as"] by auto
qed

section \<open>Properties\<close>


definition sample_process :: managed where
  "sample_process = \<lparr>mpPID = 42, mpExit = \<lparr>xCode = 0, xSignal = '''', xWaitErr = None\<rparr>, mpStopped = None,
     mpKilled = \<lparr>xCode = - 1, xSignal = ''killed'', xWaitErr = None\<rparr>\<rparr>"

definition sample_runner :: runner where
  "sample_runner = \<lparr>rnPID = 41, rnNow = (\<lambda>n. 8 + int n), rnText = concat, rnHasProgress = True, rnCollect = None,
     rnOthers = (\<lambda>_ st. st), rnFault = (\<lambda>_. None), rnStopped = (\<lambda>_. None), rnCloseErr = None\<rparr>"

definition sample_site :: site where
  "sample_site = \<lparr>siStore = \<lparr>sRoot = ''/cas'', sIndex = \<lparr>job_tables = db_queued, job_artifacts = [], artifact_refs = [], cache_entries = []\<rparr>,
       sMaximumBytes = 4, sDisk = [], sActiveUses = 0, sOperationPins = {}, sTransientPins = (\<lambda>_. 0), sReservations = []\<rparr>, siLogs = Map.empty,
     siCalls = 0, siReads = 0, siTrace = []\<rparr>"


text \<open>
  C24: A native start that fails can bring the runner down. The closure that adapts \<open>processes.Start\<close> returns its nil pointer as a
  non-nil interface value, so the runner, when its context ends or a heartbeat fails before it has received the failure, takes it for
  a process and waits for it: \<open>Wait\<close> dereferences the nil pointer. Received in time, the same failure is reported as one.
\<close>
theorem failed_native_start_panics:
  fixes launch e
  defines "start \<equiv> \<lambda>s. native_start (launch s)"
  assumes "NewExecutorSet [NewNativeExecutorStarter start] = Inr starters" "Executor s = ExecutorNative" "launch s = Inl e"
  shows "fst (run_state (startClaimedProcess R i (ExecutorSet_Start starters s) (ContextDone # ms)) w) = Panics
    \<and> (rnFault R (siCalls w) = Some x \<longrightarrow>
        fst (run_state (startClaimedProcess R i (ExecutorSet_Start starters s) (Tick # ms)) w) = Panics)
    \<and> (\<exists>c. fst (run_state (startClaimedProcess R i (ExecutorSet_Start starters s) (Ready # ms)) w) = Returns (NoProcess, c, None)
        \<and> Kind c = CompletionFailed)"
proof -
  have "starters = [(ExecutorNative, start)]"
    using assms(2) by (simp add: NewExecutorSet_def NewNativeExecutorStarter_def)
  then have "ExecutorSet_Start starters s = \<lparr>srProcess = NilProcess, srErr = Some e\<rparr>"
    using assms(3,4) by (simp add: ExecutorSet_Start_def start_def native_start_def)
  then show ?thesis
    by (simp add: interrupt_start_def launched_def stop_def on_tick_def abandon_start_def kill_and_wait_def repo_def Let_def)
qed

theorem failed_native_start_panics_witness:
  "fst (run_state (startClaimedProcess sample_runner sample_id
     (ExecutorSet_Start [(ExecutorNative, \<lambda>_. native_start (Inl [Os_ErrNotExist]))] plain_spec) [ContextDone]) sample_site) = Panics"
  using failed_native_start_panics [of "\<lambda>_. Inl [Os_ErrNotExist]" "[(ExecutorNative, \<lambda>_. native_start (Inl [Os_ErrNotExist]))]"
      plain_spec "[Os_ErrNotExist]" sample_runner sample_id "[]" sample_site]
  by (simp add: NewExecutorSet_def NewNativeExecutorStarter_def plain_spec_def)

end
