(* ===== verification/Spec2Isabelle.thy ===== *)
theory Spec2Isabelle
  imports Dispatcher PairingCeremony Connectivity Runner
begin

text \<open>
  ComputeHop runs the jobs of one computer on another computer of the same owner. An \<^emph>\<open>orchestrator\<close> and a
  \<^emph>\<open>worker\<close> are paired once by comparing a code; afterwards the orchestrator snapshots a project, transfers the chunks
  the worker lacks, and submits a job, which a runner process of the worker executes while its output is logged; the
  declared outputs are collected into an artifact bundle. When the two cannot reach each other directly they
  exchange encrypted signals over a hosted rendezvous service. This development models the parts of that program that
  keep state or decide something, from the Go sources under \<open>src/\<close>, and proves what they promise.

  \<^bold>\<open>Theories and sources.\<close>

  \<^item> \<open>Prelude\<close>, \<open>GoStrings\<close>, \<open>Wire\<close>, \<open>Base32\<close>, \<open>Base64\<close>: errors as values, instants, SQL tables and statements, and the
    part of the Go standard library the sources use (UTF-8, case mapping, paths, hexadecimal, base32 and base64,
    big-endian integers), with the facts the components share.
  \<^item> \<open>PortablePath\<close>: \<open>internal/portablepath\<close>. \<open>JobId\<close>, \<open>JobState\<close>, \<open>JobModel\<close>: \<open>internal/job\<close>. \<open>Execution\<close>:
    \<open>internal/execution\<close>.
  \<^item> \<open>Database\<close>, \<open>JobInterface\<close>, \<open>JobRepository\<close>, \<open>ExecutionRepository\<close>: the tables of the migrations, the interface
    \<open>job.Repository\<close> as a locale, and the two repositories of \<open>internal/infra/sqlite\<close>; \<open>JobService\<close>: the job service of
    \<open>internal/app/worker/jobs.go\<close> as a client of the interface; \<open>WorkerSystem\<close>: the reachable databases of a worker.
  \<^item> \<open>Dispatcher\<close>: \<open>internal/app/worker/dispatcher.go\<close>. \<open>LogStore\<close>: \<open>internal/logging\<close> and
    \<open>internal/infra/sqlite/log_repository.go\<close>. \<open>Runner\<close>: \<open>internal/app/worker/runner.go\<close>, \<open>executors.go\<close> and the native
    starter of \<open>cmd/computehopd/main.go\<close>, with every order of the events that its loops select.
  \<^item> \<open>Snapshot\<close>, \<open>Chunker\<close>: \<open>internal/snapshot\<close>. \<open>ChunkTransfer\<close>: \<open>internal/transfer\<close>. \<open>ArtifactRepository\<close>, \<open>ContentCache\<close>,
    \<open>ContentStore\<close>: \<open>internal/artifact\<close>, \<open>internal/contentcache\<close>, their repositories and \<open>store.go\<close>, \<open>managed.go\<close> of
    \<open>internal/infra/cas\<close>.
  \<^item> \<open>FileSystem\<close>: the calls of package \<open>os\<close> on a tree of files, directories and symbolic links. \<open>IgnoreRules\<close>,
    \<open>SnapshotBuilder\<close>: \<open>ignore.go\<close>, \<open>builder.go\<close> and \<open>declared.go\<close> of \<open>internal/snapshot\<close>. \<open>Workspace\<close>, \<open>ArtifactManager\<close>:
    \<open>workspace.go\<close> and \<open>artifacts.go\<close> of \<open>internal/infra/cas\<close>. \<open>WorkerService\<close>: the operations of
    \<open>internal/app/worker/jobs.go\<close> that use the content store, the workspaces, the artifacts and the logs.
  \<^item> \<open>Device\<close>, \<open>Trust\<close>, \<open>TrustRepository\<close>: \<open>internal/device\<close>, \<open>internal/trust\<close> and the trust repository;
    \<open>TrustInterface\<close>: the interface \<open>trust.Repository\<close> as a locale; \<open>PairingService\<close>, \<open>PairingCeremony\<close>:
    \<open>internal/app/pairing\<close> and \<open>internal/session/pairing.go\<close>, with every interleaving of its goroutines, and a ceremony
    between two services.
    \<open>Connectivity\<close>: \<open>internal/connectivity\<close> (credentials and payloads). \<open>Rendezvous\<close>:
    \<open>internal/connectivity/rendezvous/service.go\<close>.

  \<^bold>\<open>State and operations.\<close> A struct is a record, a string enumeration a datatype with a constructor for every other
  string, a handler a function from the state to the new state and a result; the result of a fallible function is \<open>Inl\<close>
  the sentinels its error wraps or \<open>Inr\<close> its value. The database is the record of its tables; each repository
  operation is a transaction on it, with the \<open>CHECK\<close>, key and foreign key constraints of the migrations. The database is
  also the index of the content store, so the job service, the artifact manager and the runner work on one state. File
  operations that may fail take the failure as an argument, and so do the checks of a context; clock readings are arguments, too.
  The runner is written in the state monad; what other processes do between its calls is a list of repository calls. SHA-256, HMAC,
  AES-GCM, Zstandard, the Unicode case tables and the Protobuf codec are arguments; what is assumed of them is a
  hypothesis of the theorem that uses it (lengths of digests, decoders that invert encoders) and its witness
  instantiates it.

  \<^bold>\<open>What is shown.\<close>

  \<^item> Jobs: the lifecycle, the agreement of job and attempt in every reachable database, exclusive claims, finality of
    completion, ownership, atomicity of failing operations, submission, cancellation with and without a race, recovery
    of lost runners, throttled launches. A snapshot is submitted as a whole or not at all. A runner waits for its process
    before it collects or completes, and stores only a verdict it has seen the reasons for.
  \<^item> Logs: an append commits exactly the bytes it reports, reading returns the committed bytes, opening repairs the tail.
  \<^item> Content: manifests describe trees and are determined by their identity, chunking depends on the bytes alone,
    chunks survive transfer, collected bundles are immutable and protect their chunks, the contract of the cache
    index holds of its SQLite implementation, and the content store returns verified bytes only and evicts nothing in use.
    A snapshot is exactly the stable regular files that the ignore rules leave, the last matching rule decides, a workspace
    is exactly its manifest, a snapshot that travels arrives as it was, and restoring artifacts never overwrites.
  \<^item> Trust: the invariant of the trust tables, pinning, revocation, pairing material, device identifiers. Pairing: trust
    needs the consent of both devices in every interleaving, and a ceremony confirmed by both gives both the same secret.
  \<^item> Connectivity: bounds, isolation and queueing of the rendezvous service, credentials and sealed payloads.

  \<^bold>\<open>Bounds and fuel.\<close> Loops are structural recursions or have a measure (the chunked append of the log, the walk over the
  parent directories of a path, pattern matching, comparing files by blocks, decimal digits). The resolution of a path
  follows at most 40 symbolic links, which is the bound of the operating system and not fuel: one more is the error \<open>ELOOP\<close>. A
  loop that waits for events is a recursion over the events, and what it does when they run out is the value \<open>Blocked\<close>; the
  theorem on the runner shows that it returns when the events it waits for come. Machine integers keep their width where the code
  can reach it: instants wrap at 64 bits when they are stored, sequence numbers of the rendezvous service are 64-bit
  words that are shown never to wrap, sizes of chunks are 32-bit words.

  \<^bold>\<open>Not modelled.\<close> The generated Protobuf code and the mapping to it, and with them the handlers that only translate requests
  (\<open>remote_handler.go\<close>, \<open>local_handler.go\<close>); the orchestrator's remote jobs, which talk to a peer through such a client; sockets,
  QUIC, ICE, multicast DNS and HTTP clients, which are input and output on third-party libraries; operating-system processes
  and containers, which the runner takes as inputs; the command-line programs; opening the database and running migrations. Faults
  of the storage device below SQLite and cancelled contexts are modelled where the code reacts to them (the file operations, the
  collection of artifacts, the runner) and not inside a transaction. Of nil pointers only the nil process of the runner is
  modelled.
\<close>

end
